(* ===== verification/Prelude.thy ===== *)
theory Prelude
  imports Main "HOL-Library.Word" "HOL-Library.Char_ord" "HOL-Library.List_Lexorder"
    "HOL-Library.Product_Lexorder" "HOL-Library.Code_Target_Nat"
begin

text \<open>
  Shared vocabulary of the development: the string types of the program, the parts of the C++
  standard library that several components use (character classes, splitting at a separator,
  \<^verbatim>\<open>std::from_chars\<close>, \<^verbatim>\<open>std::to_string\<close>, three-way comparison), and three interfaces stated as
  locales and interpreted by the components:
  \<^item> \<open>codec\<close>: a serialiser and a parser that inverts it (version strings, JSON strings,
    the configuration, the active-runtime state, the process record);
  \<^item> \<open>key_order\<close>: a three-way comparison that is the comparison of a key in a linear order;
  \<^item> \<open>inductive_invariant\<close>: a state machine with a predicate that every step keeps.

  A \<^verbatim>\<open>std::string\<close> is a list of bytes, the HOL type \<open>string\<close> (a \<open>char\<close> of HOL is one byte, ordered
  by its unsigned code, as \<^verbatim>\<open>std::char_traits<char>\<close> orders it). A \<^verbatim>\<open>std::wstring\<close> of the MSVC ABI
  is a list of 16-bit code units.
\<close>

section \<open>Strings\<close>

type_synonym wchar = "16 word"
type_synonym wstring = "wchar list"

abbreviation WC :: "char \<Rightarrow> wchar" where
  "WC c \<equiv> of_char c"

abbreviation W :: "string \<Rightarrow> wstring" where
  "W s \<equiv> map of_char s"

named_theorems char_class \<open>definitions of the character classes\<close>
named_theorems no_growth \<open>a scanner never returns more input than it was given\<close>

definition IsDigit :: "char \<Rightarrow> bool" where
  "IsDigit c \<longleftrightarrow> CHR ''0'' \<le> c \<and> c \<le> CHR ''9''"

definition IsLower :: "char \<Rightarrow> bool" where
  "IsLower c \<longleftrightarrow> CHR ''a'' \<le> c \<and> c \<le> CHR ''z''"

definition IsUpper :: "char \<Rightarrow> bool" where
  "IsUpper c \<longleftrightarrow> CHR ''A'' \<le> c \<and> c \<le> CHR ''Z''"

definition IsLowerHex :: "char \<Rightarrow> bool" where
  "IsLowerHex c \<longleftrightarrow> IsDigit c \<or> (CHR ''a'' \<le> c \<and> c \<le> CHR ''f'')"

declare IsDigit_def [char_class] IsLower_def [char_class] IsUpper_def [char_class]
  IsLowerHex_def [char_class]

text \<open>
  \<^verbatim>\<open>s.find(c, pos)\<close> followed by \<^verbatim>\<open>substr\<close>: the part before the first \<open>c\<close>, and what follows it
  (\<open>None\<close> for \<^verbatim>\<open>npos\<close>).
\<close>

fun split_at :: "'a \<Rightarrow> 'a list \<Rightarrow> 'a list \<times> 'a list option" where
  "split_at c [] = ([], None)"
| "split_at c (x # xs) =
     (if x = c then ([], Some xs) else (case split_at c xs of (a, r) \<Rightarrow> (x # a, r)))"

lemma split_at_None: "split_at c xs = (a, None) \<longleftrightarrow> a = xs \<and> c \<notin> set xs"
proof (induction xs arbitrary: a)
  case Nil
  then show ?case by auto
next
  case (Cons x xs)
  then show ?case by (cases "split_at c xs") auto
qed

lemma split_at_Some: "split_at c xs = (a, Some r) \<longleftrightarrow> xs = a @ c # r \<and> c \<notin> set a"
proof (induction xs arbitrary: a)
  case Nil
  then show ?case by simp
next
  case (Cons x xs)
  then show ?case by (cases "split_at c xs"; cases a) auto
qed

lemma split_at_shorter [no_growth]: "split_at c xs = (a, Some r) \<Longrightarrow> length r < length xs"
  by (simp add: split_at_Some)

lemma split_at_append: "c \<notin> set a \<Longrightarrow> split_at c (a @ c # r) = (a, Some r)"
  by (simp add: split_at_Some)

lemma split_at_notin: "c \<notin> set a \<Longrightarrow> split_at c a = (a, None)"
  by (simp add: split_at_None)

text \<open>\<^verbatim>\<open>s.rfind(p, 0) == 0\<close>, the idiom of this code base for "starts with", and \<^verbatim>\<open>ends_with\<close>.\<close>

definition starts_with :: "'a list \<Rightarrow> 'a list \<Rightarrow> bool" where
  "starts_with p s \<longleftrightarrow> take (length p) s = p"

definition ends_with :: "'a list \<Rightarrow> 'a list \<Rightarrow> bool" where
  "ends_with p s \<longleftrightarrow> length p \<le> length s \<and> drop (length s - length p) s = p"

lemma starts_with_iff: "starts_with p s \<longleftrightarrow> (\<exists>r. s = p @ r)"
  by (metis append_eq_conv_conj append_take_drop_id starts_with_def)

lemma starts_with_append [simp]: "starts_with p (p @ r)"
  by (simp add: starts_with_def)

lemma ends_with_iff: "ends_with p s \<longleftrightarrow> (\<exists>r. s = r @ p)"
proof
  show "ends_with p s \<Longrightarrow> \<exists>r. s = r @ p"
    by (metis append_take_drop_id ends_with_def)
qed (auto simp: ends_with_def)

text \<open>Joining with a separator, the inverse of repeated splitting.\<close>

fun join :: "'a \<Rightarrow> 'a list list \<Rightarrow> 'a list" where
  "join c [] = []"
| "join c [x] = x"
| "join c (x # y # ys) = x @ c # join c (y # ys)"

lemma join_Cons: "join c (x # xs) = (if xs = [] then x else x @ c # join c xs)"
  by (cases xs) simp_all

section \<open>Decimal numbers\<close>

definition digit_val :: "char \<Rightarrow> nat" where
  "digit_val c = of_char c - 48"

definition digit_char :: "nat \<Rightarrow> char" where
  "digit_char d = char_of (48 + d)"

definition digits_val :: "string \<Rightarrow> nat" where
  "digits_val s = foldl (\<lambda>n c. 10 * n + digit_val c) 0 s"

text \<open>
  \<^verbatim>\<open>std::from_chars\<close> for an unsigned type with values below \<open>bound\<close>: the longest prefix of digits;
  no digit is \<^verbatim>\<open>invalid_argument\<close>, a value out of range \<^verbatim>\<open>result_out_of_range\<close>.
\<close>

datatype from_chars_result = FcValue nat string | FcInvalid | FcOutOfRange

text \<open>The number of values of an \<^verbatim>\<open>unsigned long long\<close> / \<^verbatim>\<open>std::uint64_t\<close>.\<close>

definition u64_bound :: nat where
  "u64_bound = 2 ^ 64"

definition from_chars :: "nat \<Rightarrow> string \<Rightarrow> from_chars_result" where
  "from_chars bound s =
     (let ds = takeWhile IsDigit s in
      if ds = [] then FcInvalid
      else if digits_val ds < bound then FcValue (digits_val ds) (dropWhile IsDigit s)
      else FcOutOfRange)"

definition from_chars_all :: "nat \<Rightarrow> string \<Rightarrow> nat option" where
  \<comment> \<open>the call succeeded and \<^verbatim>\<open>ptr\<close> is the end of the input\<close>
  "from_chars_all bound s = (case from_chars bound s of FcValue n [] \<Rightarrow> Some n | _ \<Rightarrow> None)"

text \<open>\<^verbatim>\<open>std::to_string\<close> of an unsigned value.\<close>

fun to_string :: "nat \<Rightarrow> string" where
  "to_string n = (if n < 10 then [digit_char n] else to_string (n div 10) @ [digit_char (n mod 10)])"

declare to_string.simps [simp del]

lemma digits_val_snoc: "digits_val (s @ [c]) = 10 * digits_val s + digit_val c"
  by (simp add: digits_val_def)

lemma IsDigit_iff: "IsDigit c \<longleftrightarrow> 48 \<le> (of_char c :: nat) \<and> of_char c \<le> (57 :: nat)"
  by (simp add: IsDigit_def less_eq_char_def)

lemma of_char_digit_char: "d < 10 \<Longrightarrow> (of_char (digit_char d) :: nat) = 48 + d"
  by (simp add: digit_char_def)

lemma digit_val_char [simp]: "d < 10 \<Longrightarrow> digit_val (digit_char d) = d"
  by (simp add: digit_val_def of_char_digit_char)

lemma IsDigit_digit_char [simp]: "d < 10 \<Longrightarrow> IsDigit (digit_char d)"
  by (simp add: IsDigit_iff of_char_digit_char)

lemma digit_char_val: "IsDigit c \<Longrightarrow> digit_char (digit_val c) = c"
  by (simp add: digit_char_def digit_val_def IsDigit_iff)

lemma digit_val_less: "IsDigit c \<Longrightarrow> digit_val c < 10"
  by (auto simp: IsDigit_iff digit_val_def)

lemma digit_char_0: "digit_char 0 = CHR ''0''"
  using char_of_char [of "CHR ''0''", where 'a = nat] by (simp add: digit_char_def)

lemma to_string_digits: "list_all IsDigit (to_string n)"
proof (induction n rule: to_string.induct)
  case (1 n)
  then show ?case by (subst to_string.simps) auto
qed

lemma to_string_not_Nil [simp]: "to_string n \<noteq> []"
  by (subst to_string.simps) simp

lemma digits_val_to_string [simp]: "digits_val (to_string n) = n"
proof (induction n rule: to_string.induct)
  case (1 n)
  show ?case
  proof (cases "n < 10")
    case True
    then show ?thesis by (subst to_string.simps) (simp add: digits_val_def)
  next
    case False
    with 1 show ?thesis by (subst to_string.simps) (simp add: digits_val_snoc)
  qed
qed

text \<open>A decimal without leading zeros is the only spelling of its value.\<close>

definition canonical_decimal :: "string \<Rightarrow> bool" where
  "canonical_decimal s \<longleftrightarrow> s \<noteq> [] \<and> list_all IsDigit s \<and> (1 < length s \<longrightarrow> hd s \<noteq> CHR ''0'')"

lemma digits_val_zero_hd:
  assumes "s \<noteq> []" "list_all IsDigit s" "digits_val s = 0"
  shows "hd s = CHR ''0''"
  using assms
proof (induction s rule: rev_induct)
  case Nil
  then show ?case by simp
next
  case (snoc c s)
  have "digit_val c = 0" using snoc.prems by (simp add: digits_val_snoc)
  moreover have "IsDigit c" using snoc.prems by simp
  ultimately have c: "c = CHR ''0''"
    using digit_char_val [of c] digit_char_0 by simp
  show ?case
  proof (cases "s = []")
    case False
    with snoc show ?thesis by (simp add: digits_val_snoc)
  qed (simp add: c)
qed

lemma canonical_decimal_to_string: "canonical_decimal s \<Longrightarrow> to_string (digits_val s) = s"
proof (induction s rule: rev_induct)
  case Nil
  then show ?case by (simp add: canonical_decimal_def)
next
  case (snoc c s)
  have c: "IsDigit c" using snoc.prems by (simp add: canonical_decimal_def)
  then have c10: "digit_val c < 10" and cc: "digit_char (digit_val c) = c"
    by (simp_all add: digit_val_less digit_char_val)
  show ?case
  proof (cases "s = []")
    case True
    then show ?thesis using c10 cc by (simp add: digits_val_def to_string.simps)
  next
    case False
    with snoc.prems have s: "canonical_decimal s" "hd s \<noteq> CHR ''0''" "list_all IsDigit s"
      by (auto simp: canonical_decimal_def)
    then have pos: "0 < digits_val s" using digits_val_zero_hd [OF False] by auto
    have "to_string (digits_val (s @ [c])) = to_string (digits_val s) @ [c]"
      using pos c10 cc by (subst to_string.simps) (simp add: digits_val_snoc)
    with snoc.IH s(1) show ?thesis by simp
  qed
qed

lemma canonical_decimal_inj:
  "canonical_decimal s \<Longrightarrow> canonical_decimal t \<Longrightarrow> digits_val s = digits_val t \<Longrightarrow> s = t"
  by (metis canonical_decimal_to_string)

lemma hd_append_if: "hd (a @ b) = (if a = [] then hd b else hd a)"
  by simp

lemma to_string_hd: "0 < n \<Longrightarrow> hd (to_string n) \<noteq> CHR ''0''"
proof (induction n rule: to_string.induct)
  case (1 n)
  show ?case
  proof (cases "n < 10")
    case True
    have "digit_char n \<noteq> CHR ''0''"
    proof
      assume "digit_char n = CHR ''0''"
      then have "(of_char (digit_char n) :: nat) = 48" by simp
      with True 1 show False by (simp add: of_char_digit_char)
    qed
    with True show ?thesis by (subst to_string.simps) simp
  next
    case False
    with 1 show ?thesis by (subst to_string.simps) simp
  qed
qed

lemma canonical_to_string: "canonical_decimal (to_string n)"
proof (cases "n = 0")
  case True
  then show ?thesis by (simp add: canonical_decimal_def to_string.simps [of 0])
next
  case False
  then show ?thesis by (simp add: canonical_decimal_def to_string_digits to_string_hd)
qed

lemma takeWhile_stop:
  assumes "list_all P a" "r = [] \<or> \<not> P (hd r)"
  shows "takeWhile P (a @ r) = a" "dropWhile P (a @ r) = r"
  using assms by (cases r; simp add: takeWhile_append2 dropWhile_append2 list_all_iff)+

lemma from_chars_digits:
  assumes "list_all IsDigit ds" "ds \<noteq> []" "r = [] \<or> \<not> IsDigit (hd r)"
  shows "from_chars bound (ds @ r) =
    (if digits_val ds < bound then FcValue (digits_val ds) r else FcOutOfRange)"
  using assms by (simp add: from_chars_def Let_def takeWhile_stop)

lemma from_chars_all_iff:
  "from_chars_all bound s = Some n \<longleftrightarrow>
     s \<noteq> [] \<and> list_all IsDigit s \<and> digits_val s = n \<and> n < bound"
proof
  assume "from_chars_all bound s = Some n"
  then have "takeWhile IsDigit s \<noteq> []" "dropWhile IsDigit s = []"
    "digits_val (takeWhile IsDigit s) = n" "n < bound"
    by (auto simp: from_chars_all_def from_chars_def Let_def
        split: if_splits from_chars_result.splits list.splits)
  then show "s \<noteq> [] \<and> list_all IsDigit s \<and> digits_val s = n \<and> n < bound"
    by (metis append_Nil2 list_all_iff set_takeWhileD takeWhile_dropWhile_id takeWhile.simps(1))
next
  assume "s \<noteq> [] \<and> list_all IsDigit s \<and> digits_val s = n \<and> n < bound"
  then show "from_chars_all bound s = Some n"
    using from_chars_digits [of s "[]" bound] by (simp add: from_chars_all_def)
qed

lemma from_chars_all_to_string [simp]: "n < bound \<Longrightarrow> from_chars_all bound (to_string n) = Some n"
  by (simp add: from_chars_all_iff to_string_digits)

section \<open>Shared interfaces\<close>

subsection \<open>A serialiser with its parser\<close>

locale codec =
  fixes encode :: "'a \<Rightarrow> string" and decode :: "string \<Rightarrow> 'a option" and ok :: "'a \<Rightarrow> bool"
  assumes decode_encode: "ok x \<Longrightarrow> decode (encode x) = Some x"
begin

lemma encode_inj: "ok x \<Longrightarrow> ok y \<Longrightarrow> encode x = encode y \<Longrightarrow> x = y"
  by (metis decode_encode option.inject)

lemma encode_decode_encode: "ok x \<Longrightarrow> map_option encode (decode (encode x)) = Some (encode x)"
  by (simp add: decode_encode)

end

subsection \<open>A three-way comparison that follows a key\<close>

definition three_way :: "'k::linorder \<Rightarrow> 'k \<Rightarrow> int" where
  "three_way a b = (if a = b then 0 else if a < b then -1 else 1)"

lemma Nil_less_iff [simp]: "([] :: 'a::linorder list) < xs \<longleftrightarrow> xs \<noteq> []"
  by (cases xs) simp_all

lemma three_way_antisym: "three_way b a = - three_way a b"
  by (auto simp: three_way_def)

lemma three_way_pair:
  "three_way (a, b) (c, d) = (if three_way a c \<noteq> 0 then three_way a c else three_way b d)"
  by (auto simp: three_way_def less_prod_def')

lemma three_way_Cons:
  "three_way (x # xs) (y # ys) = (if three_way x y \<noteq> 0 then three_way x y else three_way xs ys)"
  by (auto simp: three_way_def)

lemma three_way_Nil [simp]:
  "three_way [] [] = 0" "three_way [] (y # ys) = -1" "three_way (x # xs) [] = 1"
  by (simp_all add: three_way_def)

locale key_order =
  fixes cmp :: "'a \<Rightarrow> 'a \<Rightarrow> int" and key :: "'a \<Rightarrow> 'k::linorder" and dom_ok :: "'a \<Rightarrow> bool"
  assumes cmp_key: "dom_ok a \<Longrightarrow> dom_ok b \<Longrightarrow> cmp a b = three_way (key a) (key b)"
begin

lemma cmp_refl: "dom_ok a \<Longrightarrow> cmp a a = 0"
  by (simp add: cmp_key three_way_def)

lemma cmp_antisym: "dom_ok a \<Longrightarrow> dom_ok b \<Longrightarrow> cmp b a = - cmp a b"
  by (auto simp: cmp_key three_way_def)

lemma cmp_zero_iff: "dom_ok a \<Longrightarrow> dom_ok b \<Longrightarrow> cmp a b = 0 \<longleftrightarrow> key a = key b"
  by (simp add: cmp_key three_way_def)

lemma cmp_less_trans:
  "dom_ok a \<Longrightarrow> dom_ok b \<Longrightarrow> dom_ok c \<Longrightarrow> cmp a b < 0 \<Longrightarrow> cmp b c \<le> 0 \<Longrightarrow> cmp a c < 0"
  by (auto simp: cmp_key three_way_def split: if_splits)

lemma cmp_le_trans:
  "dom_ok a \<Longrightarrow> dom_ok b \<Longrightarrow> dom_ok c \<Longrightarrow> cmp a b \<le> 0 \<Longrightarrow> cmp b c \<le> 0 \<Longrightarrow> cmp a c \<le> 0"
  by (auto simp: cmp_key three_way_def split: if_splits)

lemma cmp_range: "dom_ok a \<Longrightarrow> dom_ok b \<Longrightarrow> cmp a b \<in> {-1, 0, 1}"
  by (simp add: cmp_key three_way_def)

end

subsection \<open>State machines and inductive invariants\<close>

inductive reachable :: "('s \<Rightarrow> bool) \<Rightarrow> ('s \<Rightarrow> 's \<Rightarrow> bool) \<Rightarrow> 's \<Rightarrow> bool"
  for init :: "'s \<Rightarrow> bool" and step :: "'s \<Rightarrow> 's \<Rightarrow> bool" where
  start: "init s \<Longrightarrow> reachable init step s"
| move: "reachable init step s \<Longrightarrow> step s t \<Longrightarrow> reachable init step t"

lemma reachable_steps: "step\<^sup>*\<^sup>* s t \<Longrightarrow> reachable init step s \<Longrightarrow> reachable init step t"
  by (induction rule: rtranclp_induct) (auto intro: reachable.move)

locale inductive_invariant =
  fixes init :: "'s \<Rightarrow> bool" and step :: "'s \<Rightarrow> 's \<Rightarrow> bool" and inv :: "'s \<Rightarrow> bool"
  assumes inv_init: "init s \<Longrightarrow> inv s"
    and inv_step: "inv s \<Longrightarrow> step s t \<Longrightarrow> inv t"
begin

lemma inv_reachable: "reachable init step s \<Longrightarrow> inv s"
  by (induction rule: reachable.induct) (auto intro: inv_init inv_step)

lemma inv_steps: "inv s \<Longrightarrow> step\<^sup>*\<^sup>* s t \<Longrightarrow> inv t"
  by (rotate_tac 1, induction rule: rtranclp_induct) (auto intro: inv_step)

end

end
