(* ===== verification/CommandLine.thy ===== *)
theory CommandLine
  imports Prelude
begin

text \<open>
  The command-line builder of \<^verbatim>\<open>src/src/util/CommandLine.cpp\<close>, and its specification: the
  splitting rules Microsoft documents for a Windows process, which \<^verbatim>\<open>winws.exe\<close> applies to the
  line it is started with. The builder must be inverted by them, whatever the arguments.
\<close>

section \<open>Definitions\<close>

abbreviation BSL :: wchar where "BSL \<equiv> 0x5C"
abbreviation DQ :: wchar where "DQ \<equiv> 0x22"
abbreviation SP :: wchar where "SP \<equiv> 0x20"
abbreviation TAB :: wchar where "TAB \<equiv> 0x09"

definition needs_quoting :: "wchar \<Rightarrow> bool" where
  "needs_quoting c \<longleftrightarrow> c \<in> {SP, TAB, 0x0A, 0x0B, DQ}"

lemma dropWhile_shorter: "dropWhile P s = c # r \<Longrightarrow> length r < length s"
  by (metis Suc_le_eq length_Cons length_dropWhile_le)

function quote_loop :: "wstring \<Rightarrow> wstring" where
  "quote_loop it =
     (let backslashes = length (takeWhile (\<lambda>c. c = BSL) it) in
      case dropWhile (\<lambda>c. c = BSL) it of
        [] \<Rightarrow> replicate (backslashes * 2) BSL
      | c # r \<Rightarrow>
          if c = DQ then replicate (backslashes * 2 + 1) BSL @ DQ # quote_loop r
          else replicate backslashes BSL @ c # quote_loop r)"
  by pat_completeness auto
termination
  by (relation "measure length") (auto dest: dropWhile_shorter dropWhile_shorter [OF sym])

definition QuoteArgvW :: "wstring \<Rightarrow> wstring" where
  "QuoteArgvW arg =
     (if arg \<noteq> [] \<and> \<not> list_ex needs_quoting arg then arg
      else DQ # quote_loop arg @ [DQ])"

definition Build :: "wstring \<Rightarrow> wstring list \<Rightarrow> wstring" where
  "Build exePath args = foldl (\<lambda>cmd a. cmd @ SP # QuoteArgvW a) (QuoteArgvW exePath) args"

declare quote_loop.simps [simp del]

section \<open>Specification: the documented splitting rules\<close>

text \<open>
  Backslashes are literal unless they precede a double quote; before one, each pair is a
  backslash and an odd one makes the quote literal. A quote toggles the quoted part, a doubled
  quote inside it is a literal quote, and blanks outside end the argument.
\<close>

function parse_arg :: "bool \<Rightarrow> wstring \<Rightarrow> wstring \<times> wstring" where
  "parse_arg q s =
     (let n = length (takeWhile (\<lambda>c. c = BSL) s) in
      case dropWhile (\<lambda>c. c = BSL) s of
        [] \<Rightarrow> (replicate n BSL, [])
      | c # r \<Rightarrow>
          if c = DQ then
            (if odd n then apfst ((@) (replicate (n div 2) BSL @ [DQ])) (parse_arg q r)
             else if q \<and> r \<noteq> [] \<and> hd r = DQ
             then apfst ((@) (replicate (n div 2) BSL @ [DQ])) (parse_arg q (tl r))
             else apfst ((@) (replicate (n div 2) BSL)) (parse_arg (\<not> q) r))
          else if \<not> q \<and> (c = SP \<or> c = TAB) then (replicate n BSL, c # r)
          else apfst ((@) (replicate n BSL @ [c])) (parse_arg q r))"
  by pat_completeness auto
termination
  by (relation "measure (\<lambda>(q, s). length s)")
    (auto dest!: dropWhile_shorter dropWhile_shorter [OF sym])

declare parse_arg.simps [simp del]

function split_args :: "wstring \<Rightarrow> wstring list" where
  "split_args s =
     (case dropWhile (\<lambda>c. c = SP \<or> c = TAB) s of
        [] \<Rightarrow> []
      | c # r \<Rightarrow> (case parse_arg False (c # r) of (a, rest) \<Rightarrow>
          if length rest < length (c # r) then a # split_args rest else [a]))"
  by pat_completeness auto
termination
  by (relation "measure length") (auto dest!: dropWhile_shorter dropWhile_shorter [OF sym])

declare split_args.simps [simp del]

text \<open>
  The first token, the program name, follows simpler rules: a quoted name ends at the next
  quote, an unquoted one at the first blank, and a backslash is always literal.
\<close>

definition split_command_line :: "wstring \<Rightarrow> wstring list" where
  "split_command_line s =
     (if s \<noteq> [] \<and> hd s = DQ then
        takeWhile (\<lambda>c. c \<noteq> DQ) (tl s) # split_args (tl (dropWhile (\<lambda>c. c \<noteq> DQ) (tl s)))
      else takeWhile (\<lambda>c. c \<noteq> SP \<and> c \<noteq> TAB) s # split_args (dropWhile (\<lambda>c. c \<noteq> SP \<and> c \<noteq> TAB) s))"

section \<open>Lemmas\<close>

text \<open>Both functions read a run of backslashes and the character after it.\<close>

lemma backslash_run:
  obtains n where "s = replicate n BSL"
  | n c r where "s = replicate n BSL @ c # r" "c \<noteq> BSL"
proof -
  let ?t = "takeWhile (\<lambda>c. c = BSL) s" and ?d = "dropWhile (\<lambda>c. c = BSL) s"
  have t: "?t = replicate (length ?t) BSL"
    by (metis (full_types) replicate_length_same set_takeWhileD)
  show thesis
  proof (cases ?d)
    case Nil
    then have "s = replicate (length ?t) BSL" using t by (metis append_Nil2 takeWhile_dropWhile_id)
    then show thesis by (rule that(1))
  next
    case (Cons c r)
    then have "c \<noteq> BSL" by (metis (full_types) dropWhile_eq_Cons_conv)
    moreover have "s = replicate (length ?t) BSL @ c # r"
      using t Cons by (metis takeWhile_dropWhile_id)
    ultimately show thesis by (rule that(2) [rotated])
  qed
qed

lemma takeWhile_run [simp]:
  "takeWhile (\<lambda>c. c = x) (replicate n x) = replicate n x"
  "dropWhile (\<lambda>c. c = x) (replicate n x) = []"
  "c \<noteq> x \<Longrightarrow> takeWhile (\<lambda>c. c = x) (replicate n x @ c # r) = replicate n x"
  "c \<noteq> x \<Longrightarrow> dropWhile (\<lambda>c. c = x) (replicate n x @ c # r) = c # r"
  by (induction n) simp_all

lemma quote_loop_run:
  "quote_loop (replicate n BSL) = replicate (n * 2) BSL"
  "quote_loop (replicate n BSL @ DQ # r) = replicate (n * 2 + 1) BSL @ DQ # quote_loop r"
  "c \<noteq> BSL \<Longrightarrow> c \<noteq> DQ \<Longrightarrow>
     quote_loop (replicate n BSL @ c # r) = replicate n BSL @ c # quote_loop r"
  by (subst quote_loop.simps, simp)+

lemma parse_arg_run:
  "parse_arg q (replicate n BSL) = (replicate n BSL, [])"
  "odd n \<Longrightarrow> parse_arg q (replicate n BSL @ DQ # r) =
     apfst ((@) (replicate (n div 2) BSL @ [DQ])) (parse_arg q r)"
  "even n \<Longrightarrow> \<not> (q \<and> r \<noteq> [] \<and> hd r = DQ) \<Longrightarrow> parse_arg q (replicate n BSL @ DQ # r) =
     apfst ((@) (replicate (n div 2) BSL)) (parse_arg (\<not> q) r)"
  "c \<noteq> BSL \<Longrightarrow> c \<noteq> DQ \<Longrightarrow> q \<or> (c \<noteq> SP \<and> c \<noteq> TAB) \<Longrightarrow> parse_arg q (replicate n BSL @ c # r) =
     apfst ((@) (replicate n BSL @ [c])) (parse_arg q r)"
  "c = SP \<or> c = TAB \<Longrightarrow> parse_arg False (replicate n BSL @ c # r) = (replicate n BSL, c # r)"
  by (subst parse_arg.simps, auto)+

text \<open>The end of an argument inside a command line: the end of the line or a blank.\<close>

definition arg_end :: "wstring \<Rightarrow> bool" where
  "arg_end r \<longleftrightarrow> r = [] \<or> hd r = SP"

lemma parse_arg_end: "arg_end r \<Longrightarrow> parse_arg False r = ([], r)"
  using parse_arg_run(1) [of False 0] parse_arg_run(5) [of SP 0 "tl r"]
  by (cases r) (auto simp: arg_end_def)

lemma parse_quoted:
  assumes "arg_end rest"
  shows "parse_arg True (quote_loop s @ DQ # rest) = (s, rest)"
proof (induction s rule: length_induct)
  case (1 s)
  show ?case
  proof (cases s rule: backslash_run)
    case (1 n)
    have "\<not> (True \<and> rest \<noteq> [] \<and> hd rest = DQ)" using assms by (auto simp: arg_end_def)
    with 1 assms show ?thesis
      by (simp add: quote_loop_run parse_arg_run(3) parse_arg_end)
  next
    case (2 n c r)
    then have IH: "parse_arg True (quote_loop r @ DQ # rest) = (r, rest)"
      using "1.IH" by simp
    show ?thesis
    proof (cases "c = DQ")
      case True
      with 2 IH show ?thesis
        using parse_arg_run(2) [of "n * 2 + 1" True "quote_loop r @ DQ # rest"]
        by (simp add: quote_loop_run)
    next
      case False
      with 2 IH show ?thesis
        using parse_arg_run(4) [of c True n "quote_loop r @ DQ # rest"]
        by (simp add: quote_loop_run)
    qed
  qed
qed

lemma parse_unquoted:
  assumes "arg_end rest" "\<not> list_ex needs_quoting s"
  shows "parse_arg False (s @ rest) = (s, rest)"
  using assms(2)
proof (induction s rule: length_induct)
  case (1 s)
  show ?case
  proof (cases s rule: backslash_run)
    case (1 n)
    show ?thesis
    proof (cases rest)
      case Nil
      with 1 show ?thesis by (simp add: parse_arg_run)
    next
      case (Cons x xs)
      with 1 assms(1) show ?thesis by (simp add: parse_arg_run arg_end_def)
    qed
  next
    case (2 n c r)
    then have nc: "\<not> needs_quoting c" and r: "\<not> list_ex needs_quoting r"
      using "1.prems" by simp_all
    then have c: "c \<noteq> DQ" "c \<noteq> SP" "c \<noteq> TAB" by (auto simp: needs_quoting_def)
    have "parse_arg False (r @ rest) = (r, rest)" using "1.IH" 2 r by simp
    with 2 c show ?thesis by (simp add: parse_arg_run(4))
  qed
qed

lemma parse_QuoteArgvW:
  assumes "arg_end rest" shows "parse_arg False (QuoteArgvW a @ rest) = (a, rest)"
proof (cases "a \<noteq> [] \<and> \<not> list_ex needs_quoting a")
  case True
  with assms show ?thesis by (simp add: QuoteArgvW_def parse_unquoted)
next
  case False
  have "quote_loop a @ DQ # rest = [] \<or> \<not> (False \<and> hd (quote_loop a @ DQ # rest) = DQ)" by simp
  then have "parse_arg False (DQ # quote_loop a @ DQ # rest) =
      apfst ((@) (replicate (0 div 2) BSL)) (parse_arg True (quote_loop a @ DQ # rest))"
    using parse_arg_run(3) [of 0 False "quote_loop a @ DQ # rest"] by simp
  with False show ?thesis using parse_quoted [OF assms] by (auto simp: QuoteArgvW_def)
qed

lemma QuoteArgvW_start: "\<exists>c r. QuoteArgvW a = c # r \<and> c \<noteq> SP \<and> c \<noteq> TAB"
  by (cases a) (auto simp: QuoteArgvW_def needs_quoting_def)

definition args_text :: "wstring list \<Rightarrow> wstring" where
  "args_text args = concat (map (\<lambda>a. SP # QuoteArgvW a) args)"

lemma Build_text: "Build exe args = QuoteArgvW exe @ args_text args"
  unfolding Build_def args_text_def
  by (induction args arbitrary: exe rule: rev_induct) simp_all

lemma args_text_end: "arg_end (args_text args)"
  by (cases args) (simp_all add: args_text_def arg_end_def)

lemma split_args_text: "split_args (args_text args) = args"
proof (induction args)
  case Nil
  then show ?case by (simp add: args_text_def split_args.simps)
next
  case (Cons a args)
  obtain c r where q: "QuoteArgvW a = c # r" "c \<noteq> SP" "c \<noteq> TAB" using QuoteArgvW_start by blast
  have t: "args_text (a # args) = SP # QuoteArgvW a @ args_text args"
    by (simp add: args_text_def)
  have d: "dropWhile (\<lambda>c. c = SP \<or> c = TAB) (args_text (a # args)) = c # (r @ args_text args)"
    using q t by simp
  have p: "parse_arg False (c # (r @ args_text args)) = (a, args_text args)"
    using parse_QuoteArgvW [OF args_text_end [of args], of a] q by simp
  show ?case by (subst split_args.simps) (simp add: d p Cons.IH)
qed

lemma quote_loop_plain:
  "DQ \<notin> set s \<Longrightarrow> s = [] \<or> last s \<noteq> BSL \<Longrightarrow> quote_loop s = s"
proof (induction s rule: length_induct)
  case (1 s)
  show ?case
  proof (cases s rule: backslash_run)
    case (1 n)
    then have "n = 0" using "1.prems" by (cases n) (auto simp: last_replicate split: if_splits)
    with 1 show ?thesis using quote_loop_run(1) [of 0] by simp
  next
    case (2 n c r)
    then have "DQ \<notin> set r" "r = [] \<or> last r \<noteq> BSL" "c \<noteq> DQ" using "1.prems" by auto
    moreover have "length r < length s" using 2 by simp
    then have "quote_loop r = r" using "1.IH" calculation(1,2) by blast
    ultimately show ?thesis using 2 \<open>quote_loop r = r\<close> by (simp add: quote_loop_run)
  qed
qed

lemma takeWhile_all: "(\<And>x. x \<in> set a \<Longrightarrow> P x) \<Longrightarrow> r = [] \<or> \<not> P (hd r) \<Longrightarrow>
  takeWhile P (a @ r) = a \<and> dropWhile P (a @ r) = r"
  using takeWhile_stop [of P a r] by (simp add: list_all_iff)

text \<open>
  C19. The command line built for \<^verbatim>\<open>winws.exe\<close> splits back, by the documented rules, into exactly
  the program path and the arguments it was built from, for all arguments (blanks, quotes, runs
  of backslashes, the empty string); the path is any path without a quote that does not end
  in a backslash. No argument can add, drop or merge arguments.
\<close>

theorem Build_roundtrip:
  assumes "exe \<noteq> []" "DQ \<notin> set exe" "last exe \<noteq> BSL"
  shows "split_command_line (Build exe args) = exe # args"
proof (cases "list_ex needs_quoting exe")
  case False
  then have plain: "QuoteArgvW exe = exe" using assms by (simp add: QuoteArgvW_def)
  have "x \<noteq> SP \<and> x \<noteq> TAB" if "x \<in> set exe" for x
    using False that by (auto simp: list_ex_iff needs_quoting_def)
  moreover have "args_text args = [] \<or> \<not> (hd (args_text args) \<noteq> SP \<and> hd (args_text args) \<noteq> TAB)"
    using args_text_end by (auto simp: arg_end_def)
  ultimately have "takeWhile (\<lambda>c. c \<noteq> SP \<and> c \<noteq> TAB) (exe @ args_text args) = exe"
    "dropWhile (\<lambda>c. c \<noteq> SP \<and> c \<noteq> TAB) (exe @ args_text args) = args_text args"
    using takeWhile_all [of exe "\<lambda>c. c \<noteq> SP \<and> c \<noteq> TAB" "args_text args"] by blast+
  moreover have "hd exe \<noteq> DQ" using assms by (cases exe) auto
  ultimately show ?thesis
    using assms(1) by (simp add: split_command_line_def Build_text plain split_args_text)
next
  case True
  then have q: "QuoteArgvW exe = DQ # exe @ [DQ]"
    using assms by (simp add: QuoteArgvW_def quote_loop_plain)
  have "takeWhile (\<lambda>c. c \<noteq> DQ) (exe @ DQ # args_text args) = exe \<and>
      dropWhile (\<lambda>c. c \<noteq> DQ) (exe @ DQ # args_text args) = DQ # args_text args"
    using assms(2) by (intro takeWhile_all) auto
  then show ?thesis by (simp add: split_command_line_def Build_text q split_args_text)
qed

theorem Build_roundtrip_witness:
  "split_command_line (Build (W ''C:/x y/winws.exe'') [W ''a b'', [], W ''c'' @ [DQ, BSL]]) =
     [W ''C:/x y/winws.exe'', W ''a b'', [], W ''c'' @ [DQ, BSL]]"
  by (rule Build_roundtrip) simp_all

end
