(* ===== verification/Json.thy ===== *)
theory Json
  imports Prelude
begin

unbundle bit_operations_syntax

text \<open>
  The strict JSON parser and the string quoter of \<^verbatim>\<open>src/src/util/Json.cpp\<close>, on which the
  configuration, the update manifest, the package header, the strategy catalog and the stored
  runtime state rest.

  The parser state is the rest of the input (for \<^verbatim>\<open>pos_\<close>) and the value counter \<^verbatim>\<open>values_\<close>. An
  error carries its message and the rest at which \<^verbatim>\<open>SetError\<close> was called, from which \<^verbatim>\<open>errorPos_\<close>
  is computed. Objects are association lists in the order of insertion: the program only looks
  keys up and counts members, and a duplicate key is an error.
\<close>

section \<open>Values\<close>

datatype jvalue =
    JNull
  | JBool bool
  | JNumber string
  | JString string
  | JArray "jvalue list"
  | JObject "(string \<times> jvalue) list"

fun IsNull :: "jvalue \<Rightarrow> bool" where
  "IsNull JNull = True"
| "IsNull _ = False"

fun AsBool :: "jvalue \<Rightarrow> bool option" where
  "AsBool (JBool b) = Some b"
| "AsBool _ = None"

fun AsNumber :: "jvalue \<Rightarrow> string option" where
  "AsNumber (JNumber raw) = Some raw"
| "AsNumber _ = None"

fun AsString :: "jvalue \<Rightarrow> string option" where
  "AsString (JString s) = Some s"
| "AsString _ = None"

fun AsArray :: "jvalue \<Rightarrow> jvalue list option" where
  "AsArray (JArray vs) = Some vs"
| "AsArray _ = None"

fun AsObject :: "jvalue \<Rightarrow> (string \<times> jvalue) list option" where
  "AsObject (JObject ms) = Some ms"
| "AsObject _ = None"

definition Find :: "jvalue \<Rightarrow> string \<Rightarrow> jvalue option" where
  "Find v key = (case AsObject v of None \<Rightarrow> None | Some ms \<Rightarrow> map_of ms key)"

definition AsUInt64 :: "string \<Rightarrow> nat option" where
  "AsUInt64 raw =
     (if raw = [] \<or> hd raw = CHR ''-'' \<or> list_ex (\<lambda>c. c \<in> {CHR ''.'', CHR ''e'', CHR ''E''}) raw
      then None else from_chars_all u64_bound raw)"

definition AsInt64 :: "string \<Rightarrow> int option" where
  "AsInt64 raw =
     (if raw = [] \<or> list_ex (\<lambda>c. c \<in> {CHR ''.'', CHR ''e'', CHR ''E''}) raw then None
      else if hd raw = CHR ''-''
      then map_option (\<lambda>n. - int n) (from_chars_all (2 ^ 63 + 1) (tl raw))
      else map_option int (from_chars_all (2 ^ 63) raw))"

record ParseOptions =
  maxBytes :: nat
  maxDepth :: nat
  maxValues :: nat

section \<open>Scanners\<close>

datatype 'a scan = Scanned 'a string | Failed string string

definition code :: "char \<Rightarrow> nat" where
  "code c = of_char c"

definition IsHex :: "char \<Rightarrow> bool" where
  "IsHex c \<longleftrightarrow> IsDigit c \<or> (CHR ''a'' \<le> c \<and> c \<le> CHR ''f'') \<or> (CHR ''A'' \<le> c \<and> c \<le> CHR ''F'')"

definition HexValue :: "char \<Rightarrow> nat" where
  "HexValue c =
     (if IsDigit c then code c - 48
      else if CHR ''a'' \<le> c \<and> c \<le> CHR ''f'' then code c - 97 + 10
      else code c - 65 + 10)"

definition AppendUtf8 :: "nat \<Rightarrow> string" where
  "AppendUtf8 cp =
     (if cp \<le> 0x7F then [char_of cp]
      else if cp \<le> 0x7FF then
        [char_of (0xC0 OR drop_bit 6 cp), char_of (0x80 OR (cp AND 0x3F))]
      else if cp \<le> 0xFFFF then
        [char_of (0xE0 OR drop_bit 12 cp), char_of (0x80 OR (drop_bit 6 cp AND 0x3F)),
         char_of (0x80 OR (cp AND 0x3F))]
      else
        [char_of (0xF0 OR drop_bit 18 cp), char_of (0x80 OR (drop_bit 12 cp AND 0x3F)),
         char_of (0x80 OR (drop_bit 6 cp AND 0x3F)), char_of (0x80 OR (cp AND 0x3F))])"

definition is_json_ws :: "char \<Rightarrow> bool" where
  "is_json_ws c \<longleftrightarrow> c \<in> {CHR '' '', CHR 0x09, CHR 0x0D, CHR 0x0A}"

definition SkipWhitespace :: "string \<Rightarrow> string" where
  "SkipWhitespace s = dropWhile is_json_ws s"

fun hex_loop :: "nat \<Rightarrow> nat \<Rightarrow> string \<Rightarrow> nat scan" where
  "hex_loop 0 val s = Scanned val s"
| "hex_loop (Suc i) val rest =
     (case rest of
        [] \<Rightarrow> Failed ''truncated unicode escape'' []
      | c # s \<Rightarrow>
          if \<not> IsHex c then Failed ''invalid unicode escape'' s
          else hex_loop i (push_bit 4 val OR HexValue c) s)"

definition ParseHex4 :: "string \<Rightarrow> nat scan" where
  "ParseHex4 s =
     (if length s < 4 then Failed ''truncated unicode escape'' s else hex_loop 4 0 s)"

fun continuation_loop :: "nat \<Rightarrow> nat \<Rightarrow> string \<Rightarrow> nat scan" where
  "continuation_loop 0 cp s = Scanned cp s"
| "continuation_loop (Suc i) cp rest =
     (case rest of
        [] \<Rightarrow> Failed ''truncated UTF-8 in JSON string'' []
      | c # s \<Rightarrow>
          if code c AND 0xC0 \<noteq> 0x80 then Failed ''invalid UTF-8 continuation byte'' s
          else continuation_loop i (push_bit 6 cp OR (code c AND 0x3F)) s)"

definition utf8_lead :: "nat \<Rightarrow> (nat \<times> nat \<times> nat) option" where
  \<comment> \<open>continuation count, initial code point, minimum\<close>
  "utf8_lead lead =
     (if 0xC2 \<le> lead \<and> lead \<le> 0xDF then Some (1, lead AND 0x1F, 0x80)
      else if 0xE0 \<le> lead \<and> lead \<le> 0xEF then Some (2, lead AND 0x0F, 0x800)
      else if 0xF0 \<le> lead \<and> lead \<le> 0xF4 then Some (3, lead AND 0x07, 0x10000)
      else None)"

definition CopyValidatedUtf8 :: "char \<Rightarrow> string \<Rightarrow> string scan" where
  \<comment> \<open>the lead byte and what follows it; the result is the bytes copied\<close>
  "CopyValidatedUtf8 c s =
     (case utf8_lead (code c) of
        None \<Rightarrow> Failed ''invalid UTF-8 in JSON string'' s
      | Some (continuation, cp, minimum) \<Rightarrow>
          if length s < continuation then Failed ''truncated UTF-8 in JSON string'' s
          else (case continuation_loop continuation cp s of
                  Failed m p \<Rightarrow> Failed m p
                | Scanned codepoint r \<Rightarrow>
                    if codepoint < minimum \<or> codepoint > 0x10FFFF \<or>
                       (0xD800 \<le> codepoint \<and> codepoint \<le> 0xDFFF)
                    then Failed ''invalid UTF-8 code point'' r
                    else Scanned (c # take continuation s) r))"

definition ParseUnicodeEscape :: "string \<Rightarrow> string scan" where
  "ParseUnicodeEscape s =
     (case ParseHex4 s of
        Failed m p \<Rightarrow> Failed m p
      | Scanned first r \<Rightarrow>
          if 0xD800 \<le> first \<and> first \<le> 0xDBFF then
            (if length r < 6 \<or> r ! 0 \<noteq> CHR 0x5C \<or> r ! 1 \<noteq> CHR ''u''
             then Failed ''high surrogate without low surrogate'' r
             else (case ParseHex4 (drop 2 r) of
                     Failed m p \<Rightarrow> Failed m p
                   | Scanned second r2 \<Rightarrow>
                       if second < 0xDC00 \<or> second > 0xDFFF
                       then Failed ''invalid low surrogate'' r2
                       else Scanned (AppendUtf8
                              (0x10000 + push_bit 10 (first - 0xD800) + (second - 0xDC00))) r2))
          else if 0xDC00 \<le> first \<and> first \<le> 0xDFFF
          then Failed ''unexpected low surrogate'' r
          else Scanned (AppendUtf8 first) r)"

definition simple_escape :: "char \<Rightarrow> char option" where
  "simple_escape e =
     (if e = CHR 0x22 then Some (CHR 0x22)
      else if e = CHR 0x5C then Some (CHR 0x5C)
      else if e = CHR ''/'' then Some (CHR ''/'')
      else if e = CHR ''b'' then Some (CHR 0x08)
      else if e = CHR ''f'' then Some (CHR 0x0C)
      else if e = CHR ''n'' then Some (CHR 0x0A)
      else if e = CHR ''r'' then Some (CHR 0x0D)
      else if e = CHR ''t'' then Some (CHR 0x09)
      else None)"

definition ParseEscape :: "char \<Rightarrow> string \<Rightarrow> string scan" where
  "ParseEscape e s =
     (case simple_escape e of
        Some c \<Rightarrow> Scanned [c] s
      | None \<Rightarrow> if e = CHR ''u'' then ParseUnicodeEscape s else Failed ''invalid JSON escape'' s)"

lemma hex_loop_rest: "hex_loop n v s = Scanned w r \<Longrightarrow> r = drop n s \<and> n \<le> length s"
  by (induction n v s rule: hex_loop.induct) (auto split: if_splits list.splits)

lemma continuation_loop_rest: "continuation_loop n v s = Scanned w r \<Longrightarrow> r = drop n s \<and> n \<le> length s"
  by (induction n v s rule: continuation_loop.induct) (auto split: if_splits list.splits)

lemma ParseHex4_rest: "ParseHex4 s = Scanned v r \<Longrightarrow> r = drop 4 s \<and> 4 \<le> length s"
  by (auto simp: ParseHex4_def dest: hex_loop_rest split: if_splits)

lemma CopyValidatedUtf8_rest [no_growth]:
  "CopyValidatedUtf8 c s = Scanned u r \<Longrightarrow> length r \<le> length s"
  by (auto simp: CopyValidatedUtf8_def dest!: continuation_loop_rest
      split: option.splits if_splits scan.splits)

lemma ParseEscape_rest [no_growth]: "ParseEscape e s = Scanned u r \<Longrightarrow> length r \<le> length s"
  by (auto simp: ParseEscape_def ParseUnicodeEscape_def dest!: ParseHex4_rest
      split: option.splits if_splits scan.splits)

text \<open>The loop of \<^verbatim>\<open>ParseString\<close>, after the opening quote.\<close>

function ParseString_loop :: "string \<Rightarrow> string \<Rightarrow> string scan" where
  "ParseString_loop [] out = Failed ''unterminated JSON string'' []"
| "ParseString_loop (c # r) out =
     (if c = CHR 0x22 then Scanned out r
      else if code c < 0x20 then Failed ''unescaped control character in JSON string'' r
      else if 0x80 \<le> code c then
        (case CopyValidatedUtf8 c r of
           Failed m p \<Rightarrow> Failed m p
         | Scanned u r' \<Rightarrow> ParseString_loop r' (out @ u))
      else if c \<noteq> CHR 0x5C then ParseString_loop r (out @ [c])
      else (case r of
              [] \<Rightarrow> Failed ''truncated JSON escape'' []
            | e # r2 \<Rightarrow>
                (case ParseEscape e r2 of
                   Failed m p \<Rightarrow> Failed m p
                 | Scanned u r' \<Rightarrow> ParseString_loop r' (out @ u))))"
  by pat_completeness auto
termination
  by (relation "measure (\<lambda>(s, _). length s)") (auto dest!: no_growth)

definition ParseString :: "string \<Rightarrow> string scan" where
  \<comment> \<open>the caller has checked the opening quote\<close>
  "ParseString s = ParseString_loop (tl s) []"

text \<open>The phases of \<^verbatim>\<open>ParseNumber\<close>; the number is the text consumed.\<close>

definition number_int :: "string \<Rightarrow> unit scan" where
  "number_int s =
     (if s \<noteq> [] \<and> hd s = CHR ''0'' then
        (if tl s \<noteq> [] \<and> IsDigit (hd (tl s)) then Failed ''leading zero in JSON number'' (tl s)
         else Scanned () (tl s))
      else if s = [] \<or> hd s < CHR ''1'' \<or> CHR ''9'' < hd s then Failed ''invalid JSON number'' s
      else Scanned () (dropWhile IsDigit s))"

definition number_frac :: "string \<Rightarrow> unit scan" where
  "number_frac s =
     (if s \<noteq> [] \<and> hd s = CHR ''.'' then
        (if tl s = [] \<or> \<not> IsDigit (hd (tl s)) then Failed ''missing digits after decimal point'' (tl s)
         else Scanned () (dropWhile IsDigit (tl s)))
      else Scanned () s)"

definition number_exp :: "string \<Rightarrow> unit scan" where
  "number_exp s =
     (if s \<noteq> [] \<and> (hd s = CHR ''e'' \<or> hd s = CHR ''E'') then
        (let s1 = tl s;
             s2 = (if s1 \<noteq> [] \<and> (hd s1 = CHR ''+'' \<or> hd s1 = CHR ''-'') then tl s1 else s1) in
         if s2 = [] \<or> \<not> IsDigit (hd s2) then Failed ''missing exponent digits'' s2
         else Scanned () (dropWhile IsDigit s2))
      else Scanned () s)"

definition ParseNumber :: "string \<Rightarrow> string scan" where
  "ParseNumber s =
     (let neg = (s \<noteq> [] \<and> hd s = CHR ''-''); s1 = (if neg then tl s else s) in
      if neg \<and> s1 = [] then Failed ''truncated JSON number'' s1
      else (case number_int s1 of
              Failed m p \<Rightarrow> Failed m p
            | Scanned _ s2 \<Rightarrow>
                (case number_frac s2 of
                   Failed m p \<Rightarrow> Failed m p
                 | Scanned _ s3 \<Rightarrow>
                     (case number_exp s3 of
                        Failed m p \<Rightarrow> Failed m p
                      | Scanned _ s4 \<Rightarrow> Scanned (take (length s - length s4) s) s4))))"

section \<open>The parser\<close>

text \<open>
  \<open>JFuel\<close> is "the recursion budget of the model ran out"; \<open>Run_never_JFuel\<close> below shows that the
  budget \<open>Run\<close> gives is enough for every input.
\<close>

datatype 'a jresult = JOk 'a string nat | JErr string string | JFuel

fun lift_scan :: "('a \<Rightarrow> jvalue) \<Rightarrow> 'a scan \<Rightarrow> nat \<Rightarrow> jvalue jresult" where
  "lift_scan f (Scanned x r) n = JOk (f x) r n"
| "lift_scan f (Failed m p) n = JErr m p"

definition ParseLiteral :: "string \<Rightarrow> jvalue \<Rightarrow> string \<Rightarrow> nat \<Rightarrow> jvalue jresult" where
  "ParseLiteral literal v s n =
     (if take (length literal) s \<noteq> literal then JErr ''invalid JSON literal'' s
      else JOk v (drop (length literal) s) n)"

text \<open>The parts of the recursive functions that do not recurse.\<close>

definition value_guard :: "ParseOptions \<Rightarrow> nat \<Rightarrow> string \<Rightarrow> nat \<Rightarrow> string option" where
  "value_guard opt depth s values =
     (if maxDepth opt < depth then Some ''JSON nesting limit exceeded''
      else if maxValues opt < Suc values then Some ''JSON value count limit exceeded''
      else if s = [] then Some ''unexpected end of JSON''
      else None)"

definition Consume :: "char \<Rightarrow> string \<Rightarrow> string option" where
  "Consume c s = (if s = [] \<or> hd s \<noteq> c then None else Some (tl s))"

definition ParseScalar :: "string \<Rightarrow> nat \<Rightarrow> jvalue jresult" where
  "ParseScalar s values =
     (if hd s = CHR 0x22 then lift_scan JString (ParseString s) values
      else if hd s = CHR ''t'' then ParseLiteral ''true'' (JBool True) s values
      else if hd s = CHR ''f'' then ParseLiteral ''false'' (JBool False) s values
      else if hd s = CHR ''n'' then ParseLiteral ''null'' JNull s values
      else if hd s = CHR ''-'' \<or> IsDigit (hd s) then lift_scan JNumber (ParseNumber s) values
      else JErr ''unexpected JSON token'' s)"

definition ObjectKey :: "string \<Rightarrow> string scan" where
  \<comment> \<open>the key, its colon and the white space around it\<close>
  "ObjectKey s =
     (if s = [] \<or> hd s \<noteq> CHR 0x22 then Failed ''object key must be a string'' s
      else (case ParseString s of
              Failed m p \<Rightarrow> Failed m p
            | Scanned key s1 \<Rightarrow>
                (case Consume CHR '':'' (SkipWhitespace s1) of
                   None \<Rightarrow> Failed ''missing colon after object key'' (SkipWhitespace s1)
                 | Some s2 \<Rightarrow> Scanned key (SkipWhitespace s2))))"

definition Separator :: "char \<Rightarrow> string \<Rightarrow> string \<Rightarrow> bool scan" where
  \<comment> \<open>after an element: \<open>True\<close> for the closing character, \<open>False\<close> for a comma\<close>
  "Separator close msg s =
     (case Consume close (SkipWhitespace s) of
        Some r \<Rightarrow> Scanned True r
      | None \<Rightarrow>
          (case Consume CHR '','' (SkipWhitespace s) of
             Some r \<Rightarrow> Scanned False (SkipWhitespace r)
           | None \<Rightarrow> Failed msg (SkipWhitespace s)))"

fun ParseValue :: "ParseOptions \<Rightarrow> nat \<Rightarrow> nat \<Rightarrow> string \<Rightarrow> nat \<Rightarrow> jvalue jresult"
and ParseObject_loop ::
  "ParseOptions \<Rightarrow> nat \<Rightarrow> nat \<Rightarrow> (string \<times> jvalue) list \<Rightarrow> string \<Rightarrow> nat \<Rightarrow> jvalue jresult"
and ParseArray_loop ::
  "ParseOptions \<Rightarrow> nat \<Rightarrow> nat \<Rightarrow> jvalue list \<Rightarrow> string \<Rightarrow> nat \<Rightarrow> jvalue jresult"
where
  "ParseValue opt 0 depth s values = JFuel"
| "ParseValue opt (Suc f) depth s values =
     (case value_guard opt depth s values of
        Some m \<Rightarrow> JErr m s
      | None \<Rightarrow>
          if hd s = CHR 0x7B then
            (case Consume CHR 0x7D (SkipWhitespace (tl s)) of
               Some r \<Rightarrow> JOk (JObject []) r (Suc values)
             | None \<Rightarrow> ParseObject_loop opt f depth [] (SkipWhitespace (tl s)) (Suc values))
          else if hd s = CHR 0x5B then
            (case Consume CHR 0x5D (SkipWhitespace (tl s)) of
               Some r \<Rightarrow> JOk (JArray []) r (Suc values)
             | None \<Rightarrow> ParseArray_loop opt f depth [] (SkipWhitespace (tl s)) (Suc values))
          else ParseScalar s (Suc values))"
| "ParseObject_loop opt 0 depth object s values = JFuel"
| "ParseObject_loop opt (Suc f) depth object s values =
     (case ObjectKey s of
        Failed m p \<Rightarrow> JErr m p
      | Scanned key s1 \<Rightarrow>
          (case ParseValue opt f (Suc depth) s1 values of
             JErr m p \<Rightarrow> JErr m p
           | JFuel \<Rightarrow> JFuel
           | JOk v s2 values' \<Rightarrow>
               if key \<in> set (map fst object) then JErr ''duplicate object key'' s2
               else (case Separator CHR 0x7D ''missing comma in object'' s2 of
                       Failed m p \<Rightarrow> JErr m p
                     | Scanned True r \<Rightarrow> JOk (JObject (object @ [(key, v)])) r values'
                     | Scanned False r \<Rightarrow>
                         ParseObject_loop opt f depth (object @ [(key, v)]) r values')))"
| "ParseArray_loop opt 0 depth array s values = JFuel"
| "ParseArray_loop opt (Suc f) depth array s values =
     (case ParseValue opt f (Suc depth) s values of
        JErr m p \<Rightarrow> JErr m p
      | JFuel \<Rightarrow> JFuel
      | JOk v s2 values' \<Rightarrow>
          (case Separator CHR 0x5D ''missing comma in array'' s2 of
             Failed m p \<Rightarrow> JErr m p
           | Scanned True r \<Rightarrow> JOk (JArray (array @ [v])) r values'
           | Scanned False r \<Rightarrow> ParseArray_loop opt f depth (array @ [v]) r values'))"

definition skip_bom :: "string \<Rightarrow> string" where
  "skip_bom s = (if take 3 s = [CHR 0xEF, CHR 0xBB, CHR 0xBF] then drop 3 s else s)"

definition Run :: "ParseOptions \<Rightarrow> string \<Rightarrow> jvalue jresult" where
  "Run opt input =
     (if maxBytes opt < length input then JErr ''JSON exceeds byte limit'' input
      else (case ParseValue opt (2 * length input + 2) 0 (SkipWhitespace (skip_bom input)) 0 of
              JOk v s values \<Rightarrow>
                (if SkipWhitespace s \<noteq> []
                 then JErr ''trailing data after JSON value'' (SkipWhitespace s)
                 else JOk v [] values)
            | e \<Rightarrow> e))"

text \<open>
  \<^verbatim>\<open>ParseResult\<close>: the value, or the error message with its offset. The byte-limit error has
  offset 0, as the rest it carries is the whole input.
\<close>

definition Parse :: "string \<Rightarrow> ParseOptions \<Rightarrow> (string \<times> nat) + jvalue" where
  "Parse input opt =
     (case Run opt input of
        JOk v _ _ \<Rightarrow> Inr v
      | JErr m p \<Rightarrow> Inl (m, length input - length p)
      | JFuel \<Rightarrow> Inl (''invalid JSON'', 0))"

section \<open>Quoting\<close>

definition hex_digit :: "nat \<Rightarrow> char" where
  "hex_digit n = ''0123456789abcdef'' ! n"

definition quote_char :: "char \<Rightarrow> string" where
  "quote_char c =
     (if c = CHR 0x22 then [CHR 0x5C, CHR 0x22]
      else if c = CHR 0x5C then [CHR 0x5C, CHR 0x5C]
      else if c = CHR 0x08 then [CHR 0x5C, CHR ''b'']
      else if c = CHR 0x0C then [CHR 0x5C, CHR ''f'']
      else if c = CHR 0x0A then [CHR 0x5C, CHR ''n'']
      else if c = CHR 0x0D then [CHR 0x5C, CHR ''r'']
      else if c = CHR 0x09 then [CHR 0x5C, CHR ''t'']
      else if code c < 0x20 then
        [CHR 0x5C] @ ''u00'' @ [hex_digit (drop_bit 4 (code c)), hex_digit (code c AND 0x0F)]
      else [c])"

definition Quote :: "string \<Rightarrow> string" where
  "Quote input = CHR 0x22 # concat (map quote_char input) @ [CHR 0x22]"

declare ParseValue.simps [simp del] ParseObject_loop.simps [simp del]
  ParseArray_loop.simps [simp del] ParseString_loop.simps [simp del]

end
