(* ===== verification/Json_Text.thy ===== *)
theory Json_Text
  imports Json
begin

unbundle bit_operations_syntax

text \<open>
  The string layer of the JSON parser against its specification: UTF-8 as the encoding of Unicode
  scalar values, and the grammar of JSON strings (plain characters, encoded characters, escapes,
  surrogate pairs). \<open>ParseString\<close> accepts exactly that grammar, everything it returns is valid
  UTF-8, and \<open>Quote\<close> is inverted by it.
\<close>

section \<open>UTF-8\<close>

definition scalar :: "nat \<Rightarrow> bool" where
  "scalar cp \<longleftrightarrow> cp \<le> 0x10FFFF \<and> \<not> (0xD800 \<le> cp \<and> cp \<le> 0xDFFF)"

text \<open>Valid UTF-8: the concatenated encodings of scalar values.\<close>

inductive utf8_text :: "string \<Rightarrow> bool" where
  utf8_nil: "utf8_text []"
| utf8_cons: "scalar cp \<Longrightarrow> utf8_text s \<Longrightarrow> utf8_text (AppendUtf8 cp @ s)"

declare utf8_text.intros [intro]

text \<open>Bit operations on natural numbers as arithmetic.\<close>

lemma or_disjoint_add:
  assumes "m < 2 ^ n" shows "push_bit n a OR m = a * 2 ^ n + (m::nat)"
proof -
  have "push_bit n a AND m = 0"
  proof (rule bit_eqI)
    fix k
    have "bit m k \<Longrightarrow> k < n"
      using assms by (metis bit_take_bit_iff take_bit_nat_eq_self)
    then show "bit (push_bit n a AND m) k \<longleftrightarrow> bit 0 k"
      by (auto simp: bit_simps)
  qed
  then show ?thesis by (simp add: disjunctive_add_eq_or [symmetric] push_bit_eq_mult)
qed

lemma or_marker:
  "m < 64 \<Longrightarrow> 0x80 OR m = 0x80 + (m::nat)"
  "m < 32 \<Longrightarrow> 0xC0 OR m = 0xC0 + (m::nat)"
  "m < 16 \<Longrightarrow> 0xE0 OR m = 0xE0 + (m::nat)"
  "m < 8 \<Longrightarrow> 0xF0 OR m = 0xF0 + (m::nat)"
  using or_disjoint_add [of m 6 2] or_disjoint_add [of m 5 6]
    or_disjoint_add [of m 4 14] or_disjoint_add [of m 3 30]
  by (simp_all add: push_bit_eq_mult)

lemma and_mask_mod:
  "(x::nat) AND 0x3F = x mod 64" "x AND 0x1F = x mod 32" "x AND 0x0F = x mod 16"
  "x AND 0x07 = x mod 8"
  using take_bit_eq_mask [of 6 x] take_bit_eq_mask [of 5 x] take_bit_eq_mask [of 4 x]
    take_bit_eq_mask [of 3 x]
  by (simp_all add: take_bit_eq_mod mask_eq_exp_minus_1)

lemma drop_bit_div: "drop_bit n (x::nat) = x div 2 ^ n"
  by (simp add: drop_bit_eq_div)

lemma code_less: "code c < 256"
  unfolding code_def by (rule nat_of_char_less_256)

lemma continuation_byte:
  assumes "b < 256" shows "b AND 0xC0 = 0x80 \<longleftrightarrow> 128 \<le> b \<and> b < (192::nat)"
proof -
  have "\<forall>b \<in> set [0..<256]. (b AND 0xC0 = 0x80) = (128 \<le> b \<and> b < (192::nat))"
    by code_simp
  with assms show ?thesis by simp
qed

lemma code_char_of: "n < 256 \<Longrightarrow> code (char_of n) = n"
  by (simp add: code_def)

lemma char_of_code [simp]: "char_of (code c) = c"
  by (simp add: code_def)

text \<open>The encoder, in arithmetic.\<close>

lemma AppendUtf8_1: "cp \<le> 0x7F \<Longrightarrow> AppendUtf8 cp = [char_of cp]"
  by (simp add: AppendUtf8_def)

lemma AppendUtf8_2: "0x7F < cp \<Longrightarrow> cp \<le> 0x7FF \<Longrightarrow>
  AppendUtf8 cp = [char_of (0xC0 + cp div 64), char_of (0x80 + cp mod 64)]"
  by (simp add: AppendUtf8_def drop_bit_div and_mask_mod or_marker)

lemma AppendUtf8_3: "0x7FF < cp \<Longrightarrow> cp \<le> 0xFFFF \<Longrightarrow>
  AppendUtf8 cp = [char_of (0xE0 + cp div 4096), char_of (0x80 + (cp div 64) mod 64),
    char_of (0x80 + cp mod 64)]"
  by (simp add: AppendUtf8_def drop_bit_div and_mask_mod or_marker)

lemma AppendUtf8_4: "0xFFFF < cp \<Longrightarrow> cp \<le> 0x10FFFF \<Longrightarrow>
  AppendUtf8 cp = [char_of (0xF0 + cp div 262144), char_of (0x80 + (cp div 4096) mod 64),
    char_of (0x80 + (cp div 64) mod 64), char_of (0x80 + cp mod 64)]"
  by (simp add: AppendUtf8_def drop_bit_div and_mask_mod or_marker)

text \<open>One round of the continuation loop, in arithmetic.\<close>

lemma continuation_step:
  "continuation_loop (Suc i) cp (c # s) =
     (if 128 \<le> code c \<and> code c < 192 then continuation_loop i (cp * 64 + code c mod 64) s
      else Failed ''invalid UTF-8 continuation byte'' s)"
  using continuation_byte [OF code_less, of c] or_disjoint_add [of "code c mod 64" 6 cp]
  by (simp add: and_mask_mod)

lemma continuation_step_byte:
  "m < 64 \<Longrightarrow> continuation_loop (Suc i) cp (char_of (0x80 + m) # s) =
     continuation_loop i (cp * 64 + m) s"
  using mod_mult_self2 [of m 64 2] by (simp add: continuation_step code_char_of add.commute
      del: continuation_loop.simps)

declare continuation_loop.simps(2) [simp del]

lemmas continuation_rounds = numeral_3_eq_3 numeral_2_eq_2

lemma mod_lead:
  "0xC0 \<le> l \<Longrightarrow> l \<le> 0xDF \<Longrightarrow> l mod 32 = l - (0xC0::nat)"
  "0xE0 \<le> l \<Longrightarrow> l \<le> 0xEF \<Longrightarrow> l mod 16 = l - (0xE0::nat)"
  "0xF0 \<le> l \<Longrightarrow> l \<le> 0xF7 \<Longrightarrow> l mod 8 = l - (0xF0::nat)"
  using mod_mult_self2 [of "l - 0xC0" 32 6] mod_mult_self2 [of "l - 0xE0" 16 14]
    mod_mult_self2 [of "l - 0xF0" 8 30]
  by (simp_all add: mod_less)

lemma utf8_lead_eq:
  "utf8_lead l =
     (if 0xC2 \<le> l \<and> l \<le> 0xDF then Some (1, l - 0xC0, 0x80)
      else if 0xE0 \<le> l \<and> l \<le> 0xEF then Some (2, l - 0xE0, 0x800)
      else if 0xF0 \<le> l \<and> l \<le> 0xF4 then Some (3, l - 0xF0, 0x10000)
      else None)"
  by (simp add: utf8_lead_def and_mask_mod mod_lead)

lemma utf8_lead_simps:
  "q < 32 \<Longrightarrow> 2 \<le> q \<Longrightarrow> utf8_lead (0xC0 + q) = Some (1, q, 0x80)"
  "q < 16 \<Longrightarrow> utf8_lead (0xE0 + q) = Some (2, q, 0x800)"
  "q < 5 \<Longrightarrow> utf8_lead (0xF0 + q) = Some (3, q, 0x10000)"
  by (simp_all add: utf8_lead_eq)

lemma recompose:
  "x div 64 * 64 + x mod 64 = (x::nat)"
  "(x div 4096 * 64 + x div 64 mod 64) * 64 + x mod 64 = x"
  "((x div 262144 * 64 + x div 4096 mod 64) * 64 + x div 64 mod 64) * 64 + x mod 64 = x"
proof -
  show a: "\<And>x. x div 64 * 64 + x mod 64 = (x::nat)" by simp
  have b: "x div 4096 = x div 64 div 64" "x div 262144 = x div 4096 div 64" for x :: nat
    by (simp_all add: div_mult2_eq [symmetric])
  show c: "(x div 4096 * 64 + x div 64 mod 64) * 64 + x mod 64 = x" for x :: nat
    unfolding b(1) a ..
  show "((x div 262144 * 64 + x div 4096 mod 64) * 64 + x div 64 mod 64) * 64 + x mod 64 = x"
    unfolding b(2) a c ..
qed

lemma recompose_sum:
  "4096 * (x div 4096) + x div 64 mod 64 * 64 + x mod 64 = (x::nat)"
  "262144 * (x div 262144) + 4096 * (x div 4096 mod 64) + x div 64 mod 64 * 64 + x mod 64 = x"
  using recompose(2,3) [of x] by (simp_all add: algebra_simps)

text \<open>The validator copies the encoding of each scalar value above ASCII, \<dots>\<close>

lemma CopyValidatedUtf8_complete:
  assumes "scalar cp" "0x7F < cp"
  shows "\<exists>c u. AppendUtf8 cp = c # u \<and> 0x80 \<le> code c \<and>
    CopyValidatedUtf8 c (u @ r) = Scanned (c # u) r"
proof -
  have s: "\<not> (0xD800 \<le> cp \<and> cp \<le> 0xDFFF)" "cp \<le> 0x10FFFF" using assms(1) by (auto simp: scalar_def)
  show ?thesis
  proof (cases "cp \<le> 0x7FF")
    case True
    have q: "cp div 64 < 32" "2 \<le> cp div 64" using True assms(2) by linarith+
    then show ?thesis using True assms(2) s
      by (simp add: AppendUtf8_2 CopyValidatedUtf8_def code_char_of continuation_step_byte
          utf8_lead_simps)
  next
    case False
    show ?thesis
    proof (cases "cp \<le> 0xFFFF")
      case True
      have q: "cp div 4096 < 16" using True by linarith
      then show ?thesis using False True s
        by (auto simp: AppendUtf8_3 CopyValidatedUtf8_def code_char_of continuation_step_byte
            continuation_rounds utf8_lead_simps recompose_sum)
    next
      case big: False
      have q: "cp div 262144 < 5" using s by linarith
      then show ?thesis using big s
        by (auto simp: AppendUtf8_4 CopyValidatedUtf8_def code_char_of continuation_step_byte
            continuation_rounds utf8_lead_simps recompose_sum)
    qed
  qed
qed

text \<open>\<dots> and nothing else.\<close>

lemma continuation_char:
  "128 \<le> code b \<Longrightarrow> code b < 192 \<Longrightarrow> char_of (0x80 + code b mod 64) = b"
  using mod_mult_self2 [of "code b - 128" 64 2] char_of_code [of b] by simp

lemma div_mod_64:
  "m < 64 \<Longrightarrow> (a * 64 + m) div 64 = (a::nat)" "m < 64 \<Longrightarrow> (a * 64 + m) mod 64 = (m::nat)"
  by simp_all

lemma code_point_bounds:
  "a < 32 \<Longrightarrow> x < 64 \<Longrightarrow> a * 64 + x \<le> (0x7FF::nat)"
  "a < 16 \<Longrightarrow> x < 64 \<Longrightarrow> y < 64 \<Longrightarrow> (a * 64 + x) * 64 + y \<le> (0xFFFF::nat)"
  by (simp_all add: distrib_right)

lemma div_64_div: "x div 4096 = x div 64 div (64::nat)" "x div 262144 = x div 64 div 64 div (64::nat)"
  by (simp_all add: div_mult2_eq [symmetric])

lemma continuation_inv:
  "continuation_loop (Suc i) cp s = Scanned v r \<Longrightarrow>
     \<exists>b s'. s = b # s' \<and> 128 \<le> code b \<and> code b < 192 \<and>
       continuation_loop i (cp * 64 + code b mod 64) s' = Scanned v r"
proof (cases s)
  case Nil
  then show "continuation_loop (Suc i) cp s = Scanned v r \<Longrightarrow> ?thesis"
    by (simp add: continuation_loop.simps)
next
  case (Cons b s')
  then show "continuation_loop (Suc i) cp s = Scanned v r \<Longrightarrow> ?thesis"
    by (auto simp: continuation_step split: if_splits)
qed

lemma CopyValidatedUtf8_sound:
  assumes "CopyValidatedUtf8 c s = Scanned u r"
  shows "\<exists>cp. scalar cp \<and> 0x7F < cp \<and> u = AppendUtf8 cp \<and> c # s = u @ r"
proof -
  obtain n cp0 m cp where lead: "utf8_lead (code c) = Some (n, cp0, m)"
    and loop: "continuation_loop n cp0 s = Scanned cp r"
    and cp: "m \<le> cp" "scalar cp" and u: "u = c # take n s"
    using assms by (auto simp: CopyValidatedUtf8_def scalar_def
        split: option.splits prod.splits scan.splits if_splits)
  from lead consider
      "code c = 0xC0 + cp0" "cp0 < 32" "n = Suc 0" "m = 0x80"
    | "code c = 0xE0 + cp0" "cp0 < 16" "n = Suc (Suc 0)" "m = 0x800"
    | "code c = 0xF0 + cp0" "cp0 < 5" "n = Suc (Suc (Suc 0))" "m = 0x10000"
    by (auto simp: utf8_lead_eq split: if_splits)
  then show ?thesis
  proof cases
    case 1
    then have c: "char_of (0xC0 + cp0) = c" by (metis char_of_code)
    from loop 1 obtain b where s: "s = b # r" and b: "128 \<le> code b" "code b < 192"
      and v: "cp = cp0 * 64 + code b mod 64"
      by (auto dest!: continuation_inv)
    have "cp \<le> 0x7FF" using 1 v by (simp only: code_point_bounds mod_less_divisor zero_less_numeral)
    then have "AppendUtf8 cp = u"
      using cp 1 b by (simp add: AppendUtf8_2 v div_mod_64 c continuation_char u s)
    with cp 1 s u show ?thesis by (intro exI [of _ cp]) auto
  next
    case 2
    then have c: "char_of (0xE0 + cp0) = c" by (metis char_of_code)
    from loop 2 obtain b b' where s: "s = b # b' # r"
      and b: "128 \<le> code b" "code b < 192" "128 \<le> code b'" "code b' < 192"
      and v: "cp = (cp0 * 64 + code b mod 64) * 64 + code b' mod 64"
      by (auto dest!: continuation_inv)
    have "cp \<le> 0xFFFF" using 2 v by (simp only: code_point_bounds mod_less_divisor zero_less_numeral)
    then have "AppendUtf8 cp = u"
      using cp 2 b
      by (simp only: AppendUtf8_3 div_64_div) (simp only: v div_mod_64 c continuation_char u s, simp)
    with cp 2 s u show ?thesis by (intro exI [of _ cp]) auto
  next
    case 3
    then have c: "char_of (0xF0 + cp0) = c" by (metis char_of_code)
    from loop 3 obtain b b' b'' where s: "s = b # b' # b'' # r"
      and b: "128 \<le> code b" "code b < 192" "128 \<le> code b'" "code b' < 192"
        "128 \<le> code b''" "code b'' < 192"
      and v: "cp = ((cp0 * 64 + code b mod 64) * 64 + code b' mod 64) * 64 + code b'' mod 64"
      by (auto dest!: continuation_inv)
    have e: "AppendUtf8 cp = [char_of (0xF0 + cp div 64 div 64 div 64), char_of (0x80 + (cp div 64 div 64) mod 64),
      char_of (0x80 + (cp div 64) mod 64), char_of (0x80 + cp mod 64)]"
      using cp 3 AppendUtf8_4 [of cp] by (simp add: scalar_def div_64_div)
    have "cp div 64 = (cp0 * 64 + code b mod 64) * 64 + code b' mod 64" "cp mod 64 = code b'' mod 64"
      unfolding v by (simp_all only: div_mod_64 mod_less_divisor zero_less_numeral)
    with e have "AppendUtf8 cp = u"
      by (simp only: div_mod_64 mod_less_divisor zero_less_numeral c continuation_char u s b)
        (simp add: 3)
    with cp 3 s u show ?thesis by (intro exI [of _ cp]) auto
  qed
qed

section \<open>Hexadecimal escapes\<close>

definition hex_value :: "nat \<Rightarrow> string \<Rightarrow> nat" where
  "hex_value v h = foldl (\<lambda>v c. v * 16 + HexValue c) v h"

definition hex4 :: "string \<Rightarrow> nat \<Rightarrow> bool" where
  "hex4 h v \<longleftrightarrow> length h = 4 \<and> list_all IsHex h \<and> v = hex_value 0 h"

lemma HexValue_less: "IsHex c \<Longrightarrow> HexValue c < 16"
  by (auto simp: IsHex_def HexValue_def IsDigit_iff code_def less_eq_char_def)

lemma hex_loop_step: "IsHex c \<Longrightarrow> push_bit 4 v OR HexValue c = v * 16 + HexValue c"
  using or_disjoint_add [of "HexValue c" 4 v] HexValue_less [of c] by simp

lemma hex_loop_iff:
  "hex_loop n v s = Scanned w r \<longleftrightarrow>
     (\<exists>h. s = h @ r \<and> length h = n \<and> list_all IsHex h \<and> w = hex_value v h)"
proof (induction n v s rule: hex_loop.induct)
  case (1 v s)
  then show ?case by (auto simp: hex_value_def)
next
  case (2 i v s)
  show ?case
  proof (cases s)
    case Nil
    then show ?thesis by auto
  next
    case (Cons c t)
    show ?thesis
    proof (cases "IsHex c")
      case True
      have "hex_loop (Suc i) v s = Scanned w r \<longleftrightarrow>
          hex_loop i (v * 16 + HexValue c) t = Scanned w r"
        using True Cons by (simp add: hex_loop_step)
      also have "\<dots> \<longleftrightarrow> (\<exists>h. t = h @ r \<and> length h = i \<and> list_all IsHex h \<and>
          w = hex_value (v * 16 + HexValue c) h)"
        using 2 [OF Cons] True by (simp add: hex_loop_step)
      also have "\<dots> \<longleftrightarrow> (\<exists>h. s = h @ r \<and> length h = Suc i \<and> list_all IsHex h \<and>
          w = hex_value v h)"
        using Cons True by (auto simp: length_Suc_conv hex_value_def)
      finally show ?thesis .
    next
      case False
      then show ?thesis using Cons by (auto simp: length_Suc_conv)
    qed
  qed
qed

lemma ParseHex4_iff: "ParseHex4 s = Scanned v r \<longleftrightarrow> (\<exists>h. s = h @ r \<and> hex4 h v)"
  by (auto simp: ParseHex4_def hex4_def hex_loop_iff)

lemma hex_value_bound: "list_all IsHex h \<Longrightarrow> hex_value v h < (v + 1) * 16 ^ length h"
proof (induction h arbitrary: v)
  case Nil
  then show ?case by (simp add: hex_value_def)
next
  case (Cons c h)
  then have "hex_value v (c # h) < (v * 16 + HexValue c + 1) * 16 ^ length h"
    by (simp add: hex_value_def)
  also have "\<dots> \<le> ((v + 1) * 16) * 16 ^ length h"
    using HexValue_less [of c] Cons.prems by (intro mult_right_mono) auto
  finally show ?case by (simp add: algebra_simps)
qed

lemma hex4_bound: "hex4 h v \<Longrightarrow> v < 0x10000"
  using hex_value_bound [of h 0] by (simp add: hex4_def)

section \<open>The grammar of JSON strings\<close>

text \<open>One unit of the source text between the quotes, with the bytes it stands for.\<close>

inductive jchunk :: "string \<Rightarrow> string \<Rightarrow> bool" where
  plain: "0x20 \<le> code c \<Longrightarrow> code c < 0x80 \<Longrightarrow> c \<noteq> CHR 0x22 \<Longrightarrow> c \<noteq> CHR 0x5C \<Longrightarrow> jchunk [c] [c]"
| encoded: "scalar cp \<Longrightarrow> 0x7F < cp \<Longrightarrow> jchunk (AppendUtf8 cp) (AppendUtf8 cp)"
| escape: "simple_escape e = Some c \<Longrightarrow> jchunk [CHR 0x5C, e] [c]"
| unicode: "hex4 h cp \<Longrightarrow> scalar cp \<Longrightarrow> jchunk (CHR 0x5C # CHR ''u'' # h) (AppendUtf8 cp)"
| surrogates: "hex4 h hi \<Longrightarrow> hex4 k lo \<Longrightarrow> 0xD800 \<le> hi \<Longrightarrow> hi \<le> 0xDBFF \<Longrightarrow>
    0xDC00 \<le> lo \<Longrightarrow> lo \<le> 0xDFFF \<Longrightarrow>
    jchunk (CHR 0x5C # CHR ''u'' # h @ CHR 0x5C # CHR ''u'' # k)
      (AppendUtf8 (0x10000 + (hi - 0xD800) * 0x400 + (lo - 0xDC00)))"

inductive jstr :: "string \<Rightarrow> string \<Rightarrow> bool" where
  jstr_nil: "jstr [] []"
| jstr_cons: "jchunk a x \<Longrightarrow> jstr s v \<Longrightarrow> jstr (a @ s) (x @ v)"

declare jchunk.intros [intro] jstr.intros [intro]

lemma code_eq_iff: "code a = code b \<longleftrightarrow> a = b"
  by (metis char_of_code)

lemma simple_escape_cases:
  "simple_escape e = Some c \<Longrightarrow> code c < 0x80"
  by (auto simp: simple_escape_def code_def split: if_splits)

lemma scalar_ascii: "n < 0x80 \<Longrightarrow> scalar n"
  by (simp add: scalar_def)

lemma utf8_text_ascii: "code c < 0x80 \<Longrightarrow> utf8_text s \<Longrightarrow> utf8_text (c # s)"
  using utf8_cons [of "code c" s] by (simp add: AppendUtf8_1 scalar_ascii)

lemma jchunk_utf8: "jchunk a x \<Longrightarrow> utf8_text v \<Longrightarrow> utf8_text (x @ v)"
  by (induction rule: jchunk.induct)
    (auto simp: utf8_text_ascii simple_escape_cases scalar_def intro!: utf8_cons)

lemma jstr_utf8: "jstr a v \<Longrightarrow> utf8_text v"
  by (induction rule: jstr.induct) (auto intro: jchunk_utf8)

text \<open>Each unit is one round of the loop.\<close>

lemma ParseUnicodeEscape_unicode:
  "hex4 h cp \<Longrightarrow> scalar cp \<Longrightarrow> ParseUnicodeEscape (h @ s) = Scanned (AppendUtf8 cp) s"
proof -
  assume "hex4 h cp" "scalar cp"
  moreover have "ParseHex4 (h @ s) = Scanned cp s"
    using \<open>hex4 h cp\<close> by (auto simp: ParseHex4_iff)
  ultimately show ?thesis by (auto simp: ParseUnicodeEscape_def scalar_def)
qed

lemma ParseUnicodeEscape_pair:
  assumes "hex4 h hi" "hex4 k lo" "0xD800 \<le> hi" "hi \<le> 0xDBFF" "0xDC00 \<le> lo" "lo \<le> 0xDFFF"
  shows "ParseUnicodeEscape (h @ CHR 0x5C # CHR ''u'' # k @ s) =
    Scanned (AppendUtf8 (0x10000 + (hi - 0xD800) * 0x400 + (lo - 0xDC00))) s"
proof -
  have "ParseHex4 (h @ CHR 0x5C # CHR ''u'' # k @ s) = Scanned hi (CHR 0x5C # CHR ''u'' # k @ s)"
    "ParseHex4 (k @ s) = Scanned lo s" "length k = 4"
    using assms(1,2) by (auto simp: ParseHex4_iff hex4_def)
  then show ?thesis using assms
    by (simp add: ParseUnicodeEscape_def push_bit_eq_mult)
qed

lemma ParseUnicodeEscape_inv:
  assumes "ParseUnicodeEscape s = Scanned u r"
  shows "\<exists>a. s = a @ r \<and> jchunk (CHR 0x5C # CHR ''u'' # a) u"
proof -
  obtain first t where 1: "ParseHex4 s = Scanned first t"
    using assms by (auto simp: ParseUnicodeEscape_def split: scan.splits)
  then obtain h where h: "s = h @ t" "hex4 h first" by (auto simp: ParseHex4_iff)
  show ?thesis
  proof (cases "0xD800 \<le> first \<and> first \<le> 0xDBFF")
    case True
    have g: "6 \<le> length t" "t ! 0 = CHR 0x5C" "t ! 1 = CHR ''u''"
      using assms 1 True by (auto simp: ParseUnicodeEscape_def split: if_splits)
    then obtain second where 2: "ParseHex4 (drop 2 t) = Scanned second r"
      "0xDC00 \<le> second" "second \<le> 0xDFFF"
      "u = AppendUtf8 (0x10000 + (first - 0xD800) * 0x400 + (second - 0xDC00))"
      using assms 1 True by (auto simp: ParseUnicodeEscape_def push_bit_eq_mult
          split: if_splits scan.splits)
    then obtain k where k: "drop 2 t = k @ r" "hex4 k second" by (auto simp: ParseHex4_iff)
    have "t = CHR 0x5C # CHR ''u'' # k @ r"
      using g k(1) by (cases t; cases "tl t") auto
    with h 2 k True show ?thesis
      using surrogates [OF h(2) k(2)] by (intro exI [of _ "h @ CHR 0x5C # CHR ''u'' # k"]) simp
  next
    case False
    then have "u = AppendUtf8 first" "r = t" "scalar first"
      using assms 1 hex4_bound [OF h(2)]
      by (auto simp: ParseUnicodeEscape_def scalar_def split: if_splits)
    with h show ?thesis by auto
  qed
qed

lemma code_quote: "code CHR 0x22 = 0x22" "code CHR 0x5C = 0x5C"
  by (simp_all add: code_def)

lemma AppendUtf8_Cons: "\<exists>c u. AppendUtf8 cp = c # u"
  by (simp add: AppendUtf8_def)

lemma ParseString_loop_chunk:
  "jchunk a x \<Longrightarrow> ParseString_loop (a @ s) out = ParseString_loop s (out @ x)"
proof (induction rule: jchunk.induct)
  case (plain c)
  then show ?case by (simp add: ParseString_loop.simps)
next
  case (encoded cp)
  then obtain c u where c: "AppendUtf8 cp = c # u" "0x80 \<le> code c"
    "CopyValidatedUtf8 c (u @ s) = Scanned (c # u) s"
    using CopyValidatedUtf8_complete by blast
  then have "c \<noteq> CHR 0x22" by (auto simp: code_quote)
  with c show ?case by (simp add: ParseString_loop.simps)
next
  case (escape e c)
  then show ?case by (simp add: ParseString_loop.simps ParseEscape_def code_quote)
next
  case (unicode h cp)
  then show ?case
    by (simp add: ParseString_loop.simps ParseEscape_def code_quote simple_escape_def
        ParseUnicodeEscape_unicode)
next
  case (surrogates h hi k lo)
  then show ?case
    using ParseUnicodeEscape_pair [OF surrogates, of s]
    by (simp add: ParseString_loop.simps ParseEscape_def code_quote simple_escape_def)
qed

lemma ParseString_loop_complete:
  "jstr a v \<Longrightarrow> ParseString_loop (a @ CHR 0x22 # r) out = Scanned (out @ v) r"
proof (induction arbitrary: out rule: jstr.induct)
  case jstr_nil
  then show ?case by (simp add: ParseString_loop.simps)
next
  case (jstr_cons a x s v)
  then show ?case by (simp add: ParseString_loop_chunk)
qed

lemma ParseString_loop_sound:
  "ParseString_loop s out = Scanned v r \<Longrightarrow>
     \<exists>a x. s = a @ CHR 0x22 # r \<and> v = out @ x \<and> jstr a x"
proof (induction s out arbitrary: v r rule: ParseString_loop.induct)
  case (1 out)
  then show ?case by (simp add: ParseString_loop.simps)
next
  case (2 c s out)
  have step: ?case if ch: "jchunk a x" "c # s = a @ t" "ParseString_loop t (out @ x) = Scanned v r"
    and IH: "\<And>v r. ParseString_loop t (out @ x) = Scanned v r \<Longrightarrow>
      \<exists>b y. t = b @ CHR 0x22 # r \<and> v = (out @ x) @ y \<and> jstr b y" for a x t
  proof -
    obtain b y where "t = b @ CHR 0x22 # r" "v = (out @ x) @ y" "jstr b y"
      using IH ch(3) by blast
    with ch(1,2) show ?thesis by (intro exI [of _ "a @ b"] exI [of _ "x @ y"]) auto
  qed
  consider "c = CHR 0x22" | "c \<noteq> CHR 0x22" "code c < 0x20" | "c \<noteq> CHR 0x22" "0x80 \<le> code c"
    | "c \<noteq> CHR 0x22" "0x20 \<le> code c" "code c < 0x80" "c \<noteq> CHR 0x5C" | "c = CHR 0x5C"
    by linarith
  then show ?case
  proof cases
    case 1
    with 2(4) show ?thesis by (intro exI [of _ "[]"]) (auto simp: ParseString_loop.simps)
  next
    case 2
    with \<open>ParseString_loop (c # s) out = Scanned v r\<close> show ?thesis by (simp add: ParseString_loop.simps)
  next
    case 3
    then obtain u t where u: "CopyValidatedUtf8 c s = Scanned u t"
      and t: "ParseString_loop t (out @ u) = Scanned v r"
      using 2(4) by (auto simp: ParseString_loop.simps split: scan.splits)
    obtain cp where cp: "scalar cp" "0x7F < cp" "u = AppendUtf8 cp" "c # s = u @ t"
      using CopyValidatedUtf8_sound [OF u] by blast
    then show ?thesis
      using step [OF encoded [OF cp(1,2)] _ t [unfolded cp(3)]] 2(1) 3 u by simp
  next
    case 4
    then show ?thesis using step [OF plain [of c]] 2(2,4) by (simp add: ParseString_loop.simps)
  next
    case 5
    obtain e s2 u t where s: "s = e # s2" and u: "ParseEscape e s2 = Scanned u t"
      and t: "ParseString_loop t (out @ u) = Scanned v r"
      using 2(4) 5 by (auto simp: ParseString_loop.simps code_quote split: list.splits scan.splits)
    obtain a where "jchunk (CHR 0x5C # e # a) u" "s2 = a @ t"
      using u by (auto simp: ParseEscape_def dest!: ParseUnicodeEscape_inv
          split: option.splits if_splits)
    then show ?thesis
      using step [of "CHR 0x5C # e # a" u t] 2(3) 5 s u t by (simp add: code_quote)
  qed
qed

section \<open>What a parsed string is\<close>

text \<open>\<open>ParseString\<close> accepts exactly the JSON string grammar: after the opening quote, a sequence
  of plain characters, well-formed multi-byte characters, simple escapes, unicode escapes of scalar
  values and surrogate pairs, up to the first closing quote; its result is the concatenation of the
  bytes these units stand for, and the rest starts after the closing quote.\<close>

lemma ParseString_iff_grammar:
  "ParseString (CHR 0x22 # s) = Scanned v r \<longleftrightarrow> (\<exists>a. s = a @ CHR 0x22 # r \<and> jstr a v)"
  unfolding ParseString_def list.sel
  by (auto dest: ParseString_loop_sound intro: ParseString_loop_complete [where out = "[]", simplified])

lemma ParseString_utf8: "ParseString s = Scanned v r \<Longrightarrow> utf8_text v"
  by (auto simp: ParseString_def dest!: ParseString_loop_sound dest: jstr_utf8)

section \<open>Quoting is inverted\<close>


lemma hex4_control:
  assumes "code c < 0x20"
  shows "hex4 (''00'' @ [hex_digit (drop_bit 4 (code c)), hex_digit (code c AND 0x0F)]) (code c)"
proof -
  have "\<forall>n \<in> set [0..<0x20].
      hex4 (''00'' @ [hex_digit (drop_bit 4 n), hex_digit (n AND 0x0F)]) n"
    by code_simp
  with assms show ?thesis by simp
qed

lemma quote_control: "code c < 0x20 \<Longrightarrow>
  jchunk (CHR 0x5C # ''u00'' @ [hex_digit (drop_bit 4 (code c)), hex_digit (code c AND 0x0F)]) [c]"
  using unicode [OF hex4_control [of c] scalar_ascii] by (simp add: AppendUtf8_1)

definition escape_letter :: "char \<Rightarrow> char option" where
  "escape_letter c = map_of
     [(CHR 0x22, CHR 0x22), (CHR 0x5C, CHR 0x5C), (CHR 0x08, CHR ''b''), (CHR 0x0C, CHR ''f''),
      (CHR 0x0A, CHR ''n''), (CHR 0x0D, CHR ''r''), (CHR 0x09, CHR ''t'')] c"

lemma quote_char_eq:
  "quote_char c =
     (case escape_letter c of
        Some e \<Rightarrow> [CHR 0x5C, e]
      | None \<Rightarrow> if code c < 0x20 then
          CHR 0x5C # ''u00'' @ [hex_digit (drop_bit 4 (code c)), hex_digit (code c AND 0x0F)]
        else [c])"
  by (simp add: quote_char_def escape_letter_def)

lemma escape_letter_Some: "escape_letter c = Some e \<Longrightarrow> simple_escape e = Some c"
  by (auto simp: escape_letter_def simple_escape_def split: if_splits)

lemma escape_letter_None: "escape_letter c = None \<Longrightarrow> c \<noteq> CHR 0x22 \<and> c \<noteq> CHR 0x5C"
  by (simp add: escape_letter_def split: if_splits)

lemma quote_char_chunk:
  assumes "code c < 0x80" shows "jchunk (quote_char c) [c]"
proof (cases "escape_letter c")
  case None
  with assms escape_letter_None [OF None] show ?thesis
    by (cases "code c < 0x20") (simp_all add: quote_char_eq quote_control [simplified] plain)
next
  case (Some e)
  then show ?thesis by (simp add: quote_char_eq escape escape_letter_Some)
qed

lemma AppendUtf8_high: "0x7F < cp \<Longrightarrow> scalar cp \<Longrightarrow> c \<in> set (AppendUtf8 cp) \<Longrightarrow> 0x80 \<le> code c"
proof -
  assume a: "0x7F < cp" "scalar cp" "c \<in> set (AppendUtf8 cp)"
  have m: "0x80 + x mod 64 < 256" for x :: nat
    using mod_less_divisor [of 64 x] by linarith
  consider "cp \<le> 0x7FF" | "0x7FF < cp" "cp \<le> 0xFFFF" | "0xFFFF < cp" "cp \<le> 0x10FFFF"
    using a(2) unfolding scalar_def by linarith
  then show ?thesis
  proof cases
    case 1
    then have "0xC0 + cp div 64 < 256" by linarith
    with a(1,3) 1 m show ?thesis by (auto simp: AppendUtf8_2 code_char_of)
  next
    case 2
    then have "0xE0 + cp div 4096 < 256" by linarith
    with a(3) 2 m show ?thesis by (auto simp: AppendUtf8_3 code_char_of)
  next
    case 3
    then have "0xF0 + cp div 262144 < 256" by linarith
    with a(3) 3 m show ?thesis by (auto simp: AppendUtf8_4 code_char_of)
  qed
qed

lemma quote_char_high: "0x80 \<le> code c \<Longrightarrow> quote_char c = [c]"
  using simple_escape_cases [OF escape_letter_Some, of c]
  by (cases "escape_letter c") (auto simp: quote_char_eq)

lemma Quote_jstr: "utf8_text s \<Longrightarrow> jstr (concat (map quote_char s)) s"
proof (induction rule: utf8_text.induct)
  case utf8_nil
  then show ?case by auto
next
  case (utf8_cons cp s)
  have "jchunk (concat (map quote_char (AppendUtf8 cp))) (AppendUtf8 cp)"
  proof (cases "cp \<le> 0x7F")
    case True
    then show ?thesis using quote_char_chunk [of "char_of cp"] by (simp add: AppendUtf8_1 code_char_of)
  next
    case False
    then have "map quote_char (AppendUtf8 cp) = map (\<lambda>c. [c]) (AppendUtf8 cp)"
      using AppendUtf8_high [OF _ utf8_cons.hyps(1)]
      by (intro map_cong [OF refl] quote_char_high) simp
    with False utf8_cons.hyps(1) show ?thesis
      by (simp only: concat_map_singleton encoded not_le list.map_ident)
  qed
  with utf8_cons.IH show ?case by auto
qed

text \<open>Quoting is lossless: for every valid UTF-8 text, the parser reads back from its quoted
  form, whatever follows it, the same text, and stops right after the closing quote.\<close>

lemma ParseString_Quote:
  "utf8_text s \<Longrightarrow> ParseString (Quote s @ r) = Scanned s r"
  unfolding Quote_def using ParseString_loop_complete [OF Quote_jstr, where out = "[]"]
  by (simp add: ParseString_def)

text \<open>On the text consisting of a line feed, a quote, the control byte 1 and an encoded \<open>0xE9\<close>.\<close>

lemma ParseString_Quote_witness:
  "Quote [CHR 0x0A, CHR 0x22, CHR 0x01, CHR 0xC3, CHR 0xA9] =
     [CHR 0x22, CHR 0x5C, CHR ''n'', CHR 0x5C, CHR 0x22] @ CHR 0x5C # ''u0001'' @
     [CHR 0xC3, CHR 0xA9, CHR 0x22]
   \<and> ParseString (Quote [CHR 0x0A, CHR 0x22, CHR 0x01, CHR 0xC3, CHR 0xA9] @ '','') =
     Scanned [CHR 0x0A, CHR 0x22, CHR 0x01, CHR 0xC3, CHR 0xA9] '',''"
proof
  have "utf8_text (AppendUtf8 0xE9 @ [])"
    by (rule utf8_cons) (simp_all add: scalar_def utf8_nil)
  moreover have "AppendUtf8 0xE9 = [CHR 0xC3, CHR 0xA9]" by code_simp
  ultimately have "utf8_text [CHR 0x0A, CHR 0x22, CHR 0x01, CHR 0xC3, CHR 0xA9]"
    by (simp add: utf8_text_ascii code_def)
  then show "ParseString (Quote [CHR 0x0A, CHR 0x22, CHR 0x01, CHR 0xC3, CHR 0xA9] @ '','') =
      Scanned [CHR 0x0A, CHR 0x22, CHR 0x01, CHR 0xC3, CHR 0xA9] '',''"
    by (rule ParseString_Quote)
  show "Quote [CHR 0x0A, CHR 0x22, CHR 0x01, CHR 0xC3, CHR 0xA9] =
     [CHR 0x22, CHR 0x5C, CHR ''n'', CHR 0x5C, CHR 0x22] @ CHR 0x5C # ''u0001'' @
     [CHR 0xC3, CHR 0xA9, CHR 0x22]"
    by code_simp
qed

definition unquote :: "string \<Rightarrow> string option" where
  "unquote s = (case ParseString s of Scanned v [] \<Rightarrow> Some v | _ \<Rightarrow> None)"

text \<open>The interface other components use: quoting is a codec on UTF-8 text.\<close>

interpretation json_string: codec Quote unquote utf8_text
proof unfold_locales
  fix x assume "utf8_text x"
  then have "ParseString (Quote x @ []) = Scanned x []"
    unfolding Quote_def using ParseString_loop_complete [OF Quote_jstr, where out = "[]" and r = "[]"]
    by (simp add: ParseString_def)
  then show "unquote (Quote x) = Some x" by (simp add: unquote_def)
qed

end
