(* ===== verification/Json_Grammar.thy ===== *)
theory Json_Grammar
  imports Json_Text
begin

text \<open>
  The value layer of the JSON parser against the JSON grammar: which texts are accepted, with which
  value, under the limits on depth, number of values and bytes, and that the recursion budget of
  the model is never exhausted.
\<close>

section \<open>White space and delimiters\<close>

abbreviation ws :: "string \<Rightarrow> bool" where
  "ws w \<equiv> list_all is_json_ws w"

lemma SkipWhitespace_split: "\<exists>w. s = w @ SkipWhitespace s \<and> ws w"
  unfolding SkipWhitespace_def
  by (intro exI [of _ "takeWhile is_json_ws s"]) (auto simp: list_all_iff dest: set_takeWhileD)

lemma SkipWhitespace_append [simp]: "ws w \<Longrightarrow> SkipWhitespace (w @ s) = SkipWhitespace s"
  unfolding SkipWhitespace_def by (simp add: dropWhile_append2 list_all_iff)

lemma SkipWhitespace_ws [simp]: "SkipWhitespace s = [] \<longleftrightarrow> ws s"
  unfolding SkipWhitespace_def by (simp add: list_all_iff)

lemma SkipWhitespace_id [simp]: "s \<noteq> [] \<Longrightarrow> \<not> is_json_ws (hd s) \<Longrightarrow> SkipWhitespace s = s"
  unfolding SkipWhitespace_def by (cases s) simp_all

lemma length_SkipWhitespace: "length (SkipWhitespace s) \<le> length s"
  by (simp add: SkipWhitespace_def length_dropWhile_le)

text \<open>A number token ends where the text ends or at a character that no number contains.\<close>

definition delimiter :: "string \<Rightarrow> bool" where
  "delimiter r \<longleftrightarrow> r = [] \<or> is_json_ws (hd r) \<or> hd r \<in> {CHR '','', CHR 0x5D, CHR 0x7D}"

lemma delimiter_chars:
  "delimiter r \<Longrightarrow> r \<noteq> [] \<Longrightarrow>
     \<not> IsDigit (hd r) \<and> hd r \<noteq> CHR ''.'' \<and> hd r \<noteq> CHR ''e'' \<and> hd r \<noteq> CHR ''E'' "
  by (auto simp: delimiter_def is_json_ws_def IsDigit_iff)

lemma delimiter_ws: "ws w \<Longrightarrow> delimiter r \<Longrightarrow> delimiter (w @ r)"
  by (cases w) (auto simp: delimiter_def)

section \<open>Numbers\<close>

definition digits1 :: "string \<Rightarrow> bool" where
  "digits1 ds \<longleftrightarrow> ds \<noteq> [] \<and> list_all IsDigit ds"

definition frac_text :: "string \<Rightarrow> bool" where
  "frac_text a \<longleftrightarrow> a = [] \<or> (hd a = CHR ''.'' \<and> digits1 (tl a))"

definition exp_text :: "string \<Rightarrow> bool" where
  "exp_text a \<longleftrightarrow> a = [] \<or>
     (hd a \<in> {CHR ''e'', CHR ''E''} \<and>
        (digits1 (tl a) \<or> (tl a \<noteq> [] \<and> hd (tl a) \<in> {CHR ''+'', CHR ''-''} \<and> digits1 (tl (tl a)))))"

definition number_text :: "string \<Rightarrow> bool" where
  "number_text a \<longleftrightarrow> (\<exists>sgn i f e. a = sgn @ i @ f @ e \<and> sgn \<in> {[], ''-''} \<and>
     canonical_decimal i \<and> frac_text f \<and> exp_text e)"

definition no_digit :: "string \<Rightarrow> bool" where
  "no_digit r \<longleftrightarrow> r = [] \<or> \<not> IsDigit (hd r)"

lemma digits_split: "s \<noteq> [] \<Longrightarrow> IsDigit (hd s) \<Longrightarrow>
  \<exists>ds. s = ds @ dropWhile IsDigit s \<and> digits1 ds \<and> no_digit (dropWhile IsDigit s)"
  using hd_dropWhile [of IsDigit s]
  by (intro exI [of _ "takeWhile IsDigit s"])
    (cases s; auto simp: digits1_def no_digit_def list_all_iff dest: set_takeWhileD)

lemma digits1_drop: "digits1 ds \<Longrightarrow> no_digit r \<Longrightarrow> dropWhile IsDigit (ds @ r) = r"
  by (simp add: digits1_def no_digit_def takeWhile_stop)

lemma digits1_hd: "digits1 ds \<Longrightarrow> ds \<noteq> [] \<and> IsDigit (hd ds)"
  by (cases ds) (auto simp: digits1_def)

lemma nonzero_digit: "\<not> (c < CHR ''1'' \<or> CHR ''9'' < c) \<longleftrightarrow> IsDigit c \<and> c \<noteq> CHR ''0''"
proof -
  have "c \<noteq> CHR ''0'' \<longleftrightarrow> code c \<noteq> 48" using code_eq_iff [of c "CHR ''0''"] by (simp add: code_def)
  then show ?thesis by (auto simp: IsDigit_iff less_char_def code_def)
qed

lemma canonical_zero: "canonical_decimal (CHR ''0'' # i) \<Longrightarrow> i = []"
  by (cases i) (simp_all add: canonical_decimal_def)

lemma number_int_iff:
  "number_int s = Scanned () r \<longleftrightarrow> (\<exists>i. s = i @ r \<and> canonical_decimal i \<and> no_digit r)"
proof (cases "s = []")
  case True
  then show ?thesis by (auto simp: number_int_def canonical_decimal_def)
next
  case False
  then obtain c t where s: "s = c # t" by (cases s) auto
  show ?thesis
  proof (cases "c = CHR ''0''")
    case True
    have "\<exists>i. s = i @ r \<and> canonical_decimal i \<and> no_digit r" if "r = t" "no_digit t"
      using that s True by (intro exI [of _ "[c]"]) (simp add: canonical_decimal_def IsDigit_iff)
    moreover have "r = t \<and> no_digit t" if i: "s = i @ r" "canonical_decimal i" "no_digit r" for i
    proof (cases i)
      case Nil
      with i(2) show ?thesis by (simp add: canonical_decimal_def)
    next
      case (Cons a i')
      with i(1) s have "a = c" "t = i' @ r" by simp_all
      moreover have "i' = []" using i(2) True canonical_zero unfolding Cons \<open>a = c\<close> by blast
      ultimately show ?thesis using i(3) by simp
    qed
    ultimately have iff: "(\<exists>i. s = i @ r \<and> canonical_decimal i \<and> no_digit r) \<longleftrightarrow> r = t \<and> no_digit t"
      by blast
    show ?thesis unfolding iff using s True by (auto simp: number_int_def no_digit_def)
  next
    case c0: False
    show ?thesis
    proof (cases "IsDigit c")
      case True
      have "\<exists>i. s = i @ r \<and> canonical_decimal i \<and> no_digit r" if "r = dropWhile IsDigit s"
      proof -
        have "s \<noteq> []" "IsDigit (hd s)" using s True by simp_all
        from digits_split [OF this, folded that] obtain ds
          where ds: "s = ds @ r" "digits1 ds" "no_digit r" by blast
        then have "hd ds = c" using s by (cases ds) (auto simp: digits1_def)
        with ds c0 show ?thesis
          by (intro exI [of _ ds]) (simp add: canonical_decimal_def digits1_def)
      qed
      moreover have "r = dropWhile IsDigit s" if "s = i @ r" "canonical_decimal i" "no_digit r" for i
        using that digits1_drop [of i r] by (simp add: canonical_decimal_def digits1_def)
      ultimately have iff: "(\<exists>i. s = i @ r \<and> canonical_decimal i \<and> no_digit r) \<longleftrightarrow>
        r = dropWhile IsDigit s" by blast
      show ?thesis unfolding iff using s True c0 nonzero_digit [of c] by (auto simp: number_int_def)
    next
      case False
      then show ?thesis using s c0 nonzero_digit [of c]
        by (auto simp: number_int_def canonical_decimal_def append_eq_Cons_conv Cons_eq_append_conv)
    qed
  qed
qed

lemma number_frac_sound: "number_frac s = Scanned () r \<Longrightarrow> \<exists>f. s = f @ r \<and> frac_text f"
proof -
  assume a: "number_frac s = Scanned () r"
  show ?thesis
  proof (cases "s \<noteq> [] \<and> hd s = CHR ''.''")
    case True
    with a digits_split [of "tl s"] obtain ds where "tl s = ds @ r" "digits1 ds"
      by (auto simp: number_frac_def split: if_splits)
    with True show ?thesis
      by (intro exI [of _ "CHR ''.'' # ds"]) (cases s; auto simp: frac_text_def)
  next
    case False
    with a show ?thesis by (auto simp: number_frac_def frac_text_def split: if_splits)
  qed
qed

lemma number_exp_sound: "number_exp s = Scanned () r \<Longrightarrow> \<exists>e. s = e @ r \<and> exp_text e"
proof -
  assume a: "number_exp s = Scanned () r"
  show ?thesis
  proof (cases "s \<noteq> [] \<and> (hd s = CHR ''e'' \<or> hd s = CHR ''E'')")
    case True
    define s1 where "s1 = tl s"
    define s2 where "s2 = (if s1 \<noteq> [] \<and> (hd s1 = CHR ''+'' \<or> hd s1 = CHR ''-'') then tl s1 else s1)"
    have "s2 \<noteq> []" "IsDigit (hd s2)" "r = dropWhile IsDigit s2"
      using a True by (auto simp: number_exp_def s2_def s1_def Let_def split: if_splits)
    with digits_split [of s2] obtain ds where ds: "s2 = ds @ r" "digits1 ds" by auto
    show ?thesis
    proof (cases "s1 \<noteq> [] \<and> (hd s1 = CHR ''+'' \<or> hd s1 = CHR ''-'')")
      case signed: True
      then have "s = (hd s # hd s1 # ds) @ r" using True ds s2_def s1_def by (cases s; cases s1) auto
      then show ?thesis using True signed ds(2)
        by (intro exI [of _ "hd s # hd s1 # ds"]) (auto simp: exp_text_def)
    next
      case False
      then have "s = (hd s # ds) @ r" using True ds s2_def s1_def by (cases s) auto
      then show ?thesis using True ds(2)
        by (intro exI [of _ "hd s # ds"]) (auto simp: exp_text_def)
    qed
  next
    case False
    with a show ?thesis by (auto simp: number_exp_def exp_text_def split: if_splits)
  qed
qed

lemma number_frac_complete:
  assumes "frac_text f" "no_digit t" "t = [] \<or> hd t \<noteq> CHR ''.''"
  shows "number_frac (f @ t) = Scanned () t"
proof (cases "f = []")
  case True
  with assms show ?thesis by (auto simp: number_frac_def)
next
  case False
  then obtain ds where "f = CHR ''.'' # ds" "digits1 ds"
    using assms(1) by (cases f) (auto simp: frac_text_def)
  with assms(2) show ?thesis
    using digits1_hd [of ds] digits1_drop [of ds t] by (simp add: number_frac_def)
qed

lemma digit_not_sign: "IsDigit c \<Longrightarrow> c \<noteq> CHR ''+'' \<and> c \<noteq> CHR ''-''"
  by (auto simp: IsDigit_iff)

lemma number_exp_complete:
  assumes "exp_text e" "no_digit r" "r = [] \<or> hd r \<noteq> CHR ''e'' \<and> hd r \<noteq> CHR ''E''"
  shows "number_exp (e @ r) = Scanned () r"
proof (cases "e = []")
  case True
  with assms show ?thesis by (auto simp: number_exp_def)
next
  case False
  then obtain c t where e: "e = c # t" by (cases e) auto
  then have c: "c = CHR ''e'' \<or> c = CHR ''E''" using assms(1) by (auto simp: exp_text_def)
  have "digits1 t \<or> (\<exists>x ds. t = x # ds \<and> (x = CHR ''+'' \<or> x = CHR ''-'') \<and> digits1 ds)"
    using assms(1) e by (cases t) (auto simp: exp_text_def)
  then show ?thesis
  proof
    assume t: "digits1 t"
    have "hd t \<noteq> CHR ''+'' \<and> hd t \<noteq> CHR ''-''" using digits1_hd [OF t] digit_not_sign by blast
    with t c e assms(2) show ?thesis
      using digits1_hd [OF t] digits1_drop [OF t] by (auto simp: number_exp_def)
  next
    assume "\<exists>x ds. t = x # ds \<and> (x = CHR ''+'' \<or> x = CHR ''-'') \<and> digits1 ds"
    then obtain x ds where "t = x # ds" "x = CHR ''+'' \<or> x = CHR ''-''" "digits1 ds" by blast
    with c e assms(2) show ?thesis
      using digits1_hd [of ds] digits1_drop [of ds r] by (auto simp: number_exp_def)
  qed
qed

lemma exp_text_hd: "exp_text e \<Longrightarrow> e \<noteq> [] \<Longrightarrow> hd e = CHR ''e'' \<or> hd e = CHR ''E''"
  by (auto simp: exp_text_def)

lemma frac_text_hd: "frac_text f \<Longrightarrow> f \<noteq> [] \<Longrightarrow> hd f = CHR ''.''"
  by (auto simp: frac_text_def)

lemma not_digit_letters: "\<not> IsDigit CHR ''e''" "\<not> IsDigit CHR ''E''" "\<not> IsDigit CHR ''.''"
  "\<not> IsDigit CHR ''-''"
  by (simp_all add: IsDigit_iff)

lemma exp_follow:
  assumes "exp_text e" "delimiter r"
  shows "no_digit (e @ r)" "e @ r = [] \<or> hd (e @ r) \<noteq> CHR ''.''"
  using delimiter_chars [OF assms(2)] exp_text_hd [OF assms(1)]
  by (cases e; force simp: no_digit_def not_digit_letters)+

lemma frac_follow: "frac_text f \<Longrightarrow> no_digit t \<Longrightarrow> no_digit (f @ t)"
  using frac_text_hd [of f] by (cases f) (auto simp: no_digit_def not_digit_letters)

lemma canonical_hd: "canonical_decimal i \<Longrightarrow> i \<noteq> [] \<and> IsDigit (hd i)"
  by (cases i) (auto simp: canonical_decimal_def)

lemma ParseNumber_complete:
  assumes "number_text a" "delimiter r"
  shows "ParseNumber (a @ r) = Scanned a r"
proof -
  obtain sgn i f e where a: "a = sgn @ i @ f @ e" and g: "sgn \<in> {[], ''-''}"
    and i: "canonical_decimal i" and f: "frac_text f" and e: "exp_text e"
    using assms(1) unfolding number_text_def by blast
  have r: "no_digit r" "r = [] \<or> hd r \<noteq> CHR ''e'' \<and> hd r \<noteq> CHR ''E''"
    using delimiter_chars [OF assms(2)] by (auto simp: no_digit_def)
  have 3: "number_exp (e @ r) = Scanned () r" using number_exp_complete [OF e r] .
  have 2: "number_frac (f @ e @ r) = Scanned () (e @ r)"
    using number_frac_complete [OF f exp_follow [OF e assms(2)]] .
  have 1: "number_int (i @ f @ e @ r) = Scanned () (f @ e @ r)"
    using i frac_follow [OF f exp_follow(1) [OF e assms(2)]] by (auto simp: number_int_iff)
  have "i \<noteq> [] \<and> hd i \<noteq> CHR ''-''" using canonical_hd [OF i] not_digit_letters(4) by metis
  with g 1 2 3 show ?thesis by (auto simp: a ParseNumber_def)
qed

lemma ParseNumber_sound:
  assumes "ParseNumber s = Scanned a r"
  shows "s = a @ r \<and> number_text a"
proof -
  define neg where "neg \<longleftrightarrow> s \<noteq> [] \<and> hd s = CHR ''-''"
  define s1 where "s1 = (if neg then tl s else s)"
  obtain s2 s3 where steps: "number_int s1 = Scanned () s2" "number_frac s2 = Scanned () s3"
    "number_exp s3 = Scanned () r" and a: "a = take (length s - length r) s"
    using assms unfolding ParseNumber_def Let_def neg_def [symmetric] s1_def [symmetric]
    by (auto split: if_splits scan.splits)
  obtain i f e where p: "s1 = i @ s2" "canonical_decimal i" "s2 = f @ s3" "frac_text f"
    "s3 = e @ r" "exp_text e"
    using steps(1) number_frac_sound [OF steps(2)] number_exp_sound [OF steps(3)]
    unfolding number_int_iff by blast
  define sgn where "sgn = (if neg then ''-'' else [])"
  have "s = sgn @ s1"
    by (cases s) (auto simp: neg_def sgn_def s1_def)
  then have s: "s = (sgn @ i @ f @ e) @ r" using p by simp
  then have e: "a = sgn @ i @ f @ e" using a by simp
  then have "number_text a" unfolding number_text_def using p
    by (intro exI [of _ sgn] exI [of _ i] exI [of _ f] exI [of _ e]) (simp add: sgn_def)
  with s e show ?thesis by simp
qed

lemma number_text_hd: "number_text a \<Longrightarrow> a \<noteq> [] \<and> (hd a = CHR ''-'' \<or> IsDigit (hd a))"
  using canonical_hd by (auto simp: number_text_def)

section \<open>The grammar of JSON values\<close>

text \<open>
  \<open>jtext a v\<close>: the text \<open>a\<close> is a spelling of the value \<open>v\<close>. The members of an object and the
  elements of an array are separated by commas, with white space around every punctuation mark;
  the names of an object's members are distinct.
\<close>

inductive jtext :: "string \<Rightarrow> jvalue \<Rightarrow> bool"
  and jmembers :: "string \<Rightarrow> (string \<times> jvalue) list \<Rightarrow> bool"
  and jelements :: "string \<Rightarrow> jvalue list \<Rightarrow> bool"
where
  t_null: "jtext ''null'' JNull"
| t_true: "jtext ''true'' (JBool True)"
| t_false: "jtext ''false'' (JBool False)"
| t_number: "number_text a \<Longrightarrow> jtext a (JNumber a)"
| t_string: "jstr a v \<Longrightarrow> jtext (CHR 0x22 # a @ [CHR 0x22]) (JString v)"
| t_empty_object: "ws w \<Longrightarrow> jtext (CHR 0x7B # w @ [CHR 0x7D]) (JObject [])"
| t_object: "ws w \<Longrightarrow> jmembers m ms \<Longrightarrow> distinct (map fst ms) \<Longrightarrow>
    jtext (CHR 0x7B # w @ m @ [CHR 0x7D]) (JObject ms)"
| t_empty_array: "ws w \<Longrightarrow> jtext (CHR 0x5B # w @ [CHR 0x5D]) (JArray [])"
| t_array: "ws w \<Longrightarrow> jelements e vs \<Longrightarrow> jtext (CHR 0x5B # w @ e @ [CHR 0x5D]) (JArray vs)"
| m_last: "jstr k key \<Longrightarrow> ws w1 \<Longrightarrow> ws w2 \<Longrightarrow> jtext a v \<Longrightarrow> ws w3 \<Longrightarrow>
    jmembers (CHR 0x22 # k @ CHR 0x22 # w1 @ CHR '':'' # w2 @ a @ w3) [(key, v)]"
| m_more: "jstr k key \<Longrightarrow> ws w1 \<Longrightarrow> ws w2 \<Longrightarrow> jtext a v \<Longrightarrow> ws w3 \<Longrightarrow> ws w4 \<Longrightarrow> jmembers m ms \<Longrightarrow>
    jmembers (CHR 0x22 # k @ CHR 0x22 # w1 @ CHR '':'' # w2 @ a @ w3 @ CHR '','' # w4 @ m)
      ((key, v) # ms)"
| e_last: "jtext a v \<Longrightarrow> ws w \<Longrightarrow> jelements (a @ w) [v]"
| e_more: "jtext a v \<Longrightarrow> ws w \<Longrightarrow> ws w' \<Longrightarrow> jelements e vs \<Longrightarrow>
    jelements (a @ w @ CHR '','' # w' @ e) (v # vs)"

text \<open>The quantities that the limits bound.\<close>

fun value_count :: "jvalue \<Rightarrow> nat" where
  "value_count (JArray vs) = Suc (sum_list (map value_count vs))"
| "value_count (JObject ms) = Suc (sum_list (map (\<lambda>m. value_count (snd m)) ms))"
| "value_count _ = 1"

fun height :: "jvalue \<Rightarrow> nat" where
  "height (JArray vs) = foldr max (map (\<lambda>v. Suc (height v)) vs) 0"
| "height (JObject ms) = foldr max (map (\<lambda>m. Suc (height (snd m))) ms) 0"
| "height _ = 0"

abbreviation members_count :: "(string \<times> jvalue) list \<Rightarrow> nat" where
  "members_count ms \<equiv> sum_list (map (\<lambda>m. value_count (snd m)) ms)"

abbreviation members_height :: "(string \<times> jvalue) list \<Rightarrow> nat" where
  "members_height ms \<equiv> foldr max (map (\<lambda>m. Suc (height (snd m))) ms) 0"

abbreviation elements_count :: "jvalue list \<Rightarrow> nat" where
  "elements_count vs \<equiv> sum_list (map value_count vs)"

abbreviation elements_height :: "jvalue list \<Rightarrow> nat" where
  "elements_height vs \<equiv> foldr max (map (\<lambda>v. Suc (height v)) vs) 0"

text \<open>The first character of a value decides the branch the parser takes.\<close>

definition value_start :: "char \<Rightarrow> bool" where
  "value_start c \<longleftrightarrow> c \<in> {CHR ''n'', CHR ''t'', CHR ''f'', CHR ''-'', CHR 0x22, CHR 0x7B, CHR 0x5B}
     \<or> IsDigit c"

lemma value_start_not:
  "value_start c \<Longrightarrow> \<not> is_json_ws c \<and> c \<noteq> CHR 0x7D \<and> c \<noteq> CHR 0x5D \<and> c \<noteq> CHR '','' \<and> c \<noteq> CHR '':''"
  by (auto simp: value_start_def is_json_ws_def IsDigit_iff)

lemma grammar_start:
  "jtext a v \<Longrightarrow> a \<noteq> [] \<and> value_start (hd a)"
  "jmembers m ms \<Longrightarrow> m \<noteq> [] \<and> hd m = CHR 0x22 \<and> ms \<noteq> []"
  "jelements e vs \<Longrightarrow> e \<noteq> [] \<and> value_start (hd e) \<and> vs \<noteq> []"
  by (induction rule: jtext_jmembers_jelements.inducts)
    (auto simp: value_start_def dest: number_text_hd)

section \<open>Soundness: what is accepted is in the grammar\<close>

lemma Consume_iff: "Consume c s = Some r \<longleftrightarrow> s = c # r"
  by (cases s) (auto simp: Consume_def)

lemma Consume_skip: "Consume c (SkipWhitespace s) = Some r \<Longrightarrow> \<exists>w. s = w @ c # r \<and> ws w"
  using SkipWhitespace_split [of s] by (auto simp: Consume_iff)

lemma ObjectKey_sound:
  assumes "ObjectKey s = Scanned key r"
  shows "\<exists>k w1 w2. s = CHR 0x22 # k @ CHR 0x22 # w1 @ CHR '':'' # w2 @ r \<and> jstr k key \<and> ws w1 \<and> ws w2"
proof -
  have "s \<noteq> []" "hd s = CHR 0x22"
    using assms by (auto simp: ObjectKey_def split: if_splits)
  then obtain s' where s: "s = CHR 0x22 # s'" by (cases s) auto
  with assms obtain s1 s2 where p: "ParseString_loop s' [] = Scanned key s1"
    "Consume CHR '':'' (SkipWhitespace s1) = Some s2" "r = SkipWhitespace s2"
    by (auto simp: ObjectKey_def ParseString_def split: if_splits scan.splits option.splits)
  from ParseString_loop_sound [OF p(1)] obtain k where "s' = k @ CHR 0x22 # s1" "jstr k key" by auto
  moreover from Consume_skip [OF p(2)] obtain w1 where "s1 = w1 @ CHR '':'' # s2" "ws w1" by blast
  moreover from SkipWhitespace_split [of s2] p(3) obtain w2 where "s2 = w2 @ r" "ws w2" by blast
  ultimately show ?thesis unfolding s by auto
qed

lemma Separator_sound:
  "Separator close msg s = Scanned True r \<Longrightarrow> \<exists>w. s = w @ close # r \<and> ws w"
  "Separator close msg s = Scanned False r \<Longrightarrow> \<exists>w w'. s = w @ CHR '','' # w' @ r \<and> ws w \<and> ws w'"
proof -
  show "Separator close msg s = Scanned True r \<Longrightarrow> \<exists>w. s = w @ close # r \<and> ws w"
    by (auto simp: Separator_def dest: Consume_skip split: option.splits)
  assume a: "Separator close msg s = Scanned False r"
  then obtain t where t: "Consume CHR '','' (SkipWhitespace s) = Some t" "r = SkipWhitespace t"
    by (auto simp: Separator_def split: option.splits)
  then show "\<exists>w w'. s = w @ CHR '','' # w' @ r \<and> ws w \<and> ws w'"
    using Consume_skip [OF t(1)] SkipWhitespace_split [of t] by auto
qed

lemma ParseLiteral_sound: "ParseLiteral l x s n = JOk v r n' \<Longrightarrow> s = l @ r \<and> v = x \<and> n' = n"
  by (auto simp: ParseLiteral_def split: if_splits) (metis append_take_drop_id)

lemma ParseScalar_sound:
  assumes "ParseScalar s n = JOk v r n'" "s \<noteq> []"
  shows "\<exists>a. s = a @ r \<and> jtext a v \<and> n' = n \<and> value_count v = 1 \<and> height v = 0"
proof (cases "hd s = CHR 0x22")
  case True
  then obtain s' where s: "s = CHR 0x22 # s'" using assms(2) by (cases s) auto
  with assms True obtain x where x: "ParseString_loop s' [] = Scanned x r" "v = JString x" "n' = n"
    by (auto simp: ParseScalar_def ParseString_def elim!: lift_scan.elims)
  from ParseString_loop_sound [OF x(1)] obtain a where "s' = a @ CHR 0x22 # r" "jstr a x" by auto
  with s x show ?thesis by (intro exI [of _ "CHR 0x22 # a @ [CHR 0x22]"]) (auto intro: t_string)
next
  case False
  show ?thesis
  proof (cases "hd s = CHR ''t'' \<or> hd s = CHR ''f'' \<or> hd s = CHR ''n''")
    case True
    with assms False show ?thesis
      by (auto simp: ParseScalar_def split: if_splits dest!: ParseLiteral_sound
          intro: t_null t_true t_false)
  next
    case other: False
    with assms False obtain x where x: "ParseNumber s = Scanned x r" "v = JNumber x" "n' = n"
      by (auto simp: ParseScalar_def elim!: lift_scan.elims split: if_splits)
    with ParseNumber_sound [OF x(1)] show ?thesis by (auto intro: t_number)
  qed
qed

lemma value_guard_None:
  "value_guard opt depth s n = None \<longleftrightarrow> depth \<le> maxDepth opt \<and> Suc n \<le> maxValues opt \<and> s \<noteq> []"
  by (auto simp: value_guard_def)

lemma Parse_sound:
  "ParseValue opt f depth s n = JOk v r n' \<Longrightarrow>
     \<exists>a. s = a @ r \<and> jtext a v \<and> n' = n + value_count v \<and>
       depth + height v \<le> maxDepth opt \<and> n' \<le> maxValues opt"
  "ParseObject_loop opt f depth obj s n = JOk v r n' \<Longrightarrow> distinct (map fst obj) \<Longrightarrow>
     \<exists>m ms. s = m @ CHR 0x7D # r \<and> jmembers m ms \<and> v = JObject (obj @ ms) \<and>
       distinct (map fst (obj @ ms)) \<and> n' = n + members_count ms \<and>
       depth + members_height ms \<le> maxDepth opt \<and> n' \<le> maxValues opt"
  "ParseArray_loop opt f depth arr s n = JOk v r n' \<Longrightarrow>
     \<exists>e vs. s = e @ CHR 0x5D # r \<and> jelements e vs \<and> v = JArray (arr @ vs) \<and>
       n' = n + elements_count vs \<and> depth + elements_height vs \<le> maxDepth opt \<and>
       n' \<le> maxValues opt"
proof (induction opt f depth s n and opt f depth obj s n and opt f depth arr s n
    arbitrary: v r n' and v r n' and v r n'
    rule: ParseValue_ParseObject_loop_ParseArray_loop.induct)
  case (1 opt depth s n)
  then show ?case by (simp add: ParseValue.simps)
next
  case (2 opt f depth s n)
  have g: "value_guard opt depth s n = None"
    using 2(3) by (simp add: ParseValue.simps split: option.splits)
  then have lim: "depth \<le> maxDepth opt" "Suc n \<le> maxValues opt" "s \<noteq> []"
    by (auto simp: value_guard_None)
  show ?case
  proof (cases "hd s = CHR 0x7B")
    case True
    then obtain t where s: "s = CHR 0x7B # t" using lim by (cases s) auto
    show ?thesis
    proof (cases "Consume CHR 0x7D (SkipWhitespace t)")
      case (Some t')
      with 2(3) g s have "v = JObject []" "r = t'" "n' = Suc n"
        by (simp_all add: ParseValue.simps)
      with Consume_skip [OF Some] s lim show ?thesis
        by (auto intro: t_empty_object [simplified])
    next
      case None
      then have "ParseObject_loop opt f depth [] (SkipWhitespace t) (Suc n) = JOk v r n'"
        using 2(3) g s by (simp add: ParseValue.simps)
      from 2(1) [OF g True, unfolded s list.sel, OF None this] obtain m ms where m:
        "SkipWhitespace t = m @ CHR 0x7D # r" "jmembers m ms" "v = JObject ms"
        "distinct (map fst ms)" "n' = Suc n + members_count ms"
        "depth + members_height ms \<le> maxDepth opt" "n' \<le> maxValues opt" by auto
      from SkipWhitespace_split [of t] m(1) obtain w where "t = w @ m @ CHR 0x7D # r" "ws w" by auto
      with m s t_object [of w m ms] show ?thesis
        by (intro exI [of _ "CHR 0x7B # w @ m @ [CHR 0x7D]"]) simp
    qed
  next
    case not_obj: False
    show ?thesis
    proof (cases "hd s = CHR 0x5B")
      case True
      then obtain t where s: "s = CHR 0x5B # t" using lim by (cases s) auto
      show ?thesis
      proof (cases "Consume CHR 0x5D (SkipWhitespace t)")
        case (Some t')
        with 2(3) g s have "v = JArray []" "r = t'" "n' = Suc n"
          by (simp_all add: ParseValue.simps)
        with Consume_skip [OF Some] s lim show ?thesis
          by (auto intro: t_empty_array [simplified])
      next
        case None
        then have "ParseArray_loop opt f depth [] (SkipWhitespace t) (Suc n) = JOk v r n'"
          using 2(3) g s by (simp add: ParseValue.simps)
        from 2(2) [OF g not_obj True, unfolded s list.sel, OF None this] obtain e vs where e:
          "SkipWhitespace t = e @ CHR 0x5D # r" "jelements e vs" "v = JArray vs"
          "n' = Suc n + elements_count vs"
          "depth + elements_height vs \<le> maxDepth opt" "n' \<le> maxValues opt" by auto
        from SkipWhitespace_split [of t] e(1) obtain w where "t = w @ e @ CHR 0x5D # r" "ws w" by auto
        with e s t_array [of w e vs] show ?thesis
          by (intro exI [of _ "CHR 0x5B # w @ e @ [CHR 0x5D]"]) simp
      qed
    next
      case False
      then have "ParseScalar s (Suc n) = JOk v r n'"
        using 2(3) g not_obj by (simp add: ParseValue.simps)
      from ParseScalar_sound [OF this lim(3)] lim show ?thesis by auto
    qed
  qed
next
  case (3 opt depth obj s n)
  then show ?case by (simp add: ParseObject_loop.simps)
next
  case (4 opt f depth obj s n)
  obtain key s1 where k: "ObjectKey s = Scanned key s1"
    using 4(3) by (auto simp: ParseObject_loop.simps split: scan.splits)
  obtain x s2 n1 where x: "ParseValue opt f (Suc depth) s1 n = JOk x s2 n1"
    using 4(3) k by (auto simp: ParseObject_loop.simps split: jresult.splits)
  have fresh: "key \<notin> set (map fst obj)"
    using 4(3) k x by (auto simp: ParseObject_loop.simps split: if_splits)
  obtain b t where sep: "Separator CHR 0x7D ''missing comma in object'' s2 = Scanned b t"
    using 4(3) k x fresh by (auto simp: ParseObject_loop.simps split: scan.splits)
  from ObjectKey_sound [OF k] obtain k' w1 w2 where
    s: "s = CHR 0x22 # k' @ CHR 0x22 # w1 @ CHR '':'' # w2 @ s1" "jstr k' key" "ws w1" "ws w2"
    by blast
  from 4(1) [OF k x] obtain a where a: "s1 = a @ s2" "jtext a x" "n1 = n + value_count x"
    "Suc depth + height x \<le> maxDepth opt" "n1 \<le> maxValues opt" by auto
  show ?case
  proof (cases b)
    case True
    from sep Separator_sound(1) [of "CHR 0x7D" _ s2 t] obtain w where w: "s2 = w @ CHR 0x7D # t" "ws w"
      by (auto simp: True)
    have res: "v = JObject (obj @ [(key, x)])" "r = t" "n' = n1"
      using 4(3) k x fresh sep True by (auto simp: ParseObject_loop.simps)
    show ?thesis
      using m_last [OF s(2-4) a(2) w(2)] s a w res fresh 4(4)
      by (intro exI [of _ "CHR 0x22 # k' @ CHR 0x22 # w1 @ CHR '':'' # w2 @ a @ w"]
          exI [of _ "[(key, x)]"]) auto
  next
    case False
    with sep have "Separator CHR 0x7D ''missing comma in object'' s2 = Scanned False t" by simp
    from Separator_sound(2) [OF this] obtain w w' where
      w: "s2 = w @ CHR '','' # w' @ t" "ws w" "ws w'" by blast
    have "ParseObject_loop opt f depth (obj @ [(key, x)]) t n1 = JOk v r n'"
      using 4(3) k x fresh sep False by (auto simp: ParseObject_loop.simps)
    from 4(2) [OF k x fresh sep _ this] False fresh 4(4) obtain m ms where
      m: "t = m @ CHR 0x7D # r" "jmembers m ms" "v = JObject (obj @ (key, x) # ms)"
        "distinct (map fst (obj @ (key, x) # ms))" "n' = n1 + members_count ms"
        "depth + members_height ms \<le> maxDepth opt" "n' \<le> maxValues opt" by auto
    show ?thesis
      using m_more [OF s(2-4) a(2) w(2,3) m(2)] s a w m
      by (intro exI [of _ "CHR 0x22 # k' @ CHR 0x22 # w1 @ CHR '':'' # w2 @ a @ w @ CHR '','' # w' @ m"]
          exI [of _ "(key, x) # ms"]) auto
  qed
next
  case (5 opt depth arr s n)
  then show ?case by (simp add: ParseArray_loop.simps)
next
  case (6 opt f depth arr s n)
  obtain x s2 n1 where x: "ParseValue opt f (Suc depth) s n = JOk x s2 n1"
    using 6(3) by (auto simp: ParseArray_loop.simps split: jresult.splits)
  obtain b t where sep: "Separator CHR 0x5D ''missing comma in array'' s2 = Scanned b t"
    using 6(3) x by (auto simp: ParseArray_loop.simps split: scan.splits)
  from 6(1) [OF x] obtain a where a: "s = a @ s2" "jtext a x" "n1 = n + value_count x"
    "Suc depth + height x \<le> maxDepth opt" "n1 \<le> maxValues opt" by auto
  show ?case
  proof (cases b)
    case True
    from sep Separator_sound(1) [of "CHR 0x5D" _ s2 t] obtain w where w: "s2 = w @ CHR 0x5D # t" "ws w"
      by (auto simp: True)
    have res: "v = JArray (arr @ [x])" "r = t" "n' = n1"
      using 6(3) x sep True by (auto simp: ParseArray_loop.simps)
    show ?thesis
      using e_last [OF a(2) w(2)] a w res
      by (intro exI [of _ "a @ w"] exI [of _ "[x]"]) auto
  next
    case False
    with sep have "Separator CHR 0x5D ''missing comma in array'' s2 = Scanned False t" by simp
    from Separator_sound(2) [OF this] obtain w w' where
      w: "s2 = w @ CHR '','' # w' @ t" "ws w" "ws w'" by blast
    have "ParseArray_loop opt f depth (arr @ [x]) t n1 = JOk v r n'"
      using 6(3) x sep False by (auto simp: ParseArray_loop.simps)
    from 6(2) [OF x sep _ this] False obtain e vs where
      e: "t = e @ CHR 0x5D # r" "jelements e vs" "v = JArray (arr @ x # vs)"
        "n' = n1 + elements_count vs"
        "depth + elements_height vs \<le> maxDepth opt" "n' \<le> maxValues opt" by auto
    show ?thesis
      using e_more [OF a(2) w(2,3) e(2)] a w e
      by (intro exI [of _ "a @ w @ CHR '','' # w' @ e"] exI [of _ "x # vs"]) auto
  qed
qed

section \<open>Completeness: every text of the grammar within the limits is accepted\<close>

definition token :: "string \<Rightarrow> bool" where
  "token t \<longleftrightarrow> t \<noteq> [] \<and> \<not> is_json_ws (hd t)"

lemma SkipWhitespace_token [simp]: "token t \<Longrightarrow> SkipWhitespace t = t"
  by (simp add: token_def)

lemma token_value: "jtext a v \<Longrightarrow> token (a @ r)"
  using grammar_start(1) value_start_not by (auto simp: token_def)

lemma token_elements: "jelements e vs \<Longrightarrow> token (e @ r)"
  using grammar_start(3) value_start_not by (auto simp: token_def)

lemma token_members: "jmembers m ms \<Longrightarrow> token (m @ r)"
  using grammar_start(2) [of m ms] by (auto simp: token_def is_json_ws_def)

lemma token_punctuation [simp]:
  "token (CHR 0x7D # r)" "token (CHR 0x5D # r)" "token (CHR '','' # r)" "token (CHR '':'' # r)"
  by (simp_all add: token_def is_json_ws_def)

lemma Consume_Cons [simp]: "Consume c (c' # r) = (if c = c' then Some r else None)"
  by (auto simp: Consume_def)

lemma ObjectKey_complete:
  "jstr k key \<Longrightarrow> ws w1 \<Longrightarrow> ws w2 \<Longrightarrow> token t \<Longrightarrow>
     ObjectKey (CHR 0x22 # k @ CHR 0x22 # w1 @ CHR '':'' # w2 @ t) = Scanned key t"
  using ParseString_loop_complete [of k key _ "[]"] by (simp add: ObjectKey_def ParseString_def)

lemma Separator_complete:
  "ws w \<Longrightarrow> token (c # r) \<Longrightarrow> Separator c msg (w @ c # r) = Scanned True r"
  "ws w \<Longrightarrow> ws w' \<Longrightarrow> token t \<Longrightarrow> c \<noteq> CHR '','' \<Longrightarrow>
     Separator c msg (w @ CHR '','' # w' @ t) = Scanned False t"
  by (simp_all add: Separator_def)

lemma delimiter_punctuation [simp]:
  "delimiter (CHR 0x7D # r)" "delimiter (CHR 0x5D # r)" "delimiter (CHR '','' # r)"
  by (simp_all add: delimiter_def)

lemma guard_passes:
  "depth \<le> maxDepth opt \<Longrightarrow> n < maxValues opt \<Longrightarrow> s \<noteq> [] \<Longrightarrow> value_guard opt depth s n = None"
  by (simp add: value_guard_None)

lemma ParseValue_scalar:
  assumes "hd s \<noteq> CHR 0x7B" "hd s \<noteq> CHR 0x5B" "0 < f"
    "depth \<le> maxDepth opt" "n < maxValues opt" "s \<noteq> []"
  shows "ParseValue opt f depth s n = ParseScalar s (Suc n)"
  using assms guard_passes [of depth opt n s] by (cases f) (simp_all add: ParseValue.simps)

lemma members_Consume:
  "jmembers m ms \<Longrightarrow> Consume CHR 0x7D (m @ r) = None"
  "jelements e vs \<Longrightarrow> Consume CHR 0x5D (e @ r) = None"
  using grammar_start(2) [of m ms] grammar_start(3) [of e vs] value_start_not
  by (auto simp: Consume_def)

lemma ParseScalar_number: "number_text a \<Longrightarrow> delimiter r \<Longrightarrow>
  ParseScalar (a @ r) n = JOk (JNumber a) r n"
  using number_text_hd [of a] ParseNumber_complete [of a r]
  by (auto simp: ParseScalar_def IsDigit_iff)

lemma number_start: "number_text a \<Longrightarrow> hd a \<noteq> CHR 0x7B \<and> hd a \<noteq> CHR 0x5B"
  using number_text_hd [of a] by (auto simp: IsDigit_iff)

lemma Parse_complete:
  "jtext a v \<Longrightarrow> 2 * length a < f \<Longrightarrow> depth + height v \<le> maxDepth opt \<Longrightarrow>
     n + value_count v \<le> maxValues opt \<Longrightarrow> delimiter r \<Longrightarrow>
     ParseValue opt f depth (a @ r) n = JOk v r (n + value_count v)"
  "jmembers m ms \<Longrightarrow> 2 * length m + 1 < f \<Longrightarrow> depth + members_height ms \<le> maxDepth opt \<Longrightarrow>
     n + members_count ms \<le> maxValues opt \<Longrightarrow> distinct (map fst (obj @ ms)) \<Longrightarrow>
     ParseObject_loop opt f depth obj (m @ CHR 0x7D # r) n =
       JOk (JObject (obj @ ms)) r (n + members_count ms)"
  "jelements e vs \<Longrightarrow> 2 * length e + 1 < f \<Longrightarrow> depth + elements_height vs \<le> maxDepth opt \<Longrightarrow>
     n + elements_count vs \<le> maxValues opt \<Longrightarrow>
     ParseArray_loop opt f depth arr (e @ CHR 0x5D # r) n =
       JOk (JArray (arr @ vs)) r (n + elements_count vs)"
proof (induction arbitrary: f depth n r and f depth n r obj and f depth n r arr
    rule: jtext_jmembers_jelements.inducts)
  case t_null
  then show ?case by (simp add: ParseValue_scalar ParseScalar_def ParseLiteral_def)
next
  case t_true
  then show ?case by (simp add: ParseValue_scalar ParseScalar_def ParseLiteral_def)
next
  case t_false
  then show ?case by (simp add: ParseValue_scalar ParseScalar_def ParseLiteral_def)
next
  case (t_number a)
  then show ?case using number_text_hd [of a] number_start [of a]
    by (simp add: ParseValue_scalar ParseScalar_number)
next
  case (t_string a v)
  then show ?case using ParseString_loop_complete [of a v r "[]"]
    by (simp add: ParseValue_scalar ParseScalar_def ParseString_def)
next
  case (t_empty_object w)
  then show ?case by (cases f) (simp_all add: ParseValue.simps guard_passes)
next
  case (t_object w m ms)
  then obtain g where f: "f = Suc g" by (cases f) auto
  have "ParseObject_loop opt g depth [] (m @ CHR 0x7D # r) (Suc n) =
      JOk (JObject ([] @ ms)) r (Suc n + members_count ms)"
    using t_object.prems t_object.hyps f by (intro t_object.IH) auto
  then show ?case using t_object.prems t_object.hyps f
    by (simp add: ParseValue.simps guard_passes token_members members_Consume)
next
  case (t_empty_array w)
  then show ?case by (cases f) (simp_all add: ParseValue.simps guard_passes)
next
  case (t_array w e vs)
  then obtain g where f: "f = Suc g" by (cases f) auto
  have "ParseArray_loop opt g depth [] (e @ CHR 0x5D # r) (Suc n) =
      JOk (JArray ([] @ vs)) r (Suc n + elements_count vs)"
    using t_array.prems t_array.hyps f by (intro t_array.IH) auto
  then show ?case using t_array.prems t_array.hyps f
    by (simp add: ParseValue.simps guard_passes token_elements members_Consume)
next
  case (m_last k key w1 w2 a v w3)
  then obtain g where f: "f = Suc g" by (cases f) auto
  have "ParseValue opt g (Suc depth) (a @ w3 @ CHR 0x7D # r) n =
      JOk v (w3 @ CHR 0x7D # r) (n + value_count v)"
    using m_last.prems m_last.hyps f by (intro m_last.IH) (auto intro: delimiter_ws)
  then show ?case using m_last.prems m_last.hyps f
    by (simp add: ParseObject_loop.simps ObjectKey_complete token_value Separator_complete)
next
  case (m_more k key w1 w2 a v w3 w4 m ms)
  then obtain g where f: "f = Suc g" by (cases f) auto
  have "ParseValue opt g (Suc depth) (a @ w3 @ CHR '','' # w4 @ m @ CHR 0x7D # r) n =
      JOk v (w3 @ CHR '','' # w4 @ m @ CHR 0x7D # r) (n + value_count v)"
    using m_more.prems m_more.hyps f by (intro m_more.IH(1)) (auto intro: delimiter_ws)
  moreover have "ParseObject_loop opt g depth (obj @ [(key, v)]) (m @ CHR 0x7D # r) (n + value_count v) =
      JOk (JObject ((obj @ [(key, v)]) @ ms)) r (n + value_count v + members_count ms)"
    using m_more.prems m_more.hyps f by (intro m_more.IH(2)) auto
  ultimately show ?case using m_more.prems m_more.hyps f
    by (simp add: ParseObject_loop.simps ObjectKey_complete token_value token_members
        Separator_complete add.assoc)
next
  case (e_last a v w)
  then obtain g where f: "f = Suc g" by (cases f) auto
  have "ParseValue opt g (Suc depth) (a @ w @ CHR 0x5D # r) n =
      JOk v (w @ CHR 0x5D # r) (n + value_count v)"
    using e_last.prems e_last.hyps f by (intro e_last.IH) (auto intro: delimiter_ws)
  then show ?case using e_last.prems e_last.hyps f
    by (simp add: ParseArray_loop.simps Separator_complete)
next
  case (e_more a v w w' e vs)
  then obtain g where f: "f = Suc g" by (cases f) auto
  have "ParseValue opt g (Suc depth) (a @ w @ CHR '','' # w' @ e @ CHR 0x5D # r) n =
      JOk v (w @ CHR '','' # w' @ e @ CHR 0x5D # r) (n + value_count v)"
    using e_more.prems e_more.hyps f by (intro e_more.IH(1)) (auto intro: delimiter_ws)
  moreover have "ParseArray_loop opt g depth (arr @ [v]) (e @ CHR 0x5D # r) (n + value_count v) =
      JOk (JArray ((arr @ [v]) @ vs)) r (n + value_count v + elements_count vs)"
    using e_more.prems e_more.hyps f by (intro e_more.IH(2)) auto
  ultimately show ?case using e_more.prems e_more.hyps f
    by (simp add: ParseArray_loop.simps token_elements Separator_complete add.assoc)
qed

section \<open>The recursion budget\<close>

lemma Parse_shorter:
  "ParseValue opt f depth s n = JOk v r n' \<Longrightarrow> length r < length s"
  using Parse_sound(1) grammar_start(1) by fastforce

lemma ObjectKey_shorter: "ObjectKey s = Scanned key r \<Longrightarrow> length r < length s"
  using ObjectKey_sound by fastforce

lemma Separator_shorter: "Separator c msg s = Scanned b r \<Longrightarrow> length r < length s"
  using Separator_sound(1) [of c msg s r] Separator_sound(2) [of c msg s r] by (cases b) fastforce+

lemma ParseScalar_no_fuel: "ParseScalar s n \<noteq> JFuel"
proof -
  have "lift_scan g x n \<noteq> JFuel" for g :: "string \<Rightarrow> jvalue" and x
    by (cases x) simp_all
  then show ?thesis by (simp add: ParseScalar_def ParseLiteral_def)
qed

lemma Parse_no_fuel:
  "2 * length s < f \<Longrightarrow> ParseValue opt f depth s n \<noteq> JFuel"
  "2 * length s + 1 < f \<Longrightarrow> ParseObject_loop opt f depth obj s n \<noteq> JFuel"
  "2 * length s + 1 < f \<Longrightarrow> ParseArray_loop opt f depth arr s n \<noteq> JFuel"
proof (induction opt f depth s n and opt f depth obj s n and opt f depth arr s n
    rule: ParseValue_ParseObject_loop_ParseArray_loop.induct)
  case (2 opt f depth s n)
  show ?case
  proof (cases "value_guard opt depth s n")
    case None
    then have "s \<noteq> []" by (simp add: value_guard_None)
    then have l: "2 * length (SkipWhitespace (tl s)) + 1 < f"
      using 2(3) length_SkipWhitespace [of "tl s"] by (cases s) auto
    show ?thesis
      using 2(1) [OF None _ _ l] 2(2) [OF None _ _ _ l] ParseScalar_no_fuel None
      by (auto simp: ParseValue.simps split: option.splits)
  qed (simp add: ParseValue.simps)
next
  case (4 opt f depth obj s n)
  show ?case
  proof
    assume a: "ParseObject_loop opt (Suc f) depth obj s n = JFuel"
    then obtain key s1 where k: "ObjectKey s = Scanned key s1"
      by (auto simp: ParseObject_loop.simps split: scan.splits)
    have "ParseValue opt f (Suc depth) s1 n \<noteq> JFuel"
      using 4(1) [OF k] ObjectKey_shorter [OF k] 4(3) by auto
    with a k obtain x s2 n1 where x: "ParseValue opt f (Suc depth) s1 n = JOk x s2 n1"
      and fresh: "key \<notin> set (map fst obj)"
      by (auto simp: ParseObject_loop.simps split: jresult.splits if_splits)
    with a k obtain t where sep: "Separator CHR 0x7D ''missing comma in object'' s2 = Scanned False t"
      and r: "ParseObject_loop opt f depth (obj @ [(key, x)]) t n1 = JFuel"
      by (auto simp: ParseObject_loop.simps split: scan.splits bool.splits)
    have "2 * length t + 1 < f"
      using ObjectKey_shorter [OF k] Parse_shorter [OF x] Separator_shorter [OF sep] 4(3) by linarith
    with r 4(2) [OF k x fresh sep] show False by auto
  qed
next
  case (6 opt f depth arr s n)
  show ?case
  proof
    assume a: "ParseArray_loop opt (Suc f) depth arr s n = JFuel"
    have "ParseValue opt f (Suc depth) s n \<noteq> JFuel" using 6(1,3) by auto
    with a obtain x s2 n1 where x: "ParseValue opt f (Suc depth) s n = JOk x s2 n1"
      by (auto simp: ParseArray_loop.simps split: jresult.splits)
    with a obtain t where sep: "Separator CHR 0x5D ''missing comma in array'' s2 = Scanned False t"
      and r: "ParseArray_loop opt f depth (arr @ [x]) t n1 = JFuel"
      by (auto simp: ParseArray_loop.simps split: scan.splits bool.splits)
    have "2 * length t + 1 < f"
      using Parse_shorter [OF x] Separator_shorter [OF sep] 6(3) by linarith
    with r 6(2) [OF x sep] show False by auto
  qed
qed simp_all

lemma length_skip_bom: "length (skip_bom s) \<le> length s"
  by (simp add: skip_bom_def)

lemma start_length: "length (SkipWhitespace (skip_bom s)) \<le> length s"
  using length_SkipWhitespace [of "skip_bom s"] length_skip_bom [of s] by linarith

text \<open>C18. The parser terminates on every input: the recursion budget \<open>Run\<close> starts with, two per
  byte of input and two, is never exhausted, whatever the limits.\<close>

theorem Run_never_JFuel: "Run opt input \<noteq> JFuel"
proof -
  have "ParseValue opt (2 * length input + 2) 0 (SkipWhitespace (skip_bom input)) 0 \<noteq> JFuel"
    using start_length [of input] by (intro Parse_no_fuel(1)) simp
  then show ?thesis by (auto simp: Run_def split: jresult.splits)
qed

section \<open>The parser is the grammar with its limits\<close>

lemma Parse_grammar:
  "Parse input opt = Inr v \<longleftrightarrow>
     length input \<le> maxBytes opt \<and>
     (\<exists>w a w'. skip_bom input = w @ a @ w' \<and> ws w \<and> ws w' \<and> jtext a v) \<and>
     height v \<le> maxDepth opt \<and> value_count v \<le> maxValues opt" (is "?l \<longleftrightarrow> ?r")
proof
  assume ?l
  then obtain r n where b: "length input \<le> maxBytes opt"
    and p: "ParseValue opt (2 * length input + 2) 0 (SkipWhitespace (skip_bom input)) 0 = JOk v r n"
    and r: "ws r"
    by (auto simp: Parse_def Run_def split: jresult.splits if_splits)
  from Parse_sound(1) [OF p] obtain a where
    "SkipWhitespace (skip_bom input) = a @ r" "jtext a v" "height v \<le> maxDepth opt"
    "value_count v \<le> maxValues opt" by auto
  with b r SkipWhitespace_split [of "skip_bom input"] show ?r by metis
next
  assume ?r
  then obtain w a w' where i: "skip_bom input = w @ a @ w'" "ws w" "ws w'" "jtext a v"
    and lim: "length input \<le> maxBytes opt" "height v \<le> maxDepth opt" "value_count v \<le> maxValues opt"
    by blast
  have s: "SkipWhitespace (skip_bom input) = a @ w'"
    using i by (simp add: token_value)
  have "delimiter w'" using delimiter_ws [OF i(3), of "[]"] by (simp add: delimiter_def)
  moreover have "2 * length a < 2 * length input + 2" using s start_length [of input] by simp
  ultimately have "ParseValue opt (2 * length input + 2) 0 (a @ w') 0 = JOk v w' (0 + value_count v)"
    using i lim by (intro Parse_complete(1)) simp_all
  with s lim i show ?l by (simp add: Parse_def Run_def)
qed

text \<open>C8. \<open>Json::Parse\<close> accepts exactly the JSON texts: it returns the value \<open>v\<close> if and only if the
  input has at most \<open>maxBytes\<close> bytes and is, after an optional byte order mark, white space around a
  text of the JSON grammar that spells \<open>v\<close>, where \<open>v\<close> nests at most \<open>maxDepth\<close> deep and has at most
  \<open>maxValues\<close> values; every other input is an error.\<close>

theorem Parse_iff_grammar:
  "Parse input opt = Inr v \<longleftrightarrow>
     length input \<le> maxBytes opt \<and>
     (\<exists>w a w'. skip_bom input = w @ a @ w' \<and> ws w \<and> ws w' \<and> jtext a v) \<and>
     height v \<le> maxDepth opt \<and> value_count v \<le> maxValues opt"
  by (rule Parse_grammar)

section \<open>Derived facts for the readers of JSON\<close>

text \<open>Every string a parsed value holds is valid UTF-8.\<close>

fun strings_ok :: "jvalue \<Rightarrow> bool" where
  "strings_ok (JString s) = utf8_text s"
| "strings_ok (JArray vs) = (\<forall>v\<in>set vs. strings_ok v)"
| "strings_ok (JObject ms) = (\<forall>m\<in>set ms. utf8_text (fst m) \<and> strings_ok (snd m))"
| "strings_ok _ = True"

lemma grammar_strings:
  "jtext a v \<Longrightarrow> strings_ok v"
  "jmembers m ms \<Longrightarrow> \<forall>m\<in>set ms. utf8_text (fst m) \<and> strings_ok (snd m)"
  "jelements e vs \<Longrightarrow> \<forall>v\<in>set vs. strings_ok v"
  by (induction rule: jtext_jmembers_jelements.inducts) (auto dest: jstr_utf8)

lemma Parse_strings: "Parse input opt = Inr v \<Longrightarrow> strings_ok v"
  by (auto simp: Parse_grammar dest: grammar_strings(1))

lemma strings_ok_Find: "strings_ok v \<Longrightarrow> Find v key = Some x \<Longrightarrow> strings_ok x"
  by (cases v) (auto simp: Find_def dest!: map_of_SomeD)

lemma strings_ok_AsString: "strings_ok v \<Longrightarrow> AsString v = Some s \<Longrightarrow> utf8_text s"
  by (cases v) auto

text \<open>The keys of every object are distinct, so a reader that counts the members and finds each
  expected key has seen exactly those keys.\<close>

fun keys_distinct :: "jvalue \<Rightarrow> bool" where
  "keys_distinct (JArray vs) = (\<forall>v\<in>set vs. keys_distinct v)"
| "keys_distinct (JObject ms) = (distinct (map fst ms) \<and> (\<forall>m\<in>set ms. keys_distinct (snd m)))"
| "keys_distinct _ = True"

lemma grammar_keys:
  "jtext a v \<Longrightarrow> keys_distinct v"
  "jmembers m ms \<Longrightarrow> \<forall>m\<in>set ms. keys_distinct (snd m)"
  "jelements e vs \<Longrightarrow> \<forall>v\<in>set vs. keys_distinct v"
  by (induction rule: jtext_jmembers_jelements.inducts) auto

lemma Parse_keys: "Parse input opt = Inr v \<Longrightarrow> keys_distinct v"
  by (auto simp: Parse_grammar dest: grammar_keys(1))

lemma keys_distinct_Find: "keys_distinct v \<Longrightarrow> Find v key = Some x \<Longrightarrow> keys_distinct x"
  by (cases v) (auto simp: Find_def dest!: map_of_SomeD)

lemma exact_keys:
  assumes "keys_distinct (JObject ms)" "length ms = card K" "finite K"
    and "\<forall>k\<in>K. Find (JObject ms) k \<noteq> None"
  shows "set (map fst ms) = K"
proof (rule card_subset_eq [symmetric])
  show "K \<subseteq> set (map fst ms)"
    using assms(4) by (auto simp: Find_def map_of_eq_None_iff)
  show "card K = card (set (map fst ms))"
    using assms(1,2) distinct_card [of "map fst ms"] by simp
qed simp

text \<open>Building blocks for the texts that the program writes itself.\<close>

definition plain_char :: "char \<Rightarrow> bool" where
  "plain_char c \<longleftrightarrow> 0x20 \<le> code c \<and> code c < 0x80 \<and> c \<noteq> CHR 0x22 \<and> c \<noteq> CHR 0x5C"

lemma jstr_plain: "list_all plain_char k \<Longrightarrow> jstr k k"
proof (induction k)
  case (Cons c k)
  then have "jchunk [c] [c]" by (auto simp: plain_char_def)
  with Cons show ?case using jstr_cons [of "[c]" "[c]" k k] by simp
qed auto

lemma jtext_Quote: "utf8_text s \<Longrightarrow> jtext (Quote s) (JString s)"
  unfolding Quote_def by (intro t_string Quote_jstr)

lemma utf8_plain: "list_all (\<lambda>c. code c < 0x80) s \<Longrightarrow> utf8_text s"
  by (induction s) (auto intro: utf8_text_ascii)

lemma member_last:
  "list_all plain_char k \<Longrightarrow> jtext a v \<Longrightarrow> ws w \<Longrightarrow>
     jmembers ([CHR 0x22] @ k @ [CHR 0x22, CHR '':'', CHR '' ''] @ a @ w) [(k, v)]"
  using m_last [OF jstr_plain [of k], of "[]" "'' ''" a v w] by (simp add: is_json_ws_def)

lemma member_more:
  "list_all plain_char k \<Longrightarrow> jtext a v \<Longrightarrow> ws w \<Longrightarrow> jmembers m ms \<Longrightarrow>
     jmembers ([CHR 0x22] @ k @ [CHR 0x22, CHR '':'', CHR '' ''] @ a @ CHR '','' # w @ m) ((k, v) # ms)"
  using m_more [OF jstr_plain [of k], of "[]" "'' ''" a v "[]" w m ms] by (simp add: is_json_ws_def)

end
