(* ===== verification/FileRead.thy ===== *)
theory FileRead
  imports Prelude
begin

text \<open>
  The read loop that the configuration, the runtime state and the process record share: \<^verbatim>\<open>ReadFile\<close>
  into a 4096-byte buffer until it returns no bytes, with a bound on the total. What the operating
  system answers is a parameter: the successive outcomes of \<^verbatim>\<open>ReadFile\<close> (\<open>None\<close> for a failed call,
  a chunk otherwise; after the last listed outcome the end of the file is reported).
\<close>

record opened_file =
  regular_file :: "bool option"
    \<comment> \<open>\<^verbatim>\<open>GetFileInformationByHandle\<close>: failed, or neither a directory nor a reparse point\<close>
  reads :: "string option list"

datatype read_outcome = ReadFailed | ReadTooLarge | ReadAll string

fun read_loop :: "nat \<Rightarrow> string option list \<Rightarrow> string \<Rightarrow> read_outcome" where
  "read_loop limit [] content = ReadAll content"
| "read_loop limit (None # rs) content = ReadFailed"
| "read_loop limit (Some chunk # rs) content =
     (if chunk = [] then ReadAll content
      else if limit < length (content @ chunk) then ReadTooLarge
      else read_loop limit rs (content @ chunk))"

lemma read_loop_bound:
  "read_loop limit rs acc = ReadAll s \<Longrightarrow> length acc \<le> limit \<Longrightarrow> length s \<le> limit"
  by (induction limit rs acc rule: read_loop.induct) (auto split: if_splits)

text \<open>The outcomes of reading a file that holds \<open>content\<close> in non-empty chunks.\<close>

definition delivers :: "string option list \<Rightarrow> string \<Rightarrow> bool" where
  "delivers rs content \<longleftrightarrow>
     (\<exists>chunks. rs = map Some chunks \<and> concat chunks = content \<and> [] \<notin> set chunks)"

lemma read_loop_delivers:
  "delivers rs content \<Longrightarrow> length (acc @ content) \<le> limit \<Longrightarrow>
     read_loop limit rs acc = ReadAll (acc @ content)"
proof -
  have "[] \<notin> set chunks \<Longrightarrow> length (acc @ concat chunks) \<le> limit \<Longrightarrow>
      read_loop limit (map Some chunks) acc = ReadAll (acc @ concat chunks)" for chunks
  proof (induction chunks arbitrary: acc)
    case (Cons c cs)
    then show ?case using Cons.IH [of "acc @ c"] by auto
  qed simp
  then show "delivers rs content \<Longrightarrow> length (acc @ content) \<le> limit \<Longrightarrow>
      read_loop limit rs acc = ReadAll (acc @ content)"
    by (auto simp: delivers_def)
qed

text \<open>
  The other read loop of the program: the size is known, the buffer is filled in requests of at
  most 64 kilobytes; a failed call or the end of the file before the buffer is full is a failure.
\<close>

definition read_request :: nat where
  "read_request = 64 * 1024"

fun sized_read :: "string option list \<Rightarrow> nat \<Rightarrow> string option" where
  "sized_read [] n = (if n = 0 then Some [] else None)"
| "sized_read (r # rs) n =
     (if n = 0 then Some []
      else (case r of
              None \<Rightarrow> None
            | Some d \<Rightarrow>
                let d' = take (min n read_request) d in
                if d' = [] then None
                else map_option (\<lambda>ds. d' @ ds) (sized_read rs (n - length d'))))"

lemma sized_read_length: "sized_read rs n = Some d \<Longrightarrow> length d = n"
proof (induction rs n arbitrary: d rule: sized_read.induct)
  case (1 n)
  then show ?case by (simp split: if_splits)
next
  case (2 r rs n)
  show ?case
  proof (cases "n = 0")
    case True
    with 2(2) show ?thesis by simp
  next
    case False
    then obtain x where r: "r = Some x" using 2(2) by (cases r) auto
    define d' where "d' = take (min n read_request) x"
    obtain ds where ds: "sized_read rs (n - length d') = Some ds" "d = d' @ ds" "d' \<noteq> []"
      using 2(2) False unfolding r sized_read.simps Let_def option.case d'_def [symmetric]
      by (auto simp del: sized_read.simps split: if_splits)
    have "length d' \<le> n" by (simp add: d'_def)
    moreover have "length ds = n - length d'"
      using 2(1) [OF False r d'_def ds(3) ds(1)] by simp
    ultimately show ?thesis using ds(2) by simp
  qed
qed

end
