(* ===== verification/Config.thy ===== *)
theory Config
  imports Json_Grammar FileRead
begin

text \<open>
  The user configuration of \<^verbatim>\<open>src/src/config/Config.h\<close> and \<^verbatim>\<open>Config.cpp\<close>: its data, the parser, the
  serialiser, loading with its fallback to the defaults, and the one-time import of the legacy
  file. The user-facing detail texts of the import are the constructors of \<open>migrate_detail\<close>.
\<close>

section \<open>Data\<close>

record UiSettings =
  animations :: bool
  reducedMotion :: bool
  glitch :: bool
  mascotIdle :: bool
  speed :: string
  unicodeMode :: string

datatype GameFilterMode = GameOff | GameAll | GameTcp | GameUdp

datatype UpdateMode = Notify | Download | Automatic | Disabled

record UpdateSettings =
  channel :: string
  mode :: UpdateMode
  checkOnStart :: bool
  skippedPayloadVersion :: string

record Config =
  strategyId :: string
  gameFilter :: GameFilterMode
  update_settings :: UpdateSettings
  ui :: UiSettings

definition default_ui :: UiSettings where
  "default_ui = \<lparr>animations = True, reducedMotion = False, glitch = True, mascotIdle = True,
     speed = ''normal'', unicodeMode = ''auto''\<rparr>"

definition default_update :: UpdateSettings where
  "default_update = \<lparr>channel = ''stable'', mode = Notify, checkOnStart = True,
     skippedPayloadVersion = []\<rparr>"

definition default_config :: Config where
  "default_config = \<lparr>strategyId = ''general'', gameFilter = GameOff, update_settings = default_update,
     ui = default_ui\<rparr>"

section \<open>Names\<close>

definition ParseGameFilter :: "string \<Rightarrow> GameFilterMode option" where
  "ParseGameFilter value =
     (if value = ''off'' then Some GameOff
      else if value = ''all'' then Some GameAll
      else if value = ''tcp'' then Some GameTcp
      else if value = ''udp'' then Some GameUdp
      else None)"

definition ParseUpdateMode :: "string \<Rightarrow> UpdateMode option" where
  "ParseUpdateMode value =
     (if value = ''notify'' then Some Notify
      else if value = ''download'' then Some Download
      else if value = ''automatic'' then Some Automatic
      else if value = ''disabled'' then Some Disabled
      else None)"

fun GameFilterModeName :: "GameFilterMode \<Rightarrow> string" where
  "GameFilterModeName GameOff = ''off''"
| "GameFilterModeName GameAll = ''all''"
| "GameFilterModeName GameTcp = ''tcp''"
| "GameFilterModeName GameUdp = ''udp''"

fun UpdateModeName :: "UpdateMode \<Rightarrow> string" where
  "UpdateModeName Notify = ''notify''"
| "UpdateModeName Download = ''download''"
| "UpdateModeName Automatic = ''automatic''"
| "UpdateModeName Disabled = ''disabled''"

definition strategy_id_char :: "char \<Rightarrow> bool" where
  "strategy_id_char c \<longleftrightarrow> IsLower c \<or> IsUpper c \<or> IsDigit c \<or> c = CHR ''_'' \<or> c = CHR ''-''"

definition IsValidStrategyIdSyntax :: "string \<Rightarrow> bool" where
  "IsValidStrategyIdSyntax i \<longleftrightarrow> i \<noteq> [] \<and> length i \<le> 64 \<and> list_all strategy_id_char i"

section \<open>Parsing\<close>

definition Member :: "jvalue \<Rightarrow> string \<Rightarrow> jvalue option" where
  "Member obj key = Find obj key"

definition StringMember :: "jvalue \<Rightarrow> string \<Rightarrow> string option" where
  "StringMember obj key = (case Member obj key of None \<Rightarrow> None | Some v \<Rightarrow> AsString v)"

definition BoolMember :: "jvalue \<Rightarrow> string \<Rightarrow> bool option" where
  "BoolMember obj key = (case Member obj key of None \<Rightarrow> None | Some v \<Rightarrow> AsBool v)"

definition config_options :: ParseOptions where
  "config_options = \<lparr>maxBytes = 1024 * 1024, maxDepth = 16, maxValues = 512\<rparr>"

text \<open>The blocks of \<^verbatim>\<open>ParseConfig\<close>, in the order of the code.\<close>

definition ParseGame :: "jvalue \<Rightarrow> Config \<Rightarrow> string + Config" where
  "ParseGame root config =
     (case Member root ''gameFilter'' of
        None \<Rightarrow> Inr config
      | Some game \<Rightarrow>
          (case AsString game of
             Some m \<Rightarrow>
               (case ParseGameFilter m of
                  None \<Rightarrow> Inl ''invalid top-level 'gameFilter' value''
                | Some parsedMode \<Rightarrow> Inr (config\<lparr>gameFilter := parsedMode\<rparr>))
           | None \<Rightarrow>
               (case AsBool game of
                  Some legacy \<Rightarrow> Inr (config\<lparr>gameFilter := if legacy then GameAll else GameOff\<rparr>)
                | None \<Rightarrow> Inl ''invalid top-level 'gameFilter' type'')))"

definition set_bool :: "bool option \<Rightarrow> (bool \<Rightarrow> 'a \<Rightarrow> 'a) \<Rightarrow> 'a \<Rightarrow> 'a" where
  "set_bool value f x = (case value of None \<Rightarrow> x | Some b \<Rightarrow> f b x)"

definition set_choice :: "string option \<Rightarrow> string list \<Rightarrow> (string \<Rightarrow> 'a \<Rightarrow> 'a) \<Rightarrow> 'a \<Rightarrow> 'a" where
  "set_choice value choices f x =
     (case value of None \<Rightarrow> x | Some s \<Rightarrow> if s \<in> set choices then f s x else x)"

definition speed_names :: "string list" where
  "speed_names = [''slow'', ''normal'', ''fast'']"

definition unicode_names :: "string list" where
  "unicode_names = [''auto'', ''unicode'', ''ascii'']"

definition ReadUi :: "jvalue \<Rightarrow> UiSettings \<Rightarrow> UiSettings" where
  "ReadUi obj u0 =
     (let u1 = set_bool (BoolMember obj ''animations'') (\<lambda>b u. u\<lparr>animations := b\<rparr>) u0;
          u2 = set_bool (BoolMember obj ''reduced_motion'') (\<lambda>b u. u\<lparr>reducedMotion := b\<rparr>) u1;
          u3 = set_bool (BoolMember obj ''glitch_effects'') (\<lambda>b u. u\<lparr>glitch := b\<rparr>) u2;
          u4 = set_bool (BoolMember obj ''mascot_idle'') (\<lambda>b u. u\<lparr>mascotIdle := b\<rparr>) u3;
          u5 = set_choice (StringMember obj ''animation_speed'') speed_names
                 (\<lambda>s u. u\<lparr>speed := s\<rparr>) u4
      in set_choice (StringMember obj ''unicode_mode'') unicode_names
           (\<lambda>s u. u\<lparr>unicodeMode := s\<rparr>) u5)"

definition ParseUi :: "jvalue \<Rightarrow> Config \<Rightarrow> string + Config" where
  "ParseUi root config =
     (case Member root ''ui'' of
        None \<Rightarrow> Inr config
      | Some obj \<Rightarrow>
          if AsObject obj = None then Inl ''invalid top-level 'ui' type''
          else Inr (config\<lparr>ui := ReadUi obj (ui config)\<rparr>))"

definition ReadUpdate :: "jvalue \<Rightarrow> UpdateSettings \<Rightarrow> UpdateSettings" where
  "ReadUpdate obj u0 =
     (let u1 = set_choice (StringMember obj ''channel'') [''stable''] (\<lambda>s u. u\<lparr>channel := s\<rparr>) u0;
          u2 = (case StringMember obj ''mode'' of
                  None \<Rightarrow> u1
                | Some m \<Rightarrow>
                    (case ParseUpdateMode m of None \<Rightarrow> u1 | Some pm \<Rightarrow> u1\<lparr>mode := pm\<rparr>));
          u3 = set_bool (BoolMember obj ''check_on_start'') (\<lambda>b u. u\<lparr>checkOnStart := b\<rparr>) u2
      in (case Member obj ''skipped_payload_version'' of
            None \<Rightarrow> u3
          | Some skipped \<Rightarrow>
              (case AsString skipped of
                 Some value \<Rightarrow> u3\<lparr>skippedPayloadVersion := value\<rparr>
               | None \<Rightarrow> if \<not> IsNull skipped then u3\<lparr>skippedPayloadVersion := []\<rparr> else u3)))"

definition ParseUpdate :: "jvalue \<Rightarrow> Config \<Rightarrow> string + Config" where
  "ParseUpdate root config =
     (case Member root ''update'' of
        None \<Rightarrow> Inr config
      | Some obj \<Rightarrow>
          if AsObject obj = None then Inl ''invalid top-level 'update' type''
          else Inr (config\<lparr>update_settings := ReadUpdate obj (update_settings config)\<rparr>))"

definition ParseConfig :: "string \<Rightarrow> string + Config" where
  "ParseConfig input =
     (case Parse input config_options of
        Inl (message, _) \<Rightarrow> Inl message
      | Inr root \<Rightarrow>
          if AsObject root = None then Inl ''config is not a JSON object''
          else (case StringMember root ''strategy'' of
                  None \<Rightarrow> Inl (''missing or invalid top-level 'strategy'' @ [CHR 0x27])
                | Some strategy \<Rightarrow>
                    if \<not> IsValidStrategyIdSyntax strategy
                    then Inl (''missing or invalid top-level 'strategy'' @ [CHR 0x27])
                    else (case ParseGame root (default_config\<lparr>strategyId := strategy\<rparr>) of
                            Inl e \<Rightarrow> Inl e
                          | Inr c1 \<Rightarrow>
                              (case ParseUi root c1 of
                                 Inl e \<Rightarrow> Inl e
                               | Inr c2 \<Rightarrow> ParseUpdate root c2))))"

section \<open>Serialising\<close>

definition bool_text :: "bool \<Rightarrow> string" where
  "bool_text b = (if b then ''true'' else ''false'')"

abbreviation nl :: string where
  "nl \<equiv> [CHR 0x0A]"

abbreviation dq :: string where
  "dq \<equiv> [CHR 0x22]"

text \<open>A line of the output up to the value: the indentation, the quoted key and the colon.\<close>

definition key_text :: "string \<Rightarrow> string \<Rightarrow> string" where
  "key_text indent key = indent @ dq @ key @ dq @ '': ''"

definition SerializeConfig :: "string \<Rightarrow> Config \<Rightarrow> string" where
  \<comment> \<open>\<open>version_str\<close> is \<^verbatim>\<open>CHEBURNET_VERSION_STR\<close>, which the build generates\<close>
  "SerializeConfig version_str config =
     CHR 0x7B # nl @
     key_text ''  '' ''version'' @ dq @ version_str @ dq @ '','' @ nl @
     key_text ''  '' ''strategy'' @ Quote (strategyId config) @ '','' @ nl @
     key_text ''  '' ''gameFilter'' @ Quote (GameFilterModeName (gameFilter config)) @ '','' @ nl @
     key_text ''  '' ''update'' @ [CHR 0x7B] @ nl @
     key_text ''    '' ''channel'' @ dq @ ''stable'' @ dq @ '','' @ nl @
     key_text ''    '' ''mode'' @ Quote (UpdateModeName (mode (update_settings config))) @ '','' @ nl @
     key_text ''    '' ''check_on_start'' @ bool_text (checkOnStart (update_settings config)) @ '','' @ nl @
     key_text ''    '' ''skipped_payload_version'' @
       (if skippedPayloadVersion (update_settings config) = [] then ''null'' @ nl
        else Quote (skippedPayloadVersion (update_settings config)) @ nl) @
     ''  '' @ [CHR 0x7D] @ '','' @ nl @
     key_text ''  '' ''ui'' @ [CHR 0x7B] @ nl @
     key_text ''    '' ''animations'' @ bool_text (animations (ui config)) @ '','' @ nl @
     key_text ''    '' ''animation_speed'' @ Quote (speed (ui config)) @ '','' @ nl @
     key_text ''    '' ''reduced_motion'' @ bool_text (reducedMotion (ui config)) @ '','' @ nl @
     key_text ''    '' ''glitch_effects'' @ bool_text (glitch (ui config)) @ '','' @ nl @
     key_text ''    '' ''mascot_idle'' @ bool_text (mascotIdle (ui config)) @ '','' @ nl @
     key_text ''    '' ''unicode_mode'' @ Quote (unicodeMode (ui config)) @ nl @
     ''  '' @ [CHR 0x7D] @ nl @
     [CHR 0x7D] @ nl"

section \<open>Loading, saving, importing\<close>

text \<open>
  \<open>validated\<close> is the answer of \<^verbatim>\<open>securefs::ValidateProtectedObject\<close> on the path, \<open>file\<close> that of
  \<^verbatim>\<open>CreateFileW\<close> with what the handle then delivers.
\<close>

definition config_limit :: nat where
  "config_limit = 1024 * 1024"

definition LoadConfig :: "bool \<Rightarrow> opened_file option \<Rightarrow> Config" where
  "LoadConfig validated file =
     (if \<not> validated then default_config
      else (case file of
              None \<Rightarrow> default_config
            | Some f \<Rightarrow>
                if regular_file f \<noteq> Some True then default_config
                else (case read_loop config_limit (reads f) [] of
                        ReadAll content \<Rightarrow>
                          (case ParseConfig content of Inr c \<Rightarrow> c | Inl _ \<Rightarrow> default_config)
                      | _ \<Rightarrow> default_config)))"

definition ReadAndParseConfigFile :: "bool \<Rightarrow> opened_file option \<Rightarrow> string + Config" where
  "ReadAndParseConfigFile validated file =
     (if \<not> validated then Inl ''unsafe config object''
      else (case file of
              None \<Rightarrow> Inl ''cannot open config''
            | Some f \<Rightarrow>
                (case read_loop config_limit (reads f) [] of
                   ReadAll content \<Rightarrow> ParseConfig content
                 | _ \<Rightarrow> Inl ''config read/size rejected'')))"

text \<open>\<open>AtomicWrite\<close> is \<^verbatim>\<open>securefs::AtomicWrite\<close> on a state of the file system.\<close>

definition SaveConfig ::
  "(wstring \<Rightarrow> string \<Rightarrow> 'w \<Rightarrow> bool \<times> 'w) \<Rightarrow> string \<Rightarrow> wstring \<Rightarrow> Config \<Rightarrow> 'w \<Rightarrow> bool \<times> 'w" where
  "SaveConfig AtomicWrite version_str path config w =
     AtomicWrite path (SerializeConfig version_str config) w"

datatype migrate_detail =
    NewConfigExists | LegacyAbsent | LegacyQueryFailed | LegacyUnsafe | LegacyRejected
  | SaveRejected | LegacyImported

text \<open>\<^verbatim>\<open>GetFileAttributesW\<close>: the object exists, is missing, or cannot be queried.\<close>

datatype attributes = Exists | NotFound | QueryFailed

definition MigrateLegacyConfig ::
  "(wstring \<Rightarrow> string \<Rightarrow> 'w \<Rightarrow> bool \<times> 'w) \<Rightarrow> string \<Rightarrow> (wstring \<Rightarrow> attributes) \<Rightarrow>
   (wstring \<Rightarrow> bool) \<Rightarrow> (wstring \<Rightarrow> opened_file option) \<Rightarrow> wstring \<Rightarrow> wstring \<Rightarrow> 'w \<Rightarrow>
   (bool \<times> migrate_detail) \<times> 'w" where
  "MigrateLegacyConfig AtomicWrite version_str attrs ValidateObject OpenFile legacyPath newPath w =
     (if attrs newPath = Exists then ((True, NewConfigExists), w)
      else (case attrs legacyPath of
              NotFound \<Rightarrow> ((True, LegacyAbsent), w)
            | QueryFailed \<Rightarrow> ((False, LegacyQueryFailed), w)
            | Exists \<Rightarrow>
                if \<not> ValidateObject legacyPath then ((False, LegacyUnsafe), w)
                else (case ReadAndParseConfigFile (ValidateObject legacyPath) (OpenFile legacyPath) of
                        Inl _ \<Rightarrow> ((False, LegacyRejected), w)
                      | Inr config \<Rightarrow>
                          (case SaveConfig AtomicWrite version_str newPath config w of
                             (False, w') \<Rightarrow> ((False, SaveRejected), w')
                           | (True, w') \<Rightarrow> ((True, LegacyImported), w')))))"

section \<open>What a parsed configuration is\<close>

text \<open>The well-formedness that \<open>ParseConfig\<close> guarantees and \<open>SerializeConfig\<close> needs.\<close>

definition config_ok :: "Config \<Rightarrow> bool" where
  "config_ok c \<longleftrightarrow>
     IsValidStrategyIdSyntax (strategyId c) \<and> channel (update_settings c) = ''stable'' \<and>
     utf8_text (skippedPayloadVersion (update_settings c)) \<and>
     speed (ui c) \<in> set speed_names \<and>
     unicodeMode (ui c) \<in> set unicode_names"

lemma utf8_Nil [simp]: "utf8_text []"
  by (rule utf8_nil)

lemma default_config_ok: "config_ok default_config"
  by (simp add: config_ok_def default_config_def default_update_def default_ui_def
      speed_names_def unicode_names_def IsValidStrategyIdSyntax_def strategy_id_char_def char_class)

lemma ReadUi_ok:
  "speed u \<in> set speed_names \<Longrightarrow> speed (ReadUi v u) \<in> set speed_names"
  "unicodeMode u \<in> set unicode_names \<Longrightarrow>
     unicodeMode (ReadUi v u) \<in> set unicode_names"
  by (auto simp: ReadUi_def set_bool_def set_choice_def Let_def split: option.splits)

lemma ReadUpdate_ok:
  "channel u = ''stable'' \<Longrightarrow> channel (ReadUpdate v u) = ''stable''"
  "strings_ok v \<Longrightarrow> utf8_text (skippedPayloadVersion u) \<Longrightarrow>
     utf8_text (skippedPayloadVersion (ReadUpdate v u))"
  by (auto simp: ReadUpdate_def set_bool_def set_choice_def Let_def Member_def
      dest: strings_ok_Find strings_ok_AsString split: option.splits)

lemma ParseGame_ok: "ParseGame v c = Inr c' \<Longrightarrow> config_ok c \<Longrightarrow> config_ok c'"
  by (auto simp: ParseGame_def config_ok_def split: option.splits)

lemma ParseUi_ok: "ParseUi v c = Inr c' \<Longrightarrow> config_ok c \<Longrightarrow> config_ok c'"
  using ReadUi_ok by (auto simp: ParseUi_def config_ok_def split: option.splits if_splits)

lemma ParseUpdate_ok: "ParseUpdate v c = Inr c' \<Longrightarrow> strings_ok v \<Longrightarrow> config_ok c \<Longrightarrow> config_ok c'"
  using ReadUpdate_ok strings_ok_Find
  by (auto simp: ParseUpdate_def config_ok_def Member_def split: option.splits if_splits)

lemma ParseConfig_ok: "ParseConfig input = Inr c \<Longrightarrow> config_ok c"
proof -
  assume "ParseConfig input = Inr c"
  then obtain root s c1 c2 where p: "Parse input config_options = Inr root"
    and s: "IsValidStrategyIdSyntax s" and g: "ParseGame root (default_config\<lparr>strategyId := s\<rparr>) = Inr c1"
    and u: "ParseUi root c1 = Inr c2" "ParseUpdate root c2 = Inr c"
    by (auto simp: ParseConfig_def split: sum.splits prod.splits option.splits if_splits)
  have "config_ok (default_config\<lparr>strategyId := s\<rparr>)"
    using s default_config_ok by (simp add: config_ok_def)
  then show ?thesis using ParseGame_ok [OF g] ParseUi_ok [OF u(1)] ParseUpdate_ok [OF u(2) Parse_strings [OF p]]
    by blast
qed

text \<open>Loading the configuration always gives a usable one: whatever the validation, the open
  call and the bytes read are, and however the JSON text is malformed, the result has a valid
  strategy identifier, the channel \<open>stable\<close>, a valid animation speed and unicode mode, and a skipped
  version that is valid UTF-8; the defaults replace everything that cannot be read.\<close>

lemma LoadConfig_ok: "config_ok (LoadConfig validated file)"
  using ParseConfig_ok default_config_ok
  by (simp add: LoadConfig_def split: option.split read_outcome.split sum.split)

section \<open>Saving and loading are inverse\<close>

text \<open>The value that the serialised text spells.\<close>

definition update_members :: "UpdateSettings \<Rightarrow> (string \<times> jvalue) list" where
  "update_members u =
     [(''channel'', JString ''stable''), (''mode'', JString (UpdateModeName (mode u))),
      (''check_on_start'', JBool (checkOnStart u)),
      (''skipped_payload_version'',
        if skippedPayloadVersion u = [] then JNull else JString (skippedPayloadVersion u))]"

definition ui_members :: "UiSettings \<Rightarrow> (string \<times> jvalue) list" where
  "ui_members u =
     [(''animations'', JBool (animations u)), (''animation_speed'', JString (speed u)),
      (''reduced_motion'', JBool (reducedMotion u)), (''glitch_effects'', JBool (glitch u)),
      (''mascot_idle'', JBool (mascotIdle u)), (''unicode_mode'', JString (unicodeMode u))]"

definition config_members :: "string \<Rightarrow> Config \<Rightarrow> (string \<times> jvalue) list" where
  "config_members ver c =
     [(''version'', JString ver), (''strategy'', JString (strategyId c)),
      (''gameFilter'', JString (GameFilterModeName (gameFilter c))),
      (''update'', JObject (update_members (update_settings c))),
      (''ui'', JObject (ui_members (ui c)))]"

lemma member_last_line:
  "list_all plain_char k \<Longrightarrow> jtext a v \<Longrightarrow> ws w \<Longrightarrow> jmembers (key_text [] k @ a @ w) [(k, v)]"
  using member_last [of k a v w] by (simp add: key_text_def)

lemma member_line:
  "list_all plain_char k \<Longrightarrow> jtext a v \<Longrightarrow> ws i \<Longrightarrow> jmembers (key_text [] k' @ m) ms \<Longrightarrow>
     jmembers (key_text [] k @ a @ '','' @ nl @ key_text i k' @ m) ((k, v) # ms)"
  using member_more [of k a v "nl @ i" "key_text [] k' @ m" ms]
  by (simp add: key_text_def is_json_ws_def)

lemma jtext_bool: "jtext (bool_text b) (JBool b)"
  by (simp add: bool_text_def t_true t_false)

lemma plain_literal: "list_all plain_char s \<Longrightarrow> jtext (dq @ s @ dq) (JString s)"
  using t_string [OF jstr_plain [of s]] by simp

lemma object_text:
  "ws i \<Longrightarrow> jmembers (key_text [] k @ m) ms \<Longrightarrow> distinct (map fst ms) \<Longrightarrow>
     jtext (CHR 0x7B # nl @ key_text i k @ m @ [CHR 0x7D]) (JObject ms)"
  using t_object [of "nl @ i" "key_text [] k @ m" ms] by (simp add: key_text_def is_json_ws_def)

lemma utf8_names:
  "utf8_text (GameFilterModeName g)" "utf8_text (UpdateModeName m)"
  by (cases g; simp add: utf8_plain code_def) (cases m; simp add: utf8_plain code_def)

lemma utf8_choice:
  "s \<in> set speed_names \<Longrightarrow> utf8_text s" "s \<in> set unicode_names \<Longrightarrow> utf8_text s"
  by (auto simp: speed_names_def unicode_names_def code_def intro!: utf8_plain)

lemma utf8_strategy_id: "IsValidStrategyIdSyntax i \<Longrightarrow> utf8_text i"
  by (rule utf8_plain) (auto simp: IsValidStrategyIdSyntax_def strategy_id_char_def list_all_iff
      char_class less_eq_char_def code_def)

lemma json_ws_chars [simp]: "is_json_ws CHR '' ''" "is_json_ws CHR 0x0A"
  by (simp_all add: is_json_ws_def)

lemma update_text:
  assumes "utf8_text (skippedPayloadVersion u)"
  shows "jmembers
     (key_text [] ''channel'' @ (dq @ ''stable'' @ dq) @ '','' @ nl @
      key_text ''    '' ''mode'' @ Quote (UpdateModeName (mode u)) @ '','' @ nl @
      key_text ''    '' ''check_on_start'' @ bool_text (checkOnStart u) @ '','' @ nl @
      key_text ''    '' ''skipped_payload_version'' @
        (if skippedPayloadVersion u = [] then ''null'' else Quote (skippedPayloadVersion u)) @
      nl @ ''  '') (update_members u)"
  unfolding update_members_def using assms
  by (intro member_line member_last_line plain_literal jtext_Quote utf8_names jtext_bool)
    (auto simp: plain_char_def code_def intro: t_null jtext_Quote)

lemma ui_text:
  assumes "speed u \<in> set speed_names" "unicodeMode u \<in> set unicode_names"
  shows "jmembers
     (key_text [] ''animations'' @ bool_text (animations u) @ '','' @ nl @
      key_text ''    '' ''animation_speed'' @ Quote (speed u) @ '','' @ nl @
      key_text ''    '' ''reduced_motion'' @ bool_text (reducedMotion u) @ '','' @ nl @
      key_text ''    '' ''glitch_effects'' @ bool_text (glitch u) @ '','' @ nl @
      key_text ''    '' ''mascot_idle'' @ bool_text (mascotIdle u) @ '','' @ nl @
      key_text ''    '' ''unicode_mode'' @ Quote (unicodeMode u) @ nl @ ''  '') (ui_members u)"
  unfolding ui_members_def using assms
  by (intro member_line member_last_line jtext_Quote jtext_bool)
    (auto simp: plain_char_def code_def utf8_choice)

lemma SerializeConfig_text:
  assumes "config_ok c" "list_all plain_char ver"
  shows "\<exists>a. SerializeConfig ver c = a @ nl \<and> jtext a (JObject (config_members ver c))"
proof -
  let ?u = "update_settings c"
  have ok: "utf8_text (skippedPayloadVersion ?u)" "speed (ui c) \<in> set speed_names"
    "unicodeMode (ui c) \<in> set unicode_names" "utf8_text (strategyId c)"
    using assms(1) utf8_strategy_id by (auto simp: config_ok_def)
  let ?update = "CHR 0x7B # nl @ key_text ''    '' ''channel'' @ ((dq @ ''stable'' @ dq) @ '','' @ nl @
      key_text ''    '' ''mode'' @ Quote (UpdateModeName (mode ?u)) @ '','' @ nl @
      key_text ''    '' ''check_on_start'' @ bool_text (checkOnStart ?u) @ '','' @ nl @
      key_text ''    '' ''skipped_payload_version'' @
        (if skippedPayloadVersion ?u = [] then ''null'' else Quote (skippedPayloadVersion ?u)) @
      nl @ ''  '') @ [CHR 0x7D]"
  let ?ui = "CHR 0x7B # nl @ key_text ''    '' ''animations'' @ (bool_text (animations (ui c)) @ '','' @ nl @
      key_text ''    '' ''animation_speed'' @ Quote (speed (ui c)) @ '','' @ nl @
      key_text ''    '' ''reduced_motion'' @ bool_text (reducedMotion (ui c)) @ '','' @ nl @
      key_text ''    '' ''glitch_effects'' @ bool_text (glitch (ui c)) @ '','' @ nl @
      key_text ''    '' ''mascot_idle'' @ bool_text (mascotIdle (ui c)) @ '','' @ nl @
      key_text ''    '' ''unicode_mode'' @ Quote (unicodeMode (ui c)) @ nl @ ''  '') @ [CHR 0x7D]"
  have u: "jtext ?update (JObject (update_members ?u))"
    by (intro object_text update_text ok) (simp_all add: update_members_def)
  have v: "jtext ?ui (JObject (ui_members (ui c)))"
    by (intro object_text ui_text ok) (simp_all add: ui_members_def)
  let ?m = "(dq @ ver @ dq) @ '','' @ nl @
      key_text ''  '' ''strategy'' @ Quote (strategyId c) @ '','' @ nl @
      key_text ''  '' ''gameFilter'' @ Quote (GameFilterModeName (gameFilter c)) @ '','' @ nl @
      key_text ''  '' ''update'' @ ?update @ '','' @ nl @
      key_text ''  '' ''ui'' @ ?ui @ nl"
  have "jmembers (key_text [] ''version'' @ ?m) (config_members ver c)"
    unfolding config_members_def using assms(2)
    by (intro member_line member_last_line plain_literal jtext_Quote utf8_names ok u v)
      (simp_all add: plain_char_def code_def)
  then have t: "jtext (CHR 0x7B # nl @ key_text ''  '' ''version'' @ ?m @ [CHR 0x7D])
      (JObject (config_members ver c))"
    by (intro object_text) (simp_all add: config_members_def)
  have "SerializeConfig ver c = (CHR 0x7B # nl @ key_text ''  '' ''version'' @ ?m @ [CHR 0x7D]) @ nl"
    by (simp add: SerializeConfig_def)
  with t show ?thesis by blast
qed

lemma members_counts:
  "value_count (JObject (config_members ver c)) = 16" "height (JObject (config_members ver c)) = 2"
  by (simp_all add: config_members_def update_members_def ui_members_def)

lemma Parse_SerializeConfig:
  assumes "config_ok c" "list_all plain_char ver" "length (SerializeConfig ver c) \<le> config_limit"
  shows "Parse (SerializeConfig ver c) config_options = Inr (JObject (config_members ver c))"
proof -
  obtain a where a: "SerializeConfig ver c = a @ nl" "jtext a (JObject (config_members ver c))"
    using SerializeConfig_text [OF assms(1,2)] by blast
  have "skip_bom (SerializeConfig ver c) = [] @ a @ nl"
    unfolding a(1) [symmetric] by (simp add: skip_bom_def SerializeConfig_def)
  then have "\<exists>w b w'. skip_bom (SerializeConfig ver c) = w @ b @ w' \<and> ws w \<and> ws w' \<and>
      jtext b (JObject (config_members ver c))"
    using a(2) by (intro exI [of _ "[]"] exI [of _ a] exI [of _ nl]) simp
  then show ?thesis
    unfolding Parse_grammar using assms(3) members_counts [of ver c]
    by (simp add: config_options_def config_limit_def)
qed

lemma ParseGameFilter_Name: "ParseGameFilter (GameFilterModeName g) = Some g"
  by (cases g) (simp_all add: ParseGameFilter_def)

lemma ParseUpdateMode_Name: "ParseUpdateMode (UpdateModeName m) = Some m"
  by (cases m) (simp_all add: ParseUpdateMode_def)

lemmas member_defs = Member_def StringMember_def BoolMember_def Find_def

lemma ReadUpdate_members:
  "channel u = ''stable'' \<Longrightarrow> ReadUpdate (JObject (update_members u)) default_update = u"
  by (cases u) (simp add: ReadUpdate_def update_members_def member_defs set_bool_def set_choice_def
      ParseUpdateMode_Name default_update_def)

lemma ReadUi_members:
  "speed u \<in> set speed_names \<Longrightarrow> unicodeMode u \<in> set unicode_names \<Longrightarrow>
     ReadUi (JObject (ui_members u)) default_ui = u"
  by (cases u) (simp add: ReadUi_def ui_members_def member_defs set_bool_def set_choice_def
      default_ui_def)

lemma config_roundtrip:
  assumes "config_ok c" "list_all plain_char ver" "length (SerializeConfig ver c) \<le> config_limit"
  shows "ParseConfig (SerializeConfig ver c) = Inr c"
proof -
  let ?root = "JObject (config_members ver c)"
  have "StringMember ?root ''strategy'' = Some (strategyId c)"
    "ParseGame ?root d = Inr (d\<lparr>gameFilter := gameFilter c\<rparr>)"
    "ParseUi ?root d = Inr (d\<lparr>ui := ReadUi (JObject (ui_members (ui c))) (ui d)\<rparr>)"
    "ParseUpdate ?root d = Inr (d\<lparr>update_settings :=
       ReadUpdate (JObject (update_members (update_settings c))) (update_settings d)\<rparr>)" for d
    by (simp_all add: ParseGame_def ParseUi_def ParseUpdate_def config_members_def member_defs
        ParseGameFilter_Name)
  with assms Parse_SerializeConfig [OF assms] show ?thesis
    by (simp add: ParseConfig_def config_ok_def default_config_def ReadUpdate_members ReadUi_members)
qed

text \<open>The configuration file as a codec, for the version string of any build.\<close>

definition decode_config :: "string \<Rightarrow> Config option" where
  "decode_config s = (case ParseConfig s of Inr c \<Rightarrow> Some c | Inl _ \<Rightarrow> None)"

definition savable :: "string \<Rightarrow> Config \<Rightarrow> bool" where
  "savable ver c \<longleftrightarrow>
     config_ok c \<and> list_all plain_char ver \<and> length (SerializeConfig ver c) \<le> config_limit"

interpretation config_file: codec "SerializeConfig ver" decode_config "savable ver" for ver
  by unfold_locales (simp add: decode_config_def savable_def config_roundtrip)

text \<open>C20. A saved configuration is loaded back unchanged: for every configuration that satisfies the
  invariant of the parser, when the file delivers the serialised text in any chunks and the text is
  within the size limit, \<open>LoadConfig\<close> returns exactly the configuration that was serialised.\<close>

theorem LoadConfig_SerializeConfig:
  assumes "config_ok c" "list_all plain_char ver" "length (SerializeConfig ver c) \<le> config_limit"
    and "delivers rs (SerializeConfig ver c)"
  shows "LoadConfig True (Some \<lparr>regular_file = Some True, reads = rs\<rparr>) = c"
proof -
  have "savable ver c" using assms by (simp add: savable_def)
  then have "ParseConfig (SerializeConfig ver c) = Inr c"
    using config_file.decode_encode [of ver c] by (simp add: decode_config_def split: sum.splits)
  with read_loop_delivers [OF assms(4), of "[]"] assms(3) show ?thesis by (simp add: LoadConfig_def)
qed

definition sample_config :: Config where
  "sample_config = default_config\<lparr>strategyId := ''general_ALT-2'', gameFilter := GameTcp,
     update_settings := default_update\<lparr>mode := Download, skippedPayloadVersion := ''1.8.4''\<rparr>,
     ui := default_ui\<lparr>speed := ''slow'', glitch := False\<rparr>\<rparr>"

text \<open>A non-default configuration, delivered in two chunks.\<close>

theorem LoadConfig_SerializeConfig_witness:
  "LoadConfig True (Some \<lparr>regular_file = Some True,
     reads = [Some (take 100 (SerializeConfig ''1.0.0'' sample_config)),
              Some (drop 100 (SerializeConfig ''1.0.0'' sample_config))]\<rparr>) = sample_config"
proof (rule LoadConfig_SerializeConfig [where ver = "''1.0.0''"])
  have s: "length (SerializeConfig ''1.0.0'' sample_config) \<le> 1000 \<and>
    100 < length (SerializeConfig ''1.0.0'' sample_config)" by code_simp
  then show "length (SerializeConfig ''1.0.0'' sample_config) \<le> config_limit"
    by (simp add: config_limit_def)
  show "delivers [Some (take 100 (SerializeConfig ''1.0.0'' sample_config)),
      Some (drop 100 (SerializeConfig ''1.0.0'' sample_config))]
      (SerializeConfig ''1.0.0'' sample_config)"
    unfolding delivers_def using s
    by (intro exI [of _ "[take 100 (SerializeConfig ''1.0.0'' sample_config),
      drop 100 (SerializeConfig ''1.0.0'' sample_config)]"]) auto
  show "list_all plain_char ''1.0.0''" by code_simp
  have "list_all (\<lambda>c. code c < 0x80) ''1.8.4''" by code_simp
  then have "utf8_text ''1.8.4''" by (rule utf8_plain)
  moreover have "IsValidStrategyIdSyntax (strategyId sample_config)"
    "speed (ui sample_config) \<in> set speed_names" "unicodeMode (ui sample_config) \<in> set unicode_names"
    by code_simp+
  ultimately show "config_ok sample_config"
    by (simp add: config_ok_def sample_config_def default_update_def)
qed

text \<open>The import of the legacy configuration never overwrites an existing configuration and never
  writes anything but a valid one: if it changed the state of the file system at all, the new path
  held nothing, the legacy object passed validation, and the one write was that of the serialised
  text of a configuration with the invariant of the parser, to the new path.\<close>

lemma MigrateLegacyConfig_safe:
  assumes "MigrateLegacyConfig AtomicWrite ver attrs ValidateObject OpenFile legacyPath newPath w
      = ((ok, detail), w')" and "w' \<noteq> w"
  shows "attrs newPath \<noteq> Exists \<and> attrs legacyPath = Exists \<and> ValidateObject legacyPath \<and>
    (\<exists>c. config_ok c \<and> AtomicWrite newPath (SerializeConfig ver c) w = (ok, w'))"
proof -
  obtain c where "attrs newPath \<noteq> Exists" "attrs legacyPath = Exists" "ValidateObject legacyPath"
    and c: "ReadAndParseConfigFile (ValidateObject legacyPath) (OpenFile legacyPath) = Inr c"
    and "AtomicWrite newPath (SerializeConfig ver c) w = (ok, w')"
    using assms by (auto simp: MigrateLegacyConfig_def SaveConfig_def
        split: if_splits attributes.splits sum.splits prod.splits bool.splits)
  moreover have "config_ok c"
    using c ParseConfig_ok by (auto simp: ReadAndParseConfigFile_def
        split: if_splits option.splits read_outcome.splits)
  ultimately show ?thesis by blast
qed

text \<open>An import that happens, on a file system that is the list of the writes made to it.\<close>

lemma MigrateLegacyConfig_safe_witness:
  "(\<exists>c. config_ok c \<and> [(W ''new'', SerializeConfig ''1.0.0'' c)] =
      snd (MigrateLegacyConfig (\<lambda>p s w. (True, w @ [(p, s)])) ''1.0.0''
        (\<lambda>p. if p = W ''old'' then Exists else NotFound) (\<lambda>p. True)
        (\<lambda>p. Some \<lparr>regular_file = None,
          reads = [Some [CHR 0x7B, CHR 0x22], Some ''strategy'', Some [CHR 0x22, CHR '':'', CHR 0x22],
            Some ''general'', Some [CHR 0x22, CHR 0x7D]]\<rparr>) (W ''old'') (W ''new'') []))"
  (is "\<exists>c. _ \<and> _ = snd ?run")
proof -
  have r: "?run = ((True, LegacyImported), [(W ''new'', SerializeConfig ''1.0.0'' default_config)])"
    by code_simp
  have "[(W ''new'', SerializeConfig ''1.0.0'' default_config)] \<noteq> []" by simp
  from MigrateLegacyConfig_safe [OF r this] show ?thesis unfolding r by auto
qed

end
