(* ===== verification/Version.thy ===== *)
theory Version
  imports Prelude
begin

text \<open>
  The version model of \<^verbatim>\<open>src/src/update/Version.h\<close> and \<^verbatim>\<open>Version.cpp\<close>: the strict grammar of
  \<^verbatim>\<open>ParseVersion\<close> and the order of \<^verbatim>\<open>CompareVersions\<close> on which the downgrade protection of the
  updater rests.

  A position in the input is the suffix that starts there, so a scanning loop is a recursive
  function on the rest of the input. A core part is an \<^verbatim>\<open>unsigned long long\<close>, hence a 64-bit
  word. Where \<^verbatim>\<open>SplitIdentifiers\<close> fails after having appended to its output, the callers drop the
  output, so the model returns \<open>None\<close>.
\<close>

section \<open>Parsing\<close>

record version =
  parts :: "64 word list"
  suffix :: string
  prerelease :: bool
  revision :: string
  prereleaseIds :: "string list"

definition kMaxCoreParts :: nat where
  "kMaxCoreParts = 8"

definition IsIdentifierChar :: "char \<Rightarrow> bool" where
  "IsIdentifierChar c \<longleftrightarrow> IsDigit c \<or> IsLower c \<or> IsUpper c \<or> c = CHR ''-''"

function SplitIdentifiers_loop :: "string \<Rightarrow> string list \<Rightarrow> string list option" where
  "SplitIdentifiers_loop rest output =
     (case split_at CHR ''.'' rest of (item, following) \<Rightarrow>
        if item = [] \<or> 48 < length item then None
        else if \<not> list_all IsIdentifierChar item then None
        else (case following of
                None \<Rightarrow> Some (output @ [item])
              | Some r \<Rightarrow>
                  if r = [] then None  \<comment> \<open>trailing dot\<close>
                  else SplitIdentifiers_loop r (output @ [item])))"
  by pat_completeness auto
termination
  by (relation "measure (\<lambda>(rest, _). length rest)") (auto dest: sym simp: split_at_Some)

definition SplitIdentifiers :: "string \<Rightarrow> string list option" where
  "SplitIdentifiers value = (if value = [] then None else SplitIdentifiers_loop value [])"

text \<open>The loop over the dot-separated core numbers: the parts and what follows them.\<close>

function ParseCore :: "string \<Rightarrow> 64 word list \<Rightarrow> (64 word list \<times> string) option" where
  "ParseCore rest acc =
     (let ds = takeWhile IsDigit rest; r = dropWhile IsDigit rest in
      if ds = [] then None
      else if 1 < length ds \<and> hd ds = CHR ''0'' then None
      else (case from_chars u64_bound ds of
              FcValue part _ \<Rightarrow>
                (let acc' = acc @ [of_nat part] in
                 if kMaxCoreParts < length acc' then None
                 else (case r of
                         [] \<Rightarrow> Some (acc', [])
                       | c # r' \<Rightarrow>
                           if c = CHR ''.'' then (if r' = [] then None else ParseCore r' acc')
                           else Some (acc', r)))
            | _ \<Rightarrow> None))"
  by pat_completeness auto
termination
proof (relation "measure (\<lambda>(rest, _). length rest)", goal_cases)
  case (2 rest acc ds r part s acc' c r')
  then have "c # r' = dropWhile IsDigit rest" by simp
  then have "length (c # r') \<le> length rest" by (metis length_dropWhile_le)
  then show ?case by simp
qed simp

text \<open>What follows the core: the optional upstream revision letter, prerelease and build.\<close>

definition ParseTail :: "64 word list \<Rightarrow> string \<Rightarrow> version option" where
  "ParseTail core sfx =
     (let (rev, rest) = (if IsLower (hd sfx) then ([hd sfx], tl sfx) else ([], sfx));
          (pre, build) = split_at CHR ''+'' rest in
      if (case build of None \<Rightarrow> False | Some b \<Rightarrow> SplitIdentifiers b = None) then None
      else if pre = [] then
        Some \<lparr>parts = core, suffix = sfx, prerelease = False, revision = rev, prereleaseIds = []\<rparr>
      else if hd pre \<noteq> CHR ''-'' then None
      else (case SplitIdentifiers (tl pre) of
              None \<Rightarrow> None
            | Some ids \<Rightarrow>
                Some \<lparr>parts = core, suffix = sfx, prerelease = True, revision = rev,
                      prereleaseIds = ids\<rparr>))"

definition ParseVersion :: "string \<Rightarrow> version option" where
  "ParseVersion input =
     (let value = (if input \<noteq> [] \<and> (hd input = CHR ''v'' \<or> hd input = CHR ''V'')
                   then tl input else input) in
      if value = [] \<or> 64 < length value then None
      else (case ParseCore value [] of
              None \<Rightarrow> None
            | Some (core, sfx) \<Rightarrow>
                if sfx = [] then
                  Some \<lparr>parts = core, suffix = [], prerelease = False, revision = [],
                        prereleaseIds = []\<rparr>
                else ParseTail core sfx))"

section \<open>The order\<close>

definition IsNumericIdentifier :: "string \<Rightarrow> bool" where
  "IsNumericIdentifier value \<longleftrightarrow>
     list_all IsDigit value \<and> value \<noteq> [] \<and> (length value = 1 \<or> hd value \<noteq> CHR ''0'')"

definition compare_string :: "string \<Rightarrow> string \<Rightarrow> int" where
  \<comment> \<open>\<^verbatim>\<open>if (l != r) return l < r ? -1 : 1\<close>, with 0 for "go on"\<close>
  "compare_string l r = (if l \<noteq> r then (if l < r then -1 else 1) else 0)"

text \<open>One round of the loop of \<^verbatim>\<open>CompareIdentifiers\<close>; 0 is \<^verbatim>\<open>continue\<close>.\<close>

definition CompareIdentifier :: "string \<Rightarrow> string \<Rightarrow> int" where
  "CompareIdentifier l r =
     (let ln = IsNumericIdentifier l; rn = IsNumericIdentifier r in
      if ln \<noteq> rn then (if ln then -1 else 1)
      else if ln then
        (case (from_chars u64_bound l, from_chars u64_bound r) of
           (FcValue a _, FcValue b _) \<Rightarrow> (if a \<noteq> b then (if a < b then -1 else 1) else 0)
         | _ \<Rightarrow> compare_string l r)
      else compare_string l r)"

fun CompareIdentifiers :: "string list \<Rightarrow> string list \<Rightarrow> int" where
  "CompareIdentifiers [] [] = 0"
| "CompareIdentifiers [] (_ # _) = -1"
| "CompareIdentifiers (_ # _) [] = 1"
| "CompareIdentifiers (l # ls) (r # rs) =
     (let c = CompareIdentifier l r in if c \<noteq> 0 then c else CompareIdentifiers ls rs)"

text \<open>The core, padded with zeros to the longer of the two.\<close>

fun CompareParts :: "64 word list \<Rightarrow> 64 word list \<Rightarrow> int" where
  "CompareParts [] [] = 0"
| "CompareParts (l # ls) [] = (if l < 0 then -1 else if l > 0 then 1 else CompareParts ls [])"
| "CompareParts [] (r # rs) = (if 0 < r then -1 else if 0 > r then 1 else CompareParts [] rs)"
| "CompareParts (l # ls) (r # rs) =
     (if l < r then -1 else if l > r then 1 else CompareParts ls rs)"

definition CompareVersions :: "version \<Rightarrow> version \<Rightarrow> int" where
  "CompareVersions left right =
     (let c = CompareParts (parts left) (parts right) in
      if c \<noteq> 0 then c
      else if revision left \<noteq> revision right then
        (if revision left = [] then -1
         else if revision right = [] then 1
         else if revision left < revision right then -1 else 1)
      else if prerelease left \<noteq> prerelease right then (if prerelease left then -1 else 1)
      else if \<not> prerelease left then 0
      else CompareIdentifiers (prereleaseIds left) (prereleaseIds right))"

declare SplitIdentifiers_loop.simps [simp del] ParseCore.simps [simp del]

section \<open>The order is the order of a key\<close>

text \<open>
  The specification of the order: the core without its trailing zeros, then the revision, then
  "is a release", then the prerelease identifiers, each numeric one below each alphanumeric one;
  compared lexicographically. It is a linear order, so the comparison is total, antisymmetric and
  transitive. The one hypothesis, \<open>version_ok\<close>, is that numeric identifiers fit in 64 bits.
\<close>

fun strip_zeros :: "64 word list \<Rightarrow> 64 word list" where
  "strip_zeros [] = []"
| "strip_zeros (x # xs) = (if strip_zeros xs = [] \<and> x = 0 then [] else x # strip_zeros xs)"

definition id_key :: "string \<Rightarrow> nat \<times> nat \<times> string" where
  "id_key s = (if IsNumericIdentifier s then (0, digits_val s, []) else (1, 0, s))"

definition version_key :: "version \<Rightarrow> 64 word list \<times> string \<times> bool \<times> (nat \<times> nat \<times> string) list" where
  "version_key v =
     (strip_zeros (parts v), revision v, \<not> prerelease v,
      if prerelease v then map id_key (prereleaseIds v) else [])"

definition id_fits :: "string \<Rightarrow> bool" where
  "id_fits s \<longleftrightarrow> (IsNumericIdentifier s \<longrightarrow> digits_val s < u64_bound)"

definition version_ok :: "version \<Rightarrow> bool" where
  "version_ok v \<longleftrightarrow> list_all id_fits (prereleaseIds v)"

lemma numeric_from_chars:
  "IsNumericIdentifier s \<Longrightarrow> id_fits s \<Longrightarrow> from_chars u64_bound s = FcValue (digits_val s) []"
  using from_chars_digits [of s "[]" u64_bound] by (simp add: IsNumericIdentifier_def id_fits_def)

lemma compare_string_key: "compare_string l r = three_way l r"
  by (simp add: compare_string_def three_way_def)

lemma CompareIdentifier_key:
  "id_fits l \<Longrightarrow> id_fits r \<Longrightarrow> CompareIdentifier l r = three_way (id_key l) (id_key r)"
  by (auto simp: CompareIdentifier_def Let_def id_key_def numeric_from_chars three_way_pair
      compare_string_key three_way_def)

lemma CompareIdentifiers_key:
  "list_all id_fits ls \<Longrightarrow> list_all id_fits rs \<Longrightarrow>
     CompareIdentifiers ls rs = three_way (map id_key ls) (map id_key rs)"
  by (induction ls rs rule: CompareIdentifiers.induct)
    (auto simp: Let_def CompareIdentifier_key three_way_Cons)

lemma CompareParts_key: "CompareParts l r = three_way (strip_zeros l) (strip_zeros r)"
proof (induction l r rule: CompareParts.induct)
  case (4 l ls r rs)
  consider "l < r" | "l = r" | "r < l" by (rule linorder_cases)
  then show ?case using 4 by cases (auto simp: three_way_def)
qed (auto simp: three_way_def word_gt_0)

lemma CompareVersions_key:
  assumes "version_ok a" "version_ok b"
  shows "CompareVersions a b = three_way (version_key a) (version_key b)"
  using assms
  by (auto simp: CompareVersions_def version_key_def version_ok_def Let_def three_way_pair
      CompareParts_key CompareIdentifiers_key)
    (auto simp: three_way_def)

interpretation version_order: key_order CompareVersions version_key version_ok
  by unfold_locales (rule CompareVersions_key)

lemma compare_string_antisym: "compare_string r l = - compare_string l r"
  by (auto simp: compare_string_def)

lemma CompareIdentifier_antisym: "CompareIdentifier r l = - CompareIdentifier l r"
  using compare_string_antisym [of r l]
  by (auto simp: CompareIdentifier_def Let_def split: from_chars_result.splits)

lemma CompareIdentifiers_antisym: "CompareIdentifiers rs ls = - CompareIdentifiers ls rs"
proof (induction ls rs rule: CompareIdentifiers.induct)
  case (4 l ls r rs)
  then show ?case using CompareIdentifier_antisym [of r l] by (simp add: Let_def)
qed simp_all

lemma CompareParts_antisym: "CompareParts r l = - CompareParts l r"
  unfolding CompareParts_key by (rule three_way_antisym)

lemma CompareVersions_antisym: "CompareVersions b a = - CompareVersions a b"
  using CompareParts_antisym [of "parts b" "parts a"]
    CompareIdentifiers_antisym [of "prereleaseIds b" "prereleaseIds a"]
  by (auto simp: CompareVersions_def Let_def)

lemma CompareVersions_refl [simp]: "CompareVersions a a = 0"
  using CompareVersions_antisym [of a a] by simp

section \<open>The grammar: rendering and parsing are inverse\<close>

definition valid_identifier :: "string \<Rightarrow> bool" where
  "valid_identifier s \<longleftrightarrow> s \<noteq> [] \<and> length s \<le> 48 \<and> list_all IsIdentifierChar s"

definition wf_version :: "version \<Rightarrow> bool" where
  "wf_version v \<longleftrightarrow>
     parts v \<noteq> [] \<and> length (parts v) \<le> kMaxCoreParts \<and>
     (revision v = [] \<or> (\<exists>c. revision v = [c] \<and> IsLower c)) \<and>
     (prerelease v \<longleftrightarrow> prereleaseIds v \<noteq> []) \<and> list_all valid_identifier (prereleaseIds v)"

definition render_core :: "64 word list \<Rightarrow> string" where
  "render_core ps = join CHR ''.'' (map (\<lambda>p. to_string (unat p)) ps)"

definition render_tail :: "version \<Rightarrow> string" where
  "render_tail v =
     revision v @ (if prerelease v then CHR ''-'' # join CHR ''.'' (prereleaseIds v) else [])"

definition render :: "version \<Rightarrow> string" where
  "render v = render_core (parts v) @ render_tail v"

lemma dot_not_identifier: "list_all IsIdentifierChar s \<Longrightarrow> CHR ''.'' \<notin> set s"
  by (auto simp: list_all_iff IsIdentifierChar_def char_class)

lemma plus_not_identifier: "list_all IsIdentifierChar s \<Longrightarrow> CHR ''+'' \<notin> set s"
  by (auto simp: list_all_iff IsIdentifierChar_def char_class)

lemma plus_not_join: "list_all valid_identifier ids \<Longrightarrow> CHR ''+'' \<notin> set (join CHR ''.'' ids)"
  by (induction "CHR ''.''" ids rule: join.induct)
    (auto simp: valid_identifier_def plus_not_identifier)

lemma join_not_Nil: "xs \<noteq> [] \<Longrightarrow> list_all (\<lambda>x. x \<noteq> []) xs \<Longrightarrow> join c xs \<noteq> []"
  by (cases xs) (auto simp: join_Cons)

lemma valid_identifiers_not_Nil: "list_all valid_identifier ids \<Longrightarrow> list_all (\<lambda>x. x \<noteq> []) ids"
  by (auto simp: list_all_iff valid_identifier_def)

lemma SplitIdentifiers_loop_join:
  assumes "list_all valid_identifier ids" "ids \<noteq> []"
  shows "SplitIdentifiers_loop (join CHR ''.'' ids) out = Some (out @ ids)"
  using assms
proof (induction ids arbitrary: out)
  case Nil
  then show ?case by simp
next
  case (Cons i ids)
  have i: "i \<noteq> []" "length i \<le> 48" "list_all IsIdentifierChar i"
    using Cons.prems(1) by (simp_all add: valid_identifier_def)
  show ?case
  proof (cases "ids = []")
    case True
    then show ?thesis using i
      by (simp add: SplitIdentifiers_loop.simps [of i] split_at_notin dot_not_identifier)
  next
    case False
    then have "join CHR ''.'' ids \<noteq> []"
      using Cons.prems(1) by (simp add: join_not_Nil valid_identifiers_not_Nil)
    with Cons False i show ?thesis
      by (simp add: join_Cons SplitIdentifiers_loop.simps [of "i @ _"] split_at_append
          dot_not_identifier)
  qed
qed

lemma SplitIdentifiers_loop_sound:
  "SplitIdentifiers_loop rest out = Some res \<Longrightarrow>
     \<exists>ids. res = out @ ids \<and> ids \<noteq> [] \<and> list_all valid_identifier ids \<and> rest = join CHR ''.'' ids"
proof (induction rest out rule: SplitIdentifiers_loop.induct)
  case (1 rest out)
  obtain item f where sp: "split_at CHR ''.'' rest = (item, f)" by fastforce
  have item: "valid_identifier item"
    using "1.prems" by (auto simp: SplitIdentifiers_loop.simps [of rest] sp valid_identifier_def
        split: if_splits)
  show ?case
  proof (cases f)
    case None
    then show ?thesis
      using "1.prems" sp item
      by (intro exI [of _ "[item]"])
        (auto simp: SplitIdentifiers_loop.simps [of rest] split_at_None split: if_splits)
  next
    case (Some r)
    then have r: "r \<noteq> []" "SplitIdentifiers_loop r (out @ [item]) = Some res"
      using "1.prems" sp by (auto simp: SplitIdentifiers_loop.simps [of rest] split: if_splits)
    have "\<exists>ids. res = (out @ [item]) @ ids \<and> ids \<noteq> [] \<and> list_all valid_identifier ids \<and>
        r = join CHR ''.'' ids"
      using item by (intro "1.IH" [OF sp [symmetric] _ _ Some r]) (simp_all add: valid_identifier_def)
    then obtain ids where "res = (out @ [item]) @ ids" "ids \<noteq> []" "list_all valid_identifier ids"
      "r = join CHR ''.'' ids" by blast
    then show ?thesis using sp Some item
      by (intro exI [of _ "item # ids"]) (simp add: split_at_Some join_Cons)
  qed
qed

lemma SplitIdentifiers_iff:
  "SplitIdentifiers s = Some ids \<longleftrightarrow>
     ids \<noteq> [] \<and> list_all valid_identifier ids \<and> s = join CHR ''.'' ids"
proof (cases "s = []")
  case True
  then show ?thesis
    using join_not_Nil [OF _ valid_identifiers_not_Nil, of ids "CHR ''.''"]
    by (auto simp: SplitIdentifiers_def)
next
  case False
  then show ?thesis
    using SplitIdentifiers_loop_sound [of s "[]"] SplitIdentifiers_loop_join [of ids "[]"]
    by (auto simp: SplitIdentifiers_def)
qed

lemma unat_64_bound: "unat (p :: 64 word) < u64_bound"
  using unsigned_less [of p, where 'a = nat] by (simp add: u64_bound_def)

text \<open>What may follow a core: its first character is neither a digit nor a dot.\<close>

definition core_end :: "string \<Rightarrow> bool" where
  "core_end r \<longleftrightarrow> r = [] \<or> (\<not> IsDigit (hd r) \<and> hd r \<noteq> CHR ''.'')"

lemma render_core_Cons:
  "render_core (p # ps) =
     to_string (unat p) @ (if ps = [] then [] else CHR ''.'' # render_core ps)"
  by (simp add: render_core_def join_Cons)

lemma render_core_not_Nil: "ps \<noteq> [] \<Longrightarrow> render_core ps \<noteq> []"
  by (cases ps) (simp_all add: render_core_Cons)

lemma dot_not_digit [simp]: "\<not> IsDigit CHR ''.''"
  by (simp add: IsDigit_def)

lemma ParseCore_render:
  assumes "ps \<noteq> []" "length acc + length ps \<le> kMaxCoreParts" "core_end r"
  shows "ParseCore (render_core ps @ r) acc = Some (acc @ ps, r)"
  using assms
proof (induction ps arbitrary: acc)
  case Nil
  then show ?case by simp
next
  case (Cons p ps)
  let ?d = "to_string (unat p)" and ?r = "if ps = [] then r else CHR ''.'' # render_core ps @ r"
  have d: "list_all IsDigit ?d" "1 < length ?d \<longrightarrow> hd ?d \<noteq> CHR ''0''"
    using canonical_to_string [of "unat p"] by (simp_all add: canonical_decimal_def)
  have "?r = [] \<or> \<not> IsDigit (hd ?r)"
    using Cons.prems(3) dot_not_digit by (auto simp: core_end_def)
  then have tw: "takeWhile IsDigit (?d @ ?r) = ?d" "dropWhile IsDigit (?d @ ?r) = ?r"
    by (rule takeWhile_stop [OF d(1)])+
  have fc: "from_chars u64_bound ?d = FcValue (unat p) []"
    using from_chars_digits [OF d(1), of "[]"] unat_64_bound [of p] by simp
  have "render_core (p # ps) @ r = ?d @ ?r" by (simp add: render_core_Cons)
  moreover have "ParseCore (?d @ ?r) acc = Some (acc @ p # ps, r)"
    using Cons d tw fc render_core_not_Nil [of ps]
    by (subst ParseCore.simps) (auto simp: core_end_def Let_def split: list.splits)
  ultimately show ?case by simp
qed

lemma ParseCore_sound:
  "ParseCore rest acc = Some (res, r) \<Longrightarrow>
     \<exists>ps. res = acc @ ps \<and> ps \<noteq> [] \<and> length res \<le> kMaxCoreParts \<and> core_end r \<and>
          rest = render_core ps @ r"
proof (induction rest acc rule: ParseCore.induct)
  case (1 rest acc)
  let ?ds = "takeWhile IsDigit rest" and ?r = "dropWhile IsDigit rest"
  have ds: "?ds \<noteq> []" "canonical_decimal ?ds"
    using "1.prems" by (subst (asm) ParseCore.simps,
        auto simp: canonical_decimal_def list_all_iff Let_def dest: set_takeWhileD split: if_splits)+
  have fc: "from_chars u64_bound ?ds =
      (if digits_val ?ds < u64_bound then FcValue (digits_val ?ds) [] else FcOutOfRange)"
    using ds from_chars_digits [of ?ds "[]"] by (simp add: canonical_decimal_def)
  then have lt: "digits_val ?ds < u64_bound"
    using "1.prems" by (subst (asm) ParseCore.simps) (auto simp: Let_def split: if_splits)
  let ?p = "of_nat (digits_val ?ds) :: 64 word"
  have ts: "to_string (unat ?p) = ?ds"
    using ds lt by (simp add: unat_of_nat u64_bound_def canonical_decimal_to_string)
  have len: "length (acc @ [?p]) \<le> kMaxCoreParts"
    using "1.prems" fc lt
    by (subst (asm) ParseCore.simps) (auto simp: Let_def not_less split: if_splits)
  have split: "rest = ?ds @ ?r" by simp
  show ?case
  proof (cases ?r)
    case Nil
    then have "res = acc @ [?p]" "r = []"
      using "1.prems" fc lt len
      by (subst (asm) ParseCore.simps, auto simp: Let_def split: if_splits)+
    then show ?thesis using split Nil len ts
      by (intro exI [of _ "[?p]"]) (simp add: render_core_Cons core_end_def)
  next
    case (Cons c r')
    have cnd: "\<not> IsDigit c" using Cons by (metis dropWhile_eq_Cons_conv)
    show ?thesis
    proof (cases "c = CHR ''.''")
      case True
      then have r': "r' \<noteq> []" "ParseCore r' (acc @ [?p]) = Some (res, r)"
        using "1.prems" fc lt len Cons
        by (subst (asm) ParseCore.simps, auto simp: Let_def split: if_splits)+
      obtain ps where ps: "res = (acc @ [?p]) @ ps" "ps \<noteq> []" "length res \<le> kMaxCoreParts"
        "core_end r" "r' = render_core ps @ r"
        using "1.IH" [OF refl refl ds(1) _ fc [unfolded if_P [OF lt]] refl _ Cons True r'] len ds
        by (auto simp: canonical_decimal_def)
      then show ?thesis using split Cons True ts
        by (intro exI [of _ "?p # ps"]) (simp add: render_core_Cons)
    next
      case False
      then have "res = acc @ [?p]" "r = ?r"
        using "1.prems" fc lt len Cons
        by (subst (asm) ParseCore.simps, auto simp: Let_def split: if_splits)+
      then show ?thesis using split Cons False cnd len ts
        by (intro exI [of _ "[?p]"]) (simp add: render_core_Cons core_end_def)
    qed
  qed
qed

definition wf_tail :: "version \<Rightarrow> bool" where
  "wf_tail v \<longleftrightarrow>
     (revision v = [] \<or> (\<exists>c. revision v = [c] \<and> IsLower c)) \<and>
     (prerelease v \<longleftrightarrow> prereleaseIds v \<noteq> []) \<and> list_all valid_identifier (prereleaseIds v)"

definition valid_build :: "string \<Rightarrow> bool" where
  "valid_build b \<longleftrightarrow> b = [] \<or>
     (\<exists>ids. ids \<noteq> [] \<and> list_all valid_identifier ids \<and> b = CHR ''+'' # join CHR ''.'' ids)"

text \<open>
  The abstract grammar of \<^verbatim>\<open>Version.h\<close>, lines 10 to 16: an optional \<^verbatim>\<open>v\<close>, the version, optional
  build metadata; at most 64 bytes without the \<^verbatim>\<open>v\<close>.
\<close>

definition version_text :: "string \<Rightarrow> version \<Rightarrow> bool" where
  "version_text s v \<longleftrightarrow>
     (\<exists>p b. s = p @ render v @ b \<and> p \<in> {[], ''v'', ''V''} \<and> valid_build b \<and>
        length (render v @ b) \<le> 64 \<and> suffix v = render_tail v @ b \<and> wf_version v)"

lemma wf_version_tail:
  "wf_version v \<longleftrightarrow> parts v \<noteq> [] \<and> length (parts v) \<le> kMaxCoreParts \<and> wf_tail v"
  by (auto simp: wf_version_def wf_tail_def)

lemma valid_build_split:
  assumes "valid_build b" "CHR ''+'' \<notin> set a"
  shows "\<exists>f. split_at CHR ''+'' (a @ b) = (a, f) \<and>
     (f = None \<and> b = [] \<or> (\<exists>x ids. f = Some x \<and> SplitIdentifiers x = Some ids \<and> b = CHR ''+'' # x))"
  using assms unfolding valid_build_def
  by (auto simp: split_at_notin split_at_append SplitIdentifiers_iff)

lemma not_lower [simp]: "\<not> IsLower CHR ''-''" "\<not> IsLower CHR ''+''"
  by (simp_all add: IsLower_def)

lemma ParseTail_complete:
  assumes wf: "wf_tail v" and b: "valid_build b"
    and v: "parts v = core" "suffix v = render_tail v @ b"
    and ne: "render_tail v @ b \<noteq> []"
  shows "ParseTail core (render_tail v @ b) = Some v"
proof -
  let ?pre = "if prerelease v then CHR ''-'' # join CHR ''.'' (prereleaseIds v) else []"
  have ids: "prerelease v \<Longrightarrow>
      SplitIdentifiers (join CHR ''.'' (prereleaseIds v)) = Some (prereleaseIds v)"
    using wf by (simp add: wf_tail_def SplitIdentifiers_iff)
  have "CHR ''+'' \<notin> set ?pre" using wf by (auto simp: wf_tail_def plus_not_join)
  then obtain f where f: "split_at CHR ''+'' (?pre @ b) = (?pre, f)"
    "f = None \<or> (\<exists>x ids. f = Some x \<and> SplitIdentifiers x = Some ids)"
    using valid_build_split [OF b] by blast
  have hd_b: "b = [] \<or> hd b = CHR ''+''" using b by (auto simp: valid_build_def)
  have nl: "?pre @ b = [] \<or> \<not> IsLower (hd (?pre @ b))" using hd_b by auto
  have rt: "(if IsLower (hd (render_tail v @ b)) then ([hd (render_tail v @ b)], tl (render_tail v @ b))
      else ([], render_tail v @ b)) = (revision v, ?pre @ b)"
    using wf nl ne by (auto simp: wf_tail_def render_tail_def)
  show ?thesis
    unfolding ParseTail_def rt Let_def prod.case f(1)
    using f(2) ids v wf by (cases v) (auto simp: wf_tail_def)
qed

lemma ParseTail_sound:
  assumes "ParseTail core sfx = Some v" "sfx \<noteq> []"
  shows "\<exists>b. sfx = render_tail v @ b \<and> valid_build b \<and> parts v = core \<and> suffix v = sfx \<and> wf_tail v"
proof -
  obtain rev rest where rr: "(if IsLower (hd sfx) then ([hd sfx], tl sfx) else ([], sfx)) = (rev, rest)"
    by fastforce
  obtain pre f where pf: "split_at CHR ''+'' rest = (pre, f)" by fastforce
  have sfx: "sfx = rev @ rest" and rev: "rev = [] \<or> (\<exists>c. rev = [c] \<and> IsLower c)"
    using rr assms(2) by (auto split: if_splits)
  have P: "(if (case f of None \<Rightarrow> False | Some b \<Rightarrow> SplitIdentifiers b = None) then None
      else if pre = [] then
        Some \<lparr>parts = core, suffix = sfx, prerelease = False, revision = rev, prereleaseIds = []\<rparr>
      else if hd pre \<noteq> CHR ''-'' then None
      else (case SplitIdentifiers (tl pre) of
              None \<Rightarrow> None
            | Some ids \<Rightarrow> Some \<lparr>parts = core, suffix = sfx, prerelease = True, revision = rev,
                      prereleaseIds = ids\<rparr>)) = Some v"
    using assms(1) unfolding ParseTail_def rr Let_def prod.case pf .
  let ?b = "case f of None \<Rightarrow> [] | Some x \<Rightarrow> CHR ''+'' # x"
  have rest: "rest = pre @ ?b"
    using pf by (cases f) (simp_all add: split_at_None split_at_Some)
  have b: "valid_build ?b"
    using P by (cases f) (auto simp: valid_build_def SplitIdentifiers_iff split: if_splits)
  have v: "parts v = core \<and> suffix v = sfx \<and> wf_tail v \<and> render_tail v = rev @ pre"
  proof (cases "pre = []")
    case True
    with P rev show ?thesis by (auto simp: wf_tail_def render_tail_def split: if_splits)
  next
    case False
    then obtain ids where "SplitIdentifiers (tl pre) = Some ids" "hd pre = CHR ''-''"
      "v = \<lparr>parts = core, suffix = sfx, prerelease = True, revision = rev, prereleaseIds = ids\<rparr>"
      using P by (auto split: if_splits option.splits)
    with False rev show ?thesis
      by (cases pre) (auto simp: wf_tail_def render_tail_def SplitIdentifiers_iff)
  qed
  show ?thesis using sfx rest b v by (intro exI [of _ ?b]) simp
qed

lemma lower_not_digit: "IsLower c \<Longrightarrow> \<not> IsDigit c \<and> c \<noteq> CHR ''.''"
  by (auto simp: char_class less_eq_char_def)

lemma core_end_tail: "wf_tail v \<Longrightarrow> valid_build b \<Longrightarrow> core_end (render_tail v @ b)"
  by (auto simp: wf_tail_def valid_build_def core_end_def render_tail_def lower_not_digit)
    (simp_all add: IsDigit_def)

lemma render_hd:
  assumes "wf_version v" shows "render v \<noteq> []" "IsDigit (hd (render v))"
proof -
  obtain p ps where ps: "parts v = p # ps" using assms by (cases "parts v") (auto simp: wf_version_def)
  have "list_all IsDigit (to_string (unat p))" by (rule to_string_digits)
  then have "IsDigit (hd (to_string (unat p)))" by (cases "to_string (unat p)") auto
  with ps show "render v \<noteq> []" "IsDigit (hd (render v))"
    by (simp_all add: render_def render_core_Cons)
qed

lemma ParseVersion_complete:
  assumes "version_text s v" shows "ParseVersion s = Some v"
proof -
  obtain p b where s: "s = p @ render v @ b" "p \<in> {[], ''v'', ''V''}" "valid_build b"
    "length (render v @ b) \<le> 64" "suffix v = render_tail v @ b" "wf_version v"
    using assms by (auto simp: version_text_def)
  have hd: "render v \<noteq> []" "IsDigit (hd (render v))" using render_hd [OF s(6)] .
  then have hdv: "hd (render v) \<noteq> CHR ''v''" "hd (render v) \<noteq> CHR ''V''"
    by (auto simp: char_class)
  then have val: "(if s \<noteq> [] \<and> (hd s = CHR ''v'' \<or> hd s = CHR ''V'') then tl s else s)
      = render v @ b"
    using s(1,2) hd by auto
  have wt: "wf_tail v" "parts v \<noteq> []" "length (parts v) \<le> kMaxCoreParts"
    using s(6) by (simp_all add: wf_version_tail)
  have core: "ParseCore (render v @ b) [] = Some (parts v, render_tail v @ b)"
    using ParseCore_render [OF wt(2), of "[]"] wt core_end_tail [OF wt(1) s(3)]
    by (simp add: render_def)
  show ?thesis
  proof (cases "render_tail v @ b = []")
    case True
    then have "v = \<lparr>parts = parts v, suffix = [], prerelease = False, revision = [],
        prereleaseIds = []\<rparr>"
      using s(5) wt(1) by (cases v) (auto simp: render_tail_def wf_tail_def split: if_splits)
    then show ?thesis using val core hd s(4) True
      unfolding ParseVersion_def val Let_def by simp
  next
    case False
    then show ?thesis using core hd s(4) ParseTail_complete [OF wt(1) s(3) refl s(5) False]
      unfolding ParseVersion_def val Let_def by auto
  qed
qed

lemma ParseVersion_sound:
  assumes "ParseVersion s = Some v" shows "version_text s v"
proof -
  define p where "p = (if s \<noteq> [] \<and> (hd s = CHR ''v'' \<or> hd s = CHR ''V'') then [hd s] else [])"
  define w where "w = (if s \<noteq> [] \<and> (hd s = CHR ''v'' \<or> hd s = CHR ''V'') then tl s else s)"
  have pw: "s = p @ w" "p \<in> {[], ''v'', ''V''}" by (auto simp: p_def w_def)
  have P: "w \<noteq> []" "length w \<le> 64" "(case ParseCore w [] of
              None \<Rightarrow> None
            | Some (core, sfx) \<Rightarrow>
                if sfx = [] then
                  Some \<lparr>parts = core, suffix = [], prerelease = False, revision = [],
                        prereleaseIds = []\<rparr>
                else ParseTail core sfx) = Some v"
    using assms unfolding ParseVersion_def w_def [symmetric] Let_def
    by (auto split: if_splits)
  then obtain core sfx where c: "ParseCore w [] = Some (core, sfx)"
    by (auto split: option.splits)
  have cs: "core \<noteq> []" "length core \<le> kMaxCoreParts" "w = render_core core @ sfx"
    using ParseCore_sound [OF c] by auto
  have "\<exists>b. sfx = render_tail v @ b \<and> valid_build b \<and> parts v = core \<and> suffix v = sfx \<and> wf_tail v"
  proof (cases "sfx = []")
    case True
    with P(3) c show ?thesis by (auto simp: render_tail_def wf_tail_def valid_build_def)
  next
    case False
    with P(3) c show ?thesis by (intro ParseTail_sound) auto
  qed
  then obtain b where b: "sfx = render_tail v @ b" "valid_build b" "parts v = core" "suffix v = sfx"
    "wf_tail v" by blast
  have "s = p @ render v @ b" "length (render v @ b) \<le> 64"
    using pw P(2) cs b by (simp_all add: render_def)
  with pw cs b show ?thesis
    unfolding version_text_def wf_version_tail by (intro exI [of _ p] exI [of _ b]) simp
qed

lemma ParseVersion_wf: "ParseVersion s = Some v \<Longrightarrow> wf_version v"
  using ParseVersion_sound by (auto simp: version_text_def)

lemma ParseVersion_not_Nil: "ParseVersion s = Some v \<Longrightarrow> s \<noteq> []"
  by (auto simp: ParseVersion_def)

text \<open>The bytes of an accepted version, for the components that put versions in paths and in JSON.\<close>

definition version_char :: "char \<Rightarrow> bool" where
  "version_char c \<longleftrightarrow> IsIdentifierChar c \<or> c = CHR ''.'' \<or> c = CHR ''+''"

lemma version_char_join:
  "list_all valid_identifier ids \<Longrightarrow> list_all version_char (join CHR ''.'' ids)"
  by (induction ids) (auto simp: join_Cons valid_identifier_def version_char_def list_all_iff)

lemma version_char_basic [simp]:
  "IsDigit c \<Longrightarrow> version_char c" "IsLower c \<Longrightarrow> version_char c" "version_char CHR ''-''"
  "version_char CHR ''.''" "version_char CHR ''+''"
  by (simp_all add: version_char_def IsIdentifierChar_def)

lemma version_char_core: "list_all version_char (render_core ps)"
proof -
  have "list_all version_char (to_string n)" for n
    using to_string_digits [of n] by (auto simp: list_all_iff)
  then show ?thesis unfolding render_core_def by (induction ps) (simp_all add: join_Cons)
qed

lemma ParseVersion_chars:
  assumes "ParseVersion s = Some v" shows "list_all version_char s \<and> length s \<le> 65"
proof -
  obtain p b where s: "s = p @ render v @ b" "p \<in> {[], ''v'', ''V''}" "valid_build b"
    "length (render v @ b) \<le> 64" "wf_tail v"
    using ParseVersion_sound [OF assms] by (auto simp: version_text_def wf_version_tail)
  have "list_all version_char (render_tail v)"
    using s(5) version_char_join by (auto simp: wf_tail_def render_tail_def)
  moreover have "list_all version_char b"
    using s(3) version_char_join by (auto simp: valid_build_def)
  moreover have "list_all version_char p" "length p \<le> 1"
    using s(2) by (auto simp: version_char_def IsIdentifierChar_def char_class)
  ultimately show ?thesis using s(1,4) version_char_core by (auto simp: render_def)
qed

interpretation version_codec: codec render ParseVersion
  "\<lambda>v. wf_version v \<and> suffix v = render_tail v \<and> length (render v) \<le> 64"
  by unfold_locales
    (rule ParseVersion_complete, auto simp: version_text_def valid_build_def intro!: exI [of _ "[]"])

section \<open>Properties\<close>

text \<open>
  C16. \<open>ParseVersion\<close> accepts exactly the strings of the documented grammar, with the version
  they denote: an optional \<^verbatim>\<open>v\<close>, one to eight numbers without leading zeros that fit in 64 bits,
  an optional revision letter, valid prerelease identifiers and valid build metadata, at most
  64 bytes. Two strings that differ in more than the \<^verbatim>\<open>v\<close> and the build metadata are never
  read as the same version.
\<close>

theorem ParseVersion_iff_grammar: "ParseVersion s = Some v \<longleftrightarrow> version_text s v"
  by (metis ParseVersion_complete ParseVersion_sound)

text \<open>
  C17. On versions whose numeric prerelease identifiers fit in 64 bits \<open>CompareVersions\<close> is the
  documented order: the comparison of the keys (core without trailing zeros, revision, release
  above prerelease, identifiers by SemVer precedence) in a linear order.
\<close>

theorem CompareVersions_refines_key:
  "version_ok a \<Longrightarrow> version_ok b \<Longrightarrow> CompareVersions a b = three_way (version_key a) (version_key b)"
  by (rule version_order.cmp_key)

theorem CompareVersions_refines_key_witness:
  "CompareVersions \<lparr>parts = [1, 0], suffix = ''-rc.3'', prerelease = True, revision = [],
       prereleaseIds = [''rc'', ''3'']\<rparr>
     \<lparr>parts = [1], suffix = ''-rc.10'', prerelease = True, revision = [],
       prereleaseIds = [''rc'', ''10'']\<rparr> = -1"
  by (subst CompareVersions_refines_key) code_simp+

text \<open>
  No downgrade hides behind a chain of updates: on such versions a strict step up followed by
  any step that is not down is a strict step up.
\<close>

lemma CompareVersions_chain:
  assumes "version_ok a" "version_ok b" "version_ok c"
    and "CompareVersions b a > 0" "CompareVersions c b \<ge> 0"
  shows "CompareVersions c a > 0"
  using assms version_order.cmp_less_trans [of a b c]
    CompareVersions_antisym [of b a] CompareVersions_antisym [of c b]
    CompareVersions_antisym [of c a] by simp

lemma CompareVersions_chain_witness:
  "CompareVersions \<lparr>parts = [1, 10, 2], suffix = [], prerelease = False, revision = [],
       prereleaseIds = []\<rparr>
     \<lparr>parts = [1, 10, 1], suffix = [], prerelease = False, revision = [], prereleaseIds = []\<rparr> > 0"
  by (rule CompareVersions_chain [where b = "\<lparr>parts = [1, 10, 1], suffix = ''a'',
       prerelease = False, revision = ''a'', prereleaseIds = []\<rparr>"]) code_simp+

text \<open>
  Without that bound the order is not one: with a numeric identifier above 64 bits the
  comparison falls back to the lexicographic one and three versions the parser accepts form a
  cycle, each newer than the one before.
\<close>

lemma CompareVersions_cycle:
  "\<exists>a b c. ParseVersion ''1.0.0-9'' = Some a \<and> ParseVersion ''1.0.0-10'' = Some b \<and>
     ParseVersion ''1.0.0-100000000000000000000'' = Some c \<and>
     CompareVersions b a > 0 \<and> CompareVersions c b > 0 \<and> CompareVersions a c > 0"
  by (intro exI [of _ "the (ParseVersion ''1.0.0-9'')"] exI [of _ "the (ParseVersion ''1.0.0-10'')"]
      exI [of _ "the (ParseVersion ''1.0.0-100000000000000000000'')"]) code_simp

text \<open>
  The comparison is antisymmetric on all versions, so "newer" and "older" never both hold,
  and a version is never newer than itself.
\<close>

lemma CompareVersions_antisymmetric:
  "CompareVersions b a = - CompareVersions a b \<and> CompareVersions a a = 0"
  by (simp add: CompareVersions_antisym [of b a])

end
