(* ===== verification/RuntimeStateStore.thy ===== *)
theory RuntimeStateStore
  imports Json_Grammar FileRead Version
begin

text \<open>
  The protected record of the active runtime, \<^verbatim>\<open>src/src/update/RuntimeStateStore.cpp\<close>: which payload
  version is current, which was the last good one, and what the last update did. Loading, its
  validation of every field, serialising and saving. The answers of the operating system and of
  \<^verbatim>\<open>securefs\<close> are arguments.
\<close>

section \<open>Data\<close>

record StoredRuntimeState =
  schema :: int
  current :: string
  previousKnownGood :: string
  pending :: string
  packageSha256 :: string
  manifestKeyId :: string
  lastResult :: string

definition empty_state :: StoredRuntimeState where
  "empty_state = \<lparr>schema = 1, current = [], previousKnownGood = [], pending = [],
     packageSha256 = [], manifestKeyId = [], lastResult = []\<rparr>"

text \<open>\<^verbatim>\<open>StateResult\<close>: \<open>missing\<close> (with its error text), another error, or the state.\<close>

datatype StateResult = StateMissing | StateError string | StateOk StoredRuntimeState

datatype file_attributes = AttrsFound | AttrsNotFound | AttrsError

section \<open>Validation\<close>

definition JsonText :: "jvalue \<Rightarrow> string \<Rightarrow> string option" where
  "JsonText obj key = (case Find obj key of None \<Rightarrow> None | Some v \<Rightarrow> AsString v)"

definition ValidOptionalVersion :: "string \<Rightarrow> bool" where
  "ValidOptionalVersion v \<longleftrightarrow> v = [] \<or> ParseVersion v \<noteq> None"

definition validSha :: "string \<Rightarrow> bool" where
  "validSha value \<longleftrightarrow> value = [] \<or> (length value = 64 \<and> list_all IsLowerHex value)"

definition safeText :: "string \<Rightarrow> nat \<Rightarrow> bool" where
  "safeText value limit \<longleftrightarrow>
     length value \<le> limit \<and> list_all (\<lambda>c. \<not> (code c < 0x20 \<or> code c = 0x7F)) value"

definition fields_valid :: "StoredRuntimeState \<Rightarrow> bool" where
  "fields_valid s \<longleftrightarrow>
     ValidOptionalVersion (previousKnownGood s) \<and> ValidOptionalVersion (pending s) \<and>
     validSha (packageSha256 s) \<and> safeText (manifestKeyId s) 64 \<and> safeText (lastResult s) 128"

section \<open>Loading\<close>

text \<open>One round of the loop over the optional fields: absent and null leave the field empty.\<close>

definition OptionalField :: "jvalue \<Rightarrow> string \<Rightarrow> string + string" where
  "OptionalField root key =
     (case Find root key of
        None \<Rightarrow> Inr []
      | Some v \<Rightarrow>
          if IsNull v then Inr []
          else (case AsString v of
                  None \<Rightarrow> Inl ''invalid state field type''
                | Some t \<Rightarrow> Inr t))"

fun OptionalFields :: "jvalue \<Rightarrow> string list \<Rightarrow> string + string list" where
  "OptionalFields root [] = Inr []"
| "OptionalFields root (key # keys) =
     (case OptionalField root key of
        Inl e \<Rightarrow> Inl e
      | Inr t \<Rightarrow> (case OptionalFields root keys of Inl e \<Rightarrow> Inl e | Inr ts \<Rightarrow> Inr (t # ts)))"

definition optional_keys :: "string list" where
  "optional_keys =
     [''previous_known_good'', ''pending'', ''package_sha256'', ''manifest_key_id'', ''last_result'']"

definition state_options :: ParseOptions where
  "state_options = \<lparr>maxBytes = 64 * 1024, maxDepth = 8, maxValues = 64\<rparr>"

definition ReadSchema :: "jvalue \<Rightarrow> nat option" where
  "ReadSchema root =
     (case Find root ''schema'' of
        None \<Rightarrow> None
      | Some v \<Rightarrow> (case AsNumber v of None \<Rightarrow> None | Some raw \<Rightarrow> AsUInt64 raw))"

text \<open>The part of \<^verbatim>\<open>LoadRuntimeState\<close> after the bytes are in memory.\<close>

definition ParseRuntimeState :: "string \<Rightarrow> StateResult" where
  "ParseRuntimeState bytes =
     (case Parse bytes state_options of
        Inl _ \<Rightarrow> StateError ''malformed state''
      | Inr root \<Rightarrow>
          (case AsObject root of
             None \<Rightarrow> StateError ''malformed state''
           | Some ms \<Rightarrow>
               if length ms \<noteq> 7 then StateError ''malformed state''
               else (case (ReadSchema root, JsonText root ''current'') of
                       (Some n, Some cur) \<Rightarrow>
                         if n \<noteq> 1 \<or> ParseVersion cur = None
                         then StateError ''unsupported state schema/version''
                         else (case OptionalFields root optional_keys of
                                 Inr [prev, pend, sha, key, res] \<Rightarrow>
                                   (let s = \<lparr>schema = 1, current = cur, previousKnownGood = prev,
                                      pending = pend, packageSha256 = sha, manifestKeyId = key,
                                      lastResult = res\<rparr> in
                                    if \<not> fields_valid s then StateError ''invalid state field''
                                    else StateOk s)
                               | Inr _ \<Rightarrow> StateError ''invalid state field type''
                               | Inl e \<Rightarrow> StateError e)
                     | _ \<Rightarrow> StateError ''unsupported state schema/version'')))"

text \<open>\<^verbatim>\<open>path.substr(0, path.find_last_of(L"\\/"))\<close>.\<close>

definition parent_dir :: "wstring \<Rightarrow> wstring option" where
  "parent_dir path =
     (let r = dropWhile (\<lambda>c. c \<notin> {WC (CHR 0x5C), WC (CHR ''/'')}) (rev path) in
      if r = [] then None else Some (rev (tl r)))"

definition LoadRuntimeState ::
  "(wstring \<Rightarrow> file_attributes) \<Rightarrow> (wstring \<Rightarrow> bool) \<Rightarrow> (wstring \<Rightarrow> bool) \<Rightarrow>
   (wstring \<Rightarrow> string option list option) \<Rightarrow> wstring \<Rightarrow> StateResult" where
  "LoadRuntimeState GetFileAttributes ValidatePathComponents ValidateProtectedObject OpenFile path =
     (case GetFileAttributes path of
        AttrsNotFound \<Rightarrow> StateMissing
      | AttrsError \<Rightarrow> StateError ''cannot query state''
      | AttrsFound \<Rightarrow>
          (case parent_dir path of
             None \<Rightarrow> StateError ''unsafe active-runtime state object''
           | Some dir \<Rightarrow>
               if \<not> ValidatePathComponents dir \<or> \<not> ValidateProtectedObject path
               then StateError ''unsafe active-runtime state object''
               else (case OpenFile path of
                       None \<Rightarrow> StateError ''cannot open state''
                     | Some rs \<Rightarrow>
                         (case read_loop (64 * 1024) rs [] of
                            ReadFailed \<Rightarrow> StateError ''state read failed''
                          | ReadTooLarge \<Rightarrow> StateError ''state too large''
                          | ReadAll bytes \<Rightarrow> ParseRuntimeState bytes))))"

section \<open>Saving\<close>

definition optional_text :: "string \<Rightarrow> string" where
  "optional_text value = (if value = [] then ''null'' else Quote value)"

text \<open>A line of the output: the separator before it, the quoted key and the colon.\<close>

definition state_key :: "string \<Rightarrow> string" where
  "state_key key = [CHR 0x0A] @ ''  '' @ [CHR 0x22] @ key @ [CHR 0x22] @ '': ''"

definition SerializeRuntimeState :: "StoredRuntimeState \<Rightarrow> string" where
  "SerializeRuntimeState s =
     CHR 0x7B # state_key ''schema'' @ ''1'' @ '','' @
     state_key ''current'' @ Quote (current s) @ '','' @
     state_key ''previous_known_good'' @ optional_text (previousKnownGood s) @ '','' @
     state_key ''pending'' @ optional_text (pending s) @ '','' @
     state_key ''package_sha256'' @ optional_text (packageSha256 s) @ '','' @
     state_key ''manifest_key_id'' @ optional_text (manifestKeyId s) @ '','' @
     state_key ''last_result'' @ optional_text (lastResult s) @
     [CHR 0x0A, CHR 0x7D, CHR 0x0A]"

definition SaveRuntimeState ::
  "(wstring \<Rightarrow> string \<Rightarrow> 'w \<Rightarrow> wstring option \<times> 'w) \<Rightarrow> wstring \<Rightarrow> StoredRuntimeState \<Rightarrow> 'w \<Rightarrow>
   wstring option \<times> 'w" where
  \<comment> \<open>\<open>None\<close> is success, \<open>Some\<close> the error text; \<open>AtomicWrite\<close> is \<^verbatim>\<open>securefs::AtomicWrite\<close>\<close>
  "SaveRuntimeState AtomicWrite path s w =
     (if ParseVersion (current s) = None \<or> \<not> ValidOptionalVersion (previousKnownGood s) \<or>
         \<not> ValidOptionalVersion (pending s) \<or>
         (packageSha256 s \<noteq> [] \<and>
            (length (packageSha256 s) \<noteq> 64 \<or> list_ex (\<lambda>c. \<not> IsLowerHex c) (packageSha256 s))) \<or>
         \<not> safeText (manifestKeyId s) 64 \<or> \<not> safeText (lastResult s) 128
      then (Some (W ''invalid runtime state version''), w)
      else AtomicWrite path (SerializeRuntimeState s) w)"

section \<open>What a loaded state is\<close>

definition state_ok :: "StoredRuntimeState \<Rightarrow> bool" where
  "state_ok s \<longleftrightarrow> schema s = 1 \<and> ParseVersion (current s) \<noteq> None \<and> fields_valid s \<and>
     utf8_text (manifestKeyId s) \<and> utf8_text (lastResult s)"

lemma OptionalField_utf8:
  "strings_ok root \<Longrightarrow> OptionalField root key = Inr t \<Longrightarrow> utf8_text t"
  by (auto simp: OptionalField_def utf8_nil dest: strings_ok_Find strings_ok_AsString
      split: option.splits if_splits)

lemma OptionalFields_utf8:
  "strings_ok root \<Longrightarrow> OptionalFields root keys = Inr ts \<Longrightarrow> \<forall>t \<in> set ts. utf8_text t"
  by (induction keys arbitrary: ts) (auto dest: OptionalField_utf8 split: sum.splits)

lemma ParseRuntimeState_ok:
  assumes "ParseRuntimeState bytes = StateOk s" shows "state_ok s"
proof -
  obtain root cur prev pend sha key res where
    p: "Parse bytes state_options = Inr root" and
    f: "OptionalFields root optional_keys = Inr [prev, pend, sha, key, res]" and
    s: "s = \<lparr>schema = 1, current = cur, previousKnownGood = prev, pending = pend,
      packageSha256 = sha, manifestKeyId = key, lastResult = res\<rparr>" "fields_valid s"
    "ParseVersion cur \<noteq> None"
    using assms by (auto simp: ParseRuntimeState_def Let_def
        split: sum.splits option.splits if_splits list.splits)
  then show ?thesis using OptionalFields_utf8 [OF Parse_strings [OF p] f] by (simp add: state_ok_def)
qed

text \<open>Whatever the record of the active runtime contains, a state that loads has a current
  version that parses, optional versions that are empty or parse, a package digest that is empty or
  64 lower-case hexadecimal digits, and texts without control characters within their limits; every
  other file is reported as missing or as an error.\<close>

lemma LoadRuntimeState_ok:
  assumes "LoadRuntimeState attrs ValidateDir ValidateFile OpenFile path = StateOk s"
  shows "state_ok s \<and> attrs path = AttrsFound \<and> ValidateFile path \<and>
    (\<exists>dir. parent_dir path = Some dir \<and> ValidateDir dir)"
  using assms ParseRuntimeState_ok
  by (auto simp: LoadRuntimeState_def split: file_attributes.splits option.splits if_splits
      read_outcome.splits)

definition sample_state :: StoredRuntimeState where
  "sample_state = empty_state\<lparr>current := ''1.8.5'', previousKnownGood := ''1.8.4'',
     packageSha256 := replicate 64 (CHR ''a''), lastResult := ''committed''\<rparr>"

text \<open>A record that was saved, on a system that validates everything.\<close>

lemma LoadRuntimeState_ok_witness: "state_ok sample_state"
proof -
  have "LoadRuntimeState (\<lambda>p. AttrsFound) (\<lambda>p. True) (\<lambda>p. True)
      (\<lambda>p. Some [Some (SerializeRuntimeState sample_state)]) (W ''C:/state/active.json'') =
      StateOk sample_state"
    by code_simp
  from LoadRuntimeState_ok [OF this] show ?thesis by simp
qed

section \<open>Saving and loading are inverse\<close>

definition optional_value :: "string \<Rightarrow> jvalue" where
  "optional_value s = (if s = [] then JNull else JString s)"

definition state_members :: "StoredRuntimeState \<Rightarrow> (string \<times> jvalue) list" where
  "state_members s =
     [(''schema'', JNumber ''1''), (''current'', JString (current s)),
      (''previous_known_good'', optional_value (previousKnownGood s)),
      (''pending'', optional_value (pending s)),
      (''package_sha256'', optional_value (packageSha256 s)),
      (''manifest_key_id'', optional_value (manifestKeyId s)),
      (''last_result'', optional_value (lastResult s))]"

lemma json_ws_state [simp]: "is_json_ws CHR '' ''" "is_json_ws CHR 0x0A"
  by (simp_all add: is_json_ws_def)

lemma version_char_ascii [simp]: "version_char c \<Longrightarrow> code c < 0x80"
  by (auto simp: version_char_def IsIdentifierChar_def char_class less_eq_char_def code_def)

lemma IsLowerHex_ascii [simp]: "IsLowerHex c \<Longrightarrow> code c < 0x80"
  by (auto simp: char_class less_eq_char_def code_def)

lemma version_utf8: "ParseVersion s = Some v \<Longrightarrow> utf8_text s"
  using ParseVersion_chars [of s v] by (auto intro!: utf8_plain elim: list.pred_mono_strong)

lemma ValidOptionalVersion_utf8: "ValidOptionalVersion s \<Longrightarrow> utf8_text s"
  using version_utf8 by (auto simp: ValidOptionalVersion_def utf8_nil)

lemma validSha_utf8: "validSha s \<Longrightarrow> utf8_text s"
  by (auto intro!: utf8_plain elim: list.pred_mono_strong simp: validSha_def)

lemma optional_jtext: "utf8_text s \<Longrightarrow> jtext (optional_text s) (optional_value s)"
  by (simp add: optional_text_def optional_value_def t_null jtext_Quote)

lemma jtext_one: "jtext ''1'' (JNumber ''1'')"
proof -
  have "canonical_decimal ''1''" by code_simp
  then have "number_text ''1''"
    unfolding number_text_def frac_text_def exp_text_def
    by (intro exI [of _ "[]"] exI [of _ "''1''"]) simp
  then show ?thesis by (rule t_number)
qed

lemma state_member:
  "list_all plain_char k \<Longrightarrow> jtext a v \<Longrightarrow> jmembers (drop 3 (state_key k') @ m) ms \<Longrightarrow>
     jmembers (drop 3 (state_key k) @ a @ '','' @ state_key k' @ m) ((k, v) # ms)"
  using member_more [of k a v "[CHR 0x0A] @ ''  ''" "drop 3 (state_key k') @ m" ms]
  by (simp add: state_key_def)

lemma state_last:
  "list_all plain_char k \<Longrightarrow> jtext a v \<Longrightarrow>
     jmembers (drop 3 (state_key k) @ a @ [CHR 0x0A]) [(k, v)]"
  using member_last [of k a v "[CHR 0x0A]"] by (simp add: state_key_def)

lemma SerializeRuntimeState_text:
  assumes "state_ok s"
  shows "\<exists>a. SerializeRuntimeState s = a @ [CHR 0x0A] \<and> jtext a (JObject (state_members s))"
proof -
  have ok: "utf8_text (current s)" "utf8_text (previousKnownGood s)" "utf8_text (pending s)"
    "utf8_text (packageSha256 s)" "utf8_text (manifestKeyId s)" "utf8_text (lastResult s)"
    using assms version_utf8 ValidOptionalVersion_utf8 validSha_utf8
    by (auto simp: state_ok_def fields_valid_def)
  let ?m = "''1'' @ '','' @
     state_key ''current'' @ Quote (current s) @ '','' @
     state_key ''previous_known_good'' @ optional_text (previousKnownGood s) @ '','' @
     state_key ''pending'' @ optional_text (pending s) @ '','' @
     state_key ''package_sha256'' @ optional_text (packageSha256 s) @ '','' @
     state_key ''manifest_key_id'' @ optional_text (manifestKeyId s) @ '','' @
     state_key ''last_result'' @ optional_text (lastResult s) @ [CHR 0x0A]"
  have "jmembers (drop 3 (state_key ''schema'') @ ?m) (state_members s)"
    unfolding state_members_def
    by (intro state_member state_last jtext_one jtext_Quote optional_jtext ok)
      (simp_all add: plain_char_def code_def)
  then have "jtext (CHR 0x7B # [CHR 0x0A, CHR '' '', CHR '' ''] @
      (drop 3 (state_key ''schema'') @ ?m) @ [CHR 0x7D]) (JObject (state_members s))"
    by (intro t_object) (simp_all add: state_members_def)
  moreover have "SerializeRuntimeState s = (CHR 0x7B # [CHR 0x0A, CHR '' '', CHR '' ''] @
      (drop 3 (state_key ''schema'') @ ?m) @ [CHR 0x7D]) @ [CHR 0x0A]"
    by (simp add: SerializeRuntimeState_def state_key_def)
  ultimately show ?thesis by blast
qed

text \<open>The serialised state is far below the limit of the reader.\<close>

lemma length_quote_char: "length (quote_char c) \<le> 6"
  by (simp add: quote_char_def)

lemma length_Quote: "length (Quote s) \<le> 6 * length s + 2"
proof -
  have "length (concat (map quote_char s)) \<le> 6 * length s"
  proof (induction s)
    case (Cons c s)
    then show ?case using length_quote_char [of c] by simp
  qed simp
  then show ?thesis by (simp add: Quote_def)
qed

lemma length_optional_text: "length (optional_text s) \<le> 6 * length s + 4"
  using length_Quote [of s] by (simp add: optional_text_def)

lemma length_version: "ParseVersion s \<noteq> None \<Longrightarrow> length s \<le> 65"
  using ParseVersion_chars [of s] by auto

lemma length_SerializeRuntimeState:
  assumes "state_ok s" shows "length (SerializeRuntimeState s) \<le> 64 * 1024"
proof -
  have "length (current s) \<le> 65" "length (previousKnownGood s) \<le> 65" "length (pending s) \<le> 65"
    "length (packageSha256 s) \<le> 64" "length (manifestKeyId s) \<le> 64" "length (lastResult s) \<le> 128"
    using assms length_version
    by (auto simp: state_ok_def fields_valid_def ValidOptionalVersion_def validSha_def safeText_def)
  then show ?thesis
    using length_Quote [of "current s"] length_optional_text [of "previousKnownGood s"]
      length_optional_text [of "pending s"] length_optional_text [of "packageSha256 s"]
      length_optional_text [of "manifestKeyId s"] length_optional_text [of "lastResult s"]
    by (simp add: SerializeRuntimeState_def state_key_def)
qed

lemma Parse_SerializeRuntimeState:
  assumes "state_ok s"
  shows "Parse (SerializeRuntimeState s) state_options = Inr (JObject (state_members s))"
proof -
  obtain a where a: "SerializeRuntimeState s = a @ [CHR 0x0A]" "jtext a (JObject (state_members s))"
    using SerializeRuntimeState_text [OF assms] by blast
  have "skip_bom (SerializeRuntimeState s) = [] @ a @ [CHR 0x0A]"
    unfolding a(1) [symmetric] by (simp add: skip_bom_def SerializeRuntimeState_def)
  then have "\<exists>w b w'. skip_bom (SerializeRuntimeState s) = w @ b @ w' \<and> ws w \<and> ws w' \<and>
      jtext b (JObject (state_members s))"
    using a(2) by (intro exI [of _ "[]"] exI [of _ a] exI [of _ "[CHR 0x0A]"]) simp
  then show ?thesis
    unfolding Parse_grammar using length_SerializeRuntimeState [OF assms]
    by (simp add: state_options_def state_members_def optional_value_def)
qed

lemma optional_value_simps [simp]:
  "IsNull (optional_value s) \<longleftrightarrow> s = []" "s \<noteq> [] \<Longrightarrow> AsString (optional_value s) = Some s"
  by (simp_all add: optional_value_def)

lemma OptionalFields_members:
  "OptionalFields (JObject (state_members s)) optional_keys =
     Inr [previousKnownGood s, pending s, packageSha256 s, manifestKeyId s, lastResult s]"
  by (simp add: optional_keys_def OptionalField_def Find_def state_members_def)

lemma state_roundtrip: "state_ok s \<Longrightarrow> ParseRuntimeState (SerializeRuntimeState s) = StateOk s"
proof -
  assume ok: "state_ok s"
  have "AsUInt64 ''1'' = Some 1" by code_simp
  then have "ReadSchema (JObject (state_members s)) = Some 1"
    "JsonText (JObject (state_members s)) ''current'' = Some (current s)"
    "length (state_members s) = 7"
    by (simp_all add: ReadSchema_def JsonText_def Find_def state_members_def)
  with ok show ?thesis
    by (cases s) (simp add: ParseRuntimeState_def Parse_SerializeRuntimeState OptionalFields_members
        state_ok_def Let_def)
qed

definition decode_state :: "string \<Rightarrow> StoredRuntimeState option" where
  "decode_state bytes = (case ParseRuntimeState bytes of StateOk s \<Rightarrow> Some s | _ \<Rightarrow> None)"

interpretation state_file: codec SerializeRuntimeState decode_state state_ok
  by unfold_locales (simp add: decode_state_def state_roundtrip)

text \<open>What is saved is loaded back: when \<open>SaveRuntimeState\<close> passes a state of schema 1 on to the
  atomic write, and its key identifier and last result are valid UTF-8, then the bytes it writes
  are read back as exactly that state, however the file delivers them.\<close>

lemma SaveRuntimeState_roundtrip:
  assumes "SaveRuntimeState AtomicWrite path s w = (None, w')"
    and "schema s = 1" "utf8_text (manifestKeyId s)" "utf8_text (lastResult s)"
  shows "\<exists>bytes. AtomicWrite path bytes w = (None, w') \<and>
    (\<forall>rs. delivers rs bytes \<longrightarrow> read_loop (64 * 1024) rs [] = ReadAll bytes) \<and>
    ParseRuntimeState bytes = StateOk s"
proof -
  have w: "AtomicWrite path (SerializeRuntimeState s) w = (None, w')" and ok: "state_ok s"
    using assms by (auto simp: SaveRuntimeState_def state_ok_def fields_valid_def validSha_def
        list_ex_iff list_all_iff split: if_splits)
  have "decode_state (SerializeRuntimeState s) = Some s"
    using state_file.decode_encode [OF ok] .
  then have "ParseRuntimeState (SerializeRuntimeState s) = StateOk s"
    by (auto simp: decode_state_def split: StateResult.splits)
  moreover have "read_loop (64 * 1024) rs [] = ReadAll (SerializeRuntimeState s)"
    if "delivers rs (SerializeRuntimeState s)" for rs
    using read_loop_delivers [OF that, of "[]"] length_SerializeRuntimeState [OF ok] by simp
  ultimately show ?thesis using w by blast
qed

text \<open>A committed update on a store that keeps the list of writes.\<close>

lemma SaveRuntimeState_roundtrip_witness:
  "\<exists>bytes. (None, [(W ''state'', SerializeRuntimeState sample_state)]) =
      (\<lambda>p b w. (None, w @ [(p, b)])) (W ''state'') bytes [] \<and>
    ParseRuntimeState bytes = StateOk sample_state"
proof -
  have s: "SaveRuntimeState (\<lambda>p b w. (None, w @ [(p, b)])) (W ''state'') sample_state [] =
      (None, [(W ''state'', SerializeRuntimeState sample_state)])" by code_simp
  have "schema sample_state = 1" "utf8_text (manifestKeyId sample_state)"
    by (simp_all add: sample_state_def empty_state_def utf8_nil)
  moreover have "list_all (\<lambda>c. code c < 0x80) (lastResult sample_state)" by code_simp
  then have "utf8_text (lastResult sample_state)" by (rule utf8_plain)
  ultimately show ?thesis using SaveRuntimeState_roundtrip [OF s] by fastforce
qed

end
