(* ===== verification/UpdateManifest.thy ===== *)
theory UpdateManifest
  imports Json_Grammar Version "HOL-Library.Monad_Syntax"
begin

text \<open>
  The signed update manifest of \<^verbatim>\<open>src/src/update/UpdateManifest.cpp\<close>: its strict parser and the
  decision whether an offered payload or launcher is an upgrade. The parser's \<^verbatim>\<open>bool\<close> helpers with
  output parameters return an option; a chain of \<^verbatim>\<open>||\<close> that returns false is a chain of binds.
\<close>

section \<open>Data\<close>

record Artifact =
  artifact_version :: string
  url :: string
  sha256 :: string
  artifact_size :: nat
  minimumSupportedVersion :: string
  minimumLauncherVersion :: string
  payloadSchema :: nat
  strategySchema :: nat
  provider :: string
  upstreamReleaseUrl :: string

record Manifest =
  manifest_schema :: nat
  manifest_channel :: string
  generatedAt :: string
  keyId :: string
  launcher :: Artifact
  payload :: Artifact

datatype Eligibility =
    Current | Upgrade | DowngradeRejected | PrereleaseRejected | LauncherTooOld
  | SchemaUnsupported | InvalidVersion

section \<open>Field readers and validators\<close>

definition require :: "bool \<Rightarrow> unit option" where
  "require b = (if b then Some () else None)"

lemma require_Some [simp]: "require b = Some u \<longleftrightarrow> b"
  by (simp add: require_def)

lemma require_bind [simp]: "require b \<bind> f = Some y \<longleftrightarrow> b \<and> f () = Some y"
  by (simp add: require_def)

definition ReadString :: "jvalue \<Rightarrow> string \<Rightarrow> string option" where
  "ReadString obj key =
     do {
       v \<leftarrow> Find obj key;
       t \<leftarrow> AsString v;
       require (t \<noteq> []);
       Some t
     }"

definition ReadUInt :: "jvalue \<Rightarrow> string \<Rightarrow> nat option" where
  "ReadUInt obj key = do { v \<leftarrow> Find obj key; raw \<leftarrow> AsNumber v; AsUInt64 raw }"

definition ValidSha :: "string \<Rightarrow> bool" where
  "ValidSha value \<longleftrightarrow> length value = 64 \<and> list_all IsLowerHex value"

definition two :: "string \<Rightarrow> nat \<Rightarrow> nat" where
  "two value at = digit_val (value ! at) * 10 + digit_val (value ! (at + 1))"

definition ValidGeneratedAt :: "string \<Rightarrow> bool" where
  "ValidGeneratedAt value \<longleftrightarrow>
     length value = 20 \<and> value ! 4 = CHR ''-'' \<and> value ! 7 = CHR ''-'' \<and> value ! 10 = CHR ''T'' \<and>
     value ! 13 = CHR '':'' \<and> value ! 16 = CHR '':'' \<and> value ! 19 = CHR ''Z'' \<and>
     list_all (\<lambda>i. IsDigit (value ! i)) [0, 1, 2, 3, 5, 6, 8, 9, 11, 12, 14, 15, 17, 18] \<and>
     1 \<le> two value 5 \<and> two value 5 \<le> 12 \<and> 1 \<le> two value 8 \<and> two value 8 \<le> 31 \<and>
     two value 11 \<le> 23 \<and> two value 14 \<le> 59 \<and> two value 17 \<le> 59"

definition ValidKeyId :: "string \<Rightarrow> bool" where
  "ValidKeyId value \<longleftrightarrow>
     value \<noteq> [] \<and> length value \<le> 64 \<and>
     list_all (\<lambda>c. IsLower c \<or> IsDigit c \<or> c = CHR ''-'') value"

definition https_prefix :: string where
  "https_prefix = ''https://''"

text \<open>\<^verbatim>\<open>value.find('@', 8)\<close> searches the part after the scheme; the host ends at the first slash.\<close>

definition url_host :: "string \<Rightarrow> string" where
  "url_host value = fst (split_at CHR ''/'' (drop 8 value))"

definition IsHttpsUrl :: "string \<Rightarrow> bool" where
  "IsHttpsUrl value \<longleftrightarrow>
     \<not> (length value < 9 \<or> 2048 < length value \<or> \<not> starts_with https_prefix value) \<and>
     \<not> (CHR ''@'' \<in> set (drop 8 value) \<or> CHR 0x5C \<in> set value \<or>
        list_ex (\<lambda>c. c \<in> {CHR 0x0D, CHR 0x0A, CHR 0x09}) value) \<and>
     (let host = url_host value in host \<noteq> [] \<and> host \<noteq> ''.'' \<and> host \<noteq> ''..'')"

section \<open>The parser\<close>

definition MiB :: nat where
  "MiB = 1024 * 1024"

definition required_provider :: string where
  "required_provider = ''Flowseal/zapret-discord-youtube''"

definition ParseArtifact :: "jvalue \<Rightarrow> bool \<Rightarrow> Artifact option" where
  "ParseArtifact value is_payload =
     do {
       ms \<leftarrow> AsObject value;
       require (length ms = (if is_payload then 9 else 5));
       v \<leftarrow> ReadString value ''version'';
       u \<leftarrow> ReadString value ''url'';
       sha \<leftarrow> ReadString value ''sha256'';
       n \<leftarrow> ReadUInt value ''size'';
       require (n \<noteq> 0 \<and> n \<le> 512 * MiB \<and> ValidSha sha \<and> IsHttpsUrl u \<and> ParseVersion v \<noteq> None);
       if is_payload then
         do {
           prov \<leftarrow> ReadString value ''provider'';
           mlv \<leftarrow> ReadString value ''minimum_launcher_version'';
           up \<leftarrow> ReadString value ''upstream_release_url'';
           ps \<leftarrow> ReadUInt value ''payload_schema'';
           ss \<leftarrow> ReadUInt value ''strategy_schema'';
           require (ps \<le> 1000 \<and> ss \<le> 1000 \<and> prov = required_provider \<and> n \<le> 129 * MiB \<and>
                    IsHttpsUrl up);
           Some \<lparr>artifact_version = v, url = u, sha256 = sha, artifact_size = n,
             minimumSupportedVersion = [], minimumLauncherVersion = mlv, payloadSchema = ps,
             strategySchema = ss, provider = prov, upstreamReleaseUrl = up\<rparr>
         }
       else
         do {
           msv \<leftarrow> ReadString value ''minimum_supported_version'';
           require (n \<le> 64 * MiB \<and> ParseVersion msv \<noteq> None);
           Some \<lparr>artifact_version = v, url = u, sha256 = sha, artifact_size = n,
             minimumSupportedVersion = msv, minimumLauncherVersion = [], payloadSchema = 0,
             strategySchema = 0, provider = [], upstreamReleaseUrl = []\<rparr>
         }
     }"

definition ReadEnvelope :: "jvalue \<Rightarrow> (nat \<times> string \<times> string \<times> string) option" where
  "ReadEnvelope root =
     do {
       s \<leftarrow> ReadUInt root ''schema'';
       require (s = 1);
       ch \<leftarrow> ReadString root ''channel'';
       require (ch = ''stable'');
       at \<leftarrow> ReadString root ''generated_at'';
       kid \<leftarrow> ReadString root ''key_id'';
       require (ValidGeneratedAt at \<and> ValidKeyId kid);
       Some (s, ch, at, kid)
     }"

definition ReadArtifacts :: "jvalue \<Rightarrow> (Artifact \<times> Artifact) option" where
  "ReadArtifacts root =
     do {
       l \<leftarrow> Find root ''launcher'';
       p \<leftarrow> Find root ''payload'';
       la \<leftarrow> ParseArtifact l False;
       pa \<leftarrow> ParseArtifact p True;
       Some (la, pa)
     }"

definition ParseManifest :: "string \<Rightarrow> nat \<Rightarrow> string + Manifest" where
  "ParseManifest bytes max_bytes =
     (case Parse bytes \<lparr>maxBytes = max_bytes, maxDepth = 12, maxValues = 256\<rparr> of
        Inl (message, _) \<Rightarrow> Inl message
      | Inr root \<Rightarrow>
          (case AsObject root of
             None \<Rightarrow> Inl ''manifest root is not an object''
           | Some ms \<Rightarrow>
               if length ms \<noteq> 6 then Inl ''manifest root is not an object''
               else (case ReadEnvelope root of
                       None \<Rightarrow> Inl ''unsupported or incomplete manifest envelope''
                     | Some (s, ch, at, kid) \<Rightarrow>
                         (case ReadArtifacts root of
                            None \<Rightarrow> Inl ''invalid manifest artifact''
                          | Some (la, pa) \<Rightarrow>
                              Inr \<lparr>manifest_schema = s, manifest_channel = ch, generatedAt = at,
                                keyId = kid, launcher = la, payload = pa\<rparr>))))"

section \<open>The decision\<close>

definition payload_schema_supported :: nat where
  "payload_schema_supported = 1" \<comment> \<open>\<^verbatim>\<open>CHEBURNET_PAYLOAD_SCHEMA\<close>\<close>

definition strategy_schema_supported :: nat where
  "strategy_schema_supported = 1" \<comment> \<open>\<^verbatim>\<open>CHEBURNET_STRATEGY_SCHEMA\<close>\<close>

definition EvaluatePayload :: "Manifest \<Rightarrow> string \<Rightarrow> string \<Rightarrow> bool \<Rightarrow> Eligibility" where
  "EvaluatePayload manifest currentPayload launcherVersion stableChannel =
     (case (ParseVersion currentPayload, ParseVersion (artifact_version (payload manifest)),
            ParseVersion launcherVersion, ParseVersion (minimumLauncherVersion (payload manifest))) of
        (Some cur, Some candidate, Some lau, Some minimum) \<Rightarrow>
          if stableChannel \<and> prerelease candidate then PrereleaseRejected
          else (let compared = CompareVersions candidate cur in
                if compared < 0 then DowngradeRejected
                else if compared = 0 then Current
                else if CompareVersions lau minimum < 0 then LauncherTooOld
                else if payloadSchema (payload manifest) \<noteq> payload_schema_supported \<or>
                        strategySchema (payload manifest) \<noteq> strategy_schema_supported
                then SchemaUnsupported
                else Upgrade)
      | _ \<Rightarrow> InvalidVersion)"

definition EvaluateLauncher :: "Manifest \<Rightarrow> string \<Rightarrow> bool \<Rightarrow> Eligibility" where
  "EvaluateLauncher manifest currentLauncher stableChannel =
     (case (ParseVersion currentLauncher, ParseVersion (artifact_version (launcher manifest)),
            ParseVersion (minimumSupportedVersion (launcher manifest))) of
        (Some cur, Some candidate, Some minimum) \<Rightarrow>
          if stableChannel \<and> prerelease candidate then PrereleaseRejected
          else (let compared = CompareVersions candidate cur in
                if compared < 0 then DowngradeRejected
                else if compared = 0 then Current
                else if CompareVersions cur minimum < 0 then LauncherTooOld
                else Upgrade)
      | _ \<Rightarrow> InvalidVersion)"

section \<open>What an accepted manifest is\<close>

definition artifact_ok :: "Artifact \<Rightarrow> bool" where
  "artifact_ok a \<longleftrightarrow>
     ParseVersion (artifact_version a) \<noteq> None \<and> IsHttpsUrl (url a) \<and> ValidSha (sha256 a) \<and>
     0 < artifact_size a"

definition manifest_ok :: "Manifest \<Rightarrow> bool" where
  "manifest_ok m \<longleftrightarrow>
     manifest_schema m = 1 \<and> manifest_channel m = ''stable'' \<and> ValidGeneratedAt (generatedAt m) \<and>
     ValidKeyId (keyId m) \<and> artifact_ok (launcher m) \<and> artifact_ok (payload m) \<and>
     artifact_size (launcher m) \<le> 64 * MiB \<and> artifact_size (payload m) \<le> 129 * MiB \<and>
     ParseVersion (minimumSupportedVersion (launcher m)) \<noteq> None \<and>
     provider (payload m) = required_provider \<and> IsHttpsUrl (upstreamReleaseUrl (payload m)) \<and>
     payloadSchema (payload m) \<le> 1000 \<and> strategySchema (payload m) \<le> 1000"

lemma ParseArtifact_ok:
  assumes "ParseArtifact v p = Some a"
  shows "artifact_ok a"
    "p \<Longrightarrow> artifact_size a \<le> 129 * MiB \<and> provider a = required_provider \<and>
      IsHttpsUrl (upstreamReleaseUrl a) \<and> payloadSchema a \<le> 1000 \<and> strategySchema a \<le> 1000"
    "\<not> p \<Longrightarrow> artifact_size a \<le> 64 * MiB \<and> ParseVersion (minimumSupportedVersion a) \<noteq> None"
  using assms by (auto simp: ParseArtifact_def artifact_ok_def bind_eq_Some_conv split: if_splits)

definition envelope_keys :: "string set" where
  "envelope_keys =
     {''schema'', ''channel'', ''generated_at'', ''key_id'', ''launcher'', ''payload''}"

definition launcher_keys :: "string set" where
  "launcher_keys = {''version'', ''url'', ''sha256'', ''size'', ''minimum_supported_version''}"

definition payload_keys :: "string set" where
  "payload_keys = {''version'', ''url'', ''sha256'', ''size'', ''provider'',
     ''minimum_launcher_version'', ''upstream_release_url'', ''payload_schema'', ''strategy_schema''}"

definition keys_of :: "jvalue \<Rightarrow> string set" where
  "keys_of v = (case AsObject v of None \<Rightarrow> {} | Some ms \<Rightarrow> set (map fst ms))"

lemma AsObject_Some: "AsObject v = Some ms \<longleftrightarrow> v = JObject ms"
  by (cases v) auto

lemma ParseArtifact_keys:
  assumes "ParseArtifact v p = Some a" "keys_distinct v"
  shows "keys_of v = (if p then payload_keys else launcher_keys)"
proof -
  obtain ms where v: "v = JObject ms" and l: "length ms = (if p then 9 else 5)"
    using assms(1) by (auto simp: ParseArtifact_def bind_eq_Some_conv AsObject_Some)
  have "\<forall>k\<in>(if p then payload_keys else launcher_keys). Find (JObject ms) k \<noteq> None"
    using assms(1) unfolding v ParseArtifact_def ReadString_def ReadUInt_def payload_keys_def
      launcher_keys_def
    by (cases p) (auto simp: bind_eq_Some_conv)
  moreover have "card payload_keys = 9" "card launcher_keys = 5"
    by (simp_all add: payload_keys_def launcher_keys_def)
  moreover have "finite payload_keys" "finite launcher_keys"
    by (simp_all add: payload_keys_def launcher_keys_def)
  ultimately show ?thesis
    using exact_keys [of ms "if p then payload_keys else launcher_keys"] assms(2) l
    unfolding v keys_of_def by (cases p) simp_all
qed

text \<open>C22. An accepted manifest is complete, exact and within its limits: the text is one JSON object
  with exactly the six envelope keys, its launcher and payload are objects with exactly their five
  and nine keys, the schema is 1, the channel is \<open>stable\<close>, the time stamp and key identifier have
  their canonical form, both artifacts carry a version that parses, an https URL, a lower-case
  SHA-256 and a positive size under its limit, and the payload names the one allowed provider.\<close>

theorem ParseManifest_strict:
  assumes "ParseManifest bytes n = Inr m"
  shows "manifest_ok m \<and>
    (\<exists>root l p. Parse bytes \<lparr>maxBytes = n, maxDepth = 12, maxValues = 256\<rparr> = Inr root \<and>
       keys_of root = envelope_keys \<and>
       Find root ''launcher'' = Some l \<and> keys_of l = launcher_keys \<and>
       Find root ''payload'' = Some p \<and> keys_of p = payload_keys)"
proof -
  obtain root ms s ch at kid la pa where
    p: "Parse bytes \<lparr>maxBytes = n, maxDepth = 12, maxValues = 256\<rparr> = Inr root" and
    r: "root = JObject ms" "length ms = 6" and
    e: "ReadEnvelope root = Some (s, ch, at, kid)" and a: "ReadArtifacts root = Some (la, pa)" and
    m: "m = \<lparr>manifest_schema = s, manifest_channel = ch, generatedAt = at, keyId = kid,
      launcher = la, payload = pa\<rparr>"
    using assms by (auto simp: ParseManifest_def AsObject_Some
        split: sum.splits prod.splits option.splits if_splits)
  obtain l q where f: "Find root ''launcher'' = Some l" "Find root ''payload'' = Some q"
    "ParseArtifact l False = Some la" "ParseArtifact q True = Some pa"
    using a by (auto simp: ReadArtifacts_def bind_eq_Some_conv)
  have "\<forall>k\<in>envelope_keys. Find root k \<noteq> None"
    using e f by (auto simp: envelope_keys_def ReadEnvelope_def ReadString_def ReadUInt_def
        bind_eq_Some_conv)
  moreover have "card envelope_keys = 6" "finite envelope_keys" by (simp_all add: envelope_keys_def)
  ultimately have "keys_of root = envelope_keys"
    using exact_keys [of ms envelope_keys] Parse_keys [OF p] r by (simp add: keys_of_def)
  moreover have "keys_of l = launcher_keys" "keys_of q = payload_keys"
    using ParseArtifact_keys f keys_distinct_Find [OF Parse_keys [OF p]] by auto
  moreover have "manifest_ok m"
    using e ParseArtifact_ok [OF f(3)] ParseArtifact_ok [OF f(4)]
    by (auto simp: manifest_ok_def m ReadEnvelope_def bind_eq_Some_conv)
  ultimately show ?thesis using p f by blast
qed

definition json_object :: "(string \<times> string) list \<Rightarrow> string" where
  "json_object ms = CHR 0x7B # join CHR '','' (map (\<lambda>(k, v). Quote k @ CHR '':'' # v) ms) @ [CHR 0x7D]"

definition sample_manifest_text :: string where
  "sample_manifest_text = json_object
     [(''schema'', ''1''), (''channel'', Quote ''stable''),
      (''generated_at'', Quote ''2025-01-31T23:59:00Z''), (''key_id'', Quote ''k-1''),
      (''launcher'', json_object [(''version'', Quote ''1.0.0''), (''url'', Quote ''https://a/l''),
         (''sha256'', Quote (replicate 64 (CHR ''a''))), (''size'', ''5''),
         (''minimum_supported_version'', Quote ''0.9'')]),
      (''payload'', json_object [(''version'', Quote ''1.8.5''), (''url'', Quote ''https://a/p''),
         (''sha256'', Quote (replicate 64 (CHR ''0''))), (''size'', ''708''),
         (''provider'', Quote required_provider), (''minimum_launcher_version'', Quote ''1.0.0''),
         (''upstream_release_url'', Quote ''https://b/r''), (''payload_schema'', ''1''),
         (''strategy_schema'', ''1'')])]"

definition empty_artifact :: Artifact where
  "empty_artifact = \<lparr>artifact_version = [], url = [], sha256 = [], artifact_size = 0,
     minimumSupportedVersion = [], minimumLauncherVersion = [], payloadSchema = 0, strategySchema = 0,
     provider = [], upstreamReleaseUrl = []\<rparr>"

definition sample_parsed :: Manifest where
  "sample_parsed = \<lparr>manifest_schema = 1, manifest_channel = ''stable'',
     generatedAt = ''2025-01-31T23:59:00Z'', keyId = ''k-1'',
     launcher = empty_artifact\<lparr>artifact_version := ''1.0.0'', url := ''https://a/l'',
       sha256 := replicate 64 (CHR ''a''), artifact_size := 5, minimumSupportedVersion := ''0.9''\<rparr>,
     payload = empty_artifact\<lparr>artifact_version := ''1.8.5'', url := ''https://a/p'',
       sha256 := replicate 64 (CHR ''0''), artifact_size := 708, provider := required_provider,
       minimumLauncherVersion := ''1.0.0'', upstreamReleaseUrl := ''https://b/r'',
       payloadSchema := 1, strategySchema := 1\<rparr>\<rparr>"

text \<open>A complete manifest of the accepted form.\<close>

lemma sample_manifest_parse: "ParseManifest sample_manifest_text (64 * 1024) = Inr sample_parsed"
  by code_simp

theorem ParseManifest_strict_witness:
  "ParseManifest sample_manifest_text (64 * 1024) = Inr sample_parsed \<and> manifest_ok sample_parsed"
  using ParseManifest_strict [OF sample_manifest_parse] sample_manifest_parse by blast

section \<open>Upgrades\<close>

text \<open>A manifest that moves an installation of a stable build from one payload to another.\<close>

definition upgrade_step :: "string \<Rightarrow> string \<Rightarrow> bool" where
  "upgrade_step cur new \<longleftrightarrow>
     (\<exists>m lau. EvaluatePayload m cur lau True = Upgrade \<and> new = artifact_version (payload m))"

lemma EvaluatePayload_Upgrade:
  "EvaluatePayload m cur lau stb = Upgrade \<longleftrightarrow>
     (\<exists>c v l mn. ParseVersion cur = Some c \<and> ParseVersion (artifact_version (payload m)) = Some v \<and>
        ParseVersion lau = Some l \<and> ParseVersion (minimumLauncherVersion (payload m)) = Some mn \<and>
        \<not> (stb \<and> prerelease v) \<and> 0 < CompareVersions v c \<and> 0 \<le> CompareVersions l mn \<and>
        payloadSchema (payload m) = payload_schema_supported \<and>
        strategySchema (payload m) = strategy_schema_supported)"
  by (auto simp: EvaluatePayload_def Let_def split: option.splits if_splits)

lemma release_version_ok: "ParseVersion s = Some v \<Longrightarrow> \<not> prerelease v \<Longrightarrow> version_ok v"
  using ParseVersion_wf [of s v] by (simp add: wf_version_def version_ok_def)

lemma upgrade_step_greater:
  "upgrade_step cur new \<Longrightarrow> \<exists>c v. ParseVersion cur = Some c \<and> ParseVersion new = Some v \<and>
     version_ok v \<and> \<not> prerelease v \<and> 0 < CompareVersions v c"
  using release_version_ok by (auto simp: upgrade_step_def EvaluatePayload_Upgrade)

text \<open>C21. Updates of a stable build only move forward: after any number of payloads that
  \<open>EvaluatePayload\<close> judged to be upgrades, the installed version is a release strictly above the
  one the series started from, for every starting version whose numeric prerelease identifiers fit
  in 64 bits; in particular no series of manifests, replayed in any order, leads back to it or to
  anything older.\<close>

theorem upgrades_move_forward:
  assumes "upgrade_step\<^sup>+\<^sup>+ start final" "ParseVersion start = Some s" "version_ok s"
  shows "\<exists>v. ParseVersion final = Some v \<and> \<not> prerelease v \<and> 0 < CompareVersions v s"
proof -
  from assms(1) have "\<exists>v. ParseVersion final = Some v \<and> version_ok v \<and> \<not> prerelease v \<and>
      0 < CompareVersions v s"
  proof (induction rule: tranclp_induct)
    case (base y)
    then show ?case using upgrade_step_greater assms(2) by force
  next
    case (step y z)
    then obtain v where v: "ParseVersion y = Some v" "version_ok v" "0 < CompareVersions v s" by blast
    from upgrade_step_greater [OF step(2)] v(1) obtain w where
      w: "ParseVersion z = Some w" "version_ok w" "\<not> prerelease w" "0 < CompareVersions w v" by auto
    have "CompareVersions s v < 0" "CompareVersions v w \<le> 0"
      using v w assms(3) version_order.cmp_antisym [of v s] version_order.cmp_antisym [of w v] by auto
    then have "CompareVersions s w < 0"
      using version_order.cmp_less_trans [of s v w] v w assms(3) by blast
    then have "0 < CompareVersions w s"
      using version_order.cmp_antisym [of s w] w assms(3) by auto
    with w show ?case by blast
  qed
  then show ?thesis by blast
qed

definition sample_payload :: "string \<Rightarrow> Artifact" where
  "sample_payload v = \<lparr>artifact_version = v, url = ''https://example.org/p'',
     sha256 = replicate 64 (CHR ''0''), artifact_size = 4096, minimumSupportedVersion = [],
     minimumLauncherVersion = ''1.0.0'', payloadSchema = 1, strategySchema = 1,
     provider = required_provider, upstreamReleaseUrl = ''https://example.org/r''\<rparr>"

definition sample_manifest :: "string \<Rightarrow> Manifest" where
  "sample_manifest v = \<lparr>manifest_schema = 1, manifest_channel = ''stable'',
     generatedAt = ''2025-01-01T00:00:00Z'', keyId = ''release-1'',
     launcher = sample_payload ''1.0.0'', payload = sample_payload v\<rparr>"

lemma sample_upgrade:
  "EvaluatePayload (sample_manifest v) c l True = Upgrade \<Longrightarrow> upgrade_step c v"
  unfolding upgrade_step_def
  by (intro exI [of _ "sample_manifest v"] exI [of _ l])
    (simp add: sample_manifest_def sample_payload_def)

text \<open>Two updates, from 1.8.4 by way of 1.8.5 to 1.9.\<close>

theorem upgrades_move_forward_witness:
  "\<exists>s v. ParseVersion ''1.8.4'' = Some s \<and> ParseVersion ''1.9'' = Some v \<and> 0 < CompareVersions v s"
proof -
  have "EvaluatePayload (sample_manifest ''1.8.5'') ''1.8.4'' ''1.0.0'' True = Upgrade"
    "EvaluatePayload (sample_manifest ''1.9'') ''1.8.5'' ''1.0.0'' True = Upgrade"
    by code_simp+
  from this [THEN sample_upgrade] have "upgrade_step\<^sup>+\<^sup>+ ''1.8.4'' ''1.9''"
    by (rule tranclp.trancl_into_trancl [OF tranclp.r_into_trancl])
  moreover obtain s where "ParseVersion ''1.8.4'' = Some s" "\<not> prerelease s"
  proof -
    have "(case ParseVersion ''1.8.4'' of Some v \<Rightarrow> \<not> prerelease v | None \<Rightarrow> False)" by code_simp
    then show ?thesis using that by (simp split: option.splits)
  qed
  ultimately show ?thesis
    using upgrades_move_forward [of "''1.8.4''" "''1.9''" s] release_version_ok [of "''1.8.4''" s]
    by blast
qed

text \<open>The decision about a launcher: it is an upgrade exactly when the three versions parse, a
  stable build is not offered a prerelease, the offered launcher is strictly newer than the running
  one, and the running one is not older than the oldest launcher the offer supports.\<close>

lemma EvaluateLauncher_Upgrade:
  "EvaluateLauncher m cur stb = Upgrade \<longleftrightarrow>
     (\<exists>c v mn. ParseVersion cur = Some c \<and> ParseVersion (artifact_version (launcher m)) = Some v \<and>
        ParseVersion (minimumSupportedVersion (launcher m)) = Some mn \<and>
        \<not> (stb \<and> prerelease v) \<and> 0 < CompareVersions v c \<and> 0 \<le> CompareVersions c mn)"
  by (auto simp: EvaluateLauncher_def Let_def split: option.splits if_splits)

end
