(* ===== verification/StringUtil.thy ===== *)
theory StringUtil
  imports Prelude
begin

text \<open>
  The ASCII string helpers of \<^verbatim>\<open>src/src/util/StringUtil.cpp\<close>: case folding, case-insensitive
  comparison of byte and of wide strings, trimming. \<^verbatim>\<open>ToUtf8\<close> and \<^verbatim>\<open>ToUtf16\<close> are calls of the
  Windows code-page API; the definitions that use them take the conversion as a parameter.
\<close>

section \<open>Definitions\<close>

definition lower_char :: "char \<Rightarrow> char" where
  \<comment> \<open>\<^verbatim>\<open>std::tolower\<close> in the C locale\<close>
  "lower_char c = (if IsUpper c then char_of (of_char c - 65 + 97 :: nat) else c)"

definition lower_wchar :: "wchar \<Rightarrow> wchar" where
  "lower_wchar c = (if WC CHR ''A'' \<le> c \<and> c \<le> WC CHR ''Z'' then c - WC CHR ''A'' + WC CHR ''a'' else c)"

definition IEqualsAscii :: "string \<Rightarrow> string \<Rightarrow> bool" where
  "IEqualsAscii a b \<longleftrightarrow>
     length a = length b \<and> list_all2 (\<lambda>x y. lower_char x = lower_char y) a b"

definition IEqualsAsciiW :: "wstring \<Rightarrow> wstring \<Rightarrow> bool" where
  "IEqualsAsciiW a b \<longleftrightarrow>
     length a = length b \<and> list_all2 (\<lambda>x y. lower_wchar x = lower_wchar y) a b"

definition ToLowerAscii :: "string \<Rightarrow> string" where
  "ToLowerAscii s = map lower_char s"

definition ToLowerAsciiW :: "wstring \<Rightarrow> wstring" where
  "ToLowerAsciiW s = map lower_wchar s"

definition is_ws :: "char \<Rightarrow> bool" where
  "is_ws c \<longleftrightarrow> c = CHR '' '' \<or> c = CHR 0x09 \<or> c = CHR 0x0D \<or> c = CHR 0x0A"

definition Trim :: "string \<Rightarrow> string" where
  "Trim s = rev (dropWhile is_ws (rev (dropWhile is_ws s)))"

section \<open>Lemmas\<close>

text \<open>Widening a byte to a code unit loses nothing.\<close>

lemma unat_WC: "unat (of_char c :: wchar) = of_char c"
proof -
  have "(of_char c :: wchar) = of_nat (of_char c)" by (simp add: of_nat_of_char)
  moreover have "(of_char c :: nat) < 2 ^ 16" by (rule less_trans [OF nat_of_char_less_256]) simp
  ultimately show ?thesis by (simp add: of_nat_inverse)
qed

lemma WC_eq [simp]: "(of_char a :: wchar) = of_char b \<longleftrightarrow> a = b"
  using unat_WC [of a] unat_WC [of b] by (metis of_char_eq_iff)

lemma WC_const [simp]:
  "(of_char c :: wchar) = 92 \<longleftrightarrow> c = CHR 0x5C" "(of_char c :: wchar) = 47 \<longleftrightarrow> c = CHR ''/''"
  using WC_eq [of c "CHR 0x5C"] WC_eq [of c "CHR ''/''"] by simp_all

lemma W_eq [simp]: "W a = W b \<longleftrightarrow> a = b"
  by (rule inj_map_eq_map) (simp add: inj_def)

text \<open>
  Case-insensitive equality, whatever the character type: the two strings fold to the same
  string. The locale collects what the callers need (it is an equivalence, it respects length,
  and a folded string can be compared instead), for both widths.
\<close>

locale case_fold =
  fixes low :: "'c \<Rightarrow> 'c" and ieq :: "'c list \<Rightarrow> 'c list \<Rightarrow> bool"
  assumes ieq_map: "ieq a b \<longleftrightarrow> map low a = map low b"
    and low_idem: "low (low c) = low c"
begin

lemma ieq_refl: "ieq a a"
  by (simp add: ieq_map)

lemma ieq_sym: "ieq a b \<longleftrightarrow> ieq b a"
  by (auto simp: ieq_map)

lemma ieq_trans: "ieq a b \<Longrightarrow> ieq b c \<Longrightarrow> ieq a c"
  by (simp add: ieq_map)

lemma ieq_length: "ieq a b \<Longrightarrow> length a = length b"
  by (metis ieq_map length_map)

lemma ieq_fold: "ieq (map low a) a"
  by (simp add: ieq_map comp_def low_idem)

lemma ieq_append: "ieq a b \<Longrightarrow> ieq c d \<Longrightarrow> ieq (a @ c) (b @ d)"
  by (simp add: ieq_map)

end

lemma list_all2_map_eq: "list_all2 (\<lambda>x y. f x = f y) a b \<longleftrightarrow> map f a = map f b"
  by (simp add: list.rel_eq [symmetric] list_all2_map1 list_all2_map2)

lemma lower_char_idem: "lower_char (lower_char c) = lower_char c"
proof (cases "IsUpper c")
  case True
  then have "65 \<le> (of_char c :: nat)" "of_char c \<le> (90 :: nat)"
    by (auto simp: IsUpper_def less_eq_char_def)
  then have "of_char (char_of (of_char c - 65 + 97 :: nat)) = (of_char c - 65 + 97 :: nat)"
    by simp
  then have "\<not> IsUpper (char_of (of_char c - 65 + 97 :: nat))"
    using \<open>65 \<le> of_char c\<close> by (simp add: IsUpper_def less_eq_char_def)
  with True show ?thesis by (simp add: lower_char_def)
qed (simp add: lower_char_def)

lemma lower_wchar_idem: "lower_wchar (lower_wchar c) = lower_wchar c"
proof (cases "WC CHR ''A'' \<le> c \<and> c \<le> WC CHR ''Z''")
  case True
  then have c: "unat c \<le> 90" by (simp add: word_le_nat_alt)
  have "c - 65 + 97 = c + 32" by simp
  moreover have "unat (c + 32) = unat c + 32" using c by (simp add: unat_word_ariths)
  moreover have "65 \<le> unat c" using True by (simp add: word_le_nat_alt)
  ultimately have "unat (90 :: wchar) < unat (c - 65 + 97)" by (simp add: add.commute [of 32])
  then have "\<not> c - 65 + 97 \<le> 90" by (simp only: word_le_nat_alt not_le)
  with True show ?thesis by (simp add: lower_wchar_def)
qed (simp add: lower_wchar_def)

interpretation ascii_fold: case_fold lower_char IEqualsAscii
  by unfold_locales
    (auto simp: IEqualsAscii_def list_all2_map_eq lower_char_idem dest: map_eq_imp_length_eq)

interpretation wide_fold: case_fold lower_wchar IEqualsAsciiW
  by unfold_locales
    (auto simp: IEqualsAsciiW_def list_all2_map_eq lower_wchar_idem dest: map_eq_imp_length_eq)

lemma Trim_ends: "Trim s = [] \<or> (\<not> is_ws (hd (Trim s)) \<and> \<not> is_ws (last (Trim s)))"
proof (cases "Trim s = []")
  case False
  let ?t = "dropWhile is_ws s" and ?u = "dropWhile is_ws (rev (dropWhile is_ws s))"
  have ne: "?u \<noteq> []" using False by (simp add: Trim_def)
  then have l: "\<not> is_ws (hd ?u)" by (rule hd_dropWhile)
  obtain p where p: "?t = Trim s @ p"
    by (metis Trim_def rev_append rev_rev_ident takeWhile_dropWhile_id)
  then have "hd (Trim s) = hd ?t" "?t \<noteq> []" using False by auto
  then have "\<not> is_ws (hd (Trim s))" using hd_dropWhile [of is_ws s] by simp
  with l ne show ?thesis by (simp add: Trim_def last_rev)
qed simp

lemma dropWhile_hd: "\<not> P (hd s) \<Longrightarrow> dropWhile P s = s"
  by (cases s) simp_all

lemma Trim_no_ws: "\<not> is_ws (hd s) \<Longrightarrow> \<not> is_ws (last s) \<Longrightarrow> Trim s = s"
  by (cases "s = []") (simp_all add: Trim_def dropWhile_hd hd_rev)

end
