(* ===== verification/PathPolicy.thy ===== *)
theory PathPolicy
  imports StringUtil
begin

text \<open>
  Relative paths from untrusted input. Two functions of the program check the names of runtime
  files, \<^verbatim>\<open>NormalizePackagePath\<close> of \<^verbatim>\<open>UpdatePackage.cpp\<close> and \<^verbatim>\<open>SafeRuntimeRelativePath\<close> of
  \<^verbatim>\<open>ResourceExtractor.cpp\<close>; they share the rules for a path component, which are modelled here. The
  locale \<open>path_policy\<close> states what both promise, and derives from it that a path accepted stays
  below the directory it is appended to.
\<close>

section \<open>Components\<close>

definition reserved_device :: "string \<Rightarrow> bool" where
  "reserved_device device =
     (device = ''con'' \<or> device = ''prn'' \<or> device = ''aux'' \<or> device = ''nul'' \<or>
      (length device = 4 \<and> (starts_with ''com'' device \<or> starts_with ''lpt'' device) \<and>
       CHR ''1'' \<le> device ! 3 \<and> device ! 3 \<le> CHR ''9''))"

definition bad_component_char :: "char \<Rightarrow> bool" where
  "bad_component_char c \<longleftrightarrow>
     c < CHR 0x20 \<or> c \<in> {CHR 0x7F, CHR ''*'', CHR ''?'', CHR 0x22, CHR ''<'', CHR ''>'', CHR ''|''}"

definition safe_component :: "string \<Rightarrow> bool" where
  "safe_component component \<longleftrightarrow>
     \<not> (component = [] \<or> component = ''.'' \<or> component = ''..'' \<or>
        last component = CHR '' '' \<or> last component = CHR ''.'') \<and>
     \<not> list_ex bad_component_char component \<and>
     \<not> reserved_device (map lower_char (takeWhile (\<lambda>c. c \<noteq> CHR ''.'') component))"

text \<open>The checks on the whole input, before the loop over the components.\<close>

definition path_head_ok :: "string \<Rightarrow> bool" where
  "path_head_ok input \<longleftrightarrow>
     \<not> (input = [] \<or> 240 < length input \<or> hd input = CHR ''/'' \<or> hd input = CHR 0x5C \<or>
        CHR 0x5C \<in> set input \<or> CHR '':'' \<in> set input \<or> CHR 0x00 \<in> set input)"

section \<open>Splitting into components\<close>

function splits :: "'a \<Rightarrow> 'a list \<Rightarrow> 'a list list" where
  "splits c s = (case split_at c s of (a, None) \<Rightarrow> [a] | (a, Some r) \<Rightarrow> a # splits c r)"
  by pat_completeness auto
termination by (relation "measure (\<lambda>(c, s). length s)") (auto dest: sym simp: split_at_Some)

declare splits.simps [simp del]

lemma splits_None: "c \<notin> set a \<Longrightarrow> splits c a = [a]"
  by (subst splits.simps) (simp add: split_at_notin)

lemma splits_Some: "c \<notin> set a \<Longrightarrow> splits c (a @ c # r) = a # splits c r"
  by (subst splits.simps) (simp add: split_at_append)

lemma splits_induct [case_names last step]:
  assumes last: "\<And>s. c \<notin> set s \<Longrightarrow> P s" and step: "\<And>a r. c \<notin> set a \<Longrightarrow> P r \<Longrightarrow> P (a @ c # r)"
  shows "P s"
proof (induction s rule: length_induct)
  case (1 s)
  show ?case
  proof (cases "c \<in> set s")
    case True
    then obtain a r where "s = a @ c # r" "c \<notin> set a" using split_list_first by metis
    with 1 step show ?thesis by simp
  qed (rule last)
qed

lemma splits_not_Nil [simp]: "splits c s \<noteq> []"
  by (subst splits.simps) (auto split: prod.split option.split)

lemma join_splits: "join c (splits c s) = s"
  by (induction s rule: splits_induct [of c]) (simp_all add: splits_None splits_Some join_Cons)

lemma splits_elem: "x \<in> set (splits c s) \<Longrightarrow> c \<notin> set x \<and> set x \<subseteq> set s"
  by (induction s rule: splits_induct [of c]) (auto simp: splits_None splits_Some)

lemma splits_map:
  assumes "\<forall>x \<in> set s. f x = d \<longleftrightarrow> x = c" shows "splits d (map f s) = map (map f) (splits c s)"
  using assms
proof (induction s rule: splits_induct [of c])
  case (last s)
  then have "d \<notin> set (map f s)" by auto
  with last show ?case by (simp add: splits_None)
next
  case (step a r)
  then have "d \<notin> set (map f a)" "f c = d" by auto
  then have "splits d (map f (a @ c # r)) = map f a # splits d (map f r)"
    using splits_Some [of d "map f a" "map f r"] by simp
  with step show ?case by (simp add: splits_Some)
qed

section \<open>Where a relative path leads\<close>

text \<open>
  The directory walk of the operating system, on a path as the list of its components: empty
  components and \<^verbatim>\<open>.\<close> stay, \<^verbatim>\<open>..\<close> leaves the directory.
\<close>

fun walk :: "'a list list \<Rightarrow> ('a list \<Rightarrow> bool) \<Rightarrow> ('a list \<Rightarrow> bool) \<Rightarrow> 'a list list \<Rightarrow> 'a list list" where
  "walk dir stay up [] = dir"
| "walk dir stay up (c # cs) =
     (if stay c then walk dir stay up cs
      else if up c then walk (butlast dir) stay up cs
      else walk (dir @ [c]) stay up cs)"

definition resolve :: "wstring list \<Rightarrow> wstring list \<Rightarrow> wstring list" where
  "resolve dir rel = walk dir (\<lambda>c. c = [] \<or> c = W ''.'') (\<lambda>c. c = W ''..'') rel"

lemma walk_plain: "\<forall>c \<in> set cs. \<not> stay c \<and> \<not> up c \<Longrightarrow> walk dir stay up cs = dir @ cs"
  by (induction cs arbitrary: dir) auto

lemma resolve_plain:
  "\<forall>c \<in> set cs. c \<noteq> [] \<and> c \<noteq> W ''.'' \<and> c \<noteq> W ''..'' \<Longrightarrow> resolve dir cs = dir @ cs"
  unfolding resolve_def by (rule walk_plain) simp

section \<open>The interface\<close>

text \<open>
  A policy: which inputs it accepts, and the wide relative path it turns an accepted input into,
  through a conversion of each component that keeps it a plain name.
\<close>

locale path_policy =
  fixes accepts :: "string \<Rightarrow> bool" and wide :: "string \<Rightarrow> wstring" and conv :: "string \<Rightarrow> wstring"
  assumes accepts_head: "accepts s \<Longrightarrow> path_head_ok s"
    and accepts_components: "accepts s \<Longrightarrow> list_all safe_component (splits CHR ''/'' s)"
    and wide_components: "accepts s \<Longrightarrow>
      splits (WC CHR 0x5C) (wide s) = map conv (splits CHR ''/'' s)"
    and conv_plain: "accepts s \<Longrightarrow> c \<in> set (splits CHR ''/'' s) \<Longrightarrow>
      conv c \<noteq> [] \<and> conv c \<noteq> W ''.'' \<and> conv c \<noteq> W ''..''"
begin

lemma confined:
  "accepts s \<Longrightarrow> resolve dir (splits (WC CHR 0x5C) (wide s)) = dir @ map conv (splits CHR ''/'' s)"
  unfolding wide_components by (rule resolve_plain) (auto dest: conv_plain)

lemma strictly_below:
  "accepts s \<Longrightarrow> \<exists>rel. rel \<noteq> [] \<and> resolve dir (splits (WC CHR 0x5C) (wide s)) = dir @ rel"
  using confined by auto

lemma no_device:
  "accepts s \<Longrightarrow> c \<in> set (splits CHR ''/'' s) \<Longrightarrow>
     \<not> reserved_device (map lower_char (takeWhile (\<lambda>x. x \<noteq> CHR ''.'') c))"
  using accepts_components by (auto simp: list_all_iff safe_component_def)

end

end
