(* ===== verification/FsTrace.thy ===== *)
theory FsTrace
  imports StringUtil
begin

text \<open>
  The file system as the components that install runtimes see it: through \<^verbatim>\<open>securefs\<close>,
  \<^verbatim>\<open>IntegrityVerifier\<close> and \<^verbatim>\<open>RuntimePaths\<close>. What these calls answer depends on the operating system
  and on what was done before, so the environment of a component is a record of answer functions
  on the history, the list of the state-changing calls made so far with their outcome. A modelled
  operation maps a history to its result and the extended history; a theorem about it holds for
  every environment.
\<close>

datatype fs_event =
    EnsureDirectory wstring bool       \<comment> \<open>\<^verbatim>\<open>EnsureProtectedDirectory\<close>, \<^verbatim>\<open>EnsureTrustedDirectory\<close>\<close>
  | WriteFile wstring string bool      \<comment> \<open>\<^verbatim>\<open>AtomicWrite\<close> of the bytes\<close>
  | RemoveTree wstring wstring bool    \<comment> \<open>\<^verbatim>\<open>RemoveTreeUnder\<close> root, target\<close>
  | Harden wstring bool                \<comment> \<open>\<^verbatim>\<open>HardenObject\<close> on a file\<close>
  | StopEngine wstring bool            \<comment> \<open>\<^verbatim>\<open>ProcessManager::Stop\<close> of a runtime directory's engine\<close>
  | StartEngine wstring "wstring list" bool   \<comment> \<open>\<^verbatim>\<open>ProcessManager::Start\<close> image, arguments\<close>

type_synonym history = "fs_event list"

record fs_env =
  ensure_ok :: "history \<Rightarrow> wstring \<Rightarrow> bool"
  write_ok :: "history \<Rightarrow> wstring \<Rightarrow> string \<Rightarrow> bool"
  remove_ok :: "history \<Rightarrow> wstring \<Rightarrow> wstring \<Rightarrow> bool"
  harden_ok :: "history \<Rightarrow> wstring \<Rightarrow> bool"
  strict_descendant :: "wstring \<Rightarrow> wstring \<Rightarrow> bool"   \<comment> \<open>\<^verbatim>\<open>IsStrictDescendant\<close> root, candidate\<close>
  path_exists :: "history \<Rightarrow> wstring \<Rightarrow> bool"
  components_ok :: "history \<Rightarrow> wstring \<Rightarrow> bool"   \<comment> \<open>\<^verbatim>\<open>ValidatePathComponents\<close>\<close>
  protected_dir_ok :: "history \<Rightarrow> wstring \<Rightarrow> bool"   \<comment> \<open>\<^verbatim>\<open>ValidateProtectedObject\<close>, directory\<close>
  protected_file_ok :: "history \<Rightarrow> wstring \<Rightarrow> bool"
  dir_ok :: "history \<Rightarrow> wstring \<Rightarrow> bool"   \<comment> \<open>\<^verbatim>\<open>ValidateObject\<close>, directory\<close>
  file_ok :: "history \<Rightarrow> wstring \<Rightarrow> bool"   \<comment> \<open>\<^verbatim>\<open>ValidateObject\<close>, regular file with one link\<close>
  file_size :: "history \<Rightarrow> wstring \<Rightarrow> nat option"
  file_sha :: "history \<Rightarrow> wstring \<Rightarrow> string option"   \<comment> \<open>\<^verbatim>\<open>Sha256File\<close>\<close>
  data_sha :: "string \<Rightarrow> string option"   \<comment> \<open>\<^verbatim>\<open>Sha256Hex\<close>\<close>

text \<open>The state-changing calls.\<close>

definition ensure :: "'z fs_env_scheme \<Rightarrow> wstring \<Rightarrow> history \<Rightarrow> bool \<times> history" where
  "ensure env p h = (let ok = ensure_ok env h p in (ok, h @ [EnsureDirectory p ok]))"

definition write_file :: "'z fs_env_scheme \<Rightarrow> wstring \<Rightarrow> string \<Rightarrow> history \<Rightarrow> bool \<times> history" where
  "write_file env p data h = (let ok = write_ok env h p data in (ok, h @ [WriteFile p data ok]))"

definition remove_tree :: "'z fs_env_scheme \<Rightarrow> wstring \<Rightarrow> wstring \<Rightarrow> history \<Rightarrow> bool \<times> history" where
  "remove_tree env root p h = (let ok = remove_ok env h root p in (ok, h @ [RemoveTree root p ok]))"

definition harden :: "'z fs_env_scheme \<Rightarrow> wstring \<Rightarrow> history \<Rightarrow> bool \<times> history" where
  "harden env p h = (let ok = harden_ok env h p in (ok, h @ [Harden p ok]))"

lemmas fs_calls = ensure_def write_file_def remove_tree_def harden_def

text \<open>\<^verbatim>\<open>IntegrityVerifier::HexEquals\<close> is the case-insensitive comparison.\<close>

definition HexEquals :: "string \<Rightarrow> string \<Rightarrow> bool" where
  "HexEquals a b = IEqualsAscii a b"

text \<open>An environment in which every call succeeds, for the witnesses.\<close>

definition benign_env :: fs_env where
  "benign_env = \<lparr>ensure_ok = \<lambda>h p. True, write_ok = \<lambda>h p d. True, remove_ok = \<lambda>h r p. True,
     harden_ok = \<lambda>h p. True, strict_descendant = \<lambda>r p. starts_with r p \<and> length r < length p,
     path_exists = \<lambda>h p. False, components_ok = \<lambda>h p. True, protected_dir_ok = \<lambda>h p. True,
     protected_file_ok = \<lambda>h p. True, dir_ok = \<lambda>h p. True, file_ok = \<lambda>h p. True,
     file_size = \<lambda>h p. None, file_sha = \<lambda>h p. None, data_sha = \<lambda>d. None\<rparr>"

section \<open>Exact reads\<close>

text \<open>
  \<^verbatim>\<open>ReadExact\<close>: the buffer is filled in chunks of at most one megabyte; a failed call or a short
  count is a failure. The outcomes of the successive calls of \<^verbatim>\<open>ReadFile\<close> are given, and the ones
  not used are returned.
\<close>

fun ReadExact :: "string option list \<Rightarrow> nat \<Rightarrow> (string \<times> string option list) option" where
  "ReadExact [] n = (if n = 0 then Some ([], []) else None)"
| "ReadExact (r # rs) n =
     (if n = 0 then Some ([], r # rs)
      else (case r of
              None \<Rightarrow> None
            | Some d \<Rightarrow>
                let chunk = min n (2 ^ 20) in
                if length d \<noteq> chunk then None
                else (case ReadExact rs (n - chunk) of
                        None \<Rightarrow> None
                      | Some (ds, rest) \<Rightarrow> Some (d @ ds, rest))))"

lemma ReadExact_length: "ReadExact rs n = Some (d, rest) \<Longrightarrow> length d = n"
  by (induction rs n arbitrary: d rest rule: ReadExact.induct)
    (auto simp: Let_def split: if_splits option.splits)

end
