(* ===== verification/UpdatePackage.thy ===== *)
theory UpdatePackage
  imports PathPolicy FsTrace Json_Grammar Version
begin

text \<open>
  The CHEBURNET payload package of \<^verbatim>\<open>src/src/update/UpdatePackage.cpp\<close>: the path rules for its
  entries, the validation of its entry list, the parser of the binary file, extraction into a new
  runtime directory, and the verification of what was extracted. \<^verbatim>\<open>std::uint64_t\<close> arithmetic is on
  naturals modulo \<open>2 ^ 64\<close>, with the wrap-around written out.
\<close>

section \<open>Data\<close>

datatype PackageEntryType = Regular | Symlink | Reparse | Other

record PackageEntry =
  entry_path :: string
  entry_type :: PackageEntryType
  entry_size :: nat
  entry_sha :: string

record PackageLimits =
  maxFiles :: nat
  maxTotalBytes :: nat
  maxFileBytes :: nat

definition default_limits :: PackageLimits where
  "default_limits = \<lparr>maxFiles = 256, maxTotalBytes = 128 * 1024 * 1024,
     maxFileBytes = 32 * 1024 * 1024\<rparr>"

record PackageInfo =
  package_schema :: nat
  payloadVersion :: string
  package_provider :: string
  package_payloadSchema :: nat
  package_strategySchema :: nat
  dataOffset :: nat
  runtimeManifestIndex :: nat
  package_entries :: "PackageEntry list"

definition sub64 :: "nat \<Rightarrow> nat \<Rightarrow> nat" where
  "sub64 a b = (a + u64_bound - b) mod u64_bound"

definition add64 :: "nat \<Rightarrow> nat \<Rightarrow> nat" where
  "add64 a b = (a + b) mod u64_bound"

section \<open>Paths\<close>

text \<open>The loop over the components; \<open>normalized\<close> is the output so far.\<close>

function Normalize_loop :: "string \<Rightarrow> string \<Rightarrow> string option" where
  "Normalize_loop rest normalized =
     (case split_at CHR ''/'' rest of
        (component, next) \<Rightarrow>
          if \<not> safe_component component then None
          else let normalized' =
                 (if normalized \<noteq> [] then normalized @ [CHR ''/''] else normalized) @ component in
               (case next of None \<Rightarrow> Some normalized' | Some r \<Rightarrow> Normalize_loop r normalized'))"
  by pat_completeness auto
termination
  by (relation "measure (\<lambda>(rest, _). length rest)") (auto dest: sym simp: split_at_Some)

declare Normalize_loop.simps [simp del]

definition package_path_allowed :: "string \<Rightarrow> bool" where
  "package_path_allowed p \<longleftrightarrow>
     starts_with ''bin/'' p \<or> starts_with ''lists/'' p \<or> p = ''strategies/catalog.json'' \<or>
     p = ''provenance.json'' \<or> p = ''runtime-manifest.json''"

definition NormalizePackagePath :: "string \<Rightarrow> string option" where
  "NormalizePackagePath input =
     (if \<not> path_head_ok input then None
      else (case Normalize_loop input [] of
              None \<Rightarrow> None
            | Some n \<Rightarrow> if package_path_allowed n then Some n else None))"

text \<open>\<^verbatim>\<open>ToWindowsPath\<close> widens byte by byte.\<close>

definition ToWindowsPath :: "string \<Rightarrow> wstring" where
  "ToWindowsPath path = map (\<lambda>c. if c = CHR ''/'' then WC CHR 0x5C else WC c) path"

section \<open>The entry list\<close>

record entry_scan =
  seen :: "string set"
  total :: nat
  has_winws :: bool
  has_provenance :: bool
  has_strategies :: bool
  has_manifest :: bool

definition empty_scan :: entry_scan where
  "empty_scan = \<lparr>seen = {}, total = 0, has_winws = False, has_provenance = False,
     has_strategies = False, has_manifest = False\<rparr>"

text \<open>One round of the loop.\<close>

definition ValidateEntry :: "PackageLimits \<Rightarrow> PackageEntry \<Rightarrow> entry_scan \<Rightarrow> string + entry_scan" where
  "ValidateEntry limits entry s =
     (if entry_type entry \<noteq> Regular then Inl ''non-regular package entry rejected''
      else (case NormalizePackagePath (entry_path entry) of
              None \<Rightarrow> Inl ''unsafe or non-allowlisted package path''
            | Some path \<Rightarrow>
                let folded = map lower_char path in
                if folded \<in> seen s then Inl ''duplicate normalized package path''
                else if entry_size entry = 0 \<or> maxFileBytes limits < entry_size entry \<or>
                        sub64 (maxTotalBytes limits) (entry_size entry) < total s
                then Inl ''package size limit''
                else if length (entry_sha entry) \<noteq> 64 \<or> \<not> list_all IsLowerHex (entry_sha entry)
                then Inl ''invalid entry SHA-256''
                else Inr \<lparr>seen = insert folded (seen s), total = add64 (total s) (entry_size entry),
                       has_winws = (has_winws s \<or> folded = ''bin/winws.exe''),
                       has_provenance = (has_provenance s \<or> folded = ''provenance.json''),
                       has_strategies = (has_strategies s \<or> starts_with ''strategies/'' folded),
                       has_manifest = (has_manifest s \<or> folded = ''runtime-manifest.json'')\<rparr>))"

fun ValidateEntries_loop ::
  "PackageLimits \<Rightarrow> PackageEntry list \<Rightarrow> entry_scan \<Rightarrow> string + entry_scan" where
  "ValidateEntries_loop limits [] s = Inr s"
| "ValidateEntries_loop limits (e # es) s =
     (case ValidateEntry limits e s of
        Inl m \<Rightarrow> Inl m
      | Inr s' \<Rightarrow> ValidateEntries_loop limits es s')"

text \<open>\<open>None\<close> is success.\<close>

definition ValidatePackageEntries :: "PackageEntry list \<Rightarrow> PackageLimits \<Rightarrow> string option" where
  "ValidatePackageEntries entries limits =
     (if entries = [] \<or> maxFiles limits < length entries then Some ''package file-count limit''
      else (case ValidateEntries_loop limits entries empty_scan of
              Inl m \<Rightarrow> Some m
            | Inr s \<Rightarrow>
                if \<not> has_winws s \<or> \<not> has_provenance s \<or> \<not> has_strategies s \<or> \<not> has_manifest s
                then Some ''mandatory package content missing''
                else None))"

section \<open>The package file\<close>

definition kMagic :: string where
  "kMagic = ''CBPKG1'' @ [CHR 0x0D, CHR 0x0A]"

definition StringAt :: "jvalue \<Rightarrow> string \<Rightarrow> string option" where
  "StringAt v key = (case Find v key of None \<Rightarrow> None | Some m \<Rightarrow> AsString m)"

definition UIntAt :: "jvalue \<Rightarrow> string \<Rightarrow> nat option" where
  "UIntAt v key =
     (case Find v key of
        None \<Rightarrow> None
      | Some m \<Rightarrow> (case AsNumber m of None \<Rightarrow> None | Some raw \<Rightarrow> AsUInt64 raw))"

text \<open>The loop over the \<^verbatim>\<open>files\<close> array.\<close>

record files_scan =
  entries_read :: "PackageEntry list"
  manifest_index :: nat
  expectedOffset :: nat

definition no_index :: nat where
  "no_index = u64_bound - 1" \<comment> \<open>\<^verbatim>\<open>static_cast<std::size_t>(-1)\<close>\<close>

definition ReadFileItem :: "PackageLimits \<Rightarrow> jvalue \<Rightarrow> files_scan \<Rightarrow> string + files_scan" where
  "ReadFileItem limits item s =
     (case (AsObject item, StringAt item ''path'', StringAt item ''sha256'', StringAt item ''type'',
            UIntAt item ''size'', UIntAt item ''offset'') of
        (Some ms, Some path, Some sha, Some ty, Some n, Some off) \<Rightarrow>
          if length ms \<noteq> 5 \<or> off \<noteq> expectedOffset s
          then Inl ''invalid or non-contiguous package entry''
          else let entry = \<lparr>entry_path = path,
                     entry_type = (if ty = ''file'' then Regular else Other),
                     entry_size = n, entry_sha = sha\<rparr>;
                   index = (case NormalizePackagePath path of
                              Some p \<Rightarrow> if IEqualsAscii p ''runtime-manifest.json''
                                        then length (entries_read s) else manifest_index s
                            | None \<Rightarrow> manifest_index s) in
               if sub64 (maxTotalBytes limits) n < expectedOffset s
               then Inl ''package offset overflow''
               else Inr \<lparr>entries_read = entries_read s @ [entry], manifest_index = index,
                      expectedOffset = add64 (expectedOffset s) n\<rparr>
      | _ \<Rightarrow> Inl ''invalid or non-contiguous package entry'')"

fun ReadFiles :: "PackageLimits \<Rightarrow> jvalue list \<Rightarrow> files_scan \<Rightarrow> string + files_scan" where
  "ReadFiles limits [] s = Inr s"
| "ReadFiles limits (v # vs) s =
     (case ReadFileItem limits v s of Inl m \<Rightarrow> Inl m | Inr s' \<Rightarrow> ReadFiles limits vs s')"

text \<open>The header, once parsed as JSON.\<close>

definition ReadHeader ::
  "PackageLimits \<Rightarrow> jvalue \<Rightarrow> nat \<Rightarrow> nat \<Rightarrow> string + PackageInfo" where
  "ReadHeader limits root headerSize fileSize =
     (case (UIntAt root ''schema'', UIntAt root ''payload_schema'', UIntAt root ''strategy_schema'',
            StringAt root ''payload_version'', StringAt root ''provider'', Find root ''files'') of
        (Some sch, Some ps, Some ss, Some version, Some prov, Some files) \<Rightarrow>
          (case AsArray files of
             None \<Rightarrow> Inl ''unsupported package header schema''
           | Some items \<Rightarrow>
               if sch \<noteq> 1 \<or> ParseVersion version = None \<or> ps = 0 \<or> ss = 0 \<or> 1000 < ps \<or> 1000 < ss
               then Inl ''unsupported package header schema''
               else (case ReadFiles limits items
                            \<lparr>entries_read = [], manifest_index = no_index, expectedOffset = 0\<rparr> of
                       Inl m \<Rightarrow> Inl m
                     | Inr s \<Rightarrow>
                         (case ValidatePackageEntries (entries_read s) limits of
                            Some m \<Rightarrow> Inl m
                          | None \<Rightarrow>
                              if length (entries_read s) \<le> manifest_index s
                              then Inl ''runtime manifest index missing''
                              else if add64 (12 + headerSize) (expectedOffset s) \<noteq> fileSize
                              then Inl ''truncated or trailing package data''
                              else Inr \<lparr>package_schema = 1, payloadVersion = version,
                                     package_provider = prov, package_payloadSchema = ps,
                                     package_strategySchema = ss, dataOffset = 12 + headerSize,
                                     runtimeManifestIndex = manifest_index s,
                                     package_entries = entries_read s\<rparr>)))
      | _ \<Rightarrow> Inl ''unsupported package header schema'')"

definition header_size :: "string \<Rightarrow> nat" where
  \<comment> \<open>bytes 8 to 11 of the prefix, little endian\<close>
  "header_size prefix =
     code (prefix ! 8) + push_bit 8 (code (prefix ! 9)) + push_bit 16 (code (prefix ! 10)) +
     push_bit 24 (code (prefix ! 11))"

definition header_options :: "PackageLimits \<Rightarrow> ParseOptions" where
  "header_options limits = \<lparr>maxBytes = 1024 * 1024, maxDepth = 12,
     maxValues = maxFiles limits * 8 + 32\<rparr>"

text \<open>
  \<open>safe_object\<close>, \<open>fileSize\<close> and \<open>file\<close> are the answers of \<^verbatim>\<open>ValidateObject\<close>, \<^verbatim>\<open>FileSize\<close> and
  \<^verbatim>\<open>CreateFileW\<close> (with the outcomes of \<^verbatim>\<open>ReadFile\<close>) on the path.
\<close>

definition ParsePackageFile ::
  "PackageLimits \<Rightarrow> bool \<Rightarrow> nat option \<Rightarrow> string option list option \<Rightarrow> string + PackageInfo" where
  "ParsePackageFile limits safe_object fileSize file =
     (if \<not> safe_object then Inl ''package is not a safe regular file''
      else (case fileSize of
              None \<Rightarrow> Inl ''package size is outside limits''
            | Some fsize \<Rightarrow>
                if fsize < 12 \<or> add64 (maxTotalBytes limits) (1024 * 1024) < fsize
                then Inl ''package size is outside limits''
                else (case file of
                        None \<Rightarrow> Inl ''cannot open package''
                      | Some rs \<Rightarrow>
                          (case ReadExact rs 12 of
                             None \<Rightarrow> Inl ''package magic mismatch''
                           | Some (prefix, rs1) \<Rightarrow>
                               if take 8 prefix \<noteq> kMagic then Inl ''package magic mismatch''
                               else let headerSize = header_size prefix in
                                 if headerSize = 0 \<or> 1024 * 1024 < headerSize \<or>
                                    fsize < 12 + headerSize
                                 then Inl ''package header size rejected''
                                 else (case ReadExact rs1 headerSize of
                                         None \<Rightarrow> Inl ''truncated package header''
                                       | Some (header, _) \<Rightarrow>
                                           (case Parse header (header_options limits) of
                                              Inl _ \<Rightarrow> Inl ''malformed package header''
                                            | Inr root \<Rightarrow>
                                                (case AsObject root of
                                                   None \<Rightarrow> Inl ''malformed package header''
                                                 | Some ms \<Rightarrow>
                                                     if length ms \<noteq> 6
                                                     then Inl ''malformed package header''
                                                     else ReadHeader limits root headerSize fsize)))))))"

definition ValidateArtifactFile :: "nat option \<Rightarrow> string option \<Rightarrow> nat \<Rightarrow> string \<Rightarrow> bool" where
  \<comment> \<open>\<^verbatim>\<open>FileSize\<close> and \<^verbatim>\<open>Sha256File\<close> of the path\<close>
  "ValidateArtifactFile fileSize hash expectedSize expectedSha256 \<longleftrightarrow>
     \<not> (expectedSize = 0 \<or> length expectedSha256 \<noteq> 64) \<and>
     (case (fileSize, hash) of
        (Some n, Some h) \<Rightarrow> n = expectedSize \<and> HexEquals h expectedSha256
      | _ \<Rightarrow> False)"

section \<open>Extraction\<close>

text \<open>
  The package file as it is read back: the outcome of seeking to an offset and of the reads after
  it. The history is not affected by reading.
\<close>

record package_handle =
  handle_regular :: bool   \<comment> \<open>information available, no reparse point, not a directory, one link\<close>
  seek_ok :: "nat \<Rightarrow> bool"
  reads_at :: "nat \<Rightarrow> string option list"

definition parent_of :: "wstring \<Rightarrow> wstring option" where
  \<comment> \<open>\<^verbatim>\<open>target.find_last_of(L'\\')\<close> and \<^verbatim>\<open>substr(0, slash)\<close>\<close>
  "parent_of target =
     (let r = dropWhile (\<lambda>c. c \<noteq> WC CHR 0x5C) (rev target) in
      if r = [] then None else Some (rev (tl r)))"

definition entry_target :: "wstring \<Rightarrow> PackageEntry \<Rightarrow> wstring" where
  "entry_target destination entry = destination @ W [CHR 0x5C] @ ToWindowsPath (entry_path entry)"

text \<open>One round of the loop: an error text, or the entry is in place.\<close>

definition ExtractEntry ::
  "'z fs_env_scheme \<Rightarrow> package_handle \<Rightarrow> wstring \<Rightarrow> nat \<Rightarrow> PackageEntry \<Rightarrow> nat \<Rightarrow> history \<Rightarrow>
   string option \<times> history" where
  "ExtractEntry env f destination base entry offset h =
     (let target = entry_target destination entry in
      case parent_of target of
        None \<Rightarrow> (Some ''cannot create protected package directory'', h)
      | Some dir \<Rightarrow>
          (case ensure env dir h of
             (False, h1) \<Rightarrow> (Some ''cannot create protected package directory'', h1)
           | (True, h1) \<Rightarrow>
               let pos = add64 base offset in
               if \<not> seek_ok f pos then (Some ''package seek failed'', h1)
               else (case ReadExact (reads_at f pos) (entry_size entry) of
                       None \<Rightarrow> (Some ''truncated package entry'', h1)
                     | Some (data, _) \<Rightarrow>
                         (case data_sha env data of
                            None \<Rightarrow> (Some ''package entry integrity/activation failed'', h1)
                          | Some hash \<Rightarrow>
                              if \<not> HexEquals hash (entry_sha entry)
                              then (Some ''package entry integrity/activation failed'', h1)
                              else (case write_file env target data h1 of
                                      (False, h2) \<Rightarrow>
                                        (Some ''package entry integrity/activation failed'', h2)
                                    | (True, h2) \<Rightarrow> (None, h2))))))"

fun ExtractEntries ::
  "'z fs_env_scheme \<Rightarrow> package_handle \<Rightarrow> wstring \<Rightarrow> nat \<Rightarrow> PackageEntry list \<Rightarrow> nat \<Rightarrow> history \<Rightarrow>
   string option \<times> history" where
  "ExtractEntries env f destination base [] offset h = (None, h)"
| "ExtractEntries env f destination base (e # es) offset h =
     (case ExtractEntry env f destination base e offset h of
        (Some m, h1) \<Rightarrow> (Some m, h1)
      | (None, h1) \<Rightarrow>
          ExtractEntries env f destination base es (add64 offset (entry_size e)) h1)"

definition ExtractPackage ::
  "'z fs_env_scheme \<Rightarrow> package_handle option \<Rightarrow> PackageInfo \<Rightarrow> wstring \<Rightarrow> wstring \<Rightarrow> history \<Rightarrow>
   string option \<times> history" where
  "ExtractPackage env file package root destination h =
     (if \<not> strict_descendant env root destination \<or> path_exists env h destination
      then (Some ''runtime destination must be a new strict child'', h)
      else if \<not> components_ok env h root \<or> \<not> protected_dir_ok env h root
      then (Some ''runtime destination security rejected'', h)
      else (case ensure env destination h of
              (False, h1) \<Rightarrow> (Some ''runtime destination security rejected'', h1)
            | (True, h1) \<Rightarrow>
                let fail = (\<lambda>m h2. (Some m, snd (remove_tree env root destination h2))) in
                (case file of
                   None \<Rightarrow> fail ''cannot reopen package'' h1
                 | Some f \<Rightarrow>
                     if \<not> handle_regular f
                     then fail ''package object changed before extraction'' h1
                     else (case ExtractEntries env f destination (dataOffset package)
                                  (package_entries package) 0 h1 of
                             (Some m, h2) \<Rightarrow> fail m h2
                           | (None, h2) \<Rightarrow> (None, h2)))))"

fun VerifyEntries :: "'z fs_env_scheme \<Rightarrow> history \<Rightarrow> wstring \<Rightarrow> PackageEntry list \<Rightarrow> string option" where
  "VerifyEntries env h destination [] = None"
| "VerifyEntries env h destination (e # es) =
     (case NormalizePackagePath (entry_path e) of
        None \<Rightarrow> Some ''unsafe extracted entry path''
      | Some normalized \<Rightarrow>
          let path = destination @ W [CHR 0x5C] @ ToWindowsPath normalized in
          (case (file_size env h path, file_sha env h path) of
             (Some n, Some sha) \<Rightarrow>
               if \<not> file_ok env h path \<or> n \<noteq> entry_size e \<or> \<not> HexEquals sha (entry_sha e)
               then Some ''extracted package verification failed''
               else VerifyEntries env h destination es
           | _ \<Rightarrow> Some ''extracted package verification failed''))"

definition VerifyExtractedPackage ::
  "'z fs_env_scheme \<Rightarrow> history \<Rightarrow> PackageInfo \<Rightarrow> wstring \<Rightarrow> string option" where
  "VerifyExtractedPackage env h package destination =
     (if \<not> components_ok env h destination then Some ''unsafe extracted runtime path''
      else VerifyEntries env h destination (package_entries package))"

section \<open>The path rules\<close>

lemma safe_component_not_Nil: "safe_component c \<Longrightarrow> c \<noteq> []"
  by (simp add: safe_component_def)

lemma Normalize_loop_iff:
  "Normalize_loop s acc = Some n \<longleftrightarrow>
     list_all safe_component (splits CHR ''/'' s) \<and>
     n = (if acc \<noteq> [] then acc @ [CHR ''/''] else acc) @ s"
proof (induction s arbitrary: acc rule: splits_induct [of "CHR ''/''"])
  case (last s)
  then show ?case
    by (subst Normalize_loop.simps) (auto simp: split_at_notin splits_None Let_def)
next
  case (step a r)
  then show ?case
    by (subst Normalize_loop.simps)
      (auto simp: split_at_append splits_Some Let_def dest: safe_component_not_Nil)
qed

lemma NormalizePackagePath_Some:
  "NormalizePackagePath s = Some n \<longleftrightarrow>
     n = s \<and> path_head_ok s \<and> list_all safe_component (splits CHR ''/'' s) \<and> package_path_allowed s"
proof -
  have L: "Normalize_loop s [] = Some m \<longleftrightarrow> list_all safe_component (splits CHR ''/'' s) \<and> m = s" for m
    using Normalize_loop_iff [of s "[]" m] by simp
  show ?thesis
  proof (cases "list_all safe_component (splits CHR ''/'' s)")
    case True
    with L have "Normalize_loop s [] = Some s" by blast
    with True show ?thesis by (auto simp: NormalizePackagePath_def)
  next
    case False
    with L have "Normalize_loop s [] = None" by (cases "Normalize_loop s []") blast+
    with False show ?thesis by (simp add: NormalizePackagePath_def)
  qed
qed

definition widen :: "char \<Rightarrow> wchar" where
  "widen c = (if c = CHR ''/'' then WC CHR 0x5C else WC c)"

lemma ToWindowsPath_map: "ToWindowsPath s = map widen s"
  by (simp add: ToWindowsPath_def widen_def)

lemma ToWindowsPath_splits:
  assumes "CHR 0x5C \<notin> set s"
  shows "splits (WC CHR 0x5C) (ToWindowsPath s) = map (map widen) (splits CHR ''/'' s)"
proof -
  have "\<forall>x \<in> set s. widen x = WC CHR 0x5C \<longleftrightarrow> x = CHR ''/''"
    using assms by (auto simp: widen_def)
  then show ?thesis unfolding ToWindowsPath_map by (rule splits_map)
qed

lemma widen_component: "CHR ''/'' \<notin> set c \<Longrightarrow> map widen c = W c"
  by (induction c) (auto simp: widen_def)

interpretation package_path: path_policy "\<lambda>s. NormalizePackagePath s \<noteq> None" ToWindowsPath "map widen"
proof unfold_locales
  fix s c assume "NormalizePackagePath s \<noteq> None"
  then have s: "path_head_ok s" "list_all safe_component (splits CHR ''/'' s)"
    by (auto simp: NormalizePackagePath_Some)
  then show "path_head_ok s" "list_all safe_component (splits CHR ''/'' s)" by simp_all
  show "splits (WC CHR 0x5C) (ToWindowsPath s) = map (map widen) (splits CHR ''/'' s)"
    using s(1) by (intro ToWindowsPath_splits) (simp add: path_head_ok_def)
  assume c: "c \<in> set (splits CHR ''/'' s)"
  from splits_elem [OF c] have "map widen c = W c" by (intro widen_component) simp
  moreover have "safe_component c" using c s(2) by (simp add: list_all_iff)
  then have "c \<noteq> []" "c \<noteq> ''.''" "c \<noteq> ''..''" unfolding safe_component_def by blast+
  ultimately show "map widen c \<noteq> [] \<and> map widen c \<noteq> W ''.'' \<and> map widen c \<noteq> W ''..''"
    by (simp only: W_eq map_is_Nil_conv simp_thms)
qed

text \<open>C23. A package path that is accepted cannot leave the runtime directory: it is its own normal
  form, every component is a plain file name (no dot names, no trailing dot or space, no stream or
  drive colon, no wildcard or control character, no DOS device name), and walking from any directory
  along the Windows path made of it ends strictly below that directory, at exactly these names.\<close>

theorem NormalizePackagePath_confined:
  assumes "NormalizePackagePath s = Some n"
  shows "n = s \<and> CHR '':'' \<notin> set s \<and> list_all safe_component (splits CHR ''/'' s) \<and>
    resolve dir (splits (WC CHR 0x5C) (ToWindowsPath n)) = dir @ map (map widen) (splits CHR ''/'' s)"
  using assms package_path.confined [of s dir] package_path.accepts_head [of s]
  by (simp add: NormalizePackagePath_Some path_head_ok_def)

text \<open>On a path with two components.\<close>

theorem NormalizePackagePath_confined_witness:
  "resolve [W ''C:'', W ''rt''] (splits (WC CHR 0x5C) (ToWindowsPath ''bin/winws.exe'')) =
     [W ''C:'', W ''rt'', W ''bin'', W ''winws.exe'']"
proof -
  have "NormalizePackagePath ''bin/winws.exe'' = Some ''bin/winws.exe''" by code_simp
  from NormalizePackagePath_confined [OF this, of "[W ''C:'', W ''rt'']"]
  have "resolve [W ''C:'', W ''rt''] (splits (WC CHR 0x5C) (ToWindowsPath ''bin/winws.exe'')) =
    [W ''C:'', W ''rt''] @ map (map widen) (splits CHR ''/'' ''bin/winws.exe'')" by blast
  also have "\<dots> = [W ''C:'', W ''rt'', W ''bin'', W ''winws.exe'']" by code_simp
  finally show ?thesis .
qed

section \<open>The entry list\<close>

definition folded_path :: "PackageEntry \<Rightarrow> string" where
  "folded_path e = map lower_char (entry_path e)"

definition entry_ok :: "PackageLimits \<Rightarrow> PackageEntry \<Rightarrow> bool" where
  "entry_ok limits e \<longleftrightarrow>
     entry_type e = Regular \<and> NormalizePackagePath (entry_path e) \<noteq> None \<and>
     0 < entry_size e \<and> entry_size e \<le> maxFileBytes limits \<and>
     length (entry_sha e) = 64 \<and> list_all IsLowerHex (entry_sha e)"

definition sizes :: "PackageEntry list \<Rightarrow> nat" where
  "sizes es = sum_list (map entry_size es)"

definition limits_ok :: "PackageLimits \<Rightarrow> bool" where
  "limits_ok l \<longleftrightarrow> maxFileBytes l \<le> maxTotalBytes l \<and>
     maxTotalBytes l + 2 * 1024 * 1024 < u64_bound"

lemma sub64_le: "b \<le> a \<Longrightarrow> a < u64_bound \<Longrightarrow> sub64 a b = a - b"
proof -
  assume "b \<le> a" "a < u64_bound"
  then have e: "a + u64_bound - b = (a - b) + u64_bound" and "a - b < u64_bound" by simp_all
  then show ?thesis unfolding sub64_def e by (simp only: mod_add_self2 mod_less)
qed

lemma add64_exact: "a + b < u64_bound \<Longrightarrow> add64 a b = a + b"
  by (simp add: add64_def)

lemma ValidateEntry_iff:
  assumes "limits_ok l" "total s \<le> maxTotalBytes l"
  shows "ValidateEntry l e s = Inr s' \<longleftrightarrow>
    entry_ok l e \<and> folded_path e \<notin> seen s \<and> total s + entry_size e \<le> maxTotalBytes l \<and>
    s' = \<lparr>seen = insert (folded_path e) (seen s), total = total s + entry_size e,
      has_winws = (has_winws s \<or> folded_path e = ''bin/winws.exe''),
      has_provenance = (has_provenance s \<or> folded_path e = ''provenance.json''),
      has_strategies = (has_strategies s \<or> starts_with ''strategies/'' (folded_path e)),
      has_manifest = (has_manifest s \<or> folded_path e = ''runtime-manifest.json'')\<rparr>"
proof (cases "NormalizePackagePath (entry_path e)")
  case None
  then show ?thesis by (simp add: ValidateEntry_def entry_ok_def)
next
  case (Some n)
  then have n: "map lower_char n = folded_path e" by (simp add: NormalizePackagePath_Some folded_path_def)
  have "entry_size e \<le> maxFileBytes l \<Longrightarrow>
      sub64 (maxTotalBytes l) (entry_size e) < total s \<longleftrightarrow> \<not> total s + entry_size e \<le> maxTotalBytes l"
    using assms by (auto simp: sub64_le limits_ok_def)
  moreover have "total s + entry_size e \<le> maxTotalBytes l \<Longrightarrow>
      add64 (total s) (entry_size e) = total s + entry_size e"
    using assms by (simp add: add64_exact limits_ok_def)
  ultimately show ?thesis using Some n
    by (auto simp: ValidateEntry_def entry_ok_def Let_def)
qed

lemma ValidateEntries_loop_iff:
  assumes "limits_ok l"
  shows "total s \<le> maxTotalBytes l \<Longrightarrow> ValidateEntries_loop l es s = Inr s' \<longleftrightarrow>
    list_all (entry_ok l) es \<and> distinct (map folded_path es) \<and>
    set (map folded_path es) \<inter> seen s = {} \<and> total s + sizes es \<le> maxTotalBytes l \<and>
    s' = \<lparr>seen = seen s \<union> set (map folded_path es), total = total s + sizes es,
      has_winws = (has_winws s \<or> (\<exists>e\<in>set es. folded_path e = ''bin/winws.exe'')),
      has_provenance = (has_provenance s \<or> (\<exists>e\<in>set es. folded_path e = ''provenance.json'')),
      has_strategies = (has_strategies s \<or> (\<exists>e\<in>set es. starts_with ''strategies/'' (folded_path e))),
      has_manifest = (has_manifest s \<or> (\<exists>e\<in>set es. folded_path e = ''runtime-manifest.json''))\<rparr>"
proof (induction es arbitrary: s)
  case Nil
  then show ?case by (auto simp: sizes_def)
next
  case (Cons e es)
  show ?case
  proof (cases "ValidateEntry l e s")
    case (Inl m)
    then have "\<not> (entry_ok l e \<and> folded_path e \<notin> seen s \<and> total s + entry_size e \<le> maxTotalBytes l)"
      using ValidateEntry_iff [OF assms Cons.prems, of e] by auto
    then show ?thesis using Inl by (auto simp: sizes_def)
  next
    case (Inr t)
    then have t: "entry_ok l e" "folded_path e \<notin> seen s" "total s + entry_size e \<le> maxTotalBytes l"
      and t_def: "t = \<lparr>seen = insert (folded_path e) (seen s), total = total s + entry_size e,
      has_winws = (has_winws s \<or> folded_path e = ''bin/winws.exe''),
      has_provenance = (has_provenance s \<or> folded_path e = ''provenance.json''),
      has_strategies = (has_strategies s \<or> starts_with ''strategies/'' (folded_path e)),
      has_manifest = (has_manifest s \<or> folded_path e = ''runtime-manifest.json'')\<rparr>"
      using ValidateEntry_iff [OF assms Cons.prems, of e t] by auto
    have "total t \<le> maxTotalBytes l" using t t_def by simp
    from Cons.IH [OF this] Inr show ?thesis
      using t by (auto simp: t_def sizes_def)
  qed
qed

definition entries_ok :: "PackageLimits \<Rightarrow> PackageEntry list \<Rightarrow> bool" where
  "entries_ok l es \<longleftrightarrow>
     es \<noteq> [] \<and> length es \<le> maxFiles l \<and> list_all (entry_ok l) es \<and>
     distinct (map folded_path es) \<and> sizes es \<le> maxTotalBytes l \<and>
     {''bin/winws.exe'', ''provenance.json'', ''runtime-manifest.json''} \<subseteq> set (map folded_path es) \<and>
     (\<exists>e\<in>set es. starts_with ''strategies/'' (folded_path e))"

lemma ValidatePackageEntries_ok:
  assumes "limits_ok l" shows "ValidatePackageEntries es l = None \<longleftrightarrow> entries_ok l es"
proof -
  let ?P = "list_all (entry_ok l) es \<and> distinct (map folded_path es) \<and> sizes es \<le> maxTotalBytes l"
  let ?T = "\<lparr>seen = set (map folded_path es), total = sizes es,
      has_winws = (\<exists>e\<in>set es. folded_path e = ''bin/winws.exe''),
      has_provenance = (\<exists>e\<in>set es. folded_path e = ''provenance.json''),
      has_strategies = (\<exists>e\<in>set es. starts_with ''strategies/'' (folded_path e)),
      has_manifest = (\<exists>e\<in>set es. folded_path e = ''runtime-manifest.json'')\<rparr>"
  have iff: "ValidateEntries_loop l es empty_scan = Inr t \<longleftrightarrow> ?P \<and> t = ?T" for t
    using ValidateEntries_loop_iff [OF assms, of empty_scan es t] by (simp add: empty_scan_def)
  have mem: "x \<in> set (map folded_path es) \<longleftrightarrow> (\<exists>e\<in>set es. folded_path e = x)" for x
    by auto
  show ?thesis
  proof (cases ?P)
    case True
    then have "ValidateEntries_loop l es empty_scan = Inr ?T" using iff by blast
    with True show ?thesis
      unfolding ValidatePackageEntries_def entries_ok_def insert_subset mem by simp
  next
    case False
    then obtain m where "ValidateEntries_loop l es empty_scan = Inl m"
      using iff by (cases "ValidateEntries_loop l es empty_scan") auto
    with False show ?thesis unfolding ValidatePackageEntries_def entries_ok_def by auto
  qed
qed

lemma default_limits_ok: "limits_ok default_limits"
  by (simp add: limits_ok_def default_limits_def u64_bound_def)

text \<open>\<open>ValidatePackageEntries\<close> with the default limits accepts exactly the entry lists of the
  specification: between one and 256 regular entries with accepted paths, sizes between one byte
  and 32 megabytes that add up (without wrapping around) to at most 128 megabytes, lower-case
  SHA-256 digests, no two paths equal up to ASCII case, and the four mandatory parts present.\<close>

lemma ValidatePackageEntries_iff:
  "ValidatePackageEntries es default_limits = None \<longleftrightarrow> entries_ok default_limits es"
  by (rule ValidatePackageEntries_ok [OF default_limits_ok])

section \<open>The package file\<close>

text \<open>What an accepted package is, given the size of its file.\<close>

definition package_ok :: "PackageLimits \<Rightarrow> nat \<Rightarrow> PackageInfo \<Rightarrow> bool" where
  "package_ok l fsize p \<longleftrightarrow>
     entries_ok l (package_entries p) \<and> ParseVersion (payloadVersion p) \<noteq> None \<and>
     12 < dataOffset p \<and> dataOffset p + sizes (package_entries p) = fsize \<and>
     runtimeManifestIndex p < length (package_entries p) \<and>
     folded_path (package_entries p ! runtimeManifestIndex p) = ''runtime-manifest.json''"

definition files_inv :: "files_scan \<Rightarrow> bool" where
  "files_inv s \<longleftrightarrow>
     expectedOffset s = sizes (entries_read s) mod u64_bound \<and>
     (manifest_index s = no_index \<or>
      manifest_index s < length (entries_read s) \<and>
      folded_path (entries_read s ! manifest_index s) = ''runtime-manifest.json'')"

lemma add64_mod: "add64 (a mod u64_bound) b = (a + b) mod u64_bound"
  by (simp add: add64_def mod_add_left_eq)

lemma map_lower_manifest: "map lower_char ''runtime-manifest.json'' = ''runtime-manifest.json''"
  by code_simp

lemma IEquals_manifest:
  "NormalizePackagePath path = Some p \<Longrightarrow> IEqualsAscii p ''runtime-manifest.json'' \<Longrightarrow>
     map lower_char path = ''runtime-manifest.json''"
  unfolding ascii_fold.ieq_map map_lower_manifest by (simp add: NormalizePackagePath_Some)

lemma ReadFileItem_inv:
  assumes "ReadFileItem l item s = Inr s'" "files_inv s" shows "files_inv s'"
proof -
  obtain path sha ty n index where n: "s' = \<lparr>entries_read = entries_read s @ [\<lparr>entry_path = path,
      entry_type = (if ty = ''file'' then Regular else Other), entry_size = n, entry_sha = sha\<rparr>],
      manifest_index = index, expectedOffset = add64 (expectedOffset s) n\<rparr>"
    and index: "index = (case NormalizePackagePath path of
      Some p \<Rightarrow> if IEqualsAscii p ''runtime-manifest.json'' then length (entries_read s)
                else manifest_index s | None \<Rightarrow> manifest_index s)"
    using assms(1) by (auto simp: ReadFileItem_def Let_def split: option.splits if_splits)
  have "index = length (entries_read s) \<and> map lower_char path = ''runtime-manifest.json'' \<or>
      index = manifest_index s"
    unfolding index using IEquals_manifest by (auto split: option.split)
  then show ?thesis using assms(2)
    by (auto simp: files_inv_def n folded_path_def add64_mod sizes_def nth_append)
qed

lemma ReadFiles_inv: "ReadFiles l items s = Inr s' \<Longrightarrow> files_inv s \<Longrightarrow> files_inv s'"
  by (induction items arbitrary: s) (auto dest: ReadFileItem_inv split: sum.splits)

lemma ReadHeader_ok:
  assumes "ReadHeader l root hs fsize = Inr p" "limits_ok l" "0 < hs" "hs \<le> 1024 * 1024"
  shows "package_ok l fsize p"
proof -
  obtain items s version where
    r: "ReadFiles l items \<lparr>entries_read = [], manifest_index = no_index, expectedOffset = 0\<rparr> = Inr s"
    and v: "ValidatePackageEntries (entries_read s) l = None" "ParseVersion version \<noteq> None"
    and i: "manifest_index s < length (entries_read s)"
    and z: "add64 (12 + hs) (expectedOffset s) = fsize"
    and p: "payloadVersion p = version" "dataOffset p = 12 + hs"
      "runtimeManifestIndex p = manifest_index s" "package_entries p = entries_read s"
    using assms(1) that unfolding ReadHeader_def
    by (simp split: option.splits sum.splits if_splits) (metis PackageInfo.select_convs not_le)
  have inv: "files_inv s"
    by (rule ReadFiles_inv [OF r]) (simp add: files_inv_def sizes_def)
  have e: "entries_ok l (entries_read s)" using v(1) ValidatePackageEntries_ok [OF assms(2)] by simp
  then have le: "sizes (entries_read s) \<le> maxTotalBytes l" "length (entries_read s) \<le> sizes (entries_read s)"
  proof -
    show "sizes (entries_read s) \<le> maxTotalBytes l" using e by (simp add: entries_ok_def)
    have "list_all (entry_ok l) es \<Longrightarrow> length es \<le> sizes es" for es
      by (induction es) (auto simp: sizes_def entry_ok_def)
    then show "length (entries_read s) \<le> sizes (entries_read s)" using e by (simp add: entries_ok_def)
  qed
  have b: "maxTotalBytes l + 2 * 1024 * 1024 < u64_bound" using assms(2) by (simp add: limits_ok_def)
  have "expectedOffset s = sizes (entries_read s)"
    using inv le(1) b by (simp add: files_inv_def)
  moreover have "add64 (12 + hs) (sizes (entries_read s)) = 12 + hs + sizes (entries_read s)"
    using le(1) b assms(4) by (intro add64_exact) linarith
  moreover have "manifest_index s \<noteq> no_index"
    using i le b by (auto simp: no_index_def)
  ultimately show ?thesis
    using e v(2) p z i inv assms(3) by (auto simp: package_ok_def files_inv_def)
qed

lemma ParsePackageFile_ok:
  assumes "limits_ok l" "ParsePackageFile l safe fileSize file = Inr p"
  shows "\<exists>fsize. fileSize = Some fsize \<and> package_ok l fsize p"
proof -
  obtain root hs fsize where "ReadHeader l root hs fsize = Inr p" "0 < hs" "hs \<le> 1024 * 1024"
    "fileSize = Some fsize"
    using assms(2) by (auto simp: ParsePackageFile_def Let_def split: if_splits option.splits
        prod.splits sum.splits)
  with ReadHeader_ok assms(1) show ?thesis by blast
qed

text \<open>C24. An accepted package file accounts for every byte: with the default limits, whatever 64-bit
  sizes and offsets the header claims, the entries satisfy the specification of
  \<open>ValidatePackageEntries\<close>, the prefix and header together with the exact sum of the entry sizes are
  the size of the file (no wrap-around makes a wrong sum fit), and the recorded index is that of
  the runtime manifest.\<close>

theorem ParsePackageFile_exact:
  assumes "ParsePackageFile default_limits safe fileSize file = Inr p"
  shows "\<exists>fsize. fileSize = Some fsize \<and> package_ok default_limits fsize p"
  using ParsePackageFile_ok [OF default_limits_ok assms] .

definition json_obj :: "(string \<times> string) list \<Rightarrow> string" where
  "json_obj ms = CHR 0x7B # join CHR '','' (map (\<lambda>(k, v). Quote k @ CHR '':'' # v) ms) @ [CHR 0x7D]"

definition sample_entry :: "string \<Rightarrow> nat \<Rightarrow> string" where
  "sample_entry path off = json_obj [(''path'', Quote path), (''sha256'', Quote (replicate 64 (CHR ''0''))),
     (''type'', Quote ''file''), (''size'', ''1''), (''offset'', to_string off)]"

definition sample_header :: string where
  "sample_header = json_obj [(''schema'', ''1''), (''payload_schema'', ''1''), (''strategy_schema'', ''1''),
     (''payload_version'', Quote ''1.8.5''), (''provider'', Quote ''Flowseal/zapret-discord-youtube''),
     (''files'', CHR ''['' # join CHR '','' [sample_entry ''bin/winws.exe'' 0,
        sample_entry ''provenance.json'' 1, sample_entry ''strategies/catalog.json'' 2,
        sample_entry ''runtime-manifest.json'' 3] @ '']'')]"

definition le32 :: "nat \<Rightarrow> string" where
  "le32 n = map char_of [n mod 256, n div 256 mod 256, n div 65536 mod 256, n div 16777216 mod 256]"

text \<open>The smallest package: the four mandatory files of one byte each.\<close>

definition sample_file :: "string option list option" where
  "sample_file = Some [Some (kMagic @ le32 (length sample_header)), Some sample_header]"

definition sample_package :: PackageInfo where
  "sample_package =
     (let entry = (\<lambda>p. \<lparr>entry_path = p, entry_type = Regular, entry_size = 1,
                          entry_sha = replicate 64 (CHR ''0'')\<rparr>) in
      \<lparr>package_schema = 1, payloadVersion = ''1.8.5'', package_provider = ''Flowseal/zapret-discord-youtube'',
       package_payloadSchema = 1, package_strategySchema = 1, dataOffset = 704, runtimeManifestIndex = 3,
       package_entries = map entry [''bin/winws.exe'', ''provenance.json'', ''strategies/catalog.json'',
         ''runtime-manifest.json'']\<rparr>)"

lemma sample_parse: "ParsePackageFile default_limits True (Some 708) sample_file = Inr sample_package"
  by code_simp

theorem ParsePackageFile_exact_witness:
  "ParsePackageFile default_limits True (Some 708) sample_file = Inr sample_package \<and>
   package_ok default_limits 708 sample_package"
  using ParsePackageFile_exact [OF sample_parse] sample_parse by simp

section \<open>Extraction\<close>

text \<open>The files a history has put in place.\<close>

fun written :: "history \<Rightarrow> (wstring \<times> string) list" where
  "written [] = []"
| "written (WriteFile p d True # h) = (p, d) # written h"
| "written (_ # h) = written h"

lemma written_append [simp]: "written (h @ h') = written h @ written h'"
  by (induction h rule: written.induct) auto

definition data_matches :: "'z fs_env_scheme \<Rightarrow> PackageEntry \<Rightarrow> string \<Rightarrow> bool" where
  "data_matches env e d \<longleftrightarrow>
     length d = entry_size e \<and> (\<exists>hash. data_sha env d = Some hash \<and> HexEquals hash (entry_sha e))"

lemma ExtractEntry_None:
  assumes "ExtractEntry env f dest base e off h = (None, h')"
  shows "\<exists>dir d. h' = h @ [EnsureDirectory dir True, WriteFile (entry_target dest e) d True] \<and>
    data_matches env e d"
  using assms ReadExact_length
  by (auto simp: ExtractEntry_def Let_def fs_calls data_matches_def
      split: option.splits if_splits prod.splits bool.splits)

lemma ExtractEntries_None:
  "ExtractEntries env f dest base es off h = (None, h') \<Longrightarrow>
     \<exists>ds. list_all2 (data_matches env) es ds \<and>
       written h' = written h @ zip (map (entry_target dest) es) ds"
proof (induction es arbitrary: off h)
  case (Cons e es)
  obtain h1 where 1: "ExtractEntry env f dest base e off h = (None, h1)"
    and 2: "ExtractEntries env f dest base es (add64 off (entry_size e)) h1 = (None, h')"
    using Cons.prems by (auto split: prod.splits option.splits)
  obtain dir d where "h1 = h @ [EnsureDirectory dir True, WriteFile (entry_target dest e) d True]"
    "data_matches env e d" using ExtractEntry_None [OF 1] by blast
  moreover obtain ds where "list_all2 (data_matches env) es ds"
    "written h' = written h1 @ zip (map (entry_target dest) es) ds" using Cons.IH [OF 2] by blast
  ultimately show ?case by (intro exI [of _ "d # ds"]) simp
qed simp

text \<open>C25. Extraction is all or nothing: when it succeeds, the destination was a new strict child of
  the protected root, and the files written are those of the package, in its order, each to the
  path of its entry below the destination, with data of the size the entry declares whose SHA-256
  is the one the entry declares; when it fails, nothing was written, or the last call made removes
  the whole destination.\<close>

theorem ExtractPackage_all_or_nothing:
  "case ExtractPackage env file package root dest h of
     (None, h') \<Rightarrow>
       strict_descendant env root dest \<and> \<not> path_exists env h dest \<and>
       (\<exists>ds. list_all2 (data_matches env) (package_entries package) ds \<and>
          written h' = written h @ zip (map (entry_target dest) (package_entries package)) ds)
   | (Some m, h') \<Rightarrow>
       h' = h \<or> h' = h @ [EnsureDirectory dest False] \<or>
       (\<exists>h2 ok. h' = h2 @ [RemoveTree root dest ok])"
proof (cases "ExtractPackage env file package root dest h")
  case (Pair r h')
  show ?thesis
  proof (cases r)
    case None
    with Pair show ?thesis
      by (auto simp: ExtractPackage_def Let_def fs_calls dest!: ExtractEntries_None
          split: if_splits prod.splits bool.splits option.splits)
  next
    case (Some m)
    with Pair show ?thesis
      by (auto simp: ExtractPackage_def Let_def fs_calls
          split: if_splits prod.splits bool.splits option.splits)
  qed
qed

end
