(* ===== verification/Strategies.thy ===== *)
theory Strategies
  imports Config StringUtil PathPolicy
begin

text \<open>
  The strategy registry of \<^verbatim>\<open>src/src/config/Strategies.cpp\<close>: the strict catalog parser, the lookup
  in the registry, and the construction of the \<^verbatim>\<open>winws.exe\<close> argument vector from a template. The
  table of built-in strategies is generated by the build and the UTF-16 conversion is a call of the
  operating system; both are parameters. The registry is a value that \<open>ActivateCatalog\<close> and
  \<open>RestoreEmbeddedCatalog\<close> replace.
\<close>

section \<open>Data\<close>

record RuntimeStrategy =
  strategy_id :: string
  sourceFile :: wstring
  displayName :: wstring
  description :: wstring
  recommended :: bool
  argTemplate :: "wstring list"

record GeneratedStrategy =
  generated_id :: string
  generated_source :: wstring
  generated_name :: wstring
  generated_recommended :: bool
  generated_argv :: "wstring list"

section \<open>Substitution\<close>

text \<open>\<^verbatim>\<open>s.find(from, pos)\<close>: the first occurrence in the rest of the string.\<close>

fun find_sub :: "'a list \<Rightarrow> 'a list \<Rightarrow> nat option" where
  "find_sub pat [] = (if pat = [] then Some 0 else None)"
| "find_sub pat (c # s) =
     (if starts_with pat (c # s) then Some 0 else map_option Suc (find_sub pat s))"

lemma find_sub_Some: "find_sub pat s = Some i \<Longrightarrow> i + length pat \<le> length s \<and> take (length pat) (drop i s) = pat"
proof (induction s arbitrary: i)
  case (Cons c s)
  then show ?case
    by (auto simp: starts_with_def split: if_splits)
      (metis length_take min.bounded_iff nle_le length_Cons)
qed (auto split: if_splits)

text \<open>The loop of \<^verbatim>\<open>ReplaceAll\<close>: the text before \<^verbatim>\<open>pos\<close> is final, the rest is searched.\<close>

function replace_from :: "'a list \<Rightarrow> 'a list \<Rightarrow> 'a list \<Rightarrow> 'a list" where
  "replace_from pat new rest =
     (if pat = [] then rest
      else (case find_sub pat rest of
              None \<Rightarrow> rest
            | Some i \<Rightarrow> take i rest @ new @ replace_from pat new (drop (i + length pat) rest)))"
  by pat_completeness auto
termination
proof (relation "measure (\<lambda>(pat, new, rest). length rest)", goal_cases)
  case (2 pat new rest i)
  then have "0 < length pat" "i + length pat \<le> length rest" using find_sub_Some by auto
  then have "length rest - (i + length pat) < length rest" by linarith
  then show ?case by simp
qed simp

declare replace_from.simps [simp del]

definition ReplaceAll :: "wstring \<Rightarrow> wstring \<Rightarrow> wstring \<Rightarrow> wstring" where
  "ReplaceAll s pat new = (if pat = [] then s else replace_from pat new s)"

definition GameFilterTcpValue :: "GameFilterMode \<Rightarrow> wstring" where
  "GameFilterTcpValue g = (if g = GameAll \<or> g = GameTcp then W ''1024-65535'' else W ''12'')"

definition GameFilterUdpValue :: "GameFilterMode \<Rightarrow> wstring" where
  "GameFilterUdpValue g = (if g = GameAll \<or> g = GameUdp then W ''1024-65535'' else W ''12'')"

definition placeholders :: "string list" where
  "placeholders = [''%BIN%'', ''%LISTS%'', ''%USER_LISTS%'', ''%GAME_TCP%'', ''%GAME_UDP%'', ''%GAME_BOTH%'']"

text \<open>The replacement of each placeholder, in the order of the code.\<close>

definition replacements :: "wstring \<Rightarrow> wstring \<Rightarrow> GameFilterMode \<Rightarrow> wstring \<Rightarrow> (wstring \<times> wstring) list" where
  "replacements binDir listsDir g userListsDir =
     [(W ''%BIN%'', binDir @ W [CHR 0x5C]),
      (W ''%LISTS%'', listsDir @ W [CHR 0x5C]),
      (W ''%USER_LISTS%'', (if userListsDir = [] then listsDir else userListsDir) @ W [CHR 0x5C]),
      (W ''%GAME_TCP%'', GameFilterTcpValue g),
      (W ''%GAME_UDP%'', GameFilterUdpValue g),
      (W ''%GAME_BOTH%'', if g = GameOff then W ''12'' else W ''1024-65535'')]"

definition SubstituteToken :: "(wstring \<times> wstring) list \<Rightarrow> wstring \<Rightarrow> wstring" where
  "SubstituteToken rs tok = fold (\<lambda>(pat, new) t. ReplaceAll t pat new) rs tok"

definition BuildArguments ::
  "RuntimeStrategy \<Rightarrow> wstring \<Rightarrow> wstring \<Rightarrow> GameFilterMode \<Rightarrow> wstring \<Rightarrow> wstring list" where
  "BuildArguments s binDir listsDir g userListsDir =
     map (SubstituteToken (replacements binDir listsDir g userListsDir)) (argTemplate s)"

section \<open>The registry\<close>

definition BuildRegistry :: "wstring \<Rightarrow> wstring \<Rightarrow> GeneratedStrategy list \<Rightarrow> RuntimeStrategy list" where
  \<comment> \<open>the two description texts are \<^verbatim>\<open>L"..."\<close> literals in Russian\<close>
  "BuildRegistry general_text upstream_text generated =
     map (\<lambda>g. \<lparr>strategy_id = generated_id g, sourceFile = generated_source g,
            displayName = generated_name g,
            description = (if generated_id g = ''general'' then general_text
                           else upstream_text @ generated_name g),
            recommended = generated_recommended g, argTemplate = generated_argv g\<rparr>) generated"

definition FindStrategy :: "RuntimeStrategy list \<Rightarrow> string \<Rightarrow> RuntimeStrategy option" where
  "FindStrategy registry i = List.find (\<lambda>s. strategy_id s = i) registry"

definition StrategyExists :: "RuntimeStrategy list \<Rightarrow> string \<Rightarrow> bool" where
  "StrategyExists registry i \<longleftrightarrow> FindStrategy registry i \<noteq> None"

definition DefaultStrategy :: "RuntimeStrategy list \<Rightarrow> RuntimeStrategy" where
  "DefaultStrategy registry =
     (case FindStrategy registry ''general'' of Some s \<Rightarrow> s | None \<Rightarrow> hd registry)"

definition ActivateCatalog :: "RuntimeStrategy list \<Rightarrow> RuntimeStrategy list \<Rightarrow> RuntimeStrategy list" where
  "ActivateCatalog catalog registry = catalog"

definition RestoreEmbeddedCatalog ::
  "wstring \<Rightarrow> wstring \<Rightarrow> GeneratedStrategy list \<Rightarrow> RuntimeStrategy list \<Rightarrow> RuntimeStrategy list" where
  "RestoreEmbeddedCatalog general_text upstream_text generated registry =
     BuildRegistry general_text upstream_text generated"

section \<open>The catalog parser\<close>

datatype catalog_error =
    NotProtectedFile | CatalogOpenFailed | CatalogSizeRejected | CatalogTruncated
  | UnsupportedCatalogSchema | BadCatalogEntry | DuplicateStrategyId | TooManyTokens
  | BadTemplateToken | MissingGeneral

definition catalog_limit :: nat where
  "catalog_limit = 4 * 1024 * 1024"

text \<open>The answers of \<^verbatim>\<open>ValidateObject\<close> and of opening the file: its size and the outcomes of reading.\<close>

definition ReadCatalog ::
  "bool \<Rightarrow> (int option \<times> string option list) option \<Rightarrow> catalog_error + string" where
  "ReadCatalog validated file =
     (if \<not> validated then Inl NotProtectedFile
      else (case file of
              None \<Rightarrow> Inl CatalogOpenFailed
            | Some (None, rs) \<Rightarrow> Inl CatalogSizeRejected
            | Some (Some n, rs) \<Rightarrow>
                if n \<le> 0 \<or> int catalog_limit < n then Inl CatalogSizeRejected
                else (case sized_read rs (nat n) of
                        None \<Rightarrow> Inl CatalogTruncated
                      | Some bytes \<Rightarrow> Inr bytes)))"

definition ValidSourceName :: "string \<Rightarrow> bool" where
  \<comment> \<open>the argument of \<^verbatim>\<open>find_first_of\<close> is a C string: its trailing \<^verbatim>\<open>\0\<close> ends it\<close>
  "ValidSourceName source \<longleftrightarrow>
     \<not> (source = [] \<or> 180 < length source \<or> source = ''.'' \<or> source = ''..'' \<or>
        list_ex (\<lambda>c. c \<in> {CHR 0x5C, CHR ''/'', CHR '':'', CHR 0x0D, CHR 0x0A}) source) \<and>
     4 < length (ToLowerAscii source) \<and> ends_with ''.bat'' (ToLowerAscii source)"

definition erase_all :: "string \<Rightarrow> string \<Rightarrow> string" where
  \<comment> \<open>the inner loop of \<^verbatim>\<open>ValidTemplateToken\<close>: \<^verbatim>\<open>pos\<close> stays where the text was erased\<close>
  "erase_all placeholder tok = replace_from placeholder [] tok"

definition ValidTemplateToken :: "string \<Rightarrow> bool" where
  "ValidTemplateToken tok \<longleftrightarrow>
     \<not> (tok = [] \<or> 4096 < length tok \<or> CHR 0x00 \<in> set tok \<or>
        CHR 0x0D \<in> set tok \<or> CHR 0x0A \<in> set tok) \<and>
     CHR ''%'' \<notin> set (fold erase_all placeholders tok)"

fun ReadTokens :: "(string \<Rightarrow> wstring) \<Rightarrow> jvalue list \<Rightarrow> wstring list option" where
  "ReadTokens ToUtf16 [] = Some []"
| "ReadTokens ToUtf16 (v # vs) =
     (case AsString v of
        None \<Rightarrow> None
      | Some tok \<Rightarrow>
          if \<not> ValidTemplateToken tok then None
          else map_option (\<lambda>ts. ToUtf16 tok # ts) (ReadTokens ToUtf16 vs))"

definition ReadEntry ::
  "(string \<Rightarrow> wstring) \<Rightarrow> wstring \<Rightarrow> jvalue \<Rightarrow> string set \<Rightarrow> nat \<Rightarrow>
   catalog_error + (RuntimeStrategy \<times> string set \<times> nat)" where
  \<comment> \<open>\<open>imported_text\<close> is the literal before the source file in the description\<close>
  "ReadEntry ToUtf16 imported_text entry ids totalTokens =
     (case (AsObject entry, StringMember entry ''id'', StringMember entry ''source'',
            StringMember entry ''name'', BoolMember entry ''recommended'',
            (case Member entry ''argv'' of None \<Rightarrow> None | Some v \<Rightarrow> AsArray v)) of
        (Some ms, Some i, Some source, Some name, Some rec, Some argv) \<Rightarrow>
          if length ms \<noteq> 5 \<or> \<not> IsValidStrategyIdSyntax i \<or> \<not> ValidSourceName source \<or>
             name = [] \<or> 160 < length name \<or> argv = [] \<or> 1024 < length argv
          then Inl BadCatalogEntry
          else if ToLowerAscii i \<in> ids then Inl DuplicateStrategyId
          else if 100000 - length argv < totalTokens then Inl TooManyTokens
          else (case ReadTokens ToUtf16 argv of
                  None \<Rightarrow> Inl BadTemplateToken
                | Some toks \<Rightarrow>
                    Inr (\<lparr>strategy_id = i, sourceFile = ToUtf16 source, displayName = ToUtf16 name,
                           description = imported_text @ ToUtf16 source, recommended = rec,
                           argTemplate = toks\<rparr>,
                         insert (ToLowerAscii i) ids, totalTokens + length argv))
      | _ \<Rightarrow> Inl BadCatalogEntry)"

fun ReadEntries ::
  "(string \<Rightarrow> wstring) \<Rightarrow> wstring \<Rightarrow> jvalue list \<Rightarrow> string set \<Rightarrow> nat \<Rightarrow>
   catalog_error + (RuntimeStrategy list \<times> string set)" where
  "ReadEntries ToUtf16 txt [] ids n = Inr ([], ids)"
| "ReadEntries ToUtf16 txt (e # es) ids n =
     (case ReadEntry ToUtf16 txt e ids n of
        Inl err \<Rightarrow> Inl err
      | Inr (s, ids', m) \<Rightarrow>
          (case ReadEntries ToUtf16 txt es ids' m of
             Inl err \<Rightarrow> Inl err
           | Inr (ss, ids'') \<Rightarrow> Inr (s # ss, ids'')))"

definition catalog_options :: ParseOptions where
  "catalog_options = \<lparr>maxBytes = catalog_limit, maxDepth = 8, maxValues = 300000\<rparr>"

definition ParseCatalog :: "(string \<Rightarrow> wstring) \<Rightarrow> wstring \<Rightarrow> string \<Rightarrow> catalog_error + RuntimeStrategy list" where
  "ParseCatalog ToUtf16 txt bytes =
     (case Parse bytes catalog_options of
        Inl _ \<Rightarrow> Inl UnsupportedCatalogSchema
      | Inr root \<Rightarrow>
          (case (AsObject root,
                 (case Member root ''schema'' of
                    None \<Rightarrow> None
                  | Some v \<Rightarrow> (case AsNumber v of None \<Rightarrow> None | Some raw \<Rightarrow> AsUInt64 raw)),
                 (case Member root ''strategies'' of None \<Rightarrow> None | Some v \<Rightarrow> AsArray v)) of
             (Some ms, Some schema, Some entries) \<Rightarrow>
               if length ms \<noteq> 2 \<or> schema \<noteq> 1 \<or> entries = [] \<or> 256 < length entries
               then Inl UnsupportedCatalogSchema
               else (case ReadEntries ToUtf16 txt entries {} 0 of
                       Inl err \<Rightarrow> Inl err
                     | Inr (candidate, ids) \<Rightarrow>
                         if ''general'' \<notin> ids then Inl MissingGeneral else Inr candidate)
           | _ \<Rightarrow> Inl UnsupportedCatalogSchema))"

definition LoadCatalogFile ::
  "(string \<Rightarrow> wstring) \<Rightarrow> wstring \<Rightarrow> bool \<Rightarrow> (int option \<times> string option list) option \<Rightarrow>
   catalog_error + RuntimeStrategy list" where
  "LoadCatalogFile ToUtf16 txt validated file =
     (case ReadCatalog validated file of
        Inl e \<Rightarrow> Inl e
      | Inr bytes \<Rightarrow> ParseCatalog ToUtf16 txt bytes)"

section \<open>Substitution is substitution of the holes\<close>

text \<open>A string whose prefix contains no start of a match is searched from the end of that prefix.\<close>

lemma find_sub_skip:
  "\<forall>i < length pre. \<not> starts_with pat (drop i (pre @ X)) \<Longrightarrow>
     find_sub pat (pre @ X) = map_option (\<lambda>i. length pre + i) (find_sub pat X)"
proof (induction pre)
  case Nil
  then show ?case by (simp add: option.map_ident)
next
  case (Cons c pre)
  from Cons.prems have "\<not> starts_with pat (c # pre @ X)" by (metis append_Cons drop0 length_Cons zero_less_Suc)
  moreover have "\<forall>i < length pre. \<not> starts_with pat (drop i (pre @ X))"
    using Cons.prems by (metis append_Cons drop_Suc_Cons length_Cons not_less_eq)
  ultimately show ?case using Cons.IH by (simp add: option.map_comp comp_def)
qed

lemma replace_from_skip:
  "\<forall>i < length pre. \<not> starts_with pat (drop i (pre @ X)) \<Longrightarrow> pat \<noteq> [] \<Longrightarrow>
     replace_from pat new (pre @ X) = pre @ replace_from pat new X"
  by (subst (1 2) replace_from.simps)
    (simp add: find_sub_skip add.assoc split: option.split)

text \<open>On the segments between the percent signs.\<close>

fun rep :: "'a list \<Rightarrow> 'a list \<Rightarrow> 'a list list \<Rightarrow> 'a list list" where
  "rep n new (a # b # c # cs) =
     (if b = n then (case rep n new (c # cs) of [] \<Rightarrow> [] | x # xs \<Rightarrow> (a @ new @ x) # xs)
      else a # rep n new (b # c # cs))"
| "rep n new xs = xs"

lemma rep_not_Nil: "xs \<noteq> [] \<Longrightarrow> rep n new xs \<noteq> []"
  by (induction n new xs rule: rep.induct) (auto split: list.splits)

lemma starts_with_Cons: "starts_with (p # ps) (c # s) \<longleftrightarrow> p = c \<and> starts_with ps s"
  by (auto simp: starts_with_def)

lemma no_start_before:
  assumes "d \<notin> set a" "i < length a" shows "\<not> starts_with (d # p) (drop i (a @ X))"
proof -
  have "drop i (a @ X) = a ! i # drop (Suc i) a @ X"
    using assms(2) by (simp add: Cons_nth_drop_Suc [symmetric])
  moreover have "a ! i \<noteq> d" using assms by auto
  ultimately show ?thesis by (simp add: starts_with_Cons)
qed

lemma starts_with_segment:
  "d \<notin> set n \<Longrightarrow> d \<notin> set b \<Longrightarrow> starts_with (n @ [d]) (b @ d # X) \<longleftrightarrow> b = n"
  by (auto simp: starts_with_iff append_eq_append_conv2 append_eq_Cons_conv Cons_eq_append_conv)

lemma replace_from_join:
  "d \<notin> set n \<Longrightarrow> ss \<noteq> [] \<Longrightarrow> \<forall>s \<in> set ss. d \<notin> set s \<Longrightarrow>
    replace_from (d # n @ [d]) new (join d ss) = join d (rep n new ss)"
proof (induction n new ss rule: rep.induct, goal_cases)
  case (1 n new a b c cs)
  let ?pat = "d # n @ [d]"
  let ?X = "join d (c # cs)"
  have t: "join d (a # b # c # cs) = a @ d # b @ d # ?X" by simp
  have na: "\<forall>i < length a. \<not> starts_with ?pat (drop i (a @ Y))" for Y
    using no_start_before [of d a _ "n @ [d]"] 1(5) by auto
  show ?case
  proof (cases "b = n")
    case True
    have "replace_from ?pat new (d # n @ d # ?X) = new @ replace_from ?pat new ?X"
      by (subst replace_from.simps) (simp add: starts_with_def)
    moreover have "replace_from ?pat new ?X = join d (rep n new (c # cs))"
      using 1(1) [OF True] 1(3) 1(5) by simp
    moreover obtain x xs where "rep n new (c # cs) = x # xs"
      using rep_not_Nil [of "c # cs" n new] by (cases "rep n new (c # cs)") auto
    ultimately show ?thesis
      unfolding t using replace_from_skip [OF na] True by (simp add: join_Cons)
  next
    case False
    have "\<not> starts_with ?pat (d # b @ d # ?X)"
      using starts_with_segment [of d n b ?X] False 1(3) 1(5) by (simp add: starts_with_Cons)
    then have "replace_from ?pat new (a @ d # b @ d # ?X) =
        (a @ [d]) @ replace_from ?pat new (b @ d # ?X)"
      using na [of "d # b @ d # ?X"]
      by (subst replace_from_skip [symmetric]) (auto simp: nth_append less_Suc_eq)
    also have "b @ d # ?X = join d (b # c # cs)" by simp
    also have "replace_from ?pat new \<dots> = join d (rep n new (b # c # cs))"
      using 1(2) [OF False] 1(3) 1(5) by simp
    finally show ?thesis
      unfolding t using False rep_not_Nil [of "b # c # cs" n new] by (simp add: join_Cons)
  qed
next
  case (3 n new a)
  then show ?case
    using replace_from_skip [of a "d # n @ [d]" "[]" new] no_start_before [of d a _ "n @ [d]" "[]"]
    by (auto simp: replace_from.simps [of _ _ "[]"])
next
  case (4 n new a b)
  let ?pat = "d # n @ [d]" and ?s = "a @ d # b"
  have "\<not> starts_with ?pat (drop i ?s)" if "i < length ?s" for i
  proof -
    consider "i < length a" | "i = length a" | k where "i = length a + Suc k" "k < length b"
    proof (cases i "length a" rule: linorder_cases)
      case greater
      then obtain k where "i = length a + Suc k" using less_iff_Suc_add [of "length a" i] by auto
      then show ?thesis using that \<open>i < length ?s\<close> by simp
    qed (use that in simp_all)
    then show ?thesis
    proof cases
      case 1
      then show ?thesis using no_start_before [of d a i "n @ [d]" "d # b"] 4 by auto
    next
      case 2
      then show ?thesis using 4 by (auto simp: starts_with_Cons starts_with_iff)
    next
      case 3
      then show ?thesis using no_start_before [of d b k "n @ [d]" "[]"] 4 by auto
    qed
  qed
  then show ?case using replace_from_skip [of ?s ?pat "[]" new]
    by (simp add: replace_from.simps [of _ _ "[]"])
qed simp_all

text \<open>
  A template token as text with named holes: the text before the first hole, and for each hole its
  name and the text that follows it. Between percent signs it is the list \<open>segs\<close>.
\<close>

definition segs :: "'a list \<Rightarrow> ('a list \<times> 'a list) list \<Rightarrow> 'a list list" where
  "segs a hs = a # concat (map (\<lambda>(n, t). [n, t]) hs)"

fun fill :: "'a list \<Rightarrow> 'a list \<Rightarrow> 'a list \<Rightarrow> ('a list \<times> 'a list) list \<Rightarrow>
  'a list \<times> ('a list \<times> 'a list) list" where
  "fill n new a [] = (a, [])"
| "fill n new a ((m, t) # hs) =
     (case fill n new t hs of
        (t', hs') \<Rightarrow> if m = n then (a @ new @ t', hs') else (a, (m, t') # hs'))"

definition expand :: "('a list \<Rightarrow> 'a list) \<Rightarrow> 'a list \<Rightarrow> ('a list \<times> 'a list) list \<Rightarrow> 'a list" where
  "expand f a hs = a @ concat (map (\<lambda>(n, t). f n @ t) hs)"

definition holes_ok :: "'a \<Rightarrow> 'a list set \<Rightarrow> 'a list \<Rightarrow> ('a list \<times> 'a list) list \<Rightarrow> bool" where
  \<comment> \<open>no text contains the delimiter, and no text between two holes is itself a hole's name\<close>
  "holes_ok d names a hs \<longleftrightarrow>
     d \<notin> set a \<and> (\<forall>(n, t) \<in> set hs. d \<notin> set n \<and> d \<notin> set t) \<and>
     (\<forall>(n, t) \<in> set (butlast hs). t \<notin> names)"

lemma holes_ok_Cons:
  "holes_ok d names a ((n, t) # hs) \<longleftrightarrow>
     d \<notin> set a \<and> d \<notin> set n \<and> (hs \<noteq> [] \<longrightarrow> t \<notin> names) \<and> holes_ok d names t hs"
  by (auto simp: holes_ok_def)

lemma segs_clean: "holes_ok d names a hs \<Longrightarrow> \<forall>s \<in> set (segs a hs). d \<notin> set s"
  by (auto simp: holes_ok_def segs_def)

lemma rep_segs:
  "holes_ok d names a hs \<Longrightarrow> n \<in> names \<Longrightarrow>
     rep n new (segs a hs) = (case fill n new a hs of (a', hs') \<Rightarrow> segs a' hs')"
proof (induction n new a hs rule: fill.induct)
  case (2 n new a m t hs)
  then have IH: "rep n new (segs t hs) = (case fill n new t hs of (a', hs') \<Rightarrow> segs a' hs')"
    by (simp add: holes_ok_Cons)
  obtain t' hs' where f: "fill n new t hs = (t', hs')" by fastforce
  show ?case
  proof (cases hs)
    case Nil
    then show ?thesis by (simp add: segs_def)
  next
    case (Cons h ks)
    then have "t \<noteq> n" using 2 by (auto simp: holes_ok_Cons)
    then show ?thesis using IH f Cons by (cases h) (simp add: segs_def)
  qed
qed (simp add: segs_def)

lemma fill_names:
  "fill n new a hs = (a', hs') \<Longrightarrow> fst ` set hs' = fst ` set hs - {n}"
  by (induction n new a hs arbitrary: a' hs' rule: fill.induct) (auto split: prod.splits if_splits)

lemma fill_head: "fill n new a hs = (a', hs') \<Longrightarrow> a' = a \<or> (\<exists>y. a' = a @ new @ y)"
  by (cases hs) (auto split: prod.splits if_splits)

lemma fill_ok:
  "holes_ok d names a hs \<Longrightarrow> fill n new a hs = (a', hs') \<Longrightarrow> d \<notin> set new \<Longrightarrow>
     \<forall>x y. x @ new @ y \<notin> names \<Longrightarrow> holes_ok d names a' hs'"
proof (induction n new a hs arbitrary: a' hs' rule: fill.induct)
  case (1 n new a)
  then show ?case by simp
next
  case (2 n new a m t hs)
  obtain t' ks where f: "fill n new t hs = (t', ks)" by fastforce
  have h: "holes_ok d names t hs" "d \<notin> set a" "d \<notin> set m" "hs \<noteq> [] \<Longrightarrow> t \<notin> names"
    using 2(2) by (simp_all add: holes_ok_Cons)
  have ok: "holes_ok d names t' ks" using 2(1) [OF h(1) f] 2 by blast
  show ?case
  proof (cases "m = n")
    case True
    then have "a' = a @ new @ t'" "hs' = ks" using 2(3) f by simp_all
    then show ?thesis using ok h(2) 2(4) by (auto simp: holes_ok_def)
  next
    case False
    then have e: "a' = a" "hs' = (m, t') # ks" using 2(3) f by simp_all
    have "t' \<notin> names" if "ks \<noteq> []"
    proof -
      have "hs \<noteq> []" using f that by (cases hs) auto
      then show ?thesis using fill_head [OF f] h(4) 2(5) by (metis append_Nil)
    qed
    then show ?thesis unfolding e using ok h by (simp add: holes_ok_Cons)
  qed
qed

lemma fill_expand:
  "fill n new a hs = (a', hs') \<Longrightarrow> expand f a' hs' = expand (f(n := new)) a hs"
  by (induction n new a hs arbitrary: a' hs' rule: fill.induct)
    (auto simp: expand_def split: prod.splits if_splits)

lemma fold_replace_segs:
  assumes "distinct (map fst rs)" "holes_ok d names a hs"
    "\<forall>(n, new) \<in> set rs. n \<in> names \<and> d \<notin> set n \<and> d \<notin> set new \<and> (\<forall>x y. x @ new @ y \<notin> names)"
    "fst ` set hs \<subseteq> fst ` set rs"
  shows "fold (\<lambda>(n, new). replace_from (d # n @ [d]) new) rs (join d (segs a hs)) =
    expand (\<lambda>n. the (map_of rs n)) a hs"
  using assms
proof (induction rs arbitrary: a hs)
  case Nil
  then show ?case by (simp add: segs_def expand_def)
next
  case (Cons r rs)
  obtain n new where r: "r = (n, new)" by fastforce
  obtain a' hs' where f: "fill n new a hs = (a', hs')" by fastforce
  have n: "n \<in> names" "d \<notin> set n" "d \<notin> set new" "\<forall>x y. x @ new @ y \<notin> names"
    using Cons.prems(3) r by auto
  have "replace_from (d # n @ [d]) new (join d (segs a hs)) = join d (segs a' hs')"
    using replace_from_join [of d n "segs a hs" new] segs_clean [OF Cons.prems(2)] n(2)
      rep_segs [OF Cons.prems(2) n(1)] f by (simp add: segs_def)
  moreover have "fold (\<lambda>(n, new). replace_from (d # n @ [d]) new) rs (join d (segs a' hs')) =
      expand (\<lambda>n. the (map_of rs n)) a' hs'"
  proof (rule Cons.IH)
    show "fst ` set hs' \<subseteq> fst ` set rs" using Cons.prems(4) fill_names [OF f] r by auto
    show "holes_ok d names a' hs'" using fill_ok [OF Cons.prems(2) f n(3,4)] .
  qed (use Cons.prems in auto)
  moreover have "(\<lambda>m. the (map_of rs m))(n := new) = (\<lambda>m. the (map_of (r # rs) m))"
    by (auto simp: r)
  ultimately show ?case using fill_expand [OF f] by (simp add: r)
qed

definition hole_values ::
  "wstring \<Rightarrow> wstring \<Rightarrow> GameFilterMode \<Rightarrow> wstring \<Rightarrow> (wstring \<times> wstring) list" where
  "hole_values binDir listsDir g userListsDir =
     [(W ''BIN'', binDir @ W [CHR 0x5C]),
      (W ''LISTS'', listsDir @ W [CHR 0x5C]),
      (W ''USER_LISTS'', (if userListsDir = [] then listsDir else userListsDir) @ W [CHR 0x5C]),
      (W ''GAME_TCP'', W (if g \<in> {GameAll, GameTcp} then ''1024-65535'' else ''12'')),
      (W ''GAME_UDP'', W (if g \<in> {GameAll, GameUdp} then ''1024-65535'' else ''12'')),
      (W ''GAME_BOTH'', W (if g = GameOff then ''12'' else ''1024-65535''))]"

definition placeholder_names :: "string list" where
  "placeholder_names = [''BIN'', ''LISTS'', ''USER_LISTS'', ''GAME_TCP'', ''GAME_UDP'', ''GAME_BOTH'']"

definition hole_names :: "wstring list" where
  "hole_names = map (\<lambda>s. W s) placeholder_names"

abbreviation pct :: wchar where "pct \<equiv> WC (CHR ''%'')"

lemma hole_values_names: "map fst (hole_values b l g u) = hole_names"
  by (simp add: hole_values_def hole_names_def placeholder_names_def)

lemma WC_image: "WC c \<in> WC ` A \<longleftrightarrow> c \<in> A"
  by (rule inj_image_mem_iff) (simp add: inj_def)

lemma hole_names_distinct: "distinct hole_names"
  unfolding hole_names_def by (subst distinct_map) (simp add: inj_on_def, simp add: placeholder_names_def)

lemma hole_names_alphabet: "w \<in> set hole_names \<Longrightarrow> set w \<subseteq> WC ` {c. IsUpper c \<or> c = CHR ''_''}"
proof -
  assume "w \<in> set hole_names"
  then obtain s where s: "w = W s" "s \<in> set placeholder_names" by (auto simp: hole_names_def)
  have all: "\<forall>s \<in> set placeholder_names. set s \<subseteq> {c. IsUpper c \<or> c = CHR ''_''}"
    by (simp add: placeholder_names_def IsUpper_def less_eq_char_def)
  show ?thesis unfolding s(1) set_map by (rule image_mono) (rule bspec [OF all s(2)])
qed

lemma outside_alphabet:
  "c \<in> {CHR 0x5C, CHR ''1'', CHR ''%''} \<Longrightarrow> w \<in> set hole_names \<Longrightarrow> WC c \<notin> set w"
proof (rule notI)
  assume c: "c \<in> {CHR 0x5C, CHR ''1'', CHR ''%''}" and "w \<in> set hole_names" "WC c \<in> set w"
  then have "WC c \<in> WC ` {c. IsUpper c \<or> c = CHR ''_''}" using hole_names_alphabet by blast
  then have "IsUpper c \<or> c = CHR ''_''" by (simp only: WC_image mem_Collect_eq)
  then show False using c by (auto simp: IsUpper_def less_eq_char_def)
qed

lemma replacements_eq:
  "replacements b l g u = map (\<lambda>(n, v). (pct # n @ [pct], v)) (hole_values b l g u)"
  by (auto simp: replacements_def hole_values_def GameFilterTcpValue_def GameFilterUdpValue_def)

lemma SubstituteToken_eq:
  "SubstituteToken (replacements b l g u) = fold (\<lambda>(n, v). replace_from (pct # n @ [pct]) v) (hole_values b l g u)"
  unfolding SubstituteToken_def replacements_eq ReplaceAll_def
  by (auto simp: fold_map comp_def case_prod_unfold intro!: ext fold_cong)

lemma hole_values_char:
  "(n, v) \<in> set (hole_values b l g u) \<Longrightarrow> WC (CHR 0x5C) \<in> set v \<or> WC (CHR ''1'') \<in> set v"
  by (auto simp: hole_values_def split: if_splits)

lemma hole_values_ok:
  assumes "pct \<notin> set b" "pct \<notin> set l" "pct \<notin> set u" "(n, v) \<in> set (hole_values b l g u)"
  shows "n \<in> set hole_names \<and> pct \<notin> set n \<and> pct \<notin> set v \<and> (\<forall>x y. x @ v @ y \<notin> set hole_names)"
proof (intro conjI allI)
  show n: "n \<in> set hole_names" using assms(4) hole_values_names by (metis fst_conv image_eqI set_map)
  then show "pct \<notin> set n" using outside_alphabet [of "CHR ''%''"] by blast
  show "pct \<notin> set v" using assms by (auto simp: hole_values_def split: if_splits)
  show "x @ v @ y \<notin> set hole_names" for x y
    using hole_values_char [OF assms(4)] outside_alphabet [of "CHR 0x5C" "x @ v @ y"]
      outside_alphabet [of "CHR ''1''" "x @ v @ y"] by auto
qed

text \<open>
  Building the argument vector substitutes exactly the holes of the template: when the template
  tokens are texts with holes for the supported placeholders (no text between two percent signs
  being itself a placeholder's name), each argument is its token with every hole replaced by the
  directory with a trailing backslash or by the port range of the game filter, whatever the order in
  which the six passes run, and no pass touches the text another has inserted.
\<close>

lemma BuildArguments_expands:
  assumes "pct \<notin> set binDir" "pct \<notin> set listsDir" "pct \<notin> set userListsDir"
    and "\<forall>(a, hs) \<in> set ts. holes_ok pct (set hole_names) a hs \<and> fst ` set hs \<subseteq> set hole_names"
    and "argTemplate s = map (\<lambda>(a, hs). join pct (segs a hs)) ts"
  shows "BuildArguments s binDir listsDir g userListsDir =
    map (\<lambda>(a, hs). expand (\<lambda>n. the (map_of (hole_values binDir listsDir g userListsDir) n)) a hs) ts"
proof -
  have "SubstituteToken (replacements binDir listsDir g userListsDir) (join pct (segs a hs)) =
      expand (\<lambda>n. the (map_of (hole_values binDir listsDir g userListsDir) n)) a hs"
    if "(a, hs) \<in> set ts" for a hs
    unfolding SubstituteToken_eq
  proof (rule fold_replace_segs [of _ _ "set hole_names"])
    show "distinct (map fst (hole_values binDir listsDir g userListsDir))"
      using hole_names_distinct by (simp only: hole_values_names)
    have "fst ` set (hole_values binDir listsDir g userListsDir) = set hole_names"
      by (metis hole_values_names set_map)
    then show "fst ` set hs \<subseteq> fst ` set (hole_values binDir listsDir g userListsDir)"
      "holes_ok pct (set hole_names) a hs"
      using bspec [OF assms(4) that] by simp_all
    show "\<forall>(n, new) \<in> set (hole_values binDir listsDir g userListsDir). n \<in> set hole_names \<and>
        pct \<notin> set n \<and> pct \<notin> set new \<and> (\<forall>x y. x @ new @ y \<notin> set hole_names)"
      using hole_values_ok [OF assms(1-3)] by blast
  qed
  then show ?thesis by (auto simp: BuildArguments_def assms(5))
qed

lemma BuildArguments_expands_witness:
  "BuildArguments \<lparr>strategy_id = ''g'', sourceFile = [], displayName = [], description = [],
      recommended = True,
      argTemplate = [W ''--wf-tcp=80,%GAME_TCP%'', W ''--hostlist=%LISTS%list.txt'']\<rparr>
     (W ''C:'') (W ''D:'') GameOff [] = [W ''--wf-tcp=80,12'', W ''--hostlist=D:'' @ W [CHR 0x5C] @ W ''list.txt'']"
proof -
  let ?s = "\<lparr>strategy_id = ''g'', sourceFile = [], displayName = [], description = [],
      recommended = True,
      argTemplate = [W ''--wf-tcp=80,%GAME_TCP%'', W ''--hostlist=%LISTS%list.txt'']\<rparr>"
  let ?ts = "[(W ''--wf-tcp=80,'', [(W ''GAME_TCP'', [])]), (W ''--hostlist='', [(W ''LISTS'', W ''list.txt'')])]"
  have "BuildArguments ?s (W ''C:'') (W ''D:'') GameOff [] =
    map (\<lambda>(a, hs). expand (\<lambda>n. the (map_of (hole_values (W ''C:'') (W ''D:'') GameOff []) n)) a hs) ?ts"
    by (rule BuildArguments_expands) (simp_all add: holes_ok_def hole_names_def placeholder_names_def segs_def)
  also have "\<dots> = [W ''--wf-tcp=80,12'', W ''--hostlist=D:'' @ W [CHR 0x5C] @ W ''list.txt'']"
    by (simp add: expand_def hole_values_def)
  finally show ?thesis .
qed

section \<open>Accepted catalogs\<close>

lemma ReadTokens_Some:
  "ReadTokens U vs = Some ts \<Longrightarrow>
     length ts = length vs \<and> (\<forall>t \<in> set ts. \<exists>tok. ValidTemplateToken tok \<and> t = U tok)"
  by (induction vs arbitrary: ts) (fastforce split: option.splits if_splits)+

definition catalog_entry_ok :: "(string \<Rightarrow> wstring) \<Rightarrow> RuntimeStrategy \<Rightarrow> bool" where
  "catalog_entry_ok U s \<longleftrightarrow> IsValidStrategyIdSyntax (strategy_id s) \<and>
     0 < length (argTemplate s) \<and> length (argTemplate s) \<le> 1024 \<and>
     (\<exists>source. ValidSourceName source \<and> sourceFile s = U source) \<and>
     (\<exists>name. 0 < length name \<and> length name \<le> 160 \<and> displayName s = U name) \<and>
     (\<forall>t \<in> set (argTemplate s). \<exists>tok. ValidTemplateToken tok \<and> t = U tok)"

lemma ReadEntry_Inr:
  "ReadEntry U txt e ids n = Inr (s, ids', n') \<Longrightarrow>
     catalog_entry_ok U s \<and> ToLowerAscii (strategy_id s) \<notin> ids \<and>
     ids' = insert (ToLowerAscii (strategy_id s)) ids \<and> n' = n + length (argTemplate s) \<and> n' \<le> 100000"
  by (auto simp: ReadEntry_def catalog_entry_ok_def dest!: ReadTokens_Some split: option.splits if_splits)

lemma ReadEntries_Inr:
  "ReadEntries U txt es ids n = Inr (ss, ids') \<Longrightarrow> n \<le> 100000 \<Longrightarrow>
     length ss = length es \<and> list_all (catalog_entry_ok U) ss \<and>
     distinct (map (ToLowerAscii \<circ> strategy_id) ss) \<and>
     ids' = ids \<union> (ToLowerAscii \<circ> strategy_id) ` set ss \<and>
     ids \<inter> (ToLowerAscii \<circ> strategy_id) ` set ss = {} \<and>
     n + sum_list (map (length \<circ> argTemplate) ss) \<le> 100000"
proof (induction es arbitrary: ids n ss ids')
  case (Cons e es)
  obtain s ids1 n1 where e: "ReadEntry U txt e ids n = Inr (s, ids1, n1)"
    using Cons.prems(1) by (auto split: sum.splits)
  moreover obtain rest where r: "ReadEntries U txt es ids1 n1 = Inr (rest, ids')" "ss = s # rest"
    using Cons.prems(1) e by (auto split: sum.splits)
  ultimately show ?case using ReadEntry_Inr [OF e] Cons.IH [OF r(1)] by auto
qed simp

text \<open>
  Every catalog the loader accepts has between 1 and 256 strategies with valid identifiers that
  are pairwise different even up to letter case, one of them \<^verbatim>\<open>general\<close> up to case, each with 1 to
  1024 tokens that passed the token check and a source file name that passed the name check, and at
  most 100000 tokens in all; a file of another size than promised, or above 4 MiB, is refused.
\<close>

lemma LoadCatalogFile_accepts:
  "case LoadCatalogFile U txt validated file of
     Inl _ \<Rightarrow> True
   | Inr catalog \<Rightarrow>
       validated \<and> 0 < length catalog \<and> length catalog \<le> 256 \<and> list_all (catalog_entry_ok U) catalog \<and>
       distinct (map (ToLowerAscii \<circ> strategy_id) catalog) \<and>
       (\<exists>s \<in> set catalog. ToLowerAscii (strategy_id s) = ''general'') \<and>
       sum_list (map (length \<circ> argTemplate) catalog) \<le> 100000 \<and>
       (\<exists>n rs bytes. file = Some (Some n, rs) \<and> 0 < n \<and> n \<le> int catalog_limit \<and>
          sized_read rs (nat n) = Some bytes)"
proof (cases "LoadCatalogFile U txt validated file")
  case (Inr catalog)
  then obtain bytes where r: "ReadCatalog validated file = Inr bytes" and
    p: "ParseCatalog U txt bytes = Inr catalog"
    by (auto simp: LoadCatalogFile_def split: sum.splits)
  obtain es ids where es: "es \<noteq> []" "length es \<le> 256" "ReadEntries U txt es {} 0 = Inr (catalog, ids)"
    "''general'' \<in> ids"
    using p by (auto simp: ParseCatalog_def split: sum.splits option.splits if_splits)
  have "\<exists>n rs. validated \<and> file = Some (Some n, rs) \<and> 0 < n \<and> n \<le> int catalog_limit \<and>
      sized_read rs (nat n) = Some bytes"
    using r by (auto simp: ReadCatalog_def split: option.splits if_splits)
  then show ?thesis using Inr es ReadEntries_Inr [OF es(3)] by auto
qed simp

text \<open>
  The mandatory strategy is looked for up to letter case but found only in lower case: a catalog
  whose only strategy is called \<^verbatim>\<open>GENERAL\<close> is accepted, \<^verbatim>\<open>Exists("general")\<close> is false in it, and
  \<^verbatim>\<open>Default()\<close> falls back to the first entry.
\<close>

definition shouting_catalog :: string where
  "shouting_catalog =
    ''{\"schema\":1,\"strategies\":[{\"id\":\"GENERAL\",\"source\":\"a.bat\",\"name\":\"n\",\"recommended\":true,\"argv\":[\"x\"]}]}''"

lemma Catalog_general_folded:
  "case ParseCatalog (\<lambda>s. W s) [] shouting_catalog of
     Inl _ \<Rightarrow> False
   | Inr catalog \<Rightarrow> \<not> StrategyExists catalog ''general'' \<and> DefaultStrategy catalog = hd catalog"
  by code_simp

text \<open>
  The token check erases the placeholders one kind after another, so that text on both sides of
  an erased placeholder can form a new one: \<^verbatim>\<open>%LIS%BIN%TS%\<close> passes the check, but the argument built
  from it still contains percent signs, which the check is there to exclude.
\<close>

lemma ValidTemplateToken_nested:
  "ValidTemplateToken ''%LIS%BIN%TS%'' \<and>
   BuildArguments \<lparr>strategy_id = ''general'', sourceFile = [], displayName = [], description = [],
     recommended = True, argTemplate = [W ''%LIS%BIN%TS%'']\<rparr> (W ''C:'') (W ''D:'') GameOff [] =
     [W ''%LISC:'' @ W [CHR 0x5C] @ W ''TS%'']"
  by code_simp

text \<open>
  The name check does not see a NUL byte, although its list of forbidden characters ends with
  one: the list is a C string that the NUL terminates.
\<close>

lemma ValidSourceName_NUL:
  "list_all (\<lambda>c. \<not> ValidSourceName (''a'' @ [c] @ ''.bat''))
     [CHR 0x5C, CHR ''/'', CHR '':'', CHR 0x0D, CHR 0x0A] \<and>
   ValidSourceName (''a'' @ [CHR 0x00] @ ''.bat'')"
  by code_simp

end
