(* ===== verification/ProgressModel.thy ===== *)
theory ProgressModel
  imports Prelude
begin

text \<open>
  The shared launch progress of \<^verbatim>\<open>src/src/config/ProgressModel.cpp\<close>. The launch worker and the animation
  thread share three atomics and a message under a mutex; the component is modelled as a machine
  whose steps are the single atomic loads, stores and compare-exchanges of the code (sequentially
  consistent, the default memory order), interleaved over any number of threads, each of which
  may begin any of the operations.
\<close>

section \<open>Stages and percentages\<close>

datatype Stage = Start | OsCheck | AdminCheck | RuntimePrep | ExtractVerify | ConflictCheck | ArgsPrep
  | LaunchProc | ProcAlive | Confirmed

datatype RunState = Running | Success | Errored

primrec stage_index :: "Stage \<Rightarrow> int" where
  "stage_index Start = 0"
| "stage_index OsCheck = 1"
| "stage_index AdminCheck = 2"
| "stage_index RuntimePrep = 3"
| "stage_index ExtractVerify = 4"
| "stage_index ConflictCheck = 5"
| "stage_index ArgsPrep = 6"
| "stage_index LaunchProc = 7"
| "stage_index ProcAlive = 8"
| "stage_index Confirmed = 9"

definition kPercent :: "int list" where
  "kPercent = [5, 10, 20, 35, 50, 60, 70, 80, 90, 100]"

definition kStageCount :: int where
  "kStageCount = int (length kPercent)"

definition PercentForStage :: "Stage \<Rightarrow> int" where
  "PercentForStage s =
     (let idx = stage_index s;
          idx = (if idx < 0 then 0 else idx);
          idx = (if kStageCount \<le> idx then kStageCount - 1 else idx) in
      kPercent ! nat idx)"

text \<open>The values computed from the loaded atomics.\<close>

definition floor_of :: "int \<Rightarrow> int" where
  "floor_of r = (if r < 0 then 0 else kPercent ! nat (min r (kStageCount - 1)))"

definition running_ceiling :: "int \<Rightarrow> int" where
  "running_ceiling r = (if kStageCount \<le> r + 1 then 99 else min (kPercent ! nat (r + 1) - 1) 99)"

definition tick_value :: "int \<Rightarrow> int \<Rightarrow> int \<Rightarrow> int \<Rightarrow> int" where
  "tick_value step f c v =
     (let v = (if v < f then f else v);
          v = (if v < c then min c (v + step) else v) in
      if c < v then c else v)"

definition display_value :: "int \<Rightarrow> int \<Rightarrow> int \<Rightarrow> int" where
  "display_value f c v = (let v = (if v < f then f else v) in if c < v then c else v)"

section \<open>The machine\<close>

text \<open>The shared part, and where each thread is inside an operation.\<close>

record progress =
  reached :: int
  anim :: int
  run_state :: RunState
  error_message :: wstring

definition initial_progress :: progress where
  "initial_progress = \<lparr>reached = - 1, anim = 0, run_state = Running, error_message = []\<rparr>"

text \<open>\<open>Some step\<close> while in \<^verbatim>\<open>Tick(step)\<close>, \<open>None\<close> while in \<^verbatim>\<open>Display()\<close>.\<close>

datatype pc =
    Idle
  | ReachLoad Stage \<comment> \<open>before \<^verbatim>\<open>reached_.load()\<close>\<close>
  | ReachLoop Stage int \<comment> \<open>at the loop condition, with \<^verbatim>\<open>prev\<close>\<close>
  | ReachState \<comment> \<open>before \<^verbatim>\<open>state_.store(Success)\<close>\<close>
  | ReachAnim \<comment> \<open>before \<^verbatim>\<open>anim_.store(100)\<close>\<close>
  | ErrMessage wstring
  | ErrState
  | FloorLoad "int option"
  | CeilState "int option" int
  | CeilError "int option" int
  | CeilRunning "int option" int
  | AnimLoad "int option" int int
  | AnimStore int
  | Returned int

datatype call = CallReach Stage | CallMarkError wstring | CallTick int | CallDisplay

primrec entry_pc :: "call \<Rightarrow> pc" where
  "entry_pc (CallReach s) = ReachLoad s"
| "entry_pc (CallMarkError m) = ErrMessage m"
| "entry_pc (CallTick step) = FloorLoad (Some (if step < 0 then 0 else step))"
| "entry_pc CallDisplay = FloorLoad None"

text \<open>One atomic action of one thread.\<close>

inductive act :: "progress \<times> pc \<Rightarrow> progress \<times> pc \<Rightarrow> bool" where
  call: "act (p, Idle) (p, entry_pc c)"
| reach_load: "act (p, ReachLoad s) (p, ReachLoop s (reached p))"
| reach_cas_ok: "stage_index s > prev \<Longrightarrow> reached p = prev \<Longrightarrow>
    act (p, ReachLoop s prev) (p\<lparr>reached := stage_index s\<rparr>, if s = Confirmed then ReachState else Idle)"
| reach_cas_fail: "stage_index s > prev \<Longrightarrow>
    act (p, ReachLoop s prev) (p, ReachLoop s (reached p))"
| reach_skip: "\<not> stage_index s > prev \<Longrightarrow>
    act (p, ReachLoop s prev) (p, if s = Confirmed then ReachState else Idle)"
| reach_state: "act (p, ReachState) (p\<lparr>run_state := Success\<rparr>, ReachAnim)"
| reach_anim: "act (p, ReachAnim) (p\<lparr>anim := 100\<rparr>, Idle)"
| err_message: "act (p, ErrMessage m) (p\<lparr>error_message := m\<rparr>, ErrState)"
| err_state: "act (p, ErrState)
    (if run_state p = Running then p\<lparr>run_state := Errored\<rparr> else p, Idle)"
| floor_load: "act (p, FloorLoad k) (p, CeilState k (floor_of (reached p)))"
| ceil_success: "run_state p = Success \<Longrightarrow> act (p, CeilState k f) (p, AnimLoad k f 100)"
| ceil_error: "run_state p = Errored \<Longrightarrow> act (p, CeilState k f) (p, CeilError k f)"
| ceil_running: "run_state p = Running \<Longrightarrow> act (p, CeilState k f) (p, CeilRunning k f)"
| ceil_error_load: "act (p, CeilError k f) (p, AnimLoad k f (floor_of (reached p)))"
| ceil_running_load: "act (p, CeilRunning k f) (p, AnimLoad k f (running_ceiling (reached p)))"
| tick_anim: "act (p, AnimLoad (Some step) f c) (p, AnimStore (tick_value step f c (anim p)))"
| tick_store: "act (p, AnimStore v) (p\<lparr>anim := v\<rparr>, Returned v)"
| display_anim: "act (p, AnimLoad None f c) (p, Returned (display_value f c (anim p)))"
| returned: "act (p, Returned v) (p, Idle)"

type_synonym system = "progress \<times> (nat \<Rightarrow> pc)"

inductive pm_step :: "system \<Rightarrow> system \<Rightarrow> bool" where
  "act (p, pcs t) (p', l) \<Longrightarrow> pm_step (p, pcs) (p', pcs(t := l))"

definition pm_init :: "system \<Rightarrow> bool" where
  "pm_init s \<longleftrightarrow> s = (initial_progress, \<lambda>_. Idle)"

section \<open>The bar reaches 100 only after the confirmation\<close>

lemma stage_index_range: "0 \<le> stage_index s \<and> stage_index s \<le> 9 \<and> (stage_index s = 9 \<longleftrightarrow> s = Confirmed)"
  by (cases s) simp_all

lemma reached_cases:
  "- 1 \<le> r \<Longrightarrow> r \<le> 9 \<Longrightarrow> r \<in> {- 1, 0, 1, 2, 3, 4, 5, 6, 7, 8, 9 :: int}"
  by (simp; presburger)

lemma floor_of_bounds:
  "- 1 \<le> r \<Longrightarrow> r \<le> 9 \<Longrightarrow> 0 \<le> floor_of r \<and> floor_of r \<le> 100 \<and> (floor_of r = 100 \<longleftrightarrow> r = 9)"
  by (drule (1) reached_cases) (auto simp: floor_of_def kStageCount_def kPercent_def)

lemma floor_of_mono: "- 1 \<le> r \<Longrightarrow> r \<le> s \<Longrightarrow> s \<le> 9 \<Longrightarrow> floor_of r \<le> floor_of s"
  using reached_cases [of r] reached_cases [of s]
  by (auto simp: floor_of_def kStageCount_def kPercent_def)

lemma running_ceiling_bounds:
  "- 1 \<le> r \<Longrightarrow> r \<le> 9 \<Longrightarrow>
     0 \<le> running_ceiling r \<and> running_ceiling r \<le> 99 \<and> (r < 9 \<longrightarrow> floor_of r \<le> running_ceiling r)"
  by (drule (1) reached_cases) (auto simp: floor_of_def running_ceiling_def kStageCount_def kPercent_def)

lemma tick_value_bounds:
  "0 \<le> c \<Longrightarrow> 0 \<le> f \<Longrightarrow> 0 \<le> v \<Longrightarrow> 0 \<le> step \<Longrightarrow>
     0 \<le> tick_value step f c v \<and> tick_value step f c v \<le> c"
  by (simp add: tick_value_def Let_def)

lemma display_value_bounds:
  "0 \<le> c \<Longrightarrow> 0 \<le> f \<Longrightarrow> 0 \<le> v \<Longrightarrow> 0 \<le> display_value f c v \<and> display_value f c v \<le> c"
  by (simp add: display_value_def Let_def)

definition shared_ok :: "progress \<Rightarrow> bool" where
  "shared_ok p \<longleftrightarrow> - 1 \<le> reached p \<and> reached p \<le> 9 \<and> 0 \<le> anim p \<and> anim p \<le> 100 \<and>
     (run_state p = Success \<longrightarrow> reached p = 9)"

fun step_ok :: "int option \<Rightarrow> bool" where
  "step_ok None = True"
| "step_ok (Some k) = (0 \<le> k)"

fun local_ok :: "int \<Rightarrow> pc \<Rightarrow> bool" where
  "local_ok r (ReachLoop s prev) = (prev \<le> r)"
| "local_ok r ReachState = (r = 9)"
| "local_ok r ReachAnim = (r = 9)"
| "local_ok r (FloorLoad k) = step_ok k"
| "local_ok r (CeilState k f) = (step_ok k \<and> 0 \<le> f)"
| "local_ok r (CeilError k f) = (step_ok k \<and> 0 \<le> f)"
| "local_ok r (CeilRunning k f) = (step_ok k \<and> 0 \<le> f)"
| "local_ok r (AnimLoad k f c) = (step_ok k \<and> 0 \<le> f \<and> 0 \<le> c \<and> c \<le> 100 \<and> (c = 100 \<longrightarrow> r = 9))"
| "local_ok r (AnimStore v) = (0 \<le> v \<and> v \<le> 100 \<and> (v = 100 \<longrightarrow> r = 9))"
| "local_ok r (Returned v) = (0 \<le> v \<and> v \<le> 100 \<and> (v = 100 \<longrightarrow> r = 9))"
| "local_ok r l = True"

lemma local_ok_mono: "local_ok r l \<Longrightarrow> r \<le> r' \<Longrightarrow> r' \<le> 9 \<Longrightarrow> local_ok r' l"
  by (cases "(r, l)" rule: local_ok.cases) auto

lemma entry_ok: "local_ok r (entry_pc c)"
  by (cases c) simp_all

lemma act_ok:
  assumes "act (p, l) (p', l')" "shared_ok p" "local_ok (reached p) l"
  shows "shared_ok p' \<and> local_ok (reached p') l' \<and> reached p \<le> reached p' \<and>
    (run_state p = Success \<longrightarrow> run_state p' = Success)"
  using assms
proof (cases rule: act.cases)
  case (reach_cas_ok s prev)
  then show ?thesis using assms(2,3) stage_index_range [of s] by (auto simp: shared_ok_def)
next
  case (reach_skip s prev)
  then show ?thesis using assms(2,3) stage_index_range [of s] by (auto simp: shared_ok_def)
next
  case (floor_load k)
  then show ?thesis using assms(2,3) floor_of_bounds [of "reached p"] by (auto simp: shared_ok_def)
next
  case (ceil_error_load k f)
  then show ?thesis using assms(2,3) floor_of_bounds [of "reached p"] by (auto simp: shared_ok_def)
next
  case (ceil_running_load k f)
  then show ?thesis using assms(2,3) running_ceiling_bounds [of "reached p"] by (auto simp: shared_ok_def)
next
  case (tick_anim step f c)
  then show ?thesis using assms(2,3) tick_value_bounds [of c f "anim p" step] by (auto simp: shared_ok_def)
next
  case (display_anim f c)
  then show ?thesis using assms(2,3) display_value_bounds [of c f "anim p"] by (auto simp: shared_ok_def)
qed (auto simp: shared_ok_def entry_ok split: if_splits)

definition pm_inv :: "system \<Rightarrow> bool" where
  "pm_inv s \<longleftrightarrow> shared_ok (fst s) \<and> (\<forall>t. local_ok (reached (fst s)) (snd s t))"

lemma pm_step_ok:
  "pm_step s s' \<Longrightarrow> pm_inv s \<Longrightarrow> pm_inv s' \<and> reached (fst s) \<le> reached (fst s') \<and>
     (run_state (fst s) = Success \<longrightarrow> run_state (fst s') = Success)"
proof (induction rule: pm_step.induct)
  case (1 p pcs t p' l)
  then have "local_ok (reached p) (pcs t)" "shared_ok p" by (simp_all add: pm_inv_def)
  note ok = act_ok [OF 1(1) this(2,1)]
  moreover have "reached p' \<le> 9" using ok by (simp add: shared_ok_def)
  ultimately show ?case using 1(2) local_ok_mono [of "reached p" _ "reached p'"]
    by (auto simp: pm_inv_def)
qed

interpretation pm: inductive_invariant pm_init pm_step pm_inv
proof
  show "pm_init s \<Longrightarrow> pm_inv s" for s
    by (simp add: pm_init_def pm_inv_def shared_ok_def initial_progress_def)
qed (use pm_step_ok in blast)

text \<open>
  C26. Whatever the interleaving of the threads, \<^verbatim>\<open>Tick\<close> and \<^verbatim>\<open>Display\<close> return values between 0 and 100,
  and return 100 only after the stage \<^verbatim>\<open>Confirmed\<close> has been reached; likewise the state is
  \<^verbatim>\<open>Success\<close> only after that.
\<close>

theorem Progress_100_only_confirmed:
  assumes "reachable pm_init pm_step (p, pcs)"
  shows "(pcs t = Returned v \<longrightarrow> 0 \<le> v \<and> v \<le> 100 \<and> (v = 100 \<longrightarrow> reached p = stage_index Confirmed)) \<and>
    (run_state p = Success \<longrightarrow> reached p = stage_index Confirmed)"
proof -
  have "local_ok (reached p) (pcs t)" "shared_ok p"
    using pm.inv_reachable [OF assms] by (simp_all add: pm_inv_def)
  then show ?thesis by (auto simp: shared_ok_def)
qed

text \<open>
  Progress is monotone under every interleaving: the highest stage reached never decreases, so
  neither does the guaranteed percentage, and \<^verbatim>\<open>Success\<close> is never overwritten.
\<close>

lemma Progress_monotone:
  assumes "reachable pm_init pm_step s" "pm_step\<^sup>*\<^sup>* s s'"
  shows "reached (fst s) \<le> reached (fst s') \<and> floor_of (reached (fst s)) \<le> floor_of (reached (fst s')) \<and>
    (run_state (fst s) = Success \<longrightarrow> run_state (fst s') = Success)"
proof -
  have "pm_inv s' \<and> reached (fst s) \<le> reached (fst s') \<and>
      (run_state (fst s) = Success \<longrightarrow> run_state (fst s') = Success)"
    using assms(2) pm.inv_reachable [OF assms(1)]
    by (induction rule: rtranclp_induct) (auto dest: pm_step_ok)
  then show ?thesis using pm.inv_reachable [OF assms(1)] floor_of_mono
    by (auto simp: pm_inv_def shared_ok_def)
qed

section \<open>Runs of one thread\<close>

lemma run_thread:
  assumes "act\<^sup>*\<^sup>* x y" shows "pm_step\<^sup>*\<^sup>* (fst x, pcs(t := snd x)) (fst y, pcs(t := snd y))"
  using assms
proof (induction rule: rtranclp_induct)
  case (step y z)
  have "pm_step (fst y, pcs(t := snd y)) (fst z, (pcs(t := snd y))(t := snd z))"
    by (rule pm_step.intros) (use step(2) in simp)
  then show ?case using step(3) unfolding fun_upd_upd by (rule rtranclp.rtrancl_into_rtrancl [rotated])
qed simp

lemma reach_runs:
  "act\<^sup>*\<^sup>* (p, Idle) (p\<lparr>reached := 9, run_state := Success, anim := 100\<rparr>, Idle)" if "reached p < 9"
proof -
  have "act (p, Idle) (p, ReachLoad Confirmed)" using act.call [of p "CallReach Confirmed"] by simp
  moreover have "act (p, ReachLoad Confirmed) (p, ReachLoop Confirmed (reached p))" by (rule act.reach_load)
  moreover have "act (p, ReachLoop Confirmed (reached p)) (p\<lparr>reached := 9\<rparr>, ReachState)"
    using act.reach_cas_ok [of "reached p" Confirmed p] that by simp
  moreover have "act (p\<lparr>reached := 9\<rparr>, ReachState) (p\<lparr>reached := 9, run_state := Success\<rparr>, ReachAnim)"
    using act.reach_state [of "p\<lparr>reached := 9\<rparr>"] by simp
  moreover have "act (p\<lparr>reached := 9, run_state := Success\<rparr>, ReachAnim)
      (p\<lparr>reached := 9, run_state := Success, anim := 100\<rparr>, Idle)"
    using act.reach_anim [of "p\<lparr>reached := 9, run_state := Success\<rparr>"] by simp
  ultimately show ?thesis by (meson converse_rtranclp_into_rtranclp rtranclp.rtrancl_refl)
qed

lemma error_runs:
  "act\<^sup>*\<^sup>* (p, Idle) (p\<lparr>error_message := m, run_state := Errored\<rparr>, Idle)" if "run_state p = Running"
proof -
  have "act (p, Idle) (p, ErrMessage m)" using act.call [of p "CallMarkError m"] by simp
  moreover have "act (p, ErrMessage m) (p\<lparr>error_message := m\<rparr>, ErrState)" by (rule act.err_message)
  moreover have "act (p\<lparr>error_message := m\<rparr>, ErrState) (p\<lparr>error_message := m, run_state := Errored\<rparr>, Idle)"
    using act.err_state [of "p\<lparr>error_message := m\<rparr>"] that by simp
  ultimately show ?thesis by (meson converse_rtranclp_into_rtranclp rtranclp.rtrancl_refl)
qed

text \<open>
  An error does not freeze the progress: after \<^verbatim>\<open>MarkError\<close> has set the state \<^verbatim>\<open>Error\<close>, a further
  \<^verbatim>\<open>Reach(Confirmed)\<close> turns it into \<^verbatim>\<open>Success\<close> at 100 percent, with the error message still set.
\<close>

lemma Progress_error_not_frozen:
  "\<exists>s s'. reachable pm_init pm_step s \<and> run_state (fst s) = Errored \<and> error_message (fst s) = W ''x'' \<and>
     pm_step\<^sup>*\<^sup>* s s' \<and> run_state (fst s') = Success \<and> anim (fst s') = 100 \<and> error_message (fst s') = W ''x''"
proof -
  let ?p0 = "initial_progress" and ?i = "\<lambda>_ :: nat. Idle"
  let ?p1 = "?p0\<lparr>error_message := W ''x'', run_state := Errored\<rparr>"
  let ?p2 = "?p1\<lparr>reached := 9, run_state := Success, anim := 100\<rparr>"
  have "run_state ?p0 = Running" by (simp add: initial_progress_def)
  then have 1: "pm_step\<^sup>*\<^sup>* (?p0, ?i) (?p1, ?i)"
    using run_thread [OF error_runs [of ?p0 "W ''x''"], of ?i 0] by (simp only: fst_conv snd_conv fun_upd_idem)
  have 2: "pm_step\<^sup>*\<^sup>* (?p1, ?i) (?p2, ?i)"
    using run_thread [OF reach_runs [of ?p1], of ?i 0]
    by (simp only: fst_conv snd_conv fun_upd_idem) (simp add: initial_progress_def)
  have "reachable pm_init pm_step (?p0, ?i)" by (rule reachable.start) (simp add: pm_init_def)
  then have "reachable pm_init pm_step (?p1, ?i)" by (rule reachable_steps [OF 1])
  then show ?thesis
    by (intro exI [of _ "(?p1, ?i)"] exI [of _ "(?p2, ?i)"]) (use 2 in simp)
qed

text \<open>A reachable state in which the operation is confirmed and \<^verbatim>\<open>Display\<close> is about to return 100.\<close>

lemma display_runs:
  "act\<^sup>*\<^sup>* (p, Idle) (p, Returned 100)" if "reached p = 9" "run_state p = Success"
proof -
  have "act (p, Idle) (p, FloorLoad None)" using act.call [of p CallDisplay] by simp
  moreover have "act (p, FloorLoad None) (p, CeilState None 100)"
    using act.floor_load [of p None] that by (simp add: floor_of_def kStageCount_def kPercent_def)
  moreover have "act (p, CeilState None 100) (p, AnimLoad None 100 100)"
    by (rule act.ceil_success) (rule that)
  moreover have "act (p, AnimLoad None 100 100) (p, Returned 100)"
  proof -
    have "display_value 100 100 (anim p) = 100" by (simp add: display_value_def Let_def)
    then show ?thesis using act.display_anim [of p 100 100] by metis
  qed
  ultimately show ?thesis by (meson converse_rtranclp_into_rtranclp rtranclp.rtrancl_refl)
qed

definition confirmed_progress :: progress where
  "confirmed_progress = initial_progress\<lparr>reached := 9, run_state := Success, anim := 100\<rparr>"

lemma reachable_initial: "reachable pm_init pm_step (initial_progress, \<lambda>_. Idle)"
  by (rule reachable.start) (simp add: pm_init_def)

lemma initial_to_confirmed:
  "pm_step\<^sup>*\<^sup>* (initial_progress, \<lambda>_. Idle) (confirmed_progress, \<lambda>_. Idle)"
  using run_thread [OF reach_runs [of initial_progress], of "\<lambda>_. Idle" 0]
  by (simp only: fst_conv snd_conv fun_upd_idem) (simp add: initial_progress_def confirmed_progress_def)

lemma reachable_display:
  "reachable pm_init pm_step (confirmed_progress, (\<lambda>_. Idle)(1 := Returned 100))"
proof -
  have "reached confirmed_progress = 9" "run_state confirmed_progress = Success"
    by (simp_all add: confirmed_progress_def)
  note run = run_thread [OF display_runs [OF this], of "\<lambda>_. Idle" 1]
  then have "pm_step\<^sup>*\<^sup>* (confirmed_progress, \<lambda>_. Idle) (confirmed_progress, (\<lambda>_. Idle)(1 := Returned 100))"
    by (simp add: fun_upd_idem)
  then show ?thesis
    by (rule reachable_steps) (rule reachable_steps [OF initial_to_confirmed reachable_initial])
qed

theorem Progress_100_only_confirmed_witness:
  "reachable pm_init pm_step (confirmed_progress, (\<lambda>_. Idle)(1 := Returned 100)) \<and>
   reached confirmed_progress = stage_index Confirmed"
  using Progress_100_only_confirmed [OF reachable_display, of 1 100] reachable_display by simp

lemma Progress_monotone_witness:
  "reached (fst (initial_progress, \<lambda>_ :: nat. Idle)) \<le> reached (fst (confirmed_progress, \<lambda>_ :: nat. Idle)) \<and>
   pm_step\<^sup>*\<^sup>* (initial_progress, \<lambda>_. Idle) (confirmed_progress, \<lambda>_. Idle)"
  using Progress_monotone [OF reachable_initial initial_to_confirmed] initial_to_confirmed by blast

end
