(* ===== verification/OperationState.thy ===== *)
theory OperationState
  imports Prelude
begin

text \<open>
  The gate of \<^verbatim>\<open>src/src/app/OperationState.h\<close>, the atomic state machine that serialises the operations
  on the runtime and the engine process. A thread of the program takes the gate with a compare-exchange
  from a resting state to a busy one (\<^verbatim>\<open>App::StopManagedConnection\<close>, \<^verbatim>\<open>App::ScreenConnect\<close>,
  \<^verbatim>\<open>App::ScreenUpdates\<close>, the cleanup command) and gives it back with \<^verbatim>\<open>Complete\<close>; every frame of the
  user interface runs \<^verbatim>\<open>ObserveProcess\<close>. The machine below interleaves the atomic accesses of any
  number of threads that follow this discipline, and refines an abstract lock. Two \<^verbatim>\<open>Complete\<close> calls of the
  interface thread are made without the gate (an engine that runs already, a lost connection); theory
  \<open>ScreenConnect\<close> models them.
\<close>

section \<open>The gate\<close>

datatype AppOperationState =
  OpDisconnected | OpConnecting | OpConnected | OpDisconnecting | OpUpdating | OpRollingBack | OpError

text \<open>The states that \<^verbatim>\<open>ObserveProcess\<close> may replace.\<close>

definition resting :: "AppOperationState \<Rightarrow> bool" where
  "resting s \<longleftrightarrow> s = OpConnected \<or> s = OpDisconnected \<or> s = OpError"

definition TryTransition ::
  "AppOperationState \<Rightarrow> AppOperationState \<Rightarrow> AppOperationState \<Rightarrow> AppOperationState \<times> bool" where
  "TryTransition expected desired s = (if s = expected then (desired, True) else (s, False))"

definition observed :: "bool \<Rightarrow> AppOperationState" where
  "observed alive = (if alive then OpConnected else OpDisconnected)"

definition Complete :: "AppOperationState \<Rightarrow> AppOperationState \<Rightarrow> AppOperationState" where
  "Complete s s0 = s"

text \<open>
  Where a thread is: outside, before the compare-exchange of \<^verbatim>\<open>TryTransition\<close>, inside the operation
  the gate protects, or in the loop of \<^verbatim>\<open>ObserveProcess\<close> with the state it has loaded.
\<close>

datatype gate_pc =
  Outside | Trying AppOperationState AppOperationState | Holding | Observing bool AppOperationState

inductive gate_act :: "AppOperationState \<times> gate_pc \<Rightarrow> AppOperationState \<times> gate_pc \<Rightarrow> bool" where
  enter: "resting e \<Longrightarrow> \<not> resting d \<Longrightarrow> gate_act (s, Outside) (s, Trying e d)"
| try_transition: "TryTransition e d s = (s', ok) \<Longrightarrow>
    gate_act (s, Trying e d) (s', if ok then Holding else Outside)"
| complete_phase: "\<not> resting d \<Longrightarrow> gate_act (s, Holding) (Complete d s, Holding)"
| complete: "resting d \<Longrightarrow> gate_act (s, Holding) (Complete d s, Outside)"
| observe_load: "gate_act (s, Outside) (s, Observing alive s)"
| observe_leave: "\<not> resting seen \<Longrightarrow> gate_act (s, Observing alive seen) (s, Outside)"
| observe_cas: "resting seen \<Longrightarrow> s = seen \<Longrightarrow> gate_act (s, Observing alive seen) (observed alive, Outside)"
| observe_retry: "resting seen \<Longrightarrow> gate_act (s, Observing alive seen) (s, Observing alive s)"

type_synonym gate = "AppOperationState \<times> (nat \<Rightarrow> gate_pc)"

inductive gate_step :: "gate \<Rightarrow> gate \<Rightarrow> bool" where
  "gate_act (s, pcs t) (s', l) \<Longrightarrow> gate_step (s, pcs) (s', pcs(t := l))"

definition gate_init :: "gate \<Rightarrow> bool" where
  "gate_init g \<longleftrightarrow> g = (OpDisconnected, \<lambda>_. Outside)"

section \<open>The gate is a lock\<close>

fun pc_ok :: "gate_pc \<Rightarrow> bool" where
  "pc_ok (Trying e d) = (resting e \<and> \<not> resting d)"
| "pc_ok l = True"

definition gate_inv :: "gate \<Rightarrow> bool" where
  "gate_inv g \<longleftrightarrow>
     (\<forall>t. pc_ok (snd g t)) \<and>
     (if resting (fst g) then \<forall>t. snd g t \<noteq> Holding else \<exists>t. \<forall>u. snd g u = Holding \<longleftrightarrow> u = t)"

lemma gate_inv_resting:
  "resting s \<Longrightarrow> gate_inv (s, pcs) \<longleftrightarrow> (\<forall>t. pc_ok (pcs t)) \<and> (\<forall>t. pcs t \<noteq> Holding)"
  by (simp add: gate_inv_def)

lemma gate_inv_busy:
  "\<not> resting s \<Longrightarrow>
     gate_inv (s, pcs) \<longleftrightarrow> (\<forall>t. pc_ok (pcs t)) \<and> (\<exists>t. \<forall>u. pcs u = Holding \<longleftrightarrow> u = t)"
  by (simp add: gate_inv_def)

lemma observed_resting: "resting (observed alive)"
  by (simp add: observed_def resting_def)

text \<open>What an action does, for the thread that performs it.\<close>

lemma gate_act_effect:
  assumes "gate_act (s, l) (s', l')" "pc_ok l"
  shows "pc_ok l' \<and>
    (if l = Holding then (l' = Holding) = (\<not> resting s')
     else if l' = Holding then resting s \<and> \<not> resting s'
     else resting s = resting s' \<and> (\<not> resting s \<longrightarrow> s' = s))"
  using assms
proof (cases rule: gate_act.cases)
  case (try_transition e d ok)
  then show ?thesis using assms(2) by (cases "s = e") (simp_all add: TryTransition_def)
next
  case (observe_cas seen alive)
  then show ?thesis using observed_resting by simp
qed (simp_all add: Complete_def)

lemma gate_step_inv: "gate_step g g' \<Longrightarrow> gate_inv g \<Longrightarrow> gate_inv g'"
proof (induction rule: gate_step.induct)
  case (1 s pcs t s' l)
  then have ok: "\<forall>u. pc_ok (pcs u)" "pc_ok (pcs t)" by (simp_all add: gate_inv_def)
  note eff = gate_act_effect [OF 1(1) ok(2)]
  then have ok': "\<forall>u. pc_ok ((pcs(t := l)) u)" using ok by simp
  show ?case
  proof (cases "resting s")
    case True
    then have none: "\<forall>u. pcs u \<noteq> Holding" using 1(2) gate_inv_resting by blast
    then have "(l = Holding) = (\<not> resting s')" using eff True by (auto split: if_splits)
    then show ?thesis using none ok' by (cases "resting s'") (auto simp: gate_inv_resting gate_inv_busy)
  next
    case False
    then obtain h where h: "\<forall>u. pcs u = Holding \<longleftrightarrow> u = h" using 1(2) gate_inv_busy by blast
    show ?thesis
    proof (cases "t = h")
      case True
      then have "(l = Holding) = (\<not> resting s')" using eff h by simp
      then show ?thesis using h ok' True by (cases "resting s'") (auto simp: gate_inv_resting gate_inv_busy)
    next
      case other: False
      then have "pcs t \<noteq> Holding" using h by blast
      then have "l \<noteq> Holding" "s' = s" using eff False by (auto split: if_splits)
      then have "\<forall>u. (pcs(t := l)) u = Holding \<longleftrightarrow> u = h" using h other by auto
      then show ?thesis using ok' \<open>s' = s\<close> False gate_inv_busy by blast
    qed
  qed
qed

interpretation gate: inductive_invariant gate_init gate_step gate_inv
proof
  show "gate_init g \<Longrightarrow> gate_inv g" for g
    by (simp add: gate_init_def gate_inv_def resting_def)
qed (rule gate_step_inv)

text \<open>
  The gate is mutually exclusive: in every reachable state at most one thread is inside an
  operation, and some thread is inside exactly when the state is one of the busy ones.
\<close>

lemma Gate_exclusive:
  assumes "reachable gate_init gate_step (s, pcs)"
  shows "(pcs t = Holding \<longrightarrow> pcs u = Holding \<longrightarrow> t = u) \<and>
    ((\<exists>t. pcs t = Holding) \<longleftrightarrow> s \<in> {OpConnecting, OpDisconnecting, OpUpdating, OpRollingBack})"
proof -
  have rest: "resting s \<longleftrightarrow> s \<notin> {OpConnecting, OpDisconnecting, OpUpdating, OpRollingBack}"
    by (cases s) (simp_all add: resting_def)
  have inv: "gate_inv (s, pcs)" using gate.inv_reachable [OF assms] .
  show ?thesis
  proof (cases "resting s")
    case True
    then have "\<forall>t. pcs t \<noteq> Holding" using inv by (simp add: gate_inv_def)
    then show ?thesis using True rest by simp
  next
    case False
    then obtain h where "\<forall>u. pcs u = Holding \<longleftrightarrow> u = h" using inv gate_inv_busy by blast
    then show ?thesis using False rest by simp
  qed
qed

text \<open>The abstract lock, and the owner of a state of the gate.\<close>

inductive lock_step :: "nat option \<Rightarrow> nat option \<Rightarrow> bool" where
  acquire: "lock_step None (Some t)"
| release: "lock_step (Some t) None"
| internal: "lock_step x x"

definition owner_is :: "gate \<Rightarrow> nat option \<Rightarrow> bool" where
  "owner_is g x \<longleftrightarrow> (case x of None \<Rightarrow> \<forall>t. snd g t \<noteq> Holding | Some t \<Rightarrow> snd g t = Holding)"

lemma owner_unique: "gate_inv g \<Longrightarrow> owner_is g x \<Longrightarrow> owner_is g y \<Longrightarrow> x = y"
  by (cases x; cases y) (auto simp: owner_is_def gate_inv_def split: if_splits)


text \<open>A run in which thread 0 takes the gate to connect, while thread 1 stays outside.\<close>

lemma reachable_connecting:
  "reachable gate_init gate_step (OpConnecting, (\<lambda>_. Outside)(0 := Holding))"
proof -
  let ?i = "\<lambda>_ :: nat. Outside"
  have act1: "gate_act (OpDisconnected, ?i 0) (OpDisconnected, Trying OpDisconnected OpConnecting)"
    by (rule gate_act.enter) (simp_all add: resting_def)
  have act2: "gate_act (OpDisconnected, (?i(0 := Trying OpDisconnected OpConnecting)) 0) (OpConnecting, Holding)"
    using gate_act.try_transition [of OpDisconnected OpConnecting OpDisconnected OpConnecting True]
    by (simp add: TryTransition_def)
  have "reachable gate_init gate_step (OpDisconnected, ?i)"
    by (rule reachable.start) (simp add: gate_init_def)
  then have "reachable gate_init gate_step (OpDisconnected, ?i(0 := Trying OpDisconnected OpConnecting))"
    by (rule reachable.move) (rule gate_step.intros [where pcs = ?i and t = 0, OF act1])
  then have "reachable gate_init gate_step
      (OpConnecting, (?i(0 := Trying OpDisconnected OpConnecting))(0 := Holding))"
    by (rule reachable.move) (rule gate_step.intros [where pcs = "?i(0 := Trying OpDisconnected OpConnecting)" and t = 0, OF act2])
  then show ?thesis by simp
qed

lemma Gate_exclusive_witness:
  "reachable gate_init gate_step (OpConnecting, (\<lambda>_. Outside)(0 := Holding)) \<and>
   (\<exists>t. ((\<lambda>_. Outside)(0 := Holding)) t = Holding)"
  using Gate_exclusive [OF reachable_connecting, of 0 1] reachable_connecting by simp


end
