(* ===== verification/RuntimeActivation.thy ===== *)
theory RuntimeActivation
  imports Prelude
begin

text \<open>
  The transaction of \<^verbatim>\<open>src/src/update/RuntimeActivation.cpp\<close> that switches from one runtime to
  another. Its five hooks are functions on a world, the state of everything outside the routine
  (processes, files); an empty \<^verbatim>\<open>std::function\<close> is \<open>None\<close>. The update manager instantiates them.
\<close>

record RuntimeState =
  active_version :: string
  known_good :: string

datatype ActivationStatus = Activated | PreflightFailed | StopFailed | StartFailed | HealthFailed
  | CommitFailed | RolledBack | RollbackFailed

type_synonym ('a, 'w) hook = "('a \<Rightarrow> 'w \<Rightarrow> bool \<times> 'w) option"

record 'w ActivationHooks =
  preflight :: "(string, 'w) hook"
  stopCurrent :: "(unit, 'w) hook"
  start_hook :: "(string, 'w) hook"
  health :: "(string, 'w) hook"
  commit :: "(RuntimeState, 'w) hook"

text \<open>\<^verbatim>\<open>hook && hook(x)\<close>\<close>

definition run_hook :: "('a, 'w) hook \<Rightarrow> 'a \<Rightarrow> 'w \<Rightarrow> bool \<times> 'w" where
  "run_hook f x w = (case f of None \<Rightarrow> (False, w) | Some g \<Rightarrow> g x w)"

text \<open>The lambda \<^verbatim>\<open>rollback\<close>: it overwrites the status.\<close>

definition rollback :: "RuntimeState \<Rightarrow> 'w ActivationHooks \<Rightarrow> 'w \<Rightarrow> ActivationStatus \<times> 'w" where
  "rollback before hooks w =
     (if active_version before = [] then (RollbackFailed, w)
      else (case run_hook (start_hook hooks) (active_version before) w of
              (False, w1) \<Rightarrow> (RollbackFailed, w1)
            | (True, w1) \<Rightarrow>
                (case run_hook (health hooks) (active_version before) w1 of
                   (False, w2) \<Rightarrow> (RollbackFailed, w2)
                 | (True, w2) \<Rightarrow> (RolledBack, w2))))"

definition ActivateRuntime ::
  "RuntimeState \<Rightarrow> string \<Rightarrow> 'w ActivationHooks \<Rightarrow> 'w \<Rightarrow> (ActivationStatus \<times> RuntimeState) \<times> 'w" where
  "ActivateRuntime before candidate hooks w =
     (let undo = (\<lambda>w. let r = rollback before hooks w in ((fst r, before), snd r)) in
      case run_hook (preflight hooks) candidate w of
        (False, w1) \<Rightarrow> ((PreflightFailed, before), w1)
      | (True, w1) \<Rightarrow>
          (case run_hook (stopCurrent hooks) () w1 of
             (False, w2) \<Rightarrow> ((StopFailed, before), w2)
           | (True, w2) \<Rightarrow>
               (case run_hook (start_hook hooks) candidate w2 of
                  (False, w3) \<Rightarrow> undo w3
                | (True, w3) \<Rightarrow>
                    (case run_hook (health hooks) candidate w3 of
                       (False, w4) \<Rightarrow> undo w4
                     | (True, w4) \<Rightarrow>
                         (let committed = \<lparr>active_version = candidate,
                                            known_good = active_version before\<rparr> in
                          case run_hook (commit hooks) committed w4 of
                            (False, w5) \<Rightarrow> undo w5
                          | (True, w5) \<Rightarrow> ((Activated, committed), w5))))))"

section \<open>The contract\<close>

text \<open>The five steps of a successful switch, from one world to another.\<close>

definition switched :: "RuntimeState \<Rightarrow> string \<Rightarrow> 'w ActivationHooks \<Rightarrow> 'w \<Rightarrow> 'w \<Rightarrow> bool" where
  "switched before candidate hooks w w' \<longleftrightarrow>
     (\<exists>w1 w2 w3 w4.
        run_hook (preflight hooks) candidate w = (True, w1) \<and>
        run_hook (stopCurrent hooks) () w1 = (True, w2) \<and>
        run_hook (start_hook hooks) candidate w2 = (True, w3) \<and>
        run_hook (health hooks) candidate w3 = (True, w4) \<and>
        run_hook (commit hooks) \<lparr>active_version = candidate, known_good = active_version before\<rparr> w4 =
          (True, w'))"

lemma rollback_status:
  "rollback before hooks w = (st, w') \<Longrightarrow> st \<in> {RolledBack, RollbackFailed}"
  by (auto simp: rollback_def split: if_splits prod.splits bool.splits)

lemma rollback_RolledBack:
  "rollback before hooks w = (RolledBack, w') \<Longrightarrow>
     active_version before \<noteq> [] \<and>
     (\<exists>w1. run_hook (start_hook hooks) (active_version before) w = (True, w1) \<and>
        run_hook (health hooks) (active_version before) w1 = (True, w'))"
  by (auto simp: rollback_def split: if_splits prod.splits bool.splits)

lemma ActivateRuntime_cases:
  "ActivateRuntime before candidate hooks w = ((st, s), w') \<Longrightarrow>
     st = Activated \<and> s = \<lparr>active_version = candidate, known_good = active_version before\<rparr> \<and>
       switched before candidate hooks w w' \<or>
     s = before \<and> (st = PreflightFailed \<or> st = StopFailed \<or> (\<exists>v. rollback before hooks v = (st, w')))"
  unfolding ActivateRuntime_def switched_def Let_def
  by (simp split: prod.splits bool.splits; metis prod.collapse)

text \<open>
  C9. Activation is transactional, whatever the hooks do: it reports \<^verbatim>\<open>Activated\<close> exactly when
  preflight, stop, start, health and commit of the candidate have each succeeded, in that order, and
  then the state is the committed one, with the previous version as the last good one; in every other
  case the state is the one before, and \<^verbatim>\<open>RolledBack\<close> is reported only after the previous version
  has been started and found healthy as the last thing done.
\<close>

theorem ActivateRuntime_transaction:
  "case ActivateRuntime before candidate hooks w of
     ((Activated, s), w') \<Rightarrow>
       s = \<lparr>active_version = candidate, known_good = active_version before\<rparr> \<and>
       switched before candidate hooks w w'
   | ((st, s), w') \<Rightarrow>
       s = before \<and> st \<in> {PreflightFailed, StopFailed, RolledBack, RollbackFailed} \<and>
       (if st = RolledBack
        then active_version before \<noteq> [] \<and>
          (\<exists>v w1. run_hook (start_hook hooks) (active_version before) v = (True, w1) \<and>
            run_hook (health hooks) (active_version before) w1 = (True, w'))
        else True)"
proof -
  obtain st s w' where r: "ActivateRuntime before candidate hooks w = ((st, s), w')" by (metis surj_pair)
  consider (act) "st = Activated" "s = \<lparr>active_version = candidate, known_good = active_version before\<rparr>"
      "switched before candidate hooks w w'"
    | (early) "s = before" "st = PreflightFailed \<or> st = StopFailed"
    | (undo) v where "s = before" "rollback before hooks v = (st, w')"
    using ActivateRuntime_cases [OF r] by blast
  then show ?thesis
  proof cases
    case act
    then show ?thesis using r by simp
  next
    case early
    then show ?thesis using r by auto
  next
    case undo
    then consider "st = RolledBack" | "st = RollbackFailed" using rollback_status [OF undo(2)] by auto
    then show ?thesis
    proof cases
      case 1
      then show ?thesis using r undo rollback_RolledBack [of before hooks v w'] by auto
    next
      case 2
      then show ?thesis using r undo by simp
    qed
  qed
qed

section \<open>A rule for the world\<close>

text \<open>
  What holds of the world after an activation, from what each hook keeps: \<open>A\<close> before the current
  runtime is stopped, \<open>B\<close> once it is, \<open>J\<close> after the candidate was started or failed to, \<open>I\<close> at the end.
\<close>

lemma rollback_rule:
  assumes "rollback before hooks w = (st, w')" "J w"
    and weak: "\<And>w. J w \<Longrightarrow> I w"
    and start: "\<And>w b w'. J w \<Longrightarrow> run_hook (start_hook hooks) (active_version before) w = (b, w') \<Longrightarrow> I w'"
    and health: "\<And>w b w'. I w \<Longrightarrow> run_hook (health hooks) (active_version before) w = (b, w') \<Longrightarrow> I w'"
  shows "I w'"
proof (cases "active_version before = []")
  case True
  then show ?thesis using assms(1,2) weak by (simp add: rollback_def)
next
  case False
  obtain b1 w1 where s: "run_hook (start_hook hooks) (active_version before) w = (b1, w1)" by fastforce
  obtain b2 w2 where hl: "run_hook (health hooks) (active_version before) w1 = (b2, w2)" by fastforce
  have "I w1" "I w2" using start [OF assms(2) s] health [OF _ hl] by auto
  then show ?thesis using assms(1) False s hl
    by (cases b1; cases b2) (auto simp: rollback_def)
qed

lemma ActivateRuntime_rule:
  assumes run: "ActivateRuntime before candidate hooks w = (x, w')" and "A w"
    and weak: "\<And>w. A w \<Longrightarrow> I w" "\<And>w. J w \<Longrightarrow> I w"
    and preflight: "\<And>w b w'. A w \<Longrightarrow> run_hook (preflight hooks) candidate w = (b, w') \<Longrightarrow> A w'"
    and stop: "\<And>w b w'. A w \<Longrightarrow> run_hook (stopCurrent hooks) () w = (b, w') \<Longrightarrow> if b then B w' else I w'"
    and start: "\<And>w b w'. B w \<Longrightarrow> run_hook (start_hook hooks) candidate w = (b, w') \<Longrightarrow> J w'"
    and health: "\<And>w b w'. J w \<Longrightarrow> run_hook (health hooks) candidate w = (b, w') \<Longrightarrow> J w'"
    and commit: "\<And>w b w'. J w \<Longrightarrow> run_hook (commit hooks)
        \<lparr>active_version = candidate, known_good = active_version before\<rparr> w = (b, w') \<Longrightarrow> J w'"
    and restart: "\<And>w b w'. J w \<Longrightarrow> run_hook (start_hook hooks) (active_version before) w = (b, w') \<Longrightarrow> I w'"
    and recheck: "\<And>w b w'. I w \<Longrightarrow> run_hook (health hooks) (active_version before) w = (b, w') \<Longrightarrow> I w'"
  shows "I w'"
proof -
  have undo: "I w'" if "J v" "rollback before hooks v = (st, w')" for v st
    by (rule rollback_rule [where J = J and I = I, OF that(2,1) weak(2) restart recheck])
  obtain b1 w1 where q1: "run_hook (preflight hooks) candidate w = (b1, w1)" by fastforce
  obtain b2 w2 where q2: "run_hook (stopCurrent hooks) () w1 = (b2, w2)" by fastforce
  obtain b3 w3 where q3: "run_hook (start_hook hooks) candidate w2 = (b3, w3)" by fastforce
  obtain b4 w4 where q4: "run_hook (health hooks) candidate w3 = (b4, w4)" by fastforce
  obtain b5 w5 where q5: "run_hook (commit hooks)
      \<lparr>active_version = candidate, known_good = active_version before\<rparr> w4 = (b5, w5)" by fastforce
  have A1: "A w1" using preflight [OF assms(2) q1] .
  note s2 = stop [OF A1 q2]
  have J3: "J w3" if b2 using start [OF _ q3] s2 that by simp
  have J4: "J w4" if b2 using health [OF J3 [OF that] q4] .
  have J5: "J w5" if b2 using commit [OF J4 [OF that] q5] .
  note eq = run [unfolded ActivateRuntime_def Let_def q1 q2 q3 q4 q5]
  consider "\<not> b1" | "b1" "\<not> b2" | "b1" b2 "\<not> b3" | b1 b2 b3 "\<not> b4" | b1 b2 b3 b4 "\<not> b5" | b1 b2 b3 b4 b5
    by blast
  then show ?thesis
  proof cases
    case 1
    then show ?thesis using eq A1 weak(1) q1 by simp
  next
    case 2
    then show ?thesis using eq s2 q1 q2 by simp
  next
    case 3
    then show ?thesis using eq undo [OF J3, of "fst (rollback before hooks w3)"] q1 q2 q3 by auto
  next
    case 4
    then show ?thesis using eq undo [OF J4, of "fst (rollback before hooks w4)"] q1 q2 q3 q4 by auto
  next
    case 5
    then show ?thesis using eq undo [OF J5, of "fst (rollback before hooks w5)"] q1 q2 q3 q4 q5 by auto
  next
    case 6
    then show ?thesis using eq weak(2) J5 q1 q2 q3 q4 q5 by simp
  qed
qed

end
