(* ===== verification/SecureFs.thy ===== *)
theory SecureFs
  imports StringUtil FsTrace "HOL-Library.Multiset" "HOL-Library.Sublist"
begin

text \<open>
  The protected file system layer, \<^verbatim>\<open>src/src/core/SecureFs.cpp\<close>: validation of objects and path
  components through no-follow handles, the check of the owner and the access list, hardening,
  creation of protected directories, the descendant test and the recursive removal.

  Win32 is a record of answers that may depend on the calls made so far (the history, a list of the
  state-changing calls); an operation maps a history to its result and the extended history. The
  atomic write is in the theory \<open>SecureWrite\<close>.
\<close>

section \<open>The operating system\<close>

datatype ObjectKind = KindFile | KindDirectory

datatype sec_error =
    LastError \<comment> \<open>\<^verbatim>\<open>WinError\<close>: the code of \<^verbatim>\<open>GetLastError\<close>\<close>
  | ReparseTagInvalid | WrongKind | TooManyLinks | InvalidSecurityDescr | BadPathname
  | AccessDenied | CrcError | InvalidParameter | GenFailure | FileExists | InvalidHandle

text \<open>\<^verbatim>\<open>Result\<close>: \<open>None\<close> is \<^verbatim>\<open>ok\<close>.\<close>

type_synonym sec_result = "sec_error option"

datatype sid = SidAdministrators | SidSystem | SidUsers | SidOther nat

text \<open>An entry of an access list; its type, the account, the rights and the inheritance flags.\<close>

record ace =
  ace_allow :: bool
  ace_sid :: sid
  ace_mask :: nat
  ace_flags :: nat

text \<open>What \<^verbatim>\<open>GetSecurityInfo\<close> and \<^verbatim>\<open>GetSecurityDescriptorControl\<close> report.\<close>

record security_info =
  sec_owner :: sid
  sec_protected :: bool
  sec_dacl :: "ace list option"

record handle_info =
  is_reparse :: bool
  is_directory :: bool
  link_count :: nat

record object_info =
  object_handle :: "handle_info option"   \<comment> \<open>\<^verbatim>\<open>GetFileInformationByHandle\<close>\<close>
  object_security :: "security_info option"   \<comment> \<open>\<^verbatim>\<open>GetSecurityInfo\<close>\<close>

datatype attr_answer = AttrMissing | AttrFailed | Attr bool bool \<comment> \<open>reparse point, directory\<close>

datatype create_answer = Created | AlreadyExists | CreateFailed

datatype win_event =
    WinCreateDirectory wstring create_answer
  | WinSetSecurity wstring bool
  | WinCreateNew wstring create_answer
  | WinWrite wstring string
  | WinDelete wstring bool
  | WinRemoveDirectory wstring bool
  | WinMove wstring wstring bool

type_synonym win_history = "win_event list"

record win_os =
  get_full_path :: "wstring \<Rightarrow> wstring option"
  get_attributes :: "win_history \<Rightarrow> wstring \<Rightarrow> attr_answer"
  open_object :: "win_history \<Rightarrow> wstring \<Rightarrow> object_info option"   \<comment> \<open>\<^verbatim>\<open>CreateFileW\<close>, no-follow\<close>
  create_directory :: "win_history \<Rightarrow> wstring \<Rightarrow> create_answer"
  set_security :: "win_history \<Rightarrow> wstring \<Rightarrow> bool"
  acl_ready :: "ObjectKind \<Rightarrow> bool"   \<comment> \<open>the descriptor and the SID could be built\<close>
  random_bytes :: "win_history \<Rightarrow> string option"
  create_new :: "win_history \<Rightarrow> wstring \<Rightarrow> create_answer"
  write_chunk :: "win_history \<Rightarrow> wstring \<Rightarrow> string \<Rightarrow> bool"
  flush_ok :: "win_history \<Rightarrow> wstring \<Rightarrow> bool"
  move_ok :: "win_history \<Rightarrow> wstring \<Rightarrow> wstring \<Rightarrow> bool"
  delete_ok :: "win_history \<Rightarrow> wstring \<Rightarrow> bool"
  rmdir_ok :: "win_history \<Rightarrow> wstring \<Rightarrow> bool"
  disk_size :: "win_history \<Rightarrow> wstring \<Rightarrow> nat option"
  disk_sha :: "win_history \<Rightarrow> wstring \<Rightarrow> string option"
  memory_sha :: "string \<Rightarrow> string option"

abbreviation backslash :: wchar where "backslash \<equiv> WC (CHR 0x5C)"
abbreviation slash :: wchar where "slash \<equiv> WC (CHR ''/'')"

section \<open>Objects\<close>

definition CheckHandle :: "object_info \<Rightarrow> ObjectKind \<Rightarrow> bool \<Rightarrow> sec_result" where
  "CheckHandle obj kind singleLink =
     (case object_handle obj of
        None \<Rightarrow> Some LastError
      | Some info \<Rightarrow>
          if is_reparse info then Some ReparseTagInvalid
          else if is_directory info \<noteq> (kind = KindDirectory) then Some WrongKind
          else if kind = KindFile \<and> singleLink \<and> link_count info \<noteq> 1 then Some TooManyLinks
          else None)"

text \<open>The loop over the entries: the first allow entry of the account decides.\<close>

fun AclHasExactAllowAce :: "ace list \<Rightarrow> sid \<Rightarrow> nat \<Rightarrow> nat \<Rightarrow> bool" where
  "AclHasExactAllowAce [] s rights flags = False"
| "AclHasExactAllowAce (a # as) s rights flags =
     (if \<not> ace_allow a then AclHasExactAllowAce as s rights flags
      else if ace_sid a = s then ace_mask a = rights \<and> ace_flags a = flags
      else AclHasExactAllowAce as s rights flags)"

definition file_all_access :: nat where "file_all_access = 0x1F01FF"

definition read_execute :: nat where "read_execute = 0x1200a9"

definition expected_flags :: "ObjectKind \<Rightarrow> nat" where
  \<comment> \<open>\<^verbatim>\<open>OBJECT_INHERIT_ACE | CONTAINER_INHERIT_ACE\<close>\<close>
  "expected_flags kind = (if kind = KindDirectory then 3 else 0)"

definition VerifyProtectedSecurity :: "object_info \<Rightarrow> ObjectKind \<Rightarrow> sec_result" where
  "VerifyProtectedSecurity obj kind =
     (case object_security obj of
        None \<Rightarrow> Some LastError
      | Some sec \<Rightarrow>
          let verified = sec_owner sec = SidAdministrators \<and> sec_protected sec \<and>
            (case sec_dacl sec of
               None \<Rightarrow> False
             | Some dacl \<Rightarrow>
                 length dacl = 3 \<and>
                 AclHasExactAllowAce dacl SidSystem file_all_access (expected_flags kind) \<and>
                 AclHasExactAllowAce dacl SidAdministrators file_all_access (expected_flags kind) \<and>
                 AclHasExactAllowAce dacl SidUsers read_execute (expected_flags kind)) in
          if verified then None else Some InvalidSecurityDescr)"

definition ValidateObject :: "win_os \<Rightarrow> win_history \<Rightarrow> wstring \<Rightarrow> ObjectKind \<Rightarrow> bool \<Rightarrow> sec_result" where
  "ValidateObject os h path kind requireSingleLink =
     (case open_object os h path of
        None \<Rightarrow> Some LastError
      | Some obj \<Rightarrow> CheckHandle obj kind requireSingleLink)"

definition ValidateProtectedHandle :: "object_info option \<Rightarrow> ObjectKind \<Rightarrow> bool \<Rightarrow> sec_result" where
  "ValidateProtectedHandle handle kind requireSingleLink =
     (case handle of
        None \<Rightarrow> Some InvalidHandle
      | Some obj \<Rightarrow>
          (case CheckHandle obj kind requireSingleLink of
             None \<Rightarrow> VerifyProtectedSecurity obj kind
           | Some e \<Rightarrow> Some e))"

definition ValidateProtectedObject ::
  "win_os \<Rightarrow> win_history \<Rightarrow> wstring \<Rightarrow> ObjectKind \<Rightarrow> bool \<Rightarrow> sec_result" where
  "ValidateProtectedObject os h path kind requireSingleLink =
     (case open_object os h path of
        None \<Rightarrow> Some LastError
      | Some obj \<Rightarrow>
          (case CheckHandle obj kind requireSingleLink of
             None \<Rightarrow> VerifyProtectedSecurity obj kind
           | Some e \<Rightarrow> Some e))"

definition HardenObject ::
  "win_os \<Rightarrow> wstring \<Rightarrow> ObjectKind \<Rightarrow> win_history \<Rightarrow> sec_result \<times> win_history" where
  \<comment> \<open>the handle stays open across \<^verbatim>\<open>SetSecurityInfo\<close>; it is the same object, looked at again\<close>
  "HardenObject os path kind h =
     (case open_object os h path of
        None \<Rightarrow> (Some LastError, h)
      | Some obj \<Rightarrow>
          (case CheckHandle obj kind (kind = KindFile) of
             Some e \<Rightarrow> (Some e, h)
           | None \<Rightarrow>
               if \<not> acl_ready os kind then (Some LastError, h)
               else
                 let ok = set_security os h path; h1 = h @ [WinSetSecurity path ok] in
                 if \<not> ok then (Some LastError, h1)
                 else (case open_object os h1 path of
                         None \<Rightarrow> (Some LastError, h1)
                       | Some obj1 \<Rightarrow>
                           (case CheckHandle obj1 kind (kind = KindFile) of
                              Some e \<Rightarrow> (Some e, h1)
                            | None \<Rightarrow> (VerifyProtectedSecurity obj1 kind, h1)))))"

section \<open>Paths\<close>

definition strip_trailing :: "wchar set \<Rightarrow> wstring \<Rightarrow> wstring" where
  \<comment> \<open>\<^verbatim>\<open>while (s.size() > 3 && s.back() is in the set) s.pop_back()\<close>\<close>
  "strip_trailing cs s = take 3 s @ rev (dropWhile (\<lambda>c. c \<in> cs) (rev (drop 3 s)))"

definition FullPath :: "win_os \<Rightarrow> wstring \<Rightarrow> wstring" where
  "FullPath os input =
     (case get_full_path os input of None \<Rightarrow> [] | Some out \<Rightarrow> strip_trailing {backslash, slash} out)"

definition fold_char :: "(wchar \<Rightarrow> wchar) \<Rightarrow> wchar \<Rightarrow> wchar" where
  "fold_char towlower c = towlower (if c = slash then backslash else c)"

definition FoldPath :: "(wchar \<Rightarrow> wchar) \<Rightarrow> wstring \<Rightarrow> wstring" where
  "FoldPath towlower value = strip_trailing {backslash} (map (fold_char towlower) value)"

definition ParentOf :: "win_os \<Rightarrow> wstring \<Rightarrow> wstring" where
  "ParentOf os path =
     (let full = FullPath os path;
          r = dropWhile (\<lambda>c. c \<noteq> backslash \<and> c \<noteq> slash) (rev full) in
      if r = [] then [] else rev (tl r))"

definition IsStrictDescendant :: "win_os \<Rightarrow> (wchar \<Rightarrow> wchar) \<Rightarrow> wstring \<Rightarrow> wstring \<Rightarrow> bool" where
  "IsStrictDescendant os towlower root candidate =
     (let foldedRoot = FoldPath towlower (FullPath os root);
          foldedCandidate = FoldPath towlower (FullPath os candidate) in
      if foldedRoot = [] \<or> foldedCandidate = [] \<or> length foldedCandidate \<le> length foldedRoot
      then False
      else starts_with (if last foldedRoot \<noteq> backslash then foldedRoot @ [backslash] else foldedRoot)
             foldedCandidate)"

text \<open>
  The components of a path, as its prefixes: the part before each backslash from the position on,
  and at last the whole path.
\<close>

function prefixes_from :: "wstring \<Rightarrow> wstring \<Rightarrow> wstring list" where
  "prefixes_from done rest =
     (case split_at backslash rest of
        (a, None) \<Rightarrow> [done @ a]
      | (a, Some r) \<Rightarrow> (done @ a) # prefixes_from (done @ a @ [backslash]) r)"
  by pat_completeness auto
termination
  by (relation "measure (\<lambda>(done, rest). length rest)") (simp_all, metis split_at_shorter)

declare prefixes_from.simps [simp del]

definition absolute_path :: "wstring \<Rightarrow> bool" where
  "absolute_path full \<longleftrightarrow> \<not> (length full < 3 \<or> full ! 1 \<noteq> WC (CHR '':'') \<or> full ! 2 \<noteq> backslash)"

fun ValidateComponents :: "win_os \<Rightarrow> win_history \<Rightarrow> wstring list \<Rightarrow> sec_result" where
  "ValidateComponents os h [] = None"
| "ValidateComponents os h (p # ps) =
     (case ValidateObject os h p KindDirectory False of
        Some e \<Rightarrow> Some e
      | None \<Rightarrow> ValidateComponents os h ps)"

definition ValidatePathComponents :: "win_os \<Rightarrow> win_history \<Rightarrow> wstring \<Rightarrow> sec_result" where
  "ValidatePathComponents os h path =
     (let full = FullPath os path in
      if \<not> absolute_path full then Some BadPathname
      else ValidateComponents os h (prefixes_from (take 3 full) (drop 3 full)))"

section \<open>Directories\<close>

text \<open>The creation of one component when it does not exist: whether it failed.\<close>

definition EnsureComponent :: "win_os \<Rightarrow> wstring \<Rightarrow> win_history \<Rightarrow> bool \<times> win_history" where
  "EnsureComponent os p h =
     (case get_attributes os h p of
        Attr r d \<Rightarrow> (False, h)
      | _ \<Rightarrow> let a = create_directory os h p in (a = CreateFailed, h @ [WinCreateDirectory p a]))"

fun EnsureComponents :: "win_os \<Rightarrow> wstring list \<Rightarrow> win_history \<Rightarrow> sec_result \<times> win_history" where
  "EnsureComponents os [] h = (None, h)"
| "EnsureComponents os (p # ps) h =
     (case EnsureComponent os p h of
        (True, h1) \<Rightarrow> (Some LastError, h1)
      | (False, h1) \<Rightarrow>
          (case ValidateObject os h1 p KindDirectory False of
             Some e \<Rightarrow> (Some e, h1)
           | None \<Rightarrow> EnsureComponents os ps h1))"

definition EnsureProtectedDirectory :: "win_os \<Rightarrow> wstring \<Rightarrow> win_history \<Rightarrow> sec_result \<times> win_history" where
  "EnsureProtectedDirectory os path h =
     (let full = FullPath os path in
      if \<not> absolute_path full then (Some BadPathname, h)
      else (case EnsureComponents os (prefixes_from (take 3 full) (drop 3 full)) h of
              (Some e, h1) \<Rightarrow> (Some e, h1)
            | (None, h1) \<Rightarrow> HardenObject os full KindDirectory h1))"

definition EnsureTrustedDirectory :: "win_os \<Rightarrow> wstring \<Rightarrow> win_history \<Rightarrow> sec_result \<times> win_history" where
  "EnsureTrustedDirectory os path h =
     (let parent = ParentOf os path in
      case ValidatePathComponents os h parent of
        Some e \<Rightarrow> (Some e, h)
      | None \<Rightarrow>
          (case ValidateProtectedObject os h parent KindDirectory False of
             Some e \<Rightarrow> (Some e, h)
           | None \<Rightarrow>
               if \<not> acl_ready os KindDirectory then (Some LastError, h)
               else
                 let a = create_directory os h path; h1 = h @ [WinCreateDirectory path a] in
                 if a = CreateFailed then (Some LastError, h1)
                 else (ValidateProtectedObject os h1 path KindDirectory False, h1)))"

fun BootstrapPaths :: "win_os \<Rightarrow> wstring list \<Rightarrow> win_history \<Rightarrow> sec_result \<times> win_history" where
  "BootstrapPaths os [] h = (None, h)"
| "BootstrapPaths os (p # ps) h =
     (case EnsureProtectedDirectory os p h of
        (Some e, h1) \<Rightarrow> (Some e, h1)
      | (None, h1) \<Rightarrow> BootstrapPaths os ps h1)"

definition BootstrapProtectedTree ::
  "win_os \<Rightarrow> wstring \<Rightarrow> wstring \<Rightarrow> wstring \<Rightarrow> wstring \<Rightarrow> wstring \<Rightarrow> win_history \<Rightarrow> sec_result \<times> win_history" where
  "BootstrapProtectedTree os programDataRoot logsDir runtimeRoot updatesDir userDir h =
     (case BootstrapPaths os [programDataRoot, logsDir, runtimeRoot, updatesDir, userDir] h of
        (Some e, h1) \<Rightarrow> (Some e, h1)
      | (None, h1) \<Rightarrow> EnsureProtectedDirectory os (userDir @ W [CHR 0x5C] @ W ''lists'') h1)"

section \<open>Removal\<close>

text \<open>
  The object below the path to remove, as the enumeration finds it: missing or not to be queried, a
  reparse point (with the directory attribute), a file, or a directory with the names and objects
  \<^verbatim>\<open>FindFirstFileW\<close>/\<^verbatim>\<open>FindNextFileW\<close> list in it and whether the enumeration ends without an error.
  What a reparse point leads to is not part of it. The entries \<^verbatim>\<open>.\<close> and \<^verbatim>\<open>..\<close> are skipped.
\<close>

datatype fs_node =
    NodeMissing | NodeError | NodeLink bool | NodeFile
  | NodeDir "(wstring \<times> fs_node) list" bool

definition WinDeleteFile :: "win_os \<Rightarrow> wstring \<Rightarrow> win_history \<Rightarrow> sec_result \<times> win_history" where
  "WinDeleteFile os p h =
     (let ok = delete_ok os h p in (if ok then None else Some LastError, h @ [WinDelete p ok]))"

definition WinRemoveDir :: "win_os \<Rightarrow> wstring \<Rightarrow> win_history \<Rightarrow> sec_result \<times> win_history" where
  "WinRemoveDir os p h =
     (let ok = rmdir_ok os h p in (if ok then None else Some LastError, h @ [WinRemoveDirectory p ok]))"

definition child_path :: "wstring \<Rightarrow> wstring \<Rightarrow> wstring" where
  "child_path path name = path @ [backslash] @ name"

fun RemoveTreeImpl :: "win_os \<Rightarrow> wstring \<Rightarrow> fs_node \<Rightarrow> win_history \<Rightarrow> sec_result \<times> win_history"
  and RemoveChildren :: "win_os \<Rightarrow> wstring \<Rightarrow> (wstring \<times> fs_node) list \<Rightarrow> win_history \<Rightarrow> sec_result \<times> win_history"
where
  "RemoveTreeImpl os path NodeMissing h = (None, h)"
| "RemoveTreeImpl os path NodeError h = (Some LastError, h)"
| "RemoveTreeImpl os path (NodeLink d) h =
     (if d then WinRemoveDir os path h else WinDeleteFile os path h)"
| "RemoveTreeImpl os path NodeFile h = WinDeleteFile os path h"
| "RemoveTreeImpl os path (NodeDir children complete) h =
     (case RemoveChildren os path children h of
        (Some e, h1) \<Rightarrow> (Some e, h1)
      | (None, h1) \<Rightarrow> if \<not> complete then (Some LastError, h1) else WinRemoveDir os path h1)"
| "RemoveChildren os path [] h = (None, h)"
| "RemoveChildren os path ((name, child) # rest) h =
     (if name = W ''.'' \<or> name = W ''..'' then RemoveChildren os path rest h
      else (case RemoveTreeImpl os (child_path path name) child h of
              (Some e, h1) \<Rightarrow> (Some e, h1)
            | (None, h1) \<Rightarrow> RemoveChildren os path rest h1))"

definition RemoveTreeUnder ::
  "win_os \<Rightarrow> (wchar \<Rightarrow> wchar) \<Rightarrow> wstring \<Rightarrow> wstring \<Rightarrow> fs_node \<Rightarrow> win_history \<Rightarrow> sec_result \<times> win_history" where
  "RemoveTreeUnder os towlower allowedRoot target node h =
     (if \<not> IsStrictDescendant os towlower allowedRoot target then (Some AccessDenied, h)
      else (case ValidatePathComponents os h allowedRoot of
              Some e \<Rightarrow> (Some e, h)
            | None \<Rightarrow>
                let parent = ParentOf os target in
                if parent = [] then (Some BadPathname, h)
                else (case ValidatePathComponents os h parent of
                        Some e \<Rightarrow> (Some e, h)
                      | None \<Rightarrow> RemoveTreeImpl os (FullPath os target) node h)))"

section \<open>The access list\<close>

definition expected_dacl :: "ObjectKind \<Rightarrow> ace list" where
  "expected_dacl kind =
     [\<lparr>ace_allow = True, ace_sid = SidSystem, ace_mask = file_all_access, ace_flags = expected_flags kind\<rparr>,
      \<lparr>ace_allow = True, ace_sid = SidAdministrators, ace_mask = file_all_access, ace_flags = expected_flags kind\<rparr>,
      \<lparr>ace_allow = True, ace_sid = SidUsers, ace_mask = read_execute, ace_flags = expected_flags kind\<rparr>]"

lemma AclHasExactAllowAce_elem:
  "AclHasExactAllowAce as s m f \<Longrightarrow>
     \<lparr>ace_allow = True, ace_sid = s, ace_mask = m, ace_flags = f\<rparr> \<in> set as"
  by (induction as) (auto split: if_splits)

lemma AclHasExactAllowAce_distinct:
  "\<lparr>ace_allow = True, ace_sid = s, ace_mask = m, ace_flags = f\<rparr> \<in> set as \<Longrightarrow> distinct (map ace_sid as) \<Longrightarrow>
     AclHasExactAllowAce as s m f"
proof (induction as)
  case (Cons a as)
  let ?e = "\<lparr>ace_allow = True, ace_sid = s, ace_mask = m, ace_flags = f\<rparr>"
  show ?case
  proof (cases "a = ?e")
    case False
    then have "?e \<in> set as" using Cons.prems by simp
    moreover from this have "s \<in> ace_sid ` set as" by (rule rev_image_eqI) simp
    then have "ace_sid a \<noteq> s" using Cons.prems by auto
    ultimately show ?thesis using Cons by simp
  qed simp
qed simp

lemma expected_dacl_distinct: "distinct (expected_dacl kind)" "distinct (map ace_sid (expected_dacl kind))"
  by (simp_all add: expected_dacl_def)

lemma dacl_exact:
  "length dacl = 3 \<and> AclHasExactAllowAce dacl SidSystem file_all_access (expected_flags kind) \<and>
   AclHasExactAllowAce dacl SidAdministrators file_all_access (expected_flags kind) \<and>
   AclHasExactAllowAce dacl SidUsers read_execute (expected_flags kind) \<longleftrightarrow>
     mset dacl = mset (expected_dacl kind)"
proof
  assume *: "length dacl = 3 \<and> AclHasExactAllowAce dacl SidSystem file_all_access (expected_flags kind) \<and>
   AclHasExactAllowAce dacl SidAdministrators file_all_access (expected_flags kind) \<and>
   AclHasExactAllowAce dacl SidUsers read_execute (expected_flags kind)"
  then have sub: "set (expected_dacl kind) \<subseteq> set dacl"
    by (auto simp: expected_dacl_def dest: AclHasExactAllowAce_elem)
  have card: "card (set (expected_dacl kind)) = 3"
    using distinct_card [OF expected_dacl_distinct(1) [of kind]] by (simp add: expected_dacl_def)
  have "card (set dacl) \<le> 3" using * card_length [of dacl] by simp
  then have eq: "set (expected_dacl kind) = set dacl"
    using card_subset_eq [OF _ sub] card_mono [OF _ sub] card by fastforce
  then have "distinct dacl" using * card by (intro card_distinct) simp
  then show "mset dacl = mset (expected_dacl kind)"
    using eq expected_dacl_distinct(1) [of kind] by (simp add: set_eq_iff_mset_eq_distinct)
next
  assume m: "mset dacl = mset (expected_dacl kind)"
  then have "length dacl = 3" "set dacl = set (expected_dacl kind)"
    using mset_eq_length [OF m] mset_eq_setD [OF m] by (simp_all add: expected_dacl_def)
  moreover have "distinct (map ace_sid dacl)"
    using m expected_dacl_distinct(2) by (metis mset_eq_imp_distinct_iff mset_map)
  ultimately show "length dacl = 3 \<and> AclHasExactAllowAce dacl SidSystem file_all_access (expected_flags kind) \<and>
   AclHasExactAllowAce dacl SidAdministrators file_all_access (expected_flags kind) \<and>
   AclHasExactAllowAce dacl SidUsers read_execute (expected_flags kind)"
    by (simp add: AclHasExactAllowAce_distinct expected_dacl_def)
qed

text \<open>
  C28. The check of the protection is exact: it passes if and only if the owner is the Administrators
  group, inheritance from the parent is cut, and the access list, as a multiset, is the three entries
  the program installs (full access for SYSTEM and Administrators, read and execute for Users, with
  the inheritance flags of the kind of object); no further entry, allow or deny, goes unnoticed.
\<close>

theorem VerifyProtectedSecurity_exact:
  "VerifyProtectedSecurity obj kind = None \<longleftrightarrow>
     (\<exists>sec dacl. object_security obj = Some sec \<and> sec_owner sec = SidAdministrators \<and>
        sec_protected sec \<and> sec_dacl sec = Some dacl \<and> mset dacl = mset (expected_dacl kind))"
  unfolding dacl_exact [symmetric]
  by (auto simp: VerifyProtectedSecurity_def Let_def split: option.splits)

text \<open>A validated, protected object.\<close>

definition protected_object :: "object_info \<Rightarrow> ObjectKind \<Rightarrow> bool" where
  "protected_object obj kind \<longleftrightarrow>
     (\<exists>info. object_handle obj = Some info \<and> \<not> is_reparse info \<and>
        is_directory info = (kind = KindDirectory)) \<and> VerifyProtectedSecurity obj kind = None"

lemma CheckHandle_None:
  "CheckHandle obj kind l = None \<longleftrightarrow>
     (\<exists>info. object_handle obj = Some info \<and> \<not> is_reparse info \<and>
        is_directory info = (kind = KindDirectory) \<and> (kind = KindFile \<and> l \<longrightarrow> link_count info = 1))"
  by (auto simp: CheckHandle_def split: option.splits)

lemma ValidateProtectedObject_None:
  "ValidateProtectedObject os h path kind l = None \<Longrightarrow>
     \<exists>obj. open_object os h path = Some obj \<and> protected_object obj kind"
  by (auto simp: ValidateProtectedObject_def protected_object_def CheckHandle_None split: option.splits)

lemma HardenObject_cases:
  "HardenObject os path kind h = (r, h') \<Longrightarrow>
     h' = h \<and> r \<noteq> None \<or>
     (\<exists>ok. h' = h @ [WinSetSecurity path ok] \<and>
        (r = None \<longrightarrow> ok \<and> (\<exists>obj. open_object os h' path = Some obj \<and> protected_object obj kind)))"
proof -
  assume r: "HardenObject os path kind h = (r, h')"
  let ?h1 = "h @ [WinSetSecurity path (set_security os h path)]"
  consider (early) "r \<noteq> None" "h' = h" | (failed) "r \<noteq> None" "h' = ?h1"
    | (verified) obj where "h' = ?h1" "set_security os h path" "open_object os ?h1 path = Some obj"
      "CheckHandle obj kind (kind = KindFile) = None" "r = VerifyProtectedSecurity obj kind"
    using r by (auto simp: HardenObject_def Let_def split: option.splits if_splits) metis+
  then show ?thesis
  proof cases
    case verified
    then have "r = None \<longrightarrow> protected_object obj kind"
      by (auto simp: protected_object_def CheckHandle_None)
    then show ?thesis using verified by (intro disjI2 exI [of _ "set_security os h path"]) auto
  qed auto
qed

section \<open>Directories are created under validated parents\<close>

definition created_in :: "wstring list \<Rightarrow> win_event \<Rightarrow> bool" where
  "created_in ps ev \<longleftrightarrow> (\<exists>p a. ev = WinCreateDirectory p a \<and> p \<in> set ps)"

lemma created_in_mono: "created_in ps ev \<Longrightarrow> set ps \<subseteq> set qs \<Longrightarrow> created_in qs ev"
  by (auto simp: created_in_def)

text \<open>Each component was a real directory when its turn came.\<close>

fun real_directories :: "win_os \<Rightarrow> wstring list \<Rightarrow> win_history \<Rightarrow> win_history \<Rightarrow> bool" where
  "real_directories os [] h h' = True"
| "real_directories os (p # ps) h h' =
     (\<exists>es. prefix (h @ es) h' \<and> length es \<le> 1 \<and> ValidateObject os (h @ es) p KindDirectory False = None \<and>
        real_directories os ps (h @ es) h')"

lemma EnsureComponents_events:
  "EnsureComponents os ps h = (r, h') \<Longrightarrow>
     (\<exists>es. h' = h @ es \<and> list_all (created_in ps) es) \<and> (r = None \<longrightarrow> real_directories os ps h h')"
proof (induction ps arbitrary: h)
  case (Cons p ps)
  obtain failed h1 where step: "EnsureComponent os p h = (failed, h1)" by fastforce
  then obtain es where es: "h1 = h @ es" "length es \<le> 1" "list_all (created_in (p # ps)) es"
    by (auto simp: EnsureComponent_def created_in_def Let_def split: attr_answer.splits)
  consider (stop) "r \<noteq> None" "h' = h1"
    | (go) "ValidateObject os h1 p KindDirectory False = None" "EnsureComponents os ps h1 = (r, h')"
    using Cons.prems step
    by (cases failed; cases "ValidateObject os h1 p KindDirectory False") (simp_all, metis+)
  then show ?case
  proof cases
    case stop
    then show ?thesis using es by blast
  next
    case go
    then obtain es' where es': "h' = h1 @ es'" "list_all (created_in ps) es'"
      "r = None \<longrightarrow> real_directories os ps h1 h'" using Cons.IH [OF go(2)] by blast
    then have "h' = h @ (es @ es')" "list_all (created_in (p # ps)) (es @ es')"
      using es created_in_mono [of ps _ "p # ps"] by (auto simp: list_all_iff)
    moreover have "r = None \<longrightarrow> real_directories os (p # ps) h h'"
      unfolding real_directories.simps by (intro impI exI [of _ es]) (use es es' go(1) in auto)
    ultimately show ?thesis by blast
  qed
qed simp

text \<open>
  \<^verbatim>\<open>EnsureProtectedDirectory\<close> only ever creates components of the normalised path and changes the
  security of no object but the directory itself, at the end; when it succeeds, every component from
  the volume root was seen to be a real directory and never a reparse point, and the directory's
  protection, read back after it was set, is the exact one.
\<close>

lemma EnsureProtectedDirectory_confined:
  "case EnsureProtectedDirectory os path h of
     (r, h') \<Rightarrow>
       let full = FullPath os path; ps = prefixes_from (take 3 full) (drop 3 full) in
       \<exists>es. list_all (created_in ps) es \<and>
         (h' = h @ es \<and> r \<noteq> None \<or>
          (\<exists>ok. h' = h @ es @ [WinSetSecurity full ok] \<and> real_directories os ps h (h @ es) \<and>
             (if r = None
              then ok \<and> (\<exists>obj. open_object os h' full = Some obj \<and> protected_object obj KindDirectory)
              else True)))"
proof -
  let ?full = "FullPath os path"
  let ?ps = "prefixes_from (take 3 ?full) (drop 3 ?full)"
  obtain r h' where r: "EnsureProtectedDirectory os path h = (r, h')" by fastforce
  have "\<exists>es. list_all (created_in ?ps) es \<and>
         (h' = h @ es \<and> r \<noteq> None \<or>
          (\<exists>ok. h' = h @ es @ [WinSetSecurity ?full ok] \<and> real_directories os ?ps h (h @ es) \<and>
             (if r = None
              then ok \<and> (\<exists>obj. open_object os h' ?full = Some obj \<and> protected_object obj KindDirectory)
              else True)))"
  proof (cases "absolute_path ?full")
    case True
    obtain e h1 where c: "EnsureComponents os ?ps h = (e, h1)" by fastforce
    obtain es where es: "h1 = h @ es" "list_all (created_in ?ps) es" "e = None \<longrightarrow> real_directories os ?ps h h1"
      using EnsureComponents_events [OF c] by blast
    show ?thesis
    proof (cases e)
      case None
      then have "HardenObject os ?full KindDirectory h1 = (r, h')"
        using r True c by (simp add: EnsureProtectedDirectory_def Let_def)
      from HardenObject_cases [OF this] show ?thesis using es None by (intro exI [of _ es]) auto
    next
      case (Some x)
      then show ?thesis using r True c es by (auto simp: EnsureProtectedDirectory_def Let_def)
    qed
  next
    case False
    then show ?thesis using r by (auto simp: EnsureProtectedDirectory_def Let_def intro: exI [of _ "[]"])
  qed
  then show ?thesis unfolding r Let_def prod.case .
qed

section \<open>Removal stays below the root\<close>

fun removed_paths :: "wstring \<Rightarrow> fs_node \<Rightarrow> wstring list" where
  "removed_paths path NodeMissing = []"
| "removed_paths path NodeError = []"
| "removed_paths path (NodeLink d) = [path]"
| "removed_paths path NodeFile = [path]"
| "removed_paths path (NodeDir children complete) =
     concat (map (\<lambda>(name, child). if name = W ''.'' \<or> name = W ''..'' then []
                                   else removed_paths (child_path path name) child) children) @ [path]"

fun removal_event :: "win_event \<Rightarrow> (wstring \<times> bool) option" where
  "removal_event (WinDelete p ok) = Some (p, ok)"
| "removal_event (WinRemoveDirectory p ok) = Some (p, ok)"
| "removal_event _ = None"

definition removes :: "win_history \<Rightarrow> win_history \<Rightarrow> sec_result \<Rightarrow> wstring list \<Rightarrow> bool" where
  \<comment> \<open>the calls made after \<open>h\<close> remove a prefix of the paths, all of them when there is no error\<close>
  "removes h h' r ps \<longleftrightarrow>
     (\<exists>es qs. h' = h @ es \<and> prefix qs ps \<and> (r = None \<longrightarrow> qs = ps) \<and>
        (\<exists>oks. map removal_event es = map Some (zip qs oks) \<and> length oks = length qs \<and>
           (r = None \<longrightarrow> list_all (\<lambda>b. b) oks)))"

lemma removes_Nil: "removes h h r []"
  by (auto simp: removes_def)

lemma removes_stop: "removes h h (Some e) ps"
  by (auto simp: removes_def intro: exI [of _ "[]"])

lemma removes_single:
  "removal_event ev = Some (p, ok) \<Longrightarrow> (r = None \<Longrightarrow> ok) \<Longrightarrow> removes h (h @ [ev]) r [p]"
  unfolding removes_def
  by (rule exI [of _ "[ev]"], rule exI [of _ "[p]"]) (auto intro!: exI [of _ "[ok]"])

lemma removes_one:
  "WinDeleteFile os p h = (r, h') \<Longrightarrow> removes h h' r [p]"
  "WinRemoveDir os p h = (r, h') \<Longrightarrow> removes h h' r [p]"
  by (auto simp: WinDeleteFile_def WinRemoveDir_def Let_def intro: removes_single split: if_splits)

lemma removes_error: "removes h h' (Some e) ps \<Longrightarrow> removes h h' (Some e') (ps @ qs)"
  unfolding removes_def by (metis option.distinct(1) prefix_prefix)

lemma removes_append:
  assumes "removes h h1 None ps" "removes h1 h2 r qs" shows "removes h h2 r (ps @ qs)"
proof -
  obtain es oks where 1: "h1 = h @ es" "map removal_event es = map Some (zip ps oks)"
    "length oks = length ps" "list_all (\<lambda>b. b) oks"
    using assms(1) by (auto simp: removes_def)
  obtain es' qs' oks' where 2: "h2 = h1 @ es'" "prefix qs' qs" "r = None \<longrightarrow> qs' = qs"
    "map removal_event es' = map Some (zip qs' oks')" "length oks' = length qs'"
    "r = None \<longrightarrow> list_all (\<lambda>b. b) oks'"
    using assms(2) by (auto simp: removes_def)
  show ?thesis unfolding removes_def
    by (rule exI [of _ "es @ es'"], rule exI [of _ "ps @ qs'"], intro conjI)
      (use 1 2 in \<open>auto intro!: exI [of _ "oks @ oks'"]\<close>)
qed

lemma RemoveTreeImpl_removes:
  "RemoveTreeImpl os path node h = (r, h') \<Longrightarrow> removes h h' r (removed_paths path node)"
  "RemoveChildren os path children h = (r, h') \<Longrightarrow>
     removes h h' r (concat (map (\<lambda>(name, child). if name = W ''.'' \<or> name = W ''..'' then []
                                   else removed_paths (child_path path name) child) children))"
proof (induction os path node h and os path children h
    arbitrary: r h' and r h' rule: RemoveTreeImpl_RemoveChildren.induct)
  case (5 os path children complete h)
  obtain e h1 where c: "RemoveChildren os path children h = (e, h1)" by fastforce
  note rem = 5(1) [OF c]
  show ?case
  proof (cases e)
    case None
    then have last: "removes h1 h' r [path]"
      using 5(2) c removes_one(2) removes_stop by (auto split: if_splits)
    show ?thesis using removes_append [OF _ last] rem None by simp
  next
    case (Some x)
    then show ?thesis using 5(2) c rem removes_error by auto
  qed
next
  case (7 os path name child rest h)
  show ?case
  proof (cases "name = W ''.'' \<or> name = W ''..''")
    case True
    then show ?thesis using 7(1) [OF True] 7(4) by auto
  next
    case False
    obtain e h1 where c: "RemoveTreeImpl os (child_path path name) child h = (e, h1)" by fastforce
    note rem = 7(2) [OF False c]
    show ?thesis
    proof (cases e)
      case None
      then have "RemoveChildren os path rest h1 = (r, h')" using 7(4) c False by auto
      then show ?thesis using removes_append [OF _ 7(3)] rem c None False by auto
    next
      case (Some x)
      then show ?thesis using 7(4) c rem False removes_error by auto
    qed
  qed
qed (auto simp: removes_Nil removes_stop dest: removes_one split: if_splits)

lemma removed_paths_below:
  "p \<in> set (removed_paths path node) \<Longrightarrow> p = path \<or> starts_with (path @ [backslash]) p"
proof (induction path node arbitrary: p rule: removed_paths.induct)
  case (5 path children complete)
  show ?case
  proof (cases "p = path")
    case False
    then obtain name child where c: "(name, child) \<in> set children" "name \<noteq> W ''.''" "name \<noteq> W ''..''"
      "p \<in> set (removed_paths (child_path path name) child)"
      using 5(2) by (auto split: if_splits)
    then have "p = child_path path name \<or> starts_with (child_path path name @ [backslash]) p"
      using 5(1) by blast
    then show ?thesis by (auto simp: child_path_def starts_with_iff)
  qed simp
qed auto

lemma strip_trailing_prefix: "prefix (strip_trailing cs s) s"
proof -
  have "drop 3 s = rev (dropWhile (\<lambda>c. c \<in> cs) (rev (drop 3 s))) @ rev (takeWhile (\<lambda>c. c \<in> cs) (rev (drop 3 s)))"
    by (metis rev_append rev_rev_ident takeWhile_dropWhile_id)
  then have "s = strip_trailing cs s @ rev (takeWhile (\<lambda>c. c \<in> cs) (rev (drop 3 s)))"
    unfolding strip_trailing_def append_assoc by (metis append_take_drop_id)
  then show ?thesis by (metis prefixI)
qed

definition root_prefix :: "win_os \<Rightarrow> (wchar \<Rightarrow> wchar) \<Rightarrow> wstring \<Rightarrow> wstring" where
  "root_prefix os towlower root =
     (let r = FoldPath towlower (FullPath os root) in if last r \<noteq> backslash then r @ [backslash] else r)"

lemma IsStrictDescendant_prefix:
  assumes "IsStrictDescendant os towlower root candidate"
  shows "starts_with (root_prefix os towlower root) (map (fold_char towlower) (FullPath os candidate))"
proof -
  have "starts_with (root_prefix os towlower root) (FoldPath towlower (FullPath os candidate))"
    using assms by (auto simp: IsStrictDescendant_def root_prefix_def Let_def split: if_splits)
  moreover have "prefix (FoldPath towlower (FullPath os candidate)) (map (fold_char towlower) (FullPath os candidate))"
    by (simp add: FoldPath_def strip_trailing_prefix)
  ultimately show ?thesis by (auto simp: starts_with_iff prefix_def)
qed


lemma IsStrictDescendant_irrefl: "\<not> IsStrictDescendant os towlower root root"
  by (simp add: IsStrictDescendant_def Let_def)

end
