(* ===== verification/SecureWrite.thy ===== *)
theory SecureWrite
  imports SecureFs
begin

text \<open>
  The privileged atomic write of \<^verbatim>\<open>src/src/core/SecureFs.cpp\<close>: \<^verbatim>\<open>WriteExact\<close>, \<^verbatim>\<open>RandomTempName\<close>,
  \<^verbatim>\<open>AtomicWriteStream\<close> and \<^verbatim>\<open>AtomicWrite\<close>. The producer of the stream is a function that is given the
  sink and the state; the locale \<open>stream_producer\<close> states that it changes the state through the sink
  only.
\<close>

section \<open>The temporary file\<close>

text \<open>\<^verbatim>\<open>WriteExact\<close>: chunks of at most one megabyte, each written in full or the whole call fails.\<close>

function WriteExact :: "win_os \<Rightarrow> wstring \<Rightarrow> string \<Rightarrow> win_history \<Rightarrow> bool \<times> win_history" where
  "WriteExact os file data h =
     (if data = [] then (True, h)
      else let chunk = take (2 ^ 20) data in
        if write_chunk os h file chunk
        then WriteExact os file (drop (2 ^ 20) data) (h @ [WinWrite file chunk])
        else (False, h))"
  by pat_completeness auto
termination by (relation "measure (\<lambda>(os, file, data, h). length data)") auto

declare WriteExact.simps [simp del]

definition temp_digit :: "nat \<Rightarrow> char" where
  "temp_digit n = ''0123456789abcdef'' ! n"

definition RandomTempName :: "win_os \<Rightarrow> win_history \<Rightarrow> wstring \<Rightarrow> wstring option" where
  "RandomTempName os h parent =
     (case random_bytes os h of
        None \<Rightarrow> None
      | Some random \<Rightarrow>
          Some (parent @ W [CHR 0x5C] @ W ''.cheburnet-tmp-'' @
            concat (map (\<lambda>b. W [temp_digit (of_char b div 16), temp_digit (of_char b mod 16)]) random)))"

text \<open>The attempts to create a new file under a random name: an error, the name, or none was free.\<close>

fun CreateTemporary ::
  "win_os \<Rightarrow> wstring \<Rightarrow> nat \<Rightarrow> win_history \<Rightarrow> (sec_error + wstring) \<times> win_history" where
  "CreateTemporary os parent 0 h = (Inl FileExists, h)"
| "CreateTemporary os parent (Suc n) h =
     (case RandomTempName os h parent of
        None \<Rightarrow> (Inl GenFailure, h)
      | Some temporary \<Rightarrow>
          let a = create_new os h temporary; h1 = h @ [WinCreateNew temporary a] in
          (case a of
             Created \<Rightarrow> (Inr temporary, h1)
           | AlreadyExists \<Rightarrow> CreateTemporary os parent n h1
           | CreateFailed \<Rightarrow> (Inl LastError, h1)))"

section \<open>The stream\<close>

record stream =
  stream_history :: win_history
  streamed :: nat

text \<open>The lambda \<^verbatim>\<open>sink\<close>.\<close>

definition sink :: "win_os \<Rightarrow> wstring \<Rightarrow> nat \<Rightarrow> string \<Rightarrow> stream \<Rightarrow> bool \<times> stream" where
  "sink os file expectedSize chunk s =
     (if expectedSize < streamed s \<or> expectedSize - streamed s < length chunk then (False, s)
      else (case WriteExact os file chunk (stream_history s) of
              (False, h) \<Rightarrow> (False, s\<lparr>stream_history := h\<rparr>)
            | (True, h) \<Rightarrow> (True, \<lparr>stream_history = h, streamed = streamed s + length chunk\<rparr>)))"

type_synonym 's producer = "(string \<Rightarrow> 's \<Rightarrow> bool \<times> 's) \<Rightarrow> 's \<Rightarrow> bool \<times> 's"

text \<open>The size and the digest of a file on disk, read back.\<close>

definition matches :: "win_os \<Rightarrow> win_history \<Rightarrow> wstring \<Rightarrow> nat \<Rightarrow> string \<Rightarrow> bool" where
  "matches os h p n sha \<longleftrightarrow>
     (case (disk_size os h p, disk_sha os h p) of
        (Some m, Some d) \<Rightarrow> m = n \<and> HexEquals d sha
      | _ \<Rightarrow> False)"

text \<open>After the temporary file is closed: hardening, verification, activation, verification.\<close>

definition ActivateTemporary ::
  "win_os \<Rightarrow> wstring \<Rightarrow> wstring \<Rightarrow> nat \<Rightarrow> string \<Rightarrow> win_history \<Rightarrow> sec_result \<times> win_history" where
  "ActivateTemporary os temporary target expectedSize expectedSha256 h =
     (let drop_temporary = (\<lambda>e h. (Some e, h @ [WinDelete temporary (delete_ok os h temporary)])) in
      case HardenObject os temporary KindFile h of
        (Some e, h1) \<Rightarrow> drop_temporary e h1
      | (None, h1) \<Rightarrow>
          if \<not> matches os h1 temporary expectedSize expectedSha256 then drop_temporary CrcError h1
          else
            let moved = move_ok os h1 temporary target; h2 = h1 @ [WinMove temporary target moved] in
            if \<not> moved then drop_temporary LastError h2
            else (case ValidateObject os h2 target KindFile True of
                    Some e \<Rightarrow> (Some e, h2)
                  | None \<Rightarrow>
                      (case HardenObject os target KindFile h2 of
                         (Some e, h3) \<Rightarrow> (Some e, h3)
                       | (None, h3) \<Rightarrow>
                           (if matches os h3 target expectedSize expectedSha256 then None else Some CrcError, h3))))"

text \<open>From the check of the parent to the creation of the temporary file.\<close>

definition PrepareTarget :: "win_os \<Rightarrow> wstring \<Rightarrow> win_history \<Rightarrow> sec_result \<times> win_history" where
  "PrepareTarget os target h =
     (let parent = ParentOf os target in
      case ValidatePathComponents os h parent of
        Some e \<Rightarrow> (Some e, h)
      | None \<Rightarrow>
          (case ValidateProtectedObject os h parent KindDirectory False of
             Some e \<Rightarrow> (Some e, h)
           | None \<Rightarrow>
               (case get_attributes os h target of
                  Attr r d \<Rightarrow>
                    (case ValidateObject os h target KindFile True of
                       Some e \<Rightarrow> (Some e, h)
                     | None \<Rightarrow> HardenObject os target KindFile h)
                | _ \<Rightarrow> (None, h))))"

text \<open>The part that fills the temporary file.\<close>

definition FillTemporary ::
  "win_os \<Rightarrow> wstring \<Rightarrow> nat \<Rightarrow> stream producer \<Rightarrow> win_history \<Rightarrow> bool \<times> win_history" where
  "FillTemporary os file expectedSize produce h =
     (case open_object os h file of
        None \<Rightarrow> (False, h)
      | Some obj \<Rightarrow>
          if CheckHandle obj KindFile True \<noteq> None then (False, h)
          else (case produce (sink os file expectedSize) \<lparr>stream_history = h, streamed = 0\<rparr> of
                  (ok, s) \<Rightarrow>
                    (ok \<and> streamed s = expectedSize \<and> flush_ok os (stream_history s) file,
                     stream_history s)))"

definition AtomicWriteStream ::
  "win_os \<Rightarrow> wstring \<Rightarrow> nat \<Rightarrow> string \<Rightarrow> stream producer option \<Rightarrow> win_history \<Rightarrow> sec_result \<times> win_history" where
  "AtomicWriteStream os target expectedSize expectedSha256 producer h =
     (case producer of
        None \<Rightarrow> (Some InvalidParameter, h)
      | Some produce \<Rightarrow>
          if length expectedSha256 \<noteq> 64 then (Some InvalidParameter, h)
          else (case PrepareTarget os target h of
                  (Some e, h1) \<Rightarrow> (Some e, h1)
                | (None, h1) \<Rightarrow>
                    (case CreateTemporary os (ParentOf os target) 16 h1 of
                       (Inl e, h2) \<Rightarrow> (Some e, h2)
                     | (Inr temporary, h2) \<Rightarrow>
                         (case FillTemporary os temporary expectedSize produce h2 of
                            (False, h3) \<Rightarrow>
                              (Some LastError, h3 @ [WinDelete temporary (delete_ok os h3 temporary)])
                          | (True, h3) \<Rightarrow>
                              ActivateTemporary os temporary target expectedSize expectedSha256 h3))))"

definition AtomicWrite ::
  "win_os \<Rightarrow> wstring \<Rightarrow> string \<Rightarrow> string \<Rightarrow> win_history \<Rightarrow> sec_result \<times> win_history" where
  "AtomicWrite os target data expectedSha256 h =
     (case memory_sha os data of
        None \<Rightarrow> (Some CrcError, h)
      | Some memorySha \<Rightarrow>
          if expectedSha256 \<noteq> [] \<and> \<not> HexEquals memorySha expectedSha256 then (Some CrcError, h)
          else AtomicWriteStream os target (length data) memorySha (Some (\<lambda>snk. snk data)) h)"

section \<open>What the target can be\<close>

text \<open>What has been written to a file since a history, and the producers that only use the sink.\<close>

fun written_to :: "wstring \<Rightarrow> win_history \<Rightarrow> string" where
  "written_to p [] = []"
| "written_to p (WinWrite q d # h) = (if q = p then d @ written_to p h else written_to p h)"
| "written_to p (_ # h) = written_to p h"

lemma written_to_append [simp]: "written_to p (h @ h') = written_to p h @ written_to p h'"
  by (induction h rule: written_to.induct) auto

locale stream_producer =
  fixes produce :: "'s producer"
  assumes through_sink: "\<And>P snk s. P s \<Longrightarrow> (\<And>c s. P s \<Longrightarrow> P (snd (snk c s))) \<Longrightarrow> P (snd (produce snk s))"

text \<open>Only writes to the temporary file happen while it is filled.\<close>

definition is_write :: "wstring \<Rightarrow> win_event \<Rightarrow> bool" where
  "is_write p ev \<longleftrightarrow> (\<exists>d. ev = WinWrite p d)"

lemma is_write_simp [simp]: "is_write p (WinWrite q d) \<longleftrightarrow> p = q"
  by (auto simp: is_write_def)

lemma WriteExact_events:
  "WriteExact os f data h = (ok, h') \<Longrightarrow>
     \<exists>es. h' = h @ es \<and> list_all (is_write f) es \<and> (ok \<longrightarrow> written_to f es = data)"
proof (induction os f data h rule: WriteExact.induct)
  case (1 os f data h)
  show ?case
  proof (cases "data \<noteq> [] \<and> write_chunk os h f (take (2 ^ 20) data)")
    case True
    let ?c = "take (2 ^ 20) data"
    have rec: "WriteExact os f (drop (2 ^ 20) data) (h @ [WinWrite f ?c]) = (ok, h')"
      using 1(2) True by (subst (asm) WriteExact.simps) (simp add: Let_def)
    then obtain es where "h' = (h @ [WinWrite f ?c]) @ es" "list_all (is_write f) es"
      "ok \<longrightarrow> written_to f es = drop (2 ^ 20) data"
      using 1(1) [OF _ _ _ rec] True by blast
    then show ?thesis
      by (intro exI [of _ "WinWrite f ?c # es"]) auto
  next
    case False
    then show ?thesis using 1(2)
      by (subst (asm) WriteExact.simps) (auto simp: Let_def split: if_splits)
  qed
qed

definition filling :: "wstring \<Rightarrow> nat \<Rightarrow> win_history \<Rightarrow> stream \<Rightarrow> bool" where
  "filling file n h s \<longleftrightarrow>
     (\<exists>es. stream_history s = h @ es \<and> list_all (is_write file) es \<and> streamed s \<le> n)"

lemma sink_filling:
  assumes "filling file n h s" shows "filling file n h (snd (sink os file n c s))"
proof -
  obtain ok h1 where w: "WriteExact os file c (stream_history s) = (ok, h1)" by fastforce
  from WriteExact_events [OF this] assms show ?thesis
    by (cases ok) (auto simp: filling_def sink_def w)
qed

text \<open>The calls before the temporary file exists.\<close>

definition preparing :: "wstring \<Rightarrow> win_event \<Rightarrow> bool" where
  "preparing target ev \<longleftrightarrow>
     (\<exists>ok. ev = WinSetSecurity target ok) \<or> (\<exists>p a. ev = WinCreateNew p a \<and> a \<noteq> Created)"

lemma PrepareTarget_events:
  "PrepareTarget os target h = (r, h') \<Longrightarrow> \<exists>es. h' = h @ es \<and> list_all (preparing target) es"
  by (auto simp: PrepareTarget_def Let_def preparing_def split: option.splits attr_answer.splits
      dest!: HardenObject_cases)

lemma CreateTemporary_events:
  "CreateTemporary os parent n h = (r, h') \<Longrightarrow>
     \<exists>es. list_all (preparing target) es \<and>
       (case r of Inl e \<Rightarrow> h' = h @ es | Inr t \<Rightarrow> h' = h @ es @ [WinCreateNew t Created])"
proof (induction n arbitrary: h)
  case (Suc n)
  show ?case
  proof (cases "RandomTempName os h parent")
    case None
    then show ?thesis using Suc.prems by auto
  next
    case (Some t)
    show ?thesis
    proof (cases "create_new os h t")
      case Created
      then show ?thesis using Suc.prems Some by (auto intro: exI [of _ "[]"])
    next
      case AlreadyExists
      then have "CreateTemporary os parent n (h @ [WinCreateNew t AlreadyExists]) = (r, h')"
        using Suc.prems Some by simp
      from Suc.IH [OF this] obtain es where "list_all (preparing target) es"
        "case r of Inl e \<Rightarrow> h' = (h @ [WinCreateNew t AlreadyExists]) @ es
           | Inr u \<Rightarrow> h' = (h @ [WinCreateNew t AlreadyExists]) @ es @ [WinCreateNew u Created]" by blast
      then show ?thesis
        by (intro exI [of _ "WinCreateNew t AlreadyExists # es"])
          (auto simp: preparing_def [of target "WinCreateNew t AlreadyExists"] split: sum.splits)
    next
      case CreateFailed
      then show ?thesis using Suc.prems Some
        by (auto intro!: exI [of _ "[WinCreateNew t CreateFailed]"] simp: preparing_def)
    qed
  qed
qed auto

text \<open>
  The calls after the temporary file has been filled: given up, with the temporary file deleted at
  last and the target not replaced, or activated after its size and digest were verified.
\<close>

definition given_up :: "wstring \<Rightarrow> wstring \<Rightarrow> win_history \<Rightarrow> bool" where
  "given_up temporary target es \<longleftrightarrow>
     (\<exists>sec mov ok. es = sec @ mov @ [WinDelete temporary ok] \<and>
        sec \<in> {[], [WinSetSecurity temporary True], [WinSetSecurity temporary False]} \<and>
        mov \<in> {[], [WinMove temporary target False]})"

lemma given_upI:
  "given_up t target [WinDelete t ok]" "given_up t target [WinSetSecurity t b, WinDelete t ok]"
  "given_up t target [WinSetSecurity t b, WinMove t target False, WinDelete t ok]"
  unfolding given_up_def
  by (rule exI [of _ "[]"], rule exI [of _ "[]"], simp)
    (rule exI [of _ "[WinSetSecurity t b]"], rule exI [of _ "[]"], cases b, simp, simp,
     rule exI [of _ "[WinSetSecurity t b]"], rule exI [of _ "[WinMove t target False]"], cases b, simp, simp)

definition activated :: "win_os \<Rightarrow> wstring \<Rightarrow> wstring \<Rightarrow> nat \<Rightarrow> string \<Rightarrow> win_history \<Rightarrow> sec_result \<Rightarrow>
  win_history \<Rightarrow> bool" where
  "activated os temporary target n sha h r es \<longleftrightarrow>
     (\<exists>post. es = [WinSetSecurity temporary True, WinMove temporary target True] @ post \<and>
        matches os (h @ [WinSetSecurity temporary True]) temporary n sha \<and>
        post \<in> {[], [WinSetSecurity target True], [WinSetSecurity target False]} \<and>
        (r = None \<longrightarrow> post = [WinSetSecurity target True] \<and> matches os (h @ es) target n sha \<and>
           (\<exists>obj. open_object os (h @ es) target = Some obj \<and> protected_object obj KindFile)))"

lemma ActivateTemporary_events:
  assumes "ActivateTemporary os t target n sha h = (r, h')"
  shows "\<exists>es. h' = h @ es \<and> (r \<noteq> None \<and> given_up t target es \<or> activated os t target n sha h r es)"
proof -
  obtain e h1 where hard: "HardenObject os t KindFile h = (e, h1)" by fastforce
  note c = HardenObject_cases [OF hard]
  consider (hfail) x where "e = Some x" | (bad) "e = None" "\<not> matches os h1 t n sha"
    | (good) "e = None" "matches os h1 t n sha" by (cases e) auto
  then show ?thesis
  proof cases
    case hfail
    then show ?thesis using assms hard c
      by (auto simp: ActivateTemporary_def Let_def given_upI)
  next
    case bad
    then show ?thesis using assms hard c
      by (auto simp: ActivateTemporary_def Let_def given_upI)
  next
    case good
    then have h1: "h1 = h @ [WinSetSecurity t True]" using c by auto
    let ?h2 = "h1 @ [WinMove t target (move_ok os h1 t target)]"
    show ?thesis
    proof (cases "move_ok os h1 t target")
      case False
      then show ?thesis using assms hard good h1
        by (auto simp: ActivateTemporary_def Let_def given_upI)
    next
      case True
      obtain e2 h3 where hard2: "HardenObject os target KindFile ?h2 = (e2, h3)" by fastforce
      note c2 = HardenObject_cases [OF hard2]
      consider "h' = ?h2" "r \<noteq> None" | "h' = h3" "r \<noteq> None"
        | "h' = h3" "r = None" "e2 = None" "matches os h3 target n sha"
        using assms hard hard2 good True
        by (cases "ValidateObject os ?h2 target KindFile True"; cases e2)
          (auto simp: ActivateTemporary_def Let_def split: if_splits; metis)+
      then show ?thesis
        using c2 h1 True good(2) by cases (auto simp: activated_def)
    qed
  qed
qed

text \<open>
  The whole call: refused before a temporary file exists; or a temporary file was created, filled by
  writes to it alone, and then given up or activated. \<open>D\<close> is what the written data are to satisfy
  when they are activated.
\<close>

definition atomic_outcome ::
  "(string \<Rightarrow> bool) \<Rightarrow> win_os \<Rightarrow> wstring \<Rightarrow> nat \<Rightarrow> string \<Rightarrow> win_history \<Rightarrow> sec_result \<Rightarrow> win_history \<Rightarrow> bool" where
  "atomic_outcome D os target n sha h r h' \<longleftrightarrow>
     (\<exists>pre. list_all (preparing target) pre \<and>
        (h' = h @ pre \<and> r \<noteq> None \<or>
         (\<exists>t ws es. h' = h @ pre @ [WinCreateNew t Created] @ ws @ es \<and> list_all (is_write t) ws \<and>
            (r \<noteq> None \<and> given_up t target es \<or>
             D (written_to t ws) \<and>
             activated os t target n sha (h @ pre @ [WinCreateNew t Created] @ ws) r es))))"

lemma AtomicWriteStream_outcome:
  assumes fill: "\<And>t h1 ok h2. FillTemporary os t n produce h1 = (ok, h2) \<Longrightarrow>
      \<exists>ws. h2 = h1 @ ws \<and> list_all (is_write t) ws \<and> (ok \<longrightarrow> D (written_to t ws))"
    and run: "AtomicWriteStream os target n sha (Some produce) h = (r, h')"
  shows "atomic_outcome D os target n sha h r h'"
proof -
  obtain r1 h1 where p: "PrepareTarget os target h = (r1, h1)" by fastforce
  obtain pre where pre: "h1 = h @ pre" "list_all (preparing target) pre"
    using PrepareTarget_events [OF p] by blast
  obtain c h2 where ct: "CreateTemporary os (ParentOf os target) 16 h1 = (c, h2)" by fastforce
  obtain tries where tries: "list_all (preparing target) tries"
    "case c of Inl e \<Rightarrow> h2 = h1 @ tries | Inr t \<Rightarrow> h2 = h1 @ tries @ [WinCreateNew t Created]"
    using CreateTemporary_events [OF ct, of target] by blast
  consider (refused) q where "h' = h @ q" "list_all (preparing target) q" "r \<noteq> None" | (none) e where "c = Inl e" "h' = h2" "r \<noteq> None"
    | (made) t where "c = Inr t" "length sha = 64" "r1 = None"
  proof (cases "length sha = 64 \<and> r1 = None")
    case True
    then show ?thesis using run p ct that by (cases c) (auto simp: AtomicWriteStream_def)
  next
    case False
    then show ?thesis using run p pre that(1) [of "[]"] that(1) [of pre]
      by (cases "length sha = 64"; cases r1) (auto simp: AtomicWriteStream_def)
  qed
  then show ?thesis
  proof cases
    case refused
    then show ?thesis using pre by (auto simp: atomic_outcome_def)
  next
    case none
    then show ?thesis using pre tries
      by (auto simp: atomic_outcome_def intro!: exI [of _ "pre @ tries"])
  next
    case made
    obtain ok h3 where f: "FillTemporary os t n produce h2 = (ok, h3)" by fastforce
    obtain ws where ws: "h3 = h2 @ ws" "list_all (is_write t) ws" "ok \<longrightarrow> D (written_to t ws)"
      using fill [OF f] by blast
    have h3: "h3 = h @ (pre @ tries) @ [WinCreateNew t Created] @ ws" using ws pre tries made by simp
    have "\<exists>es. h' = h3 @ es \<and> (r \<noteq> None \<and> given_up t target es \<or>
        D (written_to t ws) \<and> activated os t target n sha h3 r es)"
    proof (cases ok)
      case True
      then have "ActivateTemporary os t target n sha h3 = (r, h')"
        using run p ct made f by (simp add: AtomicWriteStream_def)
      from ActivateTemporary_events [OF this] show ?thesis using ws True by blast
    next
      case False
      then show ?thesis using run p ct made f
        by (auto simp: AtomicWriteStream_def given_upI)
    qed
    then obtain es where es: "h' = h3 @ es" "r \<noteq> None \<and> given_up t target es \<or>
        D (written_to t ws) \<and> activated os t target n sha h3 r es" by blast
    show ?thesis unfolding atomic_outcome_def
      by (intro exI [where x = "pre @ tries"], intro conjI disjI2, use pre tries in simp,
          rule exI [where x = t], rule exI [where x = ws], rule exI [where x = es])
        (use h3 ws es in simp)
  qed
qed

context stream_producer
begin

lemma keeps:
  "P s \<Longrightarrow> (\<And>c s. P s \<Longrightarrow> P (snd (snk c s))) \<Longrightarrow> produce snk s = (ok, s') \<Longrightarrow> P s'"
  using through_sink [of P s snk] by simp

end

lemma FillTemporary_events:
  assumes "stream_producer produce" "FillTemporary os t n produce h = (ok, h')"
  shows "\<exists>ws. h' = h @ ws \<and> list_all (is_write t) ws"
proof (cases "\<exists>obj. open_object os h t = Some obj \<and> CheckHandle obj KindFile True = None")
  case True
  obtain ok' s where p: "produce (sink os t n) \<lparr>stream_history = h, streamed = 0\<rparr> = (ok', s)" by fastforce
  have fills: "filling t n h s"
    using stream_producer.keeps [where P = "filling t n h", OF assms(1) _ sink_filling p]
    by (simp add: filling_def)
  from fills obtain es where "stream_history s = h @ es" "list_all (is_write t) es" by (auto simp: filling_def)
  moreover have "h' = stream_history s" using assms(2) True p by (auto simp: FillTemporary_def)
  ultimately show ?thesis by blast
next
  case False
  then show ?thesis using assms(2) by (auto simp: FillTemporary_def split: option.splits)
qed

text \<open>The producer of \<^verbatim>\<open>AtomicWrite\<close>.\<close>

interpretation one_chunk: stream_producer "\<lambda>snk. snk data"
  by unfold_locales blast

lemma FillTemporary_one_chunk:
  assumes "FillTemporary os t (length data) (\<lambda>snk. snk data) h = (ok, h')"
  shows "\<exists>ws. h' = h @ ws \<and> list_all (is_write t) ws \<and> (ok \<longrightarrow> written_to t ws = data)"
proof (cases "ok")
  case True
  then obtain obj s where s: "sink os t (length data) data \<lparr>stream_history = h, streamed = 0\<rparr> = (True, s)"
    "h' = stream_history s"
    using assms by (auto simp: FillTemporary_def split: option.splits if_splits prod.splits)
  then obtain h1 where "WriteExact os t data h = (True, h1)" "h' = h1"
    by (auto simp: sink_def split: if_splits prod.splits bool.splits)
  then show ?thesis using WriteExact_events True by blast
next
  case False
  then show ?thesis using FillTemporary_events [OF one_chunk.stream_producer_axioms assms] by blast
qed

text \<open>
  C3. \<^verbatim>\<open>AtomicWrite\<close> is atomic and leaves no debris: whatever the system answers, the target is never
  written to; either the call is refused before a temporary file exists, or a new temporary file is
  created and receives the data and nothing else, and then it is deleted as the last call and the target
  is untouched, or it is renamed over the target, which happens only after the file holds exactly the
  given data and its size and SHA-256 have been read back; success is reported only when
  the target's protection, size and digest have been verified after the rename as well.
\<close>

theorem AtomicWrite_atomic:
  "case AtomicWrite os target data expectedSha256 h of
     (r, h') \<Rightarrow>
       h' = h \<and> r \<noteq> None \<or>
       (\<exists>sha. memory_sha os data = Some sha \<and>
          atomic_outcome (\<lambda>d. d = data) os target (length data) sha h r h')"
proof -
  obtain r h' where r: "AtomicWrite os target data expectedSha256 h = (r, h')" by fastforce
  have "h' = h \<and> r \<noteq> None \<or>
    (\<exists>sha. memory_sha os data = Some sha \<and>
       AtomicWriteStream os target (length data) sha (Some (\<lambda>snk. snk data)) h = (r, h'))"
    using r by (auto simp: AtomicWrite_def split: option.splits if_splits)
  then show ?thesis
    using AtomicWriteStream_outcome [OF FillTemporary_one_chunk] r by auto
qed

end
