(* ===== verification/HttpClient.thy ===== *)
theory HttpClient
  imports SecureWrite
begin

text \<open>
  The HTTPS client of \<^verbatim>\<open>src/src/update/WinHttpClient.cpp\<close>: the redirect policy, the loop over the
  redirects, the transfer of the body with its limits, and the download into a protected file. What
  WinHTTP answers is given per request; the waiting on the asynchronous handle, deadlines and the
  cancellation flag appear as the error or the cancellation they end in.
\<close>

section \<open>Data\<close>

datatype HttpStatus = HttpOk | NotModified | Cancelled | InvalidUrl | InsecureRedirect | RedirectLimit
  | Timeout | TooLarge | Truncated | HttpError | WinHttpError

record HttpResult =
  status :: HttpStatus
  win32Error :: nat
  httpStatus :: nat
  etag :: wstring

definition empty_result :: HttpResult where
  "empty_result = \<lparr>status = WinHttpError, win32Error = 0, httpStatus = 0, etag = []\<rparr>"

definition IsAllowedRedirect :: "wstring \<Rightarrow> bool" where
  "IsAllowedRedirect location \<longleftrightarrow>
     length location \<le> 2048 \<and> starts_with (W ''https://'') location \<and>
     WC (CHR ''@'') \<notin> set (drop 8 location) \<and>
     \<not> list_ex (\<lambda>c. c \<in> {WC (CHR 0x0D), WC (CHR 0x0A), WC (CHR 0x09), WC (CHR 0x5C)}) location"

definition ClassifyWinHttpError :: "nat \<Rightarrow> HttpStatus" where
  \<comment> \<open>\<^verbatim>\<open>ERROR_OPERATION_ABORTED\<close>, \<^verbatim>\<open>ERROR_WINHTTP_OPERATION_CANCELLED\<close>, \<^verbatim>\<open>ERROR_WINHTTP_TIMEOUT\<close>\<close>
  "ClassifyWinHttpError err =
     (if err = 995 \<or> err = 12017 then Cancelled else if err = 12002 then Timeout else WinHttpError)"

text \<open>
  What happens when the body is read: the flag is found set, the read ends in an error, or it delivers
  bytes (none at the end), together with whether the flag is set when the sink has refused them.
\<close>

datatype read_answer = ReadCancelled | ReadError nat | ReadBytes string bool

text \<open>The answer to one request.\<close>

record exchange =
  flag_set :: bool \<comment> \<open>\<^verbatim>\<open>Cancelled(options)\<close> at the start of the round\<close>
  url_cracked :: bool \<comment> \<open>\<^verbatim>\<open>WinHttpCrackUrl\<close> succeeds with the scheme HTTPS\<close>
  transport_error :: "nat option" \<comment> \<open>the first failing call up to the status code\<close>
  status_code :: nat
  etag_header :: "wstring option"
  location_header :: "(nat + wstring) option" \<comment> \<open>absent or malformed, an error of the query, or the text\<close>
  content_length :: "nat option"
  body_reads :: "read_answer list" \<comment> \<open>nothing more is delivered after the last\<close>

definition set_error :: "nat \<Rightarrow> HttpResult \<Rightarrow> HttpResult" where
  "set_error err r = r\<lparr>win32Error := err, status := ClassifyWinHttpError err\<rparr>"

section \<open>The body\<close>

text \<open>The loop that reads the body; the result's status is set by the caller unless it is \<open>Some\<close>.\<close>

fun ReadBody ::
  "nat \<Rightarrow> (string \<Rightarrow> 'k \<Rightarrow> bool \<times> 'k) \<Rightarrow> read_answer list \<Rightarrow> nat \<Rightarrow> HttpResult \<Rightarrow> 'k \<Rightarrow>
   (HttpResult + nat) \<times> 'k" where
  "ReadBody limit snk [] transferred r k = (Inr transferred, k)"
| "ReadBody limit snk (ReadCancelled # rs) transferred r k = (Inl (r\<lparr>status := Cancelled\<rparr>), k)"
| "ReadBody limit snk (ReadError err # rs) transferred r k = (Inl (set_error err r), k)"
| "ReadBody limit snk (ReadBytes d flag # rs) transferred r k =
     (if d = [] then (Inr transferred, k)
      else if limit < length d \<or> limit - length d < transferred
      then (Inl (r\<lparr>status := TooLarge\<rparr>), k)
      else (case snk d k of
              (False, k1) \<Rightarrow> (Inl (r\<lparr>status := if flag then Cancelled else Truncated\<rparr>), k1)
            | (True, k1) \<Rightarrow> ReadBody limit snk rs (transferred + length d) r k1))"

section \<open>One request\<close>

text \<open>The response of a round: finished with a result, or to be continued at a location.\<close>

datatype round_outcome = Finished HttpResult | Redirected wstring HttpResult

definition store_etag :: "wstring option \<Rightarrow> HttpResult \<Rightarrow> HttpResult" where
  "store_etag e r =
     (case e of
        None \<Rightarrow> r
      | Some t \<Rightarrow>
          if length t \<le> 512 \<and> \<not> list_ex (\<lambda>c. c = WC (CHR 0x0D) \<or> c = WC (CHR 0x0A)) t
          then r\<lparr>etag := t\<rparr> else r)"

definition HandleRedirect :: "(nat + wstring) option \<Rightarrow> bool \<Rightarrow> HttpResult \<Rightarrow> round_outcome" where
  "HandleRedirect location lastRound r =
     (if lastRound then Finished (r\<lparr>status := RedirectLimit\<rparr>)
      else (case location of
              None \<Rightarrow> Finished (r\<lparr>status := HttpError\<rparr>)
            | Some (Inl err) \<Rightarrow> Finished (set_error err r)
            | Some (Inr loc) \<Rightarrow>
                if \<not> IsAllowedRedirect loc then Finished (r\<lparr>status := InsecureRedirect\<rparr>)
                else Redirected loc r))"

definition HandleBody ::
  "nat \<Rightarrow> (nat \<Rightarrow> nat \<Rightarrow> bool) \<Rightarrow> (string \<Rightarrow> 'k \<Rightarrow> bool \<times> 'k) \<Rightarrow> exchange \<Rightarrow> HttpResult \<Rightarrow> 'k \<Rightarrow>
   HttpResult \<times> 'k" where
  "HandleBody limit responseHook snk x r k =
     (let declared = (case content_length x of None \<Rightarrow> 0 | Some n \<Rightarrow> n) in
      if limit < declared then (r\<lparr>status := TooLarge\<rparr>, k)
      else if \<not> responseHook (status_code x) declared then (r\<lparr>status := Truncated\<rparr>, k)
      else (case ReadBody limit snk (body_reads x) 0 r k of
              (Inl r1, k1) \<Rightarrow> (r1, k1)
            | (Inr transferred, k1) \<Rightarrow>
                if declared \<noteq> 0 \<and> transferred \<noteq> declared then (r\<lparr>status := Truncated\<rparr>, k1)
                else (r\<lparr>status := HttpOk\<rparr>, k1)))"

definition Request ::
  "nat \<Rightarrow> (nat \<Rightarrow> nat \<Rightarrow> bool) \<Rightarrow> (string \<Rightarrow> 'k \<Rightarrow> bool \<times> 'k) \<Rightarrow> exchange \<Rightarrow> bool \<Rightarrow> HttpResult \<Rightarrow> 'k \<Rightarrow>
   round_outcome \<times> 'k" where
  "Request limit responseHook snk x lastRound r k =
     (if flag_set x then (Finished (r\<lparr>status := Cancelled\<rparr>), k)
      else if \<not> url_cracked x then (Finished (r\<lparr>status := InvalidUrl\<rparr>), k)
      else (case transport_error x of
              Some err \<Rightarrow> (Finished (set_error err r), k)
            | None \<Rightarrow>
                let r1 = store_etag (etag_header x) (r\<lparr>httpStatus := status_code x\<rparr>) in
                if status_code x = 304 then (Finished (r1\<lparr>status := NotModified\<rparr>), k)
                else if 300 \<le> status_code x \<and> status_code x < 400
                then (HandleRedirect (location_header x) lastRound r1, k)
                else if status_code x \<noteq> 200 then (Finished (r1\<lparr>status := HttpError\<rparr>), k)
                else (case HandleBody limit responseHook snk x r1 k of (r2, k1) \<Rightarrow> (Finished r2, k1))))"

section \<open>The whole exchange\<close>

text \<open>
  The loop over the redirects with \<open>rounds\<close> further redirects allowed. \<open>server\<close> is what the network
  answers to a URL with the request headers; the URLs requested are returned in order.
\<close>

fun Rounds ::
  "nat \<Rightarrow> (nat \<Rightarrow> nat \<Rightarrow> bool) \<Rightarrow> (string \<Rightarrow> 'k \<Rightarrow> bool \<times> 'k) \<Rightarrow>
   (nat \<Rightarrow> wstring \<Rightarrow> wstring \<Rightarrow> exchange) \<Rightarrow> wstring \<Rightarrow> nat \<Rightarrow> wstring \<Rightarrow> HttpResult \<Rightarrow> 'k \<Rightarrow>
   HttpResult \<times> 'k \<times> wstring list" where
  "Rounds limit hook snk server headers 0 url r k =
     (case Request limit hook snk (server 0 url headers) True r k of
        (Finished r1, k1) \<Rightarrow> (r1, k1, [url])
      | (Redirected loc r1, k1) \<Rightarrow> (r1\<lparr>status := RedirectLimit\<rparr>, k1, [url]))"
| "Rounds limit hook snk server headers (Suc n) url r k =
     (case Request limit hook snk (server (Suc n) url headers) False r k of
        (Finished r1, k1) \<Rightarrow> (r1, k1, [url])
      | (Redirected loc r1, k1) \<Rightarrow>
          (case Rounds limit hook snk server headers n loc r1 k1 of
             (r2, k2, urls) \<Rightarrow> (r2, k2, url # urls)))"

definition request_headers :: "wstring \<Rightarrow> wstring" where
  "request_headers tag =
     (if tag = [] then [] else W ''If-None-Match: '' @ tag @ W [CHR 0x0D, CHR 0x0A])"

text \<open>
  \<^verbatim>\<open>WinHttpClient::Get\<close>; \<open>cancelled\<close> and \<open>session_error\<close> are what happens before the first round.
\<close>

definition HttpGet ::
  "nat \<Rightarrow> (nat \<Rightarrow> nat \<Rightarrow> bool) \<Rightarrow> (string \<Rightarrow> 'k \<Rightarrow> bool \<times> 'k) \<Rightarrow> bool \<Rightarrow> nat option \<Rightarrow>
   (nat \<Rightarrow> wstring \<Rightarrow> wstring \<Rightarrow> exchange) \<Rightarrow> nat \<Rightarrow> wstring \<Rightarrow> wstring \<Rightarrow> 'k \<Rightarrow> HttpResult \<times> 'k \<times> wstring list" where
  "HttpGet limit hook snk cancelled session_error server maxRedirects tag url k =
     (if 2048 < length url \<or> \<not> starts_with (W ''https://'') url
      then (empty_result\<lparr>status := InvalidUrl\<rparr>, k, [])
      else if cancelled then (empty_result\<lparr>status := Cancelled\<rparr>, k, [])
      else (case session_error of
              Some err \<Rightarrow> (set_error err empty_result, k, [])
            | None \<Rightarrow>
                Rounds limit hook snk server (request_headers tag) maxRedirects url empty_result k))"

text \<open>Without a body sink the bytes are appended to the body.\<close>

definition body_sink :: "string \<Rightarrow> string \<Rightarrow> bool \<times> string" where
  "body_sink d body = (True, body @ d)"

section \<open>Limits of an exchange\<close>

lemma ReadBody_total:
  "ReadBody limit snk rs n r k = (Inr m, k') \<Longrightarrow> n \<le> limit \<Longrightarrow> m \<le> limit"
  by (induction limit snk rs n r k rule: ReadBody.induct) (auto split: if_splits prod.splits bool.splits)

lemma ReadBody_sink:
  "ReadBody limit snk rs n r k = (x, k') \<Longrightarrow> P k \<Longrightarrow> (\<And>d k. P k \<Longrightarrow> P (snd (snk d k))) \<Longrightarrow> P k'"
proof (induction limit snk rs n r k rule: ReadBody.induct)
  case (4 limit snk d flag rs n r k)
  obtain ok k1 where s: "snk d k = (ok, k1)" by fastforce
  then have "P k1" using 4(4) [OF 4(3)] by (metis snd_conv)
  then show ?case using 4 s by (auto split: if_splits bool.splits)
qed auto

lemma ReadBody_error: "ReadBody limit snk rs n r k = (Inl r', k') \<Longrightarrow> status r' \<noteq> HttpOk"
  by (induction limit snk rs n r k rule: ReadBody.induct)
    (auto simp: set_error_def ClassifyWinHttpError_def split: if_splits prod.splits bool.splits)

lemma ReadBody_body:
  "ReadBody limit body_sink rs n r b = (x, b') \<Longrightarrow> n = length b \<Longrightarrow> n \<le> limit \<Longrightarrow>
     length b' \<le> limit \<and> (\<forall>m. x = Inr m \<longrightarrow> m = length b')"
proof (induction rs arbitrary: n b)
  case (Cons a rs)
  show ?case
  proof (cases a)
    case (ReadBytes d flag)
    show ?thesis
    proof (cases "d = [] \<or> limit < length d \<or> limit - length d < n")
      case True
      then show ?thesis using Cons.prems ReadBytes by (auto split: if_splits)
    next
      case False
      then have "ReadBody limit body_sink rs (n + length d) r (b @ d) = (x, b')"
        using Cons.prems(1) ReadBytes by (simp add: body_sink_def [of d b])
      moreover have "n + length d = length (b @ d)" "n + length d \<le> limit" using Cons.prems False by auto
      ultimately show ?thesis by (rule Cons.IH)
    qed
  qed (use Cons.prems in auto)
qed auto

text \<open>The exchange as a producer for a protected write uses the sink only.\<close>

lemma Request_sink:
  "Request limit hook snk x l r k = (y, k') \<Longrightarrow> P k \<Longrightarrow> (\<And>d k. P k \<Longrightarrow> P (snd (snk d k))) \<Longrightarrow> P k'"
  by (auto simp: Request_def HandleBody_def Let_def split: if_splits option.splits prod.splits sum.splits
      dest: ReadBody_sink [where P = P])

lemma Rounds_sink:
  "Rounds limit hook snk server hdr n url r k = (r', k', urls) \<Longrightarrow> P k \<Longrightarrow>
     (\<And>d k. P k \<Longrightarrow> P (snd (snk d k))) \<Longrightarrow> P k'"
proof (induction limit hook snk server hdr n url r k arbitrary: r' k' urls rule: Rounds.induct)
  case (1 limit hook snk server hdr url r k)
  obtain y k1 where q: "Request limit hook snk (server 0 url hdr) True r k = (y, k1)" by fastforce
  have "P k1" using Request_sink [where P = P, OF q 1(2)] 1(3) by blast
  then show ?case using 1(1) q by (cases y) auto
next
  case (2 limit hook snk server hdr n url r k)
  obtain y k1 where q: "Request limit hook snk (server (Suc n) url hdr) False r k = (y, k1)" by fastforce
  have k1: "P k1" using Request_sink [where P = P, OF q 2(3)] 2(4) by blast
  show ?case
  proof (cases y)
    case (Finished r1)
    then show ?thesis using 2(2) q k1 by simp
  next
    case (Redirected loc r1)
    obtain r2 k2 us where rec: "Rounds limit hook snk server hdr n loc r1 k1 = (r2, k2, us)" by (metis surj_pair)
    then have "P k2" using 2(1) [OF q [symmetric] Redirected rec k1] 2(4) by blast
    then show ?thesis using 2(2) q rec Redirected by simp
  qed
qed

lemma HttpGet_sink:
  "HttpGet limit hook snk c e server n tag url k = (r', k', urls) \<Longrightarrow> P k \<Longrightarrow>
     (\<And>d k. P k \<Longrightarrow> P (snd (snk d k))) \<Longrightarrow> P k'"
  by (auto simp: HttpGet_def split: if_splits option.splits dest: Rounds_sink [where P = P])

section \<open>Download into a protected file\<close>

text \<open>
  \<^verbatim>\<open>DownloadToProtectedFile\<close>. The producer runs the exchange and remembers its result in the state; the
  stream has a second component for that.
\<close>

definition download_hook :: "nat \<Rightarrow> nat \<Rightarrow> nat \<Rightarrow> bool" where
  "download_hook expectedSize st declared \<longleftrightarrow> declared = 0 \<or> declared = expectedSize"

definition download_producer ::
  "nat \<Rightarrow> bool \<Rightarrow> nat option \<Rightarrow> (nat \<Rightarrow> wstring \<Rightarrow> wstring \<Rightarrow> exchange) \<Rightarrow> nat \<Rightarrow> wstring \<Rightarrow> wstring \<Rightarrow> stream producer" where
  "download_producer expectedSize cancelled session_error server maxRedirects tag url snk s =
     (case HttpGet expectedSize (download_hook expectedSize) snk cancelled session_error server
             maxRedirects tag url s of
        (r, s1, urls) \<Rightarrow> (status r = HttpOk, s1))"

interpretation download: stream_producer "download_producer expectedSize cancelled err server n tag url"
proof
  fix P :: "stream \<Rightarrow> bool" and snk :: "string \<Rightarrow> stream \<Rightarrow> bool \<times> stream" and s
  assume P: "P s" "\<And>c s. P s \<Longrightarrow> P (snd (snk c s))"
  obtain r s1 urls where g: "HttpGet expectedSize (download_hook expectedSize) snk cancelled err server
             n tag url s = (r, s1, urls)" by (metis surj_pair)
  have "P s1" by (rule HttpGet_sink [OF g, where P = P]) (use P in auto)
  then show "P (snd (download_producer expectedSize cancelled err server n tag url snk s))"
    by (simp add: download_producer_def g)
qed

text \<open>Where the producer starts, when \<^verbatim>\<open>AtomicWriteStream\<close> gets to run it: the temporary file and the state.\<close>

definition producer_start :: "win_os \<Rightarrow> wstring \<Rightarrow> win_history \<Rightarrow> (wstring \<times> stream) option" where
  "producer_start os target h =
     (case PrepareTarget os target h of
        (Some e, h1) \<Rightarrow> None
      | (None, h1) \<Rightarrow>
          (case CreateTemporary os (ParentOf os target) 16 h1 of
             (Inl e, h2) \<Rightarrow> None
           | (Inr t, h2) \<Rightarrow>
               (case open_object os h2 t of
                  None \<Rightarrow> None
                | Some obj \<Rightarrow>
                    if CheckHandle obj KindFile True \<noteq> None then None
                    else Some (t, \<lparr>stream_history = h2, streamed = 0\<rparr>))))"

definition DownloadToProtectedFile ::
  "win_os \<Rightarrow> bool \<Rightarrow> nat option \<Rightarrow> (nat \<Rightarrow> wstring \<Rightarrow> wstring \<Rightarrow> exchange) \<Rightarrow> nat \<Rightarrow> wstring \<Rightarrow> nat \<Rightarrow> wstring \<Rightarrow>
   wstring \<Rightarrow> nat \<Rightarrow> string \<Rightarrow> win_history \<Rightarrow> HttpResult \<times> win_history" where
  "DownloadToProtectedFile os cancelled err server maxRedirects tag maxBytes url outputPath expectedSize
       expectedSha256 h =
     (if expectedSize = 0 \<or> maxBytes \<noteq> expectedSize \<or> length expectedSha256 \<noteq> 64
      then (empty_result\<lparr>status := InvalidUrl\<rparr>, h)
      else
        let produce = download_producer expectedSize cancelled err server maxRedirects tag url;
            (written, h1) = AtomicWriteStream os outputPath expectedSize expectedSha256 (Some produce) h;
            network = (case producer_start os outputPath h of
                         None \<Rightarrow> empty_result
                       | Some (t, s) \<Rightarrow>
                           fst (HttpGet expectedSize (download_hook expectedSize)
                             (sink os t expectedSize) cancelled err server maxRedirects tag url s)) in
        (if written \<noteq> None \<and> status network = HttpOk then network\<lparr>status := Truncated\<rparr> else network, h1))"

lemma AtomicWriteStream_None:
  assumes "AtomicWriteStream os target n sha (Some produce) h = (None, h')"
  shows "\<exists>t s. producer_start os target h = Some (t, s) \<and> fst (produce (sink os t n) s)"
proof -
  obtain h1 t h2 h3 where p: "PrepareTarget os target h = (None, h1)"
    "CreateTemporary os (ParentOf os target) 16 h1 = (Inr t, h2)"
    "FillTemporary os t n produce h2 = (True, h3)"
    using assms by (auto simp: AtomicWriteStream_def split: if_splits prod.splits option.splits sum.splits bool.splits)
  then show ?thesis
    by (auto simp: producer_start_def FillTemporary_def split: option.splits if_splits prod.splits)
qed

lemma download_outcome_cases:
  "case DownloadToProtectedFile os cancelled err server maxRedirects tag maxBytes url target n sha h of
     (res, h') \<Rightarrow>
       h' = h \<and> status res = InvalidUrl \<or>
       (\<exists>r. atomic_outcome (\<lambda>d. True) os target n sha h r h' \<and> (status res = HttpOk) = (r = None))"
proof (cases "n = 0 \<or> maxBytes \<noteq> n \<or> length sha \<noteq> 64")
  case True
  then show ?thesis by (auto simp: DownloadToProtectedFile_def)
next
  case False
  let ?produce = "download_producer n cancelled err server maxRedirects tag url"
  obtain r h' where w: "AtomicWriteStream os target n sha (Some ?produce) h = (r, h')" by fastforce
  have "atomic_outcome (\<lambda>d. True) os target n sha h r h'"
    by (rule AtomicWriteStream_outcome [OF _ w])
      (use FillTemporary_events [OF download.stream_producer_axioms] in blast)
  moreover obtain res where res: "DownloadToProtectedFile os cancelled err server maxRedirects tag maxBytes url
      target n sha h = (res, h')" "(status res = HttpOk) = (r = None)"
  proof -
    let ?net = "\<lambda>t s. fst (HttpGet n (download_hook n) (sink os t n) cancelled err server maxRedirects tag url s)"
    let ?network = "case producer_start os target h of None \<Rightarrow> empty_result | Some (t, s) \<Rightarrow> ?net t s"
    let ?res = "if r \<noteq> None \<and> status ?network = HttpOk then ?network\<lparr>status := Truncated\<rparr> else ?network"
    have "status ?network = HttpOk" if "r = None"
    proof -
      obtain t s where "producer_start os target h = Some (t, s)" "fst (?produce (sink os t n) s)"
        using AtomicWriteStream_None [OF w [unfolded \<open>r = None\<close>]] by blast
      then show ?thesis by (auto simp: download_producer_def split: prod.splits)
    qed
    then have "(status ?res = HttpOk) = (r = None)" by auto
    moreover have "DownloadToProtectedFile os cancelled err server maxRedirects tag maxBytes url target n sha h = (?res, h')"
      using False w by (simp add: DownloadToProtectedFile_def Let_def)
    ultimately show ?thesis using that by blast
  qed
  ultimately show ?thesis by auto
qed

lemma download_outcome:
  "DownloadToProtectedFile os cancelled err server maxRedirects tag maxBytes url target n sha h = (res, h') \<Longrightarrow>
     h' = h \<and> status res = InvalidUrl \<or>
     (\<exists>r. atomic_outcome (\<lambda>d. True) os target n sha h r h' \<and> (status res = HttpOk) = (r = None))"
  using download_outcome_cases [where os = os and cancelled = cancelled and err = err and server = server and
    maxRedirects = maxRedirects and tag = tag and maxBytes = maxBytes and url = url and target = target and
    n = n and sha = sha and h = h] by simp

text \<open>
  C30. A download puts a file in place only after verification: it reports success exactly when the
  protected write succeeded, which means the bytes went to a new temporary file whose size and SHA-256
  were those of the signed manifest before it replaced the target, and again afterwards; a
  cancelled, truncated, oversized or redirected transfer never touches the target.
\<close>

theorem DownloadToProtectedFile_verified:
  "case DownloadToProtectedFile os cancelled err server maxRedirects tag maxBytes url target n sha h of
     (res, h') \<Rightarrow>
       h' = h \<and> status res = InvalidUrl \<or>
       (\<exists>r. atomic_outcome (\<lambda>d. True) os target n sha h r h' \<and> (status res = HttpOk) = (r = None))"
  by (rule download_outcome_cases)

section \<open>What a request can lead to\<close>

definition etag_ok :: "wstring \<Rightarrow> bool" where
  "etag_ok t \<longleftrightarrow> length t \<le> 512 \<and> WC (CHR 0x0D) \<notin> set t \<and> WC (CHR 0x0A) \<notin> set t"

definition secure_url :: "wstring \<Rightarrow> bool" where
  "secure_url url \<longleftrightarrow> length url \<le> 2048 \<and> starts_with (W ''https://'') url"

lemma set_error_etag [simp]: "etag (set_error err r) = etag r"
  by (simp add: set_error_def)

lemma store_etag_ok: "etag_ok (etag r) \<Longrightarrow> etag_ok (etag (store_etag e r))"
  by (auto simp: store_etag_def etag_ok_def list_ex_iff split: option.splits)

lemma ReadBody_etag: "ReadBody limit snk rs n r k = (Inl r', k') \<Longrightarrow> etag r' = etag r"
  by (induction limit snk rs n r k rule: ReadBody.induct)
    (auto split: if_splits prod.splits bool.splits)

lemma HandleBody_facts:
  assumes "HandleBody limit hook body_sink x r [] = (r', body)"
  shows "etag r' = etag r \<and> length body \<le> limit"
proof -
  obtain y b where b: "ReadBody limit body_sink (body_reads x) 0 r [] = (y, b)" by fastforce
  have "length b \<le> limit" using ReadBody_body [OF b] by simp
  moreover have "y = Inl r1 \<Longrightarrow> etag r1 = etag r" for r1 using ReadBody_etag b by metis
  ultimately show ?thesis using assms b
    by (auto simp: HandleBody_def Let_def split: if_splits sum.splits)
qed

lemma Request_facts:
  assumes "Request limit hook body_sink x l r [] = (y, body)" "etag_ok (etag r)"
  shows "case y of Finished r' \<Rightarrow> etag_ok (etag r') \<and> length body \<le> limit
    | Redirected loc r' \<Rightarrow> etag_ok (etag r') \<and> body = [] \<and> IsAllowedRedirect loc"
proof -
  have e: "etag_ok (etag (store_etag t (r\<lparr>httpStatus := n\<rparr>)))" for t n
    using store_etag_ok [of "r\<lparr>httpStatus := n\<rparr>"] assms(2) by simp
  show ?thesis using assms
    by (auto simp: Request_def Let_def HandleRedirect_def e
        split: if_splits option.splits prod.splits sum.splits dest!: HandleBody_facts)
qed

lemma Rounds_facts:
  "Rounds limit hook body_sink server hdr n url r [] = (r', body, urls) \<Longrightarrow> etag_ok (etag r) \<Longrightarrow>
     secure_url url \<Longrightarrow>
     etag_ok (etag r') \<and> length body \<le> limit \<and> length urls \<le> Suc n \<and> list_all secure_url urls"
proof (induction n arbitrary: url r r' body urls)
  case 0
  obtain y k where q: "Request limit hook body_sink (server 0 url hdr) True r [] = (y, k)" by fastforce
  note f = Request_facts [OF q 0(2)]
  show ?case using 0 q f by (cases y) auto
next
  case (Suc n)
  obtain y k where q: "Request limit hook body_sink (server (Suc n) url hdr) False r [] = (y, k)" by fastforce
  note f = Request_facts [OF q Suc(3)]
  show ?case
  proof (cases y)
    case (Finished r1)
    then show ?thesis using Suc q f by auto
  next
    case (Redirected loc r1)
    obtain r2 k2 us where rec: "Rounds limit hook body_sink server hdr n loc r1 [] = (r2, k2, us)" by (metis surj_pair)
    have "secure_url loc" using f Redirected by (simp add: IsAllowedRedirect_def secure_url_def)
    then show ?thesis using Suc.IH [OF rec] Suc.prems q f rec Redirected by auto
  qed
qed

text \<open>
  A request stays within its limits whatever the servers answer: the body never exceeds the byte
  limit, at most \<^verbatim>\<open>maxRedirects + 1\<close> requests are made, each to an HTTPS URL of at most 2048
  characters, and an entity tag that is kept has at most 512 characters and no line break, so that
  sending it back in \<^verbatim>\<open>If-None-Match\<close> cannot add a header.
\<close>

lemma HttpGet_limits:
  "case HttpGet limit hook body_sink cancelled err server maxRedirects tag url [] of
     (r, body, urls) \<Rightarrow>
       etag_ok (etag r) \<and> length body \<le> limit \<and> length urls \<le> Suc maxRedirects \<and>
       list_all secure_url urls"
proof (cases "secure_url url \<and> \<not> cancelled \<and> err = None")
  case True
  obtain r body urls where g: "Rounds limit hook body_sink server (request_headers tag) maxRedirects url
      empty_result [] = (r, body, urls)" by (metis surj_pair)
  have "etag_ok (etag empty_result)" by (simp add: empty_result_def etag_ok_def)
  from Rounds_facts [OF g this] True show ?thesis
    by (auto simp: HttpGet_def g secure_url_def)
next
  case False
  then show ?thesis
    by (auto simp: HttpGet_def secure_url_def empty_result_def etag_ok_def set_error_def split: option.splits)
qed

end
