(* ===== verification/RuntimePaths.thy ===== *)
theory RuntimePaths
  imports RuntimeStateStore StringUtil
begin

text \<open>
  The locations on disk, \<^verbatim>\<open>src/src/core/RuntimePaths.cpp\<close>: all of them lie below the root in the
  known ProgramData folder, and only the committed version of the recorded runtime state selects the
  runtime directory.
\<close>

record RuntimePaths =
  ProgramDataRoot :: wstring
  LogsDir :: wstring
  ConfigPath :: wstring
  RuntimeRoot :: wstring
  UpdatesDir :: wstring
  UserDir :: wstring
  RuntimeVersionDir :: wstring
  BinDir :: wstring
  ListsDir :: wstring
  RuntimeVersion :: wstring

definition no_paths :: RuntimePaths where
  "no_paths = \<lparr>ProgramDataRoot = [], LogsDir = [], ConfigPath = [], RuntimeRoot = [], UpdatesDir = [],
     UserDir = [], RuntimeVersionDir = [], BinDir = [], ListsDir = [], RuntimeVersion = []\<rparr>"

definition below :: "wstring \<Rightarrow> string \<Rightarrow> wstring" where
  "below dir name = dir @ W [CHR 0x5C] @ W name"

text \<open>The directories below a root, for a version.\<close>

definition paths_at :: "wstring \<Rightarrow> wstring \<Rightarrow> RuntimePaths" where
  "paths_at root version =
     (let rr = below root ''runtime''; dir = rr @ W [CHR 0x5C] @ version in
      \<lparr>ProgramDataRoot = root, LogsDir = below root ''logs'',
       ConfigPath = below (below root ''user'') ''config.json'', RuntimeRoot = rr,
       UpdatesDir = below root ''updates'', UserDir = below root ''user'', RuntimeVersionDir = dir,
       BinDir = below dir ''bin'', ListsDir = below dir ''lists'', RuntimeVersion = version\<rparr>)"

text \<open>
  The constructor: \<open>programData\<close> is the answer of \<^verbatim>\<open>SHGetKnownFolderPath\<close> (empty when it fails),
  \<open>load\<close> the runtime state at a path, \<open>embedded\<close> the version built in. The suffix of test instances
  (\<^verbatim>\<open>CHEBURNET_E2E_INSTANCE\<close>) is not part of a normal build.
\<close>

definition MakeRuntimePaths ::
  "wstring \<Rightarrow> (wstring \<Rightarrow> StateResult) \<Rightarrow> (string \<Rightarrow> wstring) \<Rightarrow> wstring \<Rightarrow> wstring \<Rightarrow> RuntimePaths" where
  "MakeRuntimePaths programData load ToUtf16 embedded runtimeVersion =
     (if programData = [] then no_paths
      else
        let root = below programData ''CHEBURNET'';
            v1 = (if runtimeVersion \<noteq> [] then runtimeVersion
                  else (case load (below root ''active-runtime.json'') of
                          StateOk s \<Rightarrow> ToUtf16 (current s)
                        | _ \<Rightarrow> []));
            v2 = (if v1 = [] then embedded else v1) in
        paths_at root v2)"

definition ForOwnedRoot ::
  "wstring \<Rightarrow> (wstring \<Rightarrow> StateResult) \<Rightarrow> (string \<Rightarrow> wstring) \<Rightarrow> wstring \<Rightarrow> wstring \<Rightarrow> wstring \<Rightarrow> RuntimePaths" where
  "ForOwnedRoot programData load ToUtf16 embedded root runtimeVersion =
     paths_at root (RuntimeVersion (MakeRuntimePaths programData load ToUtf16 embedded runtimeVersion))"

definition WinwsExePath :: "RuntimePaths \<Rightarrow> wstring" where
  "WinwsExePath p = below (BinDir p) ''winws.exe''"

definition DiagnosticsReportPath :: "RuntimePaths \<Rightarrow> wstring" where
  "DiagnosticsReportPath p = below (LogsDir p) ''diagnostics.txt''"

definition ActiveRuntimePath :: "RuntimePaths \<Rightarrow> wstring" where
  "ActiveRuntimePath p = below (ProgramDataRoot p) ''active-runtime.json''"

definition StrategyCatalogPath :: "RuntimePaths \<Rightarrow> wstring" where
  "StrategyCatalogPath p = below (below (RuntimeVersionDir p) ''strategies'') ''catalog.json''"

definition EnsureDir :: "(wstring \<Rightarrow> 'w \<Rightarrow> bool \<times> 'w) \<Rightarrow> wstring \<Rightarrow> 'w \<Rightarrow> bool \<times> 'w" where
  "EnsureDir EnsureProtectedDirectory path w = (if path = [] then (False, w) else EnsureProtectedDirectory path w)"

section \<open>Everything is below the root\<close>

lemma below_prefix: "starts_with (dir @ W [CHR 0x5C]) (below dir name)"
  by (simp add: below_def starts_with_iff)

text \<open>
  The runtime selected at start is the explicit version, else the committed current version of a
  valid recorded state, else the embedded one; a pending version in the record never selects a
  directory, and every location lies below the product's directory in ProgramData.
\<close>

lemma MakeRuntimePaths_selects:
  "MakeRuntimePaths pd load U emb v =
     (if pd = [] then no_paths
      else paths_at (below pd ''CHEBURNET'')
        (if v \<noteq> [] then v
         else (case load (pd @ W [CHR 0x5C] @ W ''CHEBURNET'' @ W [CHR 0x5C] @ W ''active-runtime.json'') of
                 StateOk s \<Rightarrow> (if U (current s) = [] then emb else U (current s))
               | _ \<Rightarrow> emb))) \<and>
   list_all (\<lambda>f. pd = [] \<or> starts_with (below pd ''CHEBURNET'' @ W [CHR 0x5C]) (f (MakeRuntimePaths pd load U emb v)))
     [LogsDir, ConfigPath, RuntimeRoot, UpdatesDir, UserDir, RuntimeVersionDir, BinDir, ListsDir,
      WinwsExePath, DiagnosticsReportPath, ActiveRuntimePath, StrategyCatalogPath]"
proof (intro conjI)
  let ?r = "below pd ''CHEBURNET''"
  have "list_all (\<lambda>f. starts_with (?r @ W [CHR 0x5C]) (f (paths_at ?r w)))
     [LogsDir, ConfigPath, RuntimeRoot, UpdatesDir, UserDir, RuntimeVersionDir, BinDir, ListsDir,
      WinwsExePath, DiagnosticsReportPath, ActiveRuntimePath, StrategyCatalogPath]" for w
    by (simp add: paths_at_def Let_def below_def WinwsExePath_def DiagnosticsReportPath_def
        ActiveRuntimePath_def StrategyCatalogPath_def starts_with_iff)
  then show "list_all (\<lambda>f. pd = [] \<or> starts_with (?r @ W [CHR 0x5C]) (f (MakeRuntimePaths pd load U emb v)))
     [LogsDir, ConfigPath, RuntimeRoot, UpdatesDir, UserDir, RuntimeVersionDir, BinDir, ListsDir,
      WinwsExePath, DiagnosticsReportPath, ActiveRuntimePath, StrategyCatalogPath]"
    by (auto simp: MakeRuntimePaths_def Let_def list_all_iff)
qed (auto simp: MakeRuntimePaths_def Let_def below_def split: StateResult.splits)

end
