(* ===== verification/UpdateManager.thy ===== *)
theory UpdateManager
  imports UpdateManifest UpdatePackage Strategies RuntimePaths RuntimeActivation HttpClient
begin

text \<open>
  The update manager, \<^verbatim>\<open>src/src/update/UpdateManager.cpp\<close>, with the signature check of
  \<^verbatim>\<open>SignatureVerifier.cpp\<close>: checking for updates against the signed manifest, downloading an
  artifact, and applying a payload package. It composes the manifest, package, state, activation and
  strategy components. Message texts and log lines are left out.
\<close>

section \<open>Signatures\<close>

datatype SignatureStatus = Verified | InvalidEncoding | InvalidSignature | CryptoFailure | UnknownKey

definition DecodeBase64 :: "(string \<Rightarrow> string option) \<Rightarrow> string \<Rightarrow> string option" where
  \<comment> \<open>\<open>Crypt\<close> is the strict decoder \<^verbatim>\<open>CryptStringToBinaryA\<close>\<close>
  "DecodeBase64 Crypt encoded =
     (let e = rev (dropWhile (\<lambda>c. c \<in> {CHR 0x0D, CHR 0x0A, CHR '' '', CHR 0x09}) (rev encoded)) in
      if e = [] \<or> 256 < length e then None else Crypt e)"

text \<open>The CNG calls: the digest, and the outcome of verifying a digest and signature with a key.\<close>

datatype ecdsa_outcome = EcdsaSuccess | EcdsaInvalid | EcdsaError

definition VerifyEcdsaP256 ::
  "(string \<Rightarrow> string option) \<Rightarrow> (string \<Rightarrow> string option) \<Rightarrow> ('key \<Rightarrow> string \<Rightarrow> string \<Rightarrow> ecdsa_outcome) \<Rightarrow>
   string \<Rightarrow> string \<Rightarrow> 'key \<Rightarrow> SignatureStatus" where
  "VerifyEcdsaP256 Crypt Sha256 Bcrypt bytes signatureBase64 key =
     (case DecodeBase64 Crypt signatureBase64 of
        None \<Rightarrow> InvalidEncoding
      | Some signature \<Rightarrow>
          if length signature \<noteq> 64 then InvalidEncoding
          else (case Sha256 bytes of
                  None \<Rightarrow> CryptoFailure
                | Some digest \<Rightarrow>
                    (case Bcrypt key digest signature of
                       EcdsaSuccess \<Rightarrow> Verified
                     | EcdsaInvalid \<Rightarrow> InvalidSignature
                     | EcdsaError \<Rightarrow> CryptoFailure)))"

fun VerifyManifestSignature ::
  "(string \<times> 'key) list \<Rightarrow> (string \<Rightarrow> string \<Rightarrow> 'key \<Rightarrow> SignatureStatus) \<Rightarrow> string \<Rightarrow> string \<Rightarrow> string \<Rightarrow>
   SignatureStatus" where
  "VerifyManifestSignature [] verify manifestBytes signature kid = UnknownKey"
| "VerifyManifestSignature ((i, key) # keys) verify manifestBytes signature kid =
     (if kid = i then verify manifestBytes signature key
      else VerifyManifestSignature keys verify manifestBytes signature kid)"

section \<open>Staging names\<close>

definition wide_upper :: "wchar \<Rightarrow> wchar" where
  "wide_upper c = (if WC (CHR ''a'') \<le> c \<and> c \<le> WC (CHR ''z'') then c - 32 else c)"

definition staging_char :: "wchar \<Rightarrow> bool" where
  "staging_char c \<longleftrightarrow>
     (WC (CHR ''a'') \<le> c \<and> c \<le> WC (CHR ''z'')) \<or> (WC (CHR ''A'') \<le> c \<and> c \<le> WC (CHR ''Z'')) \<or>
     (WC (CHR ''0'') \<le> c \<and> c \<le> WC (CHR ''9'')) \<or> c = WC (CHR ''.'') \<or> c = WC (CHR ''_'') \<or>
     c = WC (CHR ''-'')"

definition IsSafeStagingFileName :: "wstring \<Rightarrow> bool" where
  \<comment> \<open>\<^verbatim>\<open>towupper\<close> is applied to the ASCII characters that passed the loop only\<close>
  "IsSafeStagingFileName name \<longleftrightarrow>
     \<not> (name = [] \<or> 128 < length name \<or> hd name = WC (CHR ''.'') \<or> last name = WC (CHR ''.'') \<or>
        last name = WC (CHR '' '')) \<and>
     list_all staging_char name \<and>
     (let base = map wide_upper (takeWhile (\<lambda>c. c \<noteq> WC (CHR ''.'')) name) in
      \<not> (base = W ''CON'' \<or> base = W ''PRN'' \<or> base = W ''AUX'' \<or> base = W ''NUL'') \<and>
      \<not> (length base = 4 \<and> (starts_with (W ''COM'') base \<or> starts_with (W ''LPT'') base) \<and>
         WC (CHR ''1'') \<le> base ! 3 \<and> base ! 3 \<le> WC (CHR ''9'')))"

section \<open>Checking for updates\<close>

definition SameArtifact :: "Artifact \<Rightarrow> Artifact \<Rightarrow> bool" where
  "SameArtifact a b \<longleftrightarrow>
     artifact_version a = artifact_version b \<and> url a = url b \<and> sha256 a = sha256 b \<and>
     artifact_size a = artifact_size b \<and> minimumSupportedVersion a = minimumSupportedVersion b \<and>
     minimumLauncherVersion a = minimumLauncherVersion b \<and> payloadSchema a = payloadSchema b \<and>
     strategySchema a = strategySchema b \<and> provider a = provider b \<and>
     upstreamReleaseUrl a = upstreamReleaseUrl b"

datatype CheckStatus = CheckCurrent | Available | Offline | Disabled | Rejected | CheckNotModified

record CheckResult =
  check_status :: CheckStatus
  manifest :: Manifest
  launcher_eligibility :: Eligibility
  payload_eligibility :: Eligibility

definition empty_manifest :: Manifest where
  "empty_manifest = \<lparr>manifest_schema = 0, manifest_channel = [], generatedAt = [], keyId = [],
     launcher = empty_artifact, payload = empty_artifact\<rparr>"

definition empty_check :: "CheckStatus \<Rightarrow> CheckResult" where
  "empty_check st = \<lparr>check_status = st, manifest = empty_manifest,
     launcher_eligibility = InvalidVersion, payload_eligibility = InvalidVersion\<rparr>"

text \<open>The process-wide cache: \<^verbatim>\<open>g_manifestEtag\<close> and \<^verbatim>\<open>g_verifiedManifestCache\<close>.\<close>

record update_cache =
  manifestEtag :: wstring
  verifiedManifest :: "CheckResult option"

definition empty_cache :: update_cache where
  "empty_cache = \<lparr>manifestEtag = [], verifiedManifest = None\<rparr>"

text \<open>
  The surroundings of a check: the answers to the two requests (for the manifest, given the entity
  tag; for the signature), the signature check, the recorded runtime state, the version and
  channel of the build and the embedded payload version.
\<close>

record check_env =
  get_manifest :: "wstring \<Rightarrow> HttpResult \<times> string"
  get_signature :: "HttpResult \<times> string"
  check_signature :: "string \<Rightarrow> string \<Rightarrow> string \<Rightarrow> SignatureStatus"
  runtime_state :: StateResult
  launcher_version :: string
  stable_channel :: bool
  embedded_version :: string

definition refused :: "Eligibility \<Rightarrow> Eligibility \<Rightarrow> bool" where
  "refused l p \<longleftrightarrow>
     l = DowngradeRejected \<or> p = DowngradeRejected \<or> l = PrereleaseRejected \<or> p = PrereleaseRejected \<or>
     p = SchemaUnsupported \<or> l = LauncherTooOld \<or> p = LauncherTooOld \<or> l = InvalidVersion \<or>
     p = InvalidVersion"

text \<open>From the verified manifest on: the decision, and the cache it leaves.\<close>

definition DecideUpdate ::
  "check_env \<Rightarrow> Manifest \<Rightarrow> wstring \<Rightarrow> update_cache \<Rightarrow> CheckResult \<times> update_cache" where
  "DecideUpdate env m tag cache =
     (let l = EvaluateLauncher m (launcher_version env) (stable_channel env);
          r0 = \<lparr>check_status = Rejected, manifest = m, launcher_eligibility = l,
                payload_eligibility = InvalidVersion\<rparr>;
          decide = (\<lambda>currentPayload.
            let p = EvaluatePayload m currentPayload (launcher_version env) (stable_channel env);
                r1 = r0\<lparr>payload_eligibility := p\<rparr> in
            if refused l p then (r1, cache)
            else let r2 = r1\<lparr>check_status := (if l = Upgrade \<or> p = Upgrade then Available else CheckCurrent)\<rparr> in
              (r2, \<lparr>manifestEtag = tag, verifiedManifest = Some r2\<rparr>)) in
      case runtime_state env of
        StateError e \<Rightarrow> (r0, cache)
      | StateMissing \<Rightarrow> decide (embedded_version env)
      | StateOk s \<Rightarrow> decide (current s))"

definition CheckNow :: "check_env \<Rightarrow> bool \<Rightarrow> update_cache \<Rightarrow> CheckResult \<times> update_cache" where
  "CheckNow env enabled cache =
     (if \<not> enabled then (empty_check Disabled, cache)
      else (case get_manifest env (manifestEtag cache) of
              (response, manifestBytes) \<Rightarrow>
                if status response = NotModified
                then (case verifiedManifest cache of
                        Some r \<Rightarrow> (r, cache)
                      | None \<Rightarrow> (empty_check Rejected, cache))
                else if status response \<noteq> HttpOk then (empty_check Offline, cache)
                else (case get_signature env of
                        (signature, signatureBytes) \<Rightarrow>
                          if status signature \<noteq> HttpOk then (empty_check Rejected, cache)
                          else (case ParseManifest manifestBytes (64 * 1024) of
                                  Inl e \<Rightarrow> (empty_check Rejected, cache)
                                | Inr m \<Rightarrow>
                                    if check_signature env manifestBytes signatureBytes (keyId m) \<noteq> Verified
                                    then (empty_check Rejected, cache)
                                    else DecideUpdate env m (etag response) cache))))"

section \<open>Downloading an artifact\<close>

text \<open>
  \<open>net\<close> is how the network answers: whether the operation is cancelled at the start, the error of opening
  a session, and the answers to the requests.
\<close>

definition DownloadVerified ::
  "win_os \<Rightarrow> bool \<times> nat option \<times> (nat \<Rightarrow> wstring \<Rightarrow> wstring \<Rightarrow> exchange) \<Rightarrow> (string \<Rightarrow> wstring) \<Rightarrow> RuntimePaths \<Rightarrow>
   update_cache \<Rightarrow> Artifact \<Rightarrow> wstring \<Rightarrow> win_history \<Rightarrow> wstring option \<times> win_history" where
  "DownloadVerified os net ToUtf16 paths cache artifact finalName h =
     (case verifiedManifest cache of
        None \<Rightarrow> (None, h)
      | Some r \<Rightarrow>
          if \<not> SameArtifact artifact (launcher (manifest r)) \<and> \<not> SameArtifact artifact (payload (manifest r))
          then (None, h)
          else if \<not> IsSafeStagingFileName finalName then (None, h)
          else (case EnsureProtectedDirectory os (UpdatesDir paths) h of
                  (Some e, h1) \<Rightarrow> (None, h1)
                | (None, h1) \<Rightarrow>
                    let stagedPath = UpdatesDir paths @ W [CHR 0x5C] @ finalName in
                    (case net of (cancelled, err, server) \<Rightarrow>
                       (case DownloadToProtectedFile os cancelled err server 4 [] (artifact_size artifact)
                               (ToUtf16 (url artifact)) stagedPath (artifact_size artifact)
                               (sha256 artifact) h1 of
                          (res, h2) \<Rightarrow>
                            if status res \<noteq> HttpOk then (None, h2)
                            else if \<not> ValidateArtifactFile (disk_size os h2 stagedPath) (disk_sha os h2 stagedPath)
                                        (artifact_size artifact) (sha256 artifact)
                            then (None, h2)
                            else (Some stagedPath, h2)))))"

section \<open>Staging names are plain file names\<close>

lemma WC_le: "(WC a :: wchar) \<le> WC b \<longleftrightarrow> a \<le> b"
  by (simp add: word_le_nat_alt unat_WC less_eq_char_def)

lemma WC_char_of: "unat (c :: wchar) < 256 \<Longrightarrow> WC (char_of (unat c)) = c"
  by (simp add: word_unat_eq_iff unat_WC of_char_of)

lemma staging_char_WC: "staging_char c \<Longrightarrow> \<exists>ch. c = WC ch \<and> staging_char (WC ch)"
proof -
  assume s: "staging_char c"
  then have "unat c < 256"
    by (auto simp: staging_char_def word_le_nat_alt unat_WC)
  then show ?thesis using s WC_char_of by metis
qed

text \<open>The upper-case form of a character.\<close>

definition up :: "char \<Rightarrow> char" where
  "up ch = (if IsLower ch then char_of (of_char ch - 32 :: nat) else ch)"

lemma wide_upper_WC:
  "wide_upper (WC ch) = WC (up ch)"
proof (cases "IsLower ch")
  case True
  then have r: "97 \<le> (of_char ch :: nat)" "(of_char ch :: nat) \<le> 122"
    by (simp_all add: IsLower_def less_eq_char_def)
  then have "(32 :: wchar) \<le> WC ch" by (simp add: word_le_nat_alt unat_WC)
  then have "(WC ch :: wchar) - 32 = WC (char_of (of_char ch - 32 :: nat))"
    using r by (simp add: word_unat_eq_iff unat_WC unat_sub of_char_of)
  then show ?thesis using True by (simp add: wide_upper_def up_def IsLower_def WC_le [symmetric])
next
  case False
  then have "\<not> (WC (CHR ''a'') \<le> (WC ch :: wchar) \<and> WC ch \<le> WC (CHR ''z''))"
    unfolding WC_le by (simp add: IsLower_def)
  then show ?thesis using False by (simp add: wide_upper_def up_def)
qed

lemma up_lower: "up (lower_char ch) = up ch"
proof (cases "IsUpper ch")
  case True
  then have r: "65 \<le> (of_char ch :: nat)" "(of_char ch :: nat) \<le> 90"
    by (simp_all add: IsUpper_def less_eq_char_def)
  then have l: "(of_char (lower_char ch) :: nat) = of_char ch + 32"
    using True by (simp add: lower_char_def of_char_of)
  then have "IsLower (lower_char ch)" using r by (simp add: IsLower_def less_eq_char_def)
  moreover have "\<not> IsLower ch" using r by (simp add: IsLower_def less_eq_char_def)
  ultimately show ?thesis by (simp add: up_def l)
qed (simp add: lower_char_def)

lemma wide_upper_W: "map wide_upper (W b) = W (map up (map lower_char b))"
  by (simp add: wide_upper_WC up_lower)

lemma staging_W: "list_all staging_char name \<Longrightarrow> \<exists>s. name = W s \<and> list_all (\<lambda>c. staging_char (WC c)) s"
proof (induction name)
  case (Cons c name)
  then obtain s where "name = W s" "list_all (\<lambda>c. staging_char (WC c)) s" by auto
  moreover obtain ch where "c = WC ch" "staging_char (WC ch)"
    using Cons.prems staging_char_WC [of c] by auto
  ultimately show ?case by (intro exI [of _ "ch # s"]) simp
qed simp

lemma staging_not_bad: "staging_char (WC c) \<Longrightarrow>
    \<not> bad_component_char c \<and> c \<notin> {CHR ''/'', CHR 0x5C, CHR '':'', CHR '' ''}"
  unfolding staging_char_def WC_le WC_eq
  by (auto simp: bad_component_char_def less_eq_char_def less_char_def)

lemma not_reserved:
  assumes "\<not> (base = W ''CON'' \<or> base = W ''PRN'' \<or> base = W ''AUX'' \<or> base = W ''NUL'')"
    "\<not> (length base = 4 \<and> (starts_with (W ''COM'') base \<or> starts_with (W ''LPT'') base) \<and>
       WC (CHR ''1'') \<le> base ! 3 \<and> base ! 3 \<le> WC (CHR ''9''))"
    "base = map wide_upper (W b)"
  shows "\<not> reserved_device (map lower_char b)"
proof
  let ?l = "map lower_char b"
  have base: "base = W (map up ?l)" using assms(3) wide_upper_W by simp
  have names: "map up ''con'' = ''CON''" "map up ''prn'' = ''PRN''" "map up ''aux'' = ''AUX''"
    "map up ''nul'' = ''NUL''" "map up ''com'' = ''COM''" "map up ''lpt'' = ''LPT''"
    by (code_simp)+
  assume "reserved_device ?l"
  then consider "?l \<in> {''con'', ''prn'', ''aux'', ''nul''}"
    | p where "length ?l = 4" "p \<in> {''com'', ''lpt''}" "starts_with p ?l" "CHR ''1'' \<le> ?l ! 3" "?l ! 3 \<le> CHR ''9''"
    unfolding reserved_device_def insert_iff empty_iff by blast
  then show False
  proof cases
    case 1
    then have "map up ?l \<in> {''CON'', ''PRN'', ''AUX'', ''NUL''}" using names by (elim insertE) simp_all
    then show False using assms(1) unfolding base by auto
  next
    case 2
    then obtain r where r: "?l = p @ r" by (auto simp: starts_with_iff)
    then obtain d where d: "r = [d]" "length p = 3" using 2 by (cases r) auto
    have "?l ! 3 = d" unfolding r d(1) using d(2) by (simp add: nth_append)
    then have dig: "CHR ''1'' \<le> d" "d \<le> CHR ''9''" using 2 by auto
    then have "up d = d" by (simp add: up_def IsLower_def less_eq_char_def)
    then have b: "base = W (map up p) @ [WC d]" unfolding base r d by simp
    have "map up p \<in> {''COM'', ''LPT''}" using 2 names by auto
    then have "starts_with (W ''COM'') base \<or> starts_with (W ''LPT'') base" 
      unfolding b using starts_with_append by (metis empty_iff insert_iff)
    moreover have "length base = 4" "base ! 3 = WC d" using b d by (simp_all add: nth_append)
    ultimately show False using assms(2) dig by (simp add: WC_le [symmetric])
  qed
qed

text \<open>
  A staging name that is accepted is one plain ASCII component: it contains no separator, drive
  or stream colon, wildcard or space, is not \<^verbatim>\<open>.\<close> or \<^verbatim>\<open>..\<close>, does not end in a dot and does not name
  a device, with or without an extension, in any letter case; so the staged path is the updates
  directory followed by exactly that name.
\<close>

lemma IsSafeStagingFileName_plain:
  assumes "IsSafeStagingFileName name"
  shows "\<exists>s. name = W s \<and> safe_component s \<and> length s \<le> 128 \<and>
    set s \<inter> {CHR ''/'', CHR 0x5C, CHR '':'', CHR '' ''} = {} \<and>
    resolve dir (splits (WC CHR 0x5C) name) = dir @ [name]"
proof -
  obtain s where s: "name = W s" "list_all (\<lambda>c. staging_char (WC c)) s"
    using assms staging_W by (auto simp: IsSafeStagingFileName_def)
  have good: "\<not> bad_component_char c \<and> c \<notin> {CHR ''/'', CHR 0x5C, CHR '':'', CHR '' ''}" if "c \<in> set s" for c
    using staging_not_bad s(2) that by (auto simp: list_all_iff)
  have ne: "s \<noteq> []" "hd s \<noteq> CHR ''.''" "last s \<noteq> CHR ''.''" "length s \<le> 128"
    using assms s(1) WC_eq [of "hd s" "CHR ''.''"] WC_eq [of "last s" "CHR ''.''"]
    by (auto simp: IsSafeStagingFileName_def hd_map last_map simp del: WC_eq)
  have "takeWhile (\<lambda>c. c \<noteq> WC (CHR ''.'')) (W s) = W (takeWhile (\<lambda>c. c \<noteq> CHR ''.'') s)"
    unfolding takeWhile_map comp_def WC_eq ..
  then have "\<not> reserved_device (map lower_char (takeWhile (\<lambda>c. c \<noteq> CHR ''.'') s))"
    using assms not_reserved [of "map wide_upper (takeWhile (\<lambda>c. c \<noteq> WC (CHR ''.'')) name)"
        "takeWhile (\<lambda>c. c \<noteq> CHR ''.'') s"]
    unfolding IsSafeStagingFileName_def s(1) Let_def by metis
  moreover have "s \<noteq> ''.''" "s \<noteq> ''..''" using ne by auto
  moreover have "last s \<noteq> CHR '' ''" using good ne by (metis insertCI last_in_set)
  ultimately have safe: "safe_component s"
    using ne good by (auto simp: safe_component_def list_ex_iff)
  have "WC (CHR 0x5C) \<notin> set name" using good by (auto simp: s(1))
  moreover have "name \<noteq> []" "name \<noteq> W ''.''" "name \<noteq> W ''..''"
    using ne \<open>s \<noteq> ''.''\<close> \<open>s \<noteq> ''..''\<close> unfolding s(1) W_eq by simp_all
  ultimately have "resolve dir (splits (WC CHR 0x5C) name) = dir @ [name]"
    using resolve_plain [of "[name]" dir] by (simp add: splits_None)
  then show ?thesis using s(1) safe ne good by blast
qed

section \<open>Only authenticated manifests are acted on\<close>

lemma SameArtifact_iff: "SameArtifact a b \<longleftrightarrow> a = b"
  by (auto simp: SameArtifact_def intro: Artifact.equality)

text \<open>A manifest that was parsed from bytes whose signature by its own key was verified.\<close>

definition authentic :: "(string \<Rightarrow> string \<Rightarrow> string \<Rightarrow> SignatureStatus) \<Rightarrow> Manifest \<Rightarrow> bool" where
  "authentic sig m \<longleftrightarrow>
     (\<exists>bytes signature. ParseManifest bytes (64 * 1024) = Inr m \<and> sig bytes signature (keyId m) = Verified)"

text \<open>The sequence of the checks of a process, with any answers of the network and the system.\<close>

inductive cache_step :: "(string \<Rightarrow> string \<Rightarrow> string \<Rightarrow> SignatureStatus) \<Rightarrow> update_cache \<Rightarrow> update_cache \<Rightarrow> bool"
  for sig where
  "check_signature env = sig \<Longrightarrow> cache_step sig c (snd (CheckNow env enabled c))"

definition checked_result :: "(string \<Rightarrow> string \<Rightarrow> string \<Rightarrow> SignatureStatus) \<Rightarrow> CheckResult \<Rightarrow> bool" where
  "checked_result sig r \<longleftrightarrow>
     authentic sig (manifest r) \<and> \<not> refused (launcher_eligibility r) (payload_eligibility r) \<and>
     check_status r = (if launcher_eligibility r = Upgrade \<or> payload_eligibility r = Upgrade
                       then Available else CheckCurrent)"

definition cache_ok :: "(string \<Rightarrow> string \<Rightarrow> string \<Rightarrow> SignatureStatus) \<Rightarrow> update_cache \<Rightarrow> bool" where
  "cache_ok sig c \<longleftrightarrow> (\<forall>r. verifiedManifest c = Some r \<longrightarrow> checked_result sig r)"

lemma DecideUpdate_ok:
  assumes "DecideUpdate env m tag c = (r, c')" "authentic sig m" "cache_ok sig c"
  shows "cache_ok sig c' \<and> (check_status r \<noteq> Rejected \<longrightarrow> checked_result sig r)"
proof -
  let ?l = "EvaluateLauncher m (launcher_version env) (stable_channel env)"
  have "(check_status r = Rejected \<and> c' = c) \<or> (\<exists>p. \<not> refused ?l p \<and>
      r = \<lparr>check_status = (if ?l = Upgrade \<or> p = Upgrade then Available else CheckCurrent), manifest = m,
           launcher_eligibility = ?l, payload_eligibility = p\<rparr> \<and>
      c' = \<lparr>manifestEtag = tag, verifiedManifest = Some r\<rparr>)"
    using assms(1) by (auto simp: DecideUpdate_def Let_def split: StateResult.splits if_splits)
  then show ?thesis using assms(2,3) by (auto simp: cache_ok_def checked_result_def)
qed

lemma CheckNow_ok:
  assumes "CheckNow env enabled c = (r, c')" "check_signature env = sig" "cache_ok sig c"
  shows "cache_ok sig c' \<and> (check_status r \<in> {Available, CheckCurrent} \<longrightarrow> checked_result sig r)"
proof -
  consider (same) "c' = c" "check_status r \<notin> {Available, CheckCurrent} \<or> verifiedManifest c = Some r"
    | (decided) m tag where "authentic sig m" "DecideUpdate env m tag c = (r, c')"
    using assms(1,2) unfolding CheckNow_def authentic_def
    by (auto simp: empty_check_def split: if_splits prod.splits option.splits sum.splits)
  then show ?thesis
  proof cases
    case same
    then show ?thesis using assms(3) by (auto simp: cache_ok_def)
  next
    case decided
    then show ?thesis using DecideUpdate_ok [OF decided(2,1) assms(3)] by auto
  qed
qed

interpretation cache: inductive_invariant "\<lambda>c. c = empty_cache" "cache_step sig" "cache_ok sig"
proof
  show "cache_ok sig c" if "c = empty_cache" for c using that by (simp add: cache_ok_def empty_cache_def)
  show "cache_ok sig c'" if "cache_ok sig c" "cache_step sig c c'" for c c'
    using that(2,1) by cases (metis CheckNow_ok prod.collapse)
qed

text \<open>
  C4. No unsigned metadata is ever acted on: after any sequence of checks in a process, when a check
  reports that an update is available, or that the installation is current, the manifest it reports
  was parsed from bytes whose signature by the trusted key named in it was verified, none of the two
  decisions is a refusal, and \<^verbatim>\<open>Available\<close> is reported exactly when one of them is an upgrade. This
  covers the answers from the cache on HTTP 304.
\<close>

theorem CheckNow_authentic:
  assumes "reachable (\<lambda>c. c = empty_cache) (cache_step (check_signature env)) c"
    and "check_status (fst (CheckNow env enabled c)) \<in> {Available, CheckCurrent}"
  shows "checked_result (check_signature env) (fst (CheckNow env enabled c))"
  using CheckNow_ok [of env enabled c _ _ "check_signature env"] cache.inv_reachable [OF assms(1)] assms(2)
  by (metis prod.collapse)

text \<open>
  Downloads are bound to authenticated manifests: when a download succeeds after any sequence of
  checks, the artifact is the launcher or the payload of a manifest with a verified signature, its
  staged path is the updates directory and a plain file name, and the protected write has verified
  the size and the SHA-256 the manifest gives.
\<close>

lemma DownloadVerified_authentic:
  assumes "reachable (\<lambda>c. c = empty_cache) (cache_step sig) c"
    and "DownloadVerified os net U paths c artifact name h = (Some path, h')"
  shows "\<exists>m h1. authentic sig m \<and> (artifact = launcher m \<or> artifact = payload m) \<and>
    IsSafeStagingFileName name \<and> path = UpdatesDir paths @ W [CHR 0x5C] @ name \<and>
    atomic_outcome (\<lambda>d. True) os path (artifact_size artifact) (sha256 artifact) h1 None h'"
proof -
  obtain r where r: "verifiedManifest c = Some r"
    "artifact = launcher (manifest r) \<or> artifact = payload (manifest r)" "IsSafeStagingFileName name"
    using assms(2) by (auto simp: DownloadVerified_def SameArtifact_iff split: option.splits if_splits)
  then have auth: "authentic sig (manifest r)"
    using cache.inv_reachable [OF assms(1)] by (simp add: cache_ok_def checked_result_def)
  let ?p = "UpdatesDir paths @ W [CHR 0x5C] @ name"
  obtain e h1 where e: "EnsureProtectedDirectory os (UpdatesDir paths) h = (e, h1)" by fastforce
  obtain cn er sv where net: "net = (cn, er, sv)" by (metis surj_pair)
  obtain res h2 where d: "DownloadToProtectedFile os cn er sv 4 [] (artifact_size artifact) (U (url artifact)) ?p
      (artifact_size artifact) (sha256 artifact) h1 = (res, h2)" by fastforce
  have ok: "status res = HttpOk" "h' = h2" "path = ?p"
    using assms(2) r e net d
    by (auto simp: DownloadVerified_def SameArtifact_iff Let_def split: option.splits if_splits)
  then have "\<exists>r. atomic_outcome (\<lambda>d. True) os ?p (artifact_size artifact) (sha256 artifact) h1 r h2 \<and>
      (status res = HttpOk) = (r = None)"
    using download_outcome [OF d] by simp
  then show ?thesis using r auth ok by blast
qed

section \<open>Sample runs\<close>

text \<open>A server that offers the sample manifest, signed, to an installation of 1.8.4.\<close>

definition sample_ok :: HttpResult where
  "sample_ok = \<lparr>status = HttpOk, win32Error = 0, httpStatus = 200, etag = W ''v1''\<rparr>"

definition sample_check_env :: check_env where
  "sample_check_env = \<lparr>get_manifest = \<lambda>tag. if tag = W ''v1'' then (sample_ok\<lparr>status := NotModified\<rparr>, [])
       else (sample_ok, sample_manifest_text),
     get_signature = (sample_ok, ''sig''), check_signature = \<lambda>b s k. Verified,
     runtime_state = StateOk (empty_state\<lparr>current := ''1.8.4''\<rparr>), launcher_version = ''1.0.0'',
     stable_channel = True, embedded_version = ''1.8.0''\<rparr>"

definition sample_cache :: update_cache where
  "sample_cache = snd (CheckNow sample_check_env True empty_cache)"

lemma sample_cache_reachable:
  "reachable (\<lambda>c. c = empty_cache) (cache_step (check_signature sample_check_env)) sample_cache"
  unfolding sample_cache_def by (rule reachable.move [OF reachable.start]) (auto intro: cache_step.intros)

text \<open>The cache, evaluated once; the second check of the process is answered with HTTP 304.\<close>

lemma sample_decisions:
  "EvaluateLauncher sample_parsed ''1.0.0'' True = UpdateManifest.Current"
  "EvaluatePayload sample_parsed ''1.8.4'' ''1.0.0'' True = Upgrade"
  "EvaluatePayload sample_parsed ''1.8.5'' ''1.0.0'' True = UpdateManifest.Current"
  "artifact_version (payload sample_parsed) = ''1.8.5''"
  by code_simp+

lemmas sample_checks = CheckNow_def DecideUpdate_def refused_def sample_check_env_def sample_ok_def
  sample_manifest_parse [simplified] sample_decisions empty_cache_def Let_def

lemma sample_cache_code [code]:
  "sample_cache = \<lparr>manifestEtag = W ''v1'', verifiedManifest = Some
     \<lparr>check_status = Available, manifest = sample_parsed, launcher_eligibility = UpdateManifest.Current,
      payload_eligibility = Upgrade\<rparr>\<rparr>"
  by (simp add: sample_cache_def sample_checks)

theorem CheckNow_authentic_witness:
  "checked_result (check_signature sample_check_env) (fst (CheckNow sample_check_env True sample_cache))"
  by (rule CheckNow_authentic [OF sample_cache_reachable]) (simp add: sample_cache_code sample_checks)

text \<open>A system on which everything succeeds, with a file whose content is the body of five bytes.\<close>

definition sample_dirs :: "wstring list" where
  "sample_dirs = map (\<lambda>s. W s @ W [CHR 0x5C]) [''C:''] @
     [W ''C:'' @ W [CHR 0x5C] @ W ''d'']"

definition sample_object :: "ObjectKind \<Rightarrow> object_info" where
  "sample_object k = \<lparr>object_handle = Some \<lparr>is_reparse = False, is_directory = (k = KindDirectory), link_count = 1\<rparr>,
     object_security = Some \<lparr>sec_owner = SidAdministrators, sec_protected = True,
       sec_dacl = Some (expected_dacl k)\<rparr>\<rparr>"

definition sample_os :: win_os where
  "sample_os = \<lparr>get_full_path = Some, get_attributes = \<lambda>h p. AttrMissing,
     open_object = \<lambda>h p. Some (sample_object (if length p \<le> 4 then KindDirectory else KindFile)),
     create_directory = \<lambda>h p. AlreadyExists, set_security = \<lambda>h p. True, acl_ready = \<lambda>k. True,
     random_bytes = \<lambda>h. Some ''r'', create_new = \<lambda>h p. Created, write_chunk = \<lambda>h p d. True,
     flush_ok = \<lambda>h p. True, move_ok = \<lambda>h a b. True, delete_ok = \<lambda>h p. True, rmdir_ok = \<lambda>h p. True,
     disk_size = \<lambda>h p. Some 5, disk_sha = \<lambda>h p. Some (replicate 64 (CHR ''a'')),
     memory_sha = \<lambda>d. None\<rparr>"

definition sample_exchange :: exchange where
  "sample_exchange = \<lparr>flag_set = False, url_cracked = True, transport_error = None, status_code = 200,
     etag_header = None, location_header = None, content_length = Some 5,
     body_reads = [ReadBytes ''abc'' False, ReadBytes ''de'' False]\<rparr>"

definition sample_paths :: RuntimePaths where
  "sample_paths = no_paths\<lparr>UpdatesDir := W ''C:'' @ W [CHR 0x5C] @ W ''d''\<rparr>"

definition sample_artifact :: Artifact where
  "sample_artifact = (case verifiedManifest sample_cache of None \<Rightarrow> empty_artifact | Some r \<Rightarrow> launcher (manifest r))"

lemma DownloadVerified_authentic_witness:
  "\<exists>path h' (m :: Manifest). DownloadVerified sample_os (False, None, \<lambda>n u hdr. sample_exchange) (\<lambda>s. W s) sample_paths
      sample_cache sample_artifact (W ''n.exe'') [] = (Some path, h') \<and>
    (sample_artifact = launcher m \<or> sample_artifact = payload m)"
proof -
  have "(case DownloadVerified sample_os (False, None, \<lambda>n u hdr. sample_exchange) (\<lambda>s. W s) sample_paths
      sample_cache sample_artifact (W ''n.exe'') [] of (Some p, h') \<Rightarrow> True | _ \<Rightarrow> False)"
    by code_simp
  then obtain path h' where d: "DownloadVerified sample_os (False, None, \<lambda>n u hdr. sample_exchange) (\<lambda>s. W s)
      sample_paths sample_cache sample_artifact (W ''n.exe'') [] = (Some path, h')"
    by (auto split: prod.splits option.splits)
  from DownloadVerified_authentic [OF sample_cache_reachable d] d show ?thesis by blast
qed

text \<open>
  A cached answer is not re-evaluated: after the payload 1.8.5 has been installed, a check that
  is answered with HTTP 304 still reports 1.8.5 as an available upgrade, because the cached result
  carries the decision made against the version that was current before; the same manifest, sent in
  full, is judged to be current.
\<close>

definition after_update :: check_env where
  "after_update = sample_check_env\<lparr>runtime_state := StateOk (empty_state\<lparr>current := ''1.8.5''\<rparr>)\<rparr>"

lemma CheckNow_stale_cache:
  "check_status (fst (CheckNow after_update True sample_cache)) = Available \<and>
   payload_eligibility (fst (CheckNow after_update True sample_cache)) = Upgrade \<and>
   artifact_version (payload (manifest (fst (CheckNow after_update True sample_cache)))) = ''1.8.5'' \<and>
   check_status (fst (CheckNow after_update True empty_cache)) = CheckCurrent"
  by (simp add: after_update_def sample_cache_code sample_checks)

end
