(* ===== verification/PayloadApply.thy ===== *)
theory PayloadApply
  imports UpdateManager
begin

text \<open>
  \<^verbatim>\<open>UpdateManager::ApplyPayload\<close> of \<^verbatim>\<open>src/src/update/UpdateManager.cpp\<close>: the installation of a staged
  package as a new runtime and the switch to it. The surroundings extend the file system of
  \<open>FsTrace\<close> by the engine processes and by the verification of an installed runtime; the calls are recorded in
  the history.
\<close>

datatype PayloadApplyStatus = Applied | DownloadRejected | PackageRejected | PreflightRejected
  | StopRejected | StartRejected | HealthRejected | CommitRejected | ApplyRolledBack | ApplyRollbackFailed

record apply_env = fs_env +
  recorded_state :: "history \<Rightarrow> StateResult"   \<comment> \<open>\<^verbatim>\<open>LoadRuntimeState\<close>\<close>
  package_reads :: "string option list option"
  package_handles :: "package_handle option"
  installed_runtime :: "history \<Rightarrow> RuntimePaths \<Rightarrow> wstring + RuntimeStrategy list"   \<comment> \<open>\<^verbatim>\<open>VerifyInstalledRuntime\<close>\<close>
  manager_connected :: "history \<Rightarrow> bool"   \<comment> \<open>\<^verbatim>\<open>IsConnectedByUs\<close> of the process-wide manager\<close>
  candidate_connected :: "history \<Rightarrow> bool"   \<comment> \<open>of the manager of the candidate\<close>
  previous_healthy :: "history \<Rightarrow> bool"   \<comment> \<open>the record on disk is valid and its identity matches\<close>
  stop_ok :: "history \<Rightarrow> wstring \<Rightarrow> bool"   \<comment> \<open>\<^verbatim>\<open>Stopped\<close> or \<^verbatim>\<open>NotRunning\<close>\<close>
  start_ok :: "history \<Rightarrow> wstring \<Rightarrow> wstring list \<Rightarrow> bool"
  to_utf16 :: "string \<Rightarrow> wstring"
  paths_of :: "wstring \<Rightarrow> RuntimePaths"   \<comment> \<open>\<^verbatim>\<open>RuntimePaths(version)\<close>\<close>
  embedded :: string   \<comment> \<open>\<^verbatim>\<open>upstream::kVersion\<close>\<close>

definition stop_engine :: "'z apply_env_scheme \<Rightarrow> RuntimePaths \<Rightarrow> history \<Rightarrow> bool \<times> history" where
  "stop_engine env p h = (let ok = stop_ok env h (BinDir p) in (ok, h @ [StopEngine (BinDir p) ok]))"

definition start_engine ::
  "'z apply_env_scheme \<Rightarrow> RuntimePaths \<Rightarrow> wstring list \<Rightarrow> history \<Rightarrow> bool \<times> history" where
  "start_engine env p args h =
     (let ok = start_ok env h (WinwsExePath p) args in (ok, h @ [StartEngine (WinwsExePath p) args ok]))"

text \<open>\<^verbatim>\<open>SaveRuntimeState\<close> through the protected write.\<close>

definition save_state ::
  "'z apply_env_scheme \<Rightarrow> RuntimePaths \<Rightarrow> StoredRuntimeState \<Rightarrow> history \<Rightarrow> bool \<times> history" where
  "save_state env p s h =
     (case SaveRuntimeState (\<lambda>path text h. case write_file env path text h of
             (ok, h1) \<Rightarrow> (if ok then None else Some (W ''atomic write''), h1)) (ActiveRuntimePath p) s h of
        (None, h1) \<Rightarrow> (True, h1)
      | (Some e, h1) \<Rightarrow> (False, h1))"

text \<open>The last strategy of a catalog with an identifier: the loops do not stop at the first.\<close>

definition last_strategy :: "string \<Rightarrow> RuntimeStrategy list \<Rightarrow> RuntimeStrategy option" where
  "last_strategy i catalog =
     (let xs = filter (\<lambda>s. strategy_id s = i) catalog in if xs = [] then None else Some (last xs))"

section \<open>Before anything is touched\<close>

definition AdmitPayload ::
  "'z apply_env_scheme \<Rightarrow> update_cache \<Rightarrow> Artifact \<Rightarrow> string \<Rightarrow> history \<Rightarrow> PayloadApplyStatus + StoredRuntimeState" where
  "AdmitPayload env cache artifact kid h =
     (case verifiedManifest cache of
        None \<Rightarrow> Inl PreflightRejected
      | Some r \<Rightarrow>
          if kid \<noteq> keyId (manifest r) \<or> \<not> SameArtifact (payload (manifest r)) artifact
          then Inl PreflightRejected
          else
            let admit = (\<lambda>stored.
              case (ParseVersion (current stored), ParseVersion (artifact_version artifact)) of
                (Some cur, Some candidate) \<Rightarrow>
                  if CompareVersions candidate cur \<le> 0 \<or> payloadSchema artifact \<noteq> payload_schema_supported \<or>
                     strategySchema artifact \<noteq> strategy_schema_supported
                  then Inl PreflightRejected else Inr stored
              | _ \<Rightarrow> Inl PreflightRejected) in
            (case recorded_state env h of
               StateOk s \<Rightarrow> admit s
             | StateMissing \<Rightarrow> admit (empty_state\<lparr>current := embedded env\<rparr>)
             | StateError e \<Rightarrow> Inl PreflightRejected))"

definition ParseStaged ::
  "'z apply_env_scheme \<Rightarrow> RuntimePaths \<Rightarrow> Artifact \<Rightarrow> wstring \<Rightarrow> history \<Rightarrow> PackageInfo option" where
  "ParseStaged env paths artifact stagedPackage h =
     (if \<not> strict_descendant env (UpdatesDir paths) stagedPackage then None
      else (case parent_dir stagedPackage of
              None \<Rightarrow> None
            | Some dir \<Rightarrow>
                if \<not> components_ok env h dir \<or>
                   \<not> ValidateArtifactFile (file_size env h stagedPackage) (file_sha env h stagedPackage)
                       (artifact_size artifact) (sha256 artifact)
                then None
                else (case ParsePackageFile default_limits (file_ok env h stagedPackage)
                             (file_size env h stagedPackage) (package_reads env) of
                        Inl e \<Rightarrow> None
                      | Inr package \<Rightarrow>
                          if payloadVersion package \<noteq> artifact_version artifact \<or>
                             package_provider package \<noteq> provider artifact \<or>
                             package_payloadSchema package \<noteq> payloadSchema artifact \<or>
                             package_strategySchema package \<noteq> strategySchema artifact
                          then None else Some package)))"

section \<open>Installing the candidate\<close>

definition SelectStrategy :: "string \<Rightarrow> RuntimeStrategy list \<Rightarrow> RuntimeStrategy option" where
  "SelectStrategy wanted catalog =
     (case last_strategy wanted catalog of
        Some s \<Rightarrow> Some s
      | None \<Rightarrow> last_strategy ''general'' catalog)"

definition PreflightCandidate ::
  "'z apply_env_scheme \<Rightarrow> RuntimePaths \<Rightarrow> RuntimePaths \<Rightarrow> PackageInfo \<Rightarrow> string \<Rightarrow> history \<Rightarrow>
   (PayloadApplyStatus + RuntimeStrategy list \<times> RuntimeStrategy) \<times> history" where
  "PreflightCandidate env paths candidatePaths package wanted h =
     (let reject = (\<lambda>h. (Inl PreflightRejected,
            snd (remove_tree env (RuntimeRoot paths) (RuntimeVersionDir candidatePaths) h)));
          verified = VerifyExtractedPackage env h package (RuntimeVersionDir candidatePaths) in
      case installed_runtime env h candidatePaths of
        Inl e \<Rightarrow> reject h
      | Inr catalog \<Rightarrow>
          if verified \<noteq> None \<or> catalog = [] then reject h
          else (case SelectStrategy wanted catalog of
                  None \<Rightarrow> reject h
                | Some selected \<Rightarrow> (Inr (catalog, selected), h)))"

definition InstallCandidate ::
  "'z apply_env_scheme \<Rightarrow> RuntimePaths \<Rightarrow> RuntimePaths \<Rightarrow> PackageInfo \<Rightarrow> string \<Rightarrow> history \<Rightarrow>
   (PayloadApplyStatus + RuntimeStrategy list \<times> RuntimeStrategy) \<times> history" where
  "InstallCandidate env paths candidatePaths package wanted h =
     (let dir = RuntimeVersionDir candidatePaths;
          (cleared, h1) = (if path_exists env h dir then remove_tree env (RuntimeRoot paths) dir h else (True, h)) in
      if \<not> cleared then (Inl PackageRejected, h1)
      else (case ExtractPackage env (package_handles env) package (RuntimeRoot paths) dir h1 of
              (Some e, h2) \<Rightarrow> (Inl PackageRejected, h2)
            | (None, h2) \<Rightarrow> PreflightCandidate env paths candidatePaths package wanted h2))"

section \<open>Switching\<close>

text \<open>What the hooks share: fixed data, and as their world the history and whether there is a \<^verbatim>\<open>candidateManager\<close>.\<close>

record switch_plan =
  was_running :: bool
  candidate_version :: string
  candidate_paths :: RuntimePaths
  previous_paths :: RuntimePaths
  selected_strategy :: RuntimeStrategy
  rollback_strategy :: "RuntimeStrategy option"
  game_filter :: GameFilterMode

type_synonym switch_world = "history \<times> bool"

definition launch_arguments :: "RuntimeStrategy \<Rightarrow> RuntimePaths \<Rightarrow> GameFilterMode \<Rightarrow> wstring list" where
  "launch_arguments s p g = BuildArguments s (BinDir p) (ListsDir p) g (below (UserDir p) ''lists'')"

definition launchVersion ::
  "'z apply_env_scheme \<Rightarrow> switch_plan \<Rightarrow> string \<Rightarrow> switch_world \<Rightarrow> bool \<times> switch_world" where
  "launchVersion env plan version w =
     (case w of (h, hasCandidate) \<Rightarrow>
        if \<not> was_running plan then (True, w)
        else
          let isCandidate = (version = candidate_version plan);
              (freed, h1) = (if \<not> isCandidate \<and> hasCandidate then stop_engine env (candidate_paths plan) h
                             else (True, h));
              runPaths = (if isCandidate then candidate_paths plan else previous_paths plan) in
          if \<not> freed then (False, (h1, hasCandidate))
          else (case (if isCandidate then Some (selected_strategy plan) else rollback_strategy plan) of
                  None \<Rightarrow> (False, (h1, hasCandidate))
                | Some strategy \<Rightarrow>
                    (case start_engine env runPaths (launch_arguments strategy runPaths (game_filter plan)) h1 of
                       (False, h2) \<Rightarrow> (False, (h2, hasCandidate))
                     | (True, h2) \<Rightarrow> (True, (h2, isCandidate \<or> hasCandidate)))))"

definition healthVersion ::
  "'z apply_env_scheme \<Rightarrow> switch_plan \<Rightarrow> string \<Rightarrow> switch_world \<Rightarrow> bool \<times> switch_world" where
  "healthVersion env plan version w =
     ((if \<not> was_running plan then True
       else if version = candidate_version plan then snd w \<and> candidate_connected env (fst w)
       else previous_healthy env (fst w)), w)"

definition stopCurrentHook :: "'z apply_env_scheme \<Rightarrow> RuntimePaths \<Rightarrow> switch_plan \<Rightarrow> unit \<Rightarrow> switch_world \<Rightarrow> bool \<times> switch_world" where
  "stopCurrentHook env paths plan u w =
     (if \<not> was_running plan then (True, w)
      else (case stop_engine env paths (fst w) of (ok, h1) \<Rightarrow> (ok, (h1, snd w))))"

definition final_state :: "StoredRuntimeState \<Rightarrow> Artifact \<Rightarrow> string \<Rightarrow> RuntimeState \<Rightarrow> StoredRuntimeState" where
  "final_state stored artifact kid committed =
     stored\<lparr>current := active_version committed, previousKnownGood := known_good committed, pending := [],
       packageSha256 := sha256 artifact, manifestKeyId := kid,
       lastResult := ''payload-update-committed''\<rparr>"

definition commitHook ::
  "'z apply_env_scheme \<Rightarrow> RuntimePaths \<Rightarrow> StoredRuntimeState \<Rightarrow> Artifact \<Rightarrow> string \<Rightarrow> RuntimeState \<Rightarrow> switch_world \<Rightarrow>
   bool \<times> switch_world" where
  "commitHook env paths stored artifact kid committed w =
     (case save_state env paths (final_state stored artifact kid committed) (fst w) of
        (ok, h1) \<Rightarrow> (ok, (h1, snd w)))"

definition switch_hooks ::
  "'z apply_env_scheme \<Rightarrow> RuntimePaths \<Rightarrow> switch_plan \<Rightarrow> StoredRuntimeState \<Rightarrow> Artifact \<Rightarrow> string \<Rightarrow>
   switch_world ActivationHooks" where
  "switch_hooks env paths plan stored artifact kid =
     \<lparr>preflight = Some (\<lambda>version w. (version = artifact_version artifact, w)),
      stopCurrent = Some (stopCurrentHook env paths plan),
      start_hook = Some (launchVersion env plan),
      health = Some (healthVersion env plan),
      commit = Some (commitHook env paths stored artifact kid)\<rparr>"

definition rolled_back_state :: "StoredRuntimeState \<Rightarrow> Artifact \<Rightarrow> ActivationStatus \<Rightarrow> StoredRuntimeState" where
  "rolled_back_state stored artifact st =
     stored\<lparr>pending := [], packageSha256 := sha256 artifact,
       lastResult := (if st = RollbackFailed then ''payload-rollback-failed''
                      else ''payload-update-rolled-back'')\<rparr>"

text \<open>From \<^verbatim>\<open>ActivateRuntime\<close> to the end; the result carries the strategy registry.\<close>

definition SwitchRuntime ::
  "'z apply_env_scheme \<Rightarrow> RuntimePaths \<Rightarrow> switch_plan \<Rightarrow> StoredRuntimeState \<Rightarrow> Artifact \<Rightarrow> string \<Rightarrow>
   RuntimeStrategy list \<Rightarrow> RuntimeStrategy list \<Rightarrow> history \<Rightarrow> (PayloadApplyStatus \<times> RuntimeStrategy list) \<times> history" where
  "SwitchRuntime env paths plan stored artifact kid candidateCatalog registry h =
     (case ActivateRuntime \<lparr>active_version = current stored, known_good = previousKnownGood stored\<rparr>
             (artifact_version artifact) (switch_hooks env paths plan stored artifact kid) (h, False) of
        ((st, s), (h1, hasCandidate)) \<Rightarrow>
          if st = Activated then ((Applied, ActivateCatalog candidateCatalog registry), h1)
          else
            let h2 = (if hasCandidate \<and> candidate_connected env h1
                      then snd (stop_engine env (candidate_paths plan) h1) else h1);
                (restored, h3) = save_state env paths (rolled_back_state stored artifact st) h2 in
            ((if \<not> restored \<or> st = RollbackFailed then ApplyRollbackFailed
              else if st = StopFailed then StopRejected
              else if st = PreflightFailed then PreflightRejected
              else ApplyRolledBack, registry), h3))"

section \<open>The whole operation\<close>

text \<open>The strategies to roll back with: \<open>None\<close> when the previous runtime fails its verification.\<close>

definition RollbackCatalog ::
  "'z apply_env_scheme \<Rightarrow> bool \<Rightarrow> StoredRuntimeState \<Rightarrow> RuntimeStrategy list \<Rightarrow> history \<Rightarrow> RuntimeStrategy list option" where
  "RollbackCatalog env wasRunning stored registry h =
     (if \<not> wasRunning then Some []
      else if current stored = embedded env then Some registry
      else (case installed_runtime env h (paths_of env (to_utf16 env (current stored))) of
              Inl e \<Rightarrow> None
            | Inr catalog \<Rightarrow> Some catalog))"

definition RollbackStrategy :: "string \<Rightarrow> RuntimeStrategy list \<Rightarrow> RuntimeStrategy option" where
  "RollbackStrategy wanted catalog =
     (case last_strategy wanted catalog of
        Some s \<Rightarrow> Some s
      | None \<Rightarrow> (if catalog = [] then None else Some (hd catalog)))"

definition ApplyPayload ::
  "'z apply_env_scheme \<Rightarrow> RuntimePaths \<Rightarrow> update_cache \<Rightarrow> RuntimeStrategy list \<Rightarrow> Artifact \<Rightarrow> wstring \<Rightarrow> string \<Rightarrow>
   GameFilterMode \<Rightarrow> string \<Rightarrow> history \<Rightarrow> (PayloadApplyStatus \<times> RuntimeStrategy list) \<times> history" where
  "ApplyPayload env paths cache registry artifact stagedPackage wanted g kid h =
     (case AdmitPayload env cache artifact kid h of
        Inl st \<Rightarrow> ((st, registry), h)
      | Inr stored \<Rightarrow>
          (case ParseStaged env paths artifact stagedPackage h of
             None \<Rightarrow> ((PackageRejected, registry), h)
           | Some package \<Rightarrow>
               let candidatePaths = paths_of env (to_utf16 env (artifact_version artifact)) in
               (case InstallCandidate env paths candidatePaths package wanted h of
                  (Inl st, h1) \<Rightarrow> ((st, registry), h1)
                | (Inr (candidateCatalog, selected), h1) \<Rightarrow>
                    let wasRunning = manager_connected env h1;
                        pend = stored\<lparr>pending := artifact_version artifact, packageSha256 := sha256 artifact,
                                  manifestKeyId := kid, lastResult := ''candidate-preflight-ok''\<rparr> in
                    (case save_state env paths pend h1 of
                       (False, h2) \<Rightarrow>
                         ((PreflightRejected, registry),
                          snd (remove_tree env (RuntimeRoot paths) (RuntimeVersionDir candidatePaths) h2))
                     | (True, h2) \<Rightarrow>
                         (case RollbackCatalog env wasRunning stored registry h2 of
                            None \<Rightarrow>
                              (case save_state env paths
                                      (pend\<lparr>pending := [], lastResult := ''previous-runtime-preflight-failed''\<rparr>) h2 of
                                 (saved, h3) \<Rightarrow>
                                   ((if saved then PreflightRejected else ApplyRollbackFailed, registry), h3))
                          | Some rollbackCatalog \<Rightarrow>
                              SwitchRuntime env paths
                                \<lparr>was_running = wasRunning, candidate_version = artifact_version artifact,
                                 candidate_paths = candidatePaths,
                                 previous_paths = paths_of env (to_utf16 env (current stored)),
                                 selected_strategy = selected,
                                 rollback_strategy = (if wasRunning then RollbackStrategy wanted rollbackCatalog
                                                      else None),
                                 game_filter = g\<rparr>
                                stored artifact kid candidateCatalog registry h2)))))"

section \<open>What a switch leaves behind\<close>

lemma save_state_event:
  "save_state env p s h = (ok, h') \<Longrightarrow>
     (h' = h \<and> \<not> ok) \<or> h' = h @ [WriteFile (ActiveRuntimePath p) (SerializeRuntimeState s) ok]"
  by (auto simp: save_state_def SaveRuntimeState_def write_file_def Let_def split: if_splits)

text \<open>The last call recorded saves a state.\<close>

definition saved_last :: "RuntimePaths \<Rightarrow> StoredRuntimeState \<Rightarrow> history \<Rightarrow> bool" where
  "saved_last p s h \<longleftrightarrow> (\<exists>h1. h = h1 @ [WriteFile (ActiveRuntimePath p) (SerializeRuntimeState s) True])"

lemma save_state_saved: "save_state env p s h = (True, h') \<Longrightarrow> saved_last p s h'"
  using save_state_event [of env p s h True h'] by (auto simp: saved_last_def)

lemma switched_saved:
  assumes "switched before v (switch_hooks env paths plan stored artifact kid) w (h', c)"
  shows "saved_last paths (final_state stored artifact kid
    \<lparr>active_version = v, known_good = active_version before\<rparr>) h'"
proof -
  let ?s = "final_state stored artifact kid \<lparr>active_version = v, known_good = active_version before\<rparr>"
  obtain w4 where "commitHook env paths stored artifact kid
      \<lparr>active_version = v, known_good = active_version before\<rparr> w4 = (True, (h', c))"
    using assms by (auto simp: switched_def switch_hooks_def run_hook_def)
  then have "save_state env paths ?s (fst w4) = (True, h')"
    by (cases "save_state env paths ?s (fst w4)") (simp add: commitHook_def)
  then show ?thesis by (rule save_state_saved)
qed

lemma SwitchRuntime_cases:
  assumes "SwitchRuntime env paths plan stored artifact kid catalog registry h = ((st, reg), h')"
  shows "st = Applied \<and> reg = catalog \<and>
      saved_last paths (final_state stored artifact kid
        \<lparr>active_version = artifact_version artifact, known_good = current stored\<rparr>) h' \<or>
    reg = registry \<and> st = ApplyRollbackFailed \<or>
    reg = registry \<and> st \<in> {StopRejected, PreflightRejected, ApplyRolledBack} \<and>
      (\<exists>ast. ast \<noteq> RollbackFailed \<and> saved_last paths (rolled_back_state stored artifact ast) h')"
proof -
  let ?before = "\<lparr>active_version = current stored, known_good = previousKnownGood stored\<rparr>"
  obtain ast s h1 c where act: "ActivateRuntime ?before (artifact_version artifact)
      (switch_hooks env paths plan stored artifact kid) (h, False) = ((ast, s), (h1, c))" by (metis surj_pair)
  show ?thesis
  proof (cases "ast = Activated")
    case True
    then have "switched ?before (artifact_version artifact) (switch_hooks env paths plan stored artifact kid)
        (h, False) (h1, c)"
      using ActivateRuntime_cases [OF act] rollback_status by fastforce
    from switched_saved [OF this] show ?thesis
      using assms act True by (simp add: SwitchRuntime_def ActivateCatalog_def)
  next
    case False
    let ?h2 = "if c \<and> candidate_connected env h1 then snd (stop_engine env (candidate_paths plan) h1) else h1"
    obtain ok h3 where save: "save_state env paths (rolled_back_state stored artifact ast) ?h2 = (ok, h3)"
      by fastforce
    have r: "reg = registry" "h' = h3" "st = (if \<not> ok \<or> ast = RollbackFailed then ApplyRollbackFailed
        else if ast = StopFailed then StopRejected else if ast = PreflightFailed then PreflightRejected
        else ApplyRolledBack)"
      using assms act False save by (simp_all add: SwitchRuntime_def Let_def)
    show ?thesis
    proof (cases "ok \<and> ast \<noteq> RollbackFailed")
      case True
      then have "saved_last paths (rolled_back_state stored artifact ast) h'"
        using save_state_saved [of env paths _ ?h2 h3] save r(2) by simp
      then show ?thesis using r True by auto
    next
      case False
      then show ?thesis using r by auto
    qed
  qed
qed

text \<open>
  A switch ends in one of two recorded states: when it reports \<^verbatim>\<open>Applied\<close>, the last thing saved is
  the state with the candidate as current, the replaced version as last good and nothing pending, and the
  candidate's strategies are active; in every other case the strategies are unchanged, and
  unless \<^verbatim>\<open>RollbackFailed\<close> is reported the last thing saved has the previous version still current and
  nothing pending. The statuses \<^verbatim>\<open>StartRejected\<close>, \<^verbatim>\<open>HealthRejected\<close> and \<^verbatim>\<open>CommitRejected\<close> are never
  reported.
\<close>

lemma SwitchRuntime_recorded:
  "case SwitchRuntime env paths plan stored artifact kid catalog registry h of
     ((st, reg), h') \<Rightarrow>
       (if st = Applied
        then reg = catalog \<and>
          (\<exists>s. saved_last paths s h' \<and> current s = artifact_version artifact \<and>
             previousKnownGood s = current stored \<and> pending s = [] \<and> packageSha256 s = sha256 artifact)
        else reg = registry \<and>
          (if st = ApplyRollbackFailed then True
           else st \<in> {StopRejected, PreflightRejected, ApplyRolledBack} \<and>
             (\<exists>s. saved_last paths s h' \<and> current s = current stored \<and>
                previousKnownGood s = previousKnownGood stored \<and> pending s = [])))"
proof -
  obtain st reg h' where r: "SwitchRuntime env paths plan stored artifact kid catalog registry h = ((st, reg), h')"
    by (metis surj_pair)
  from SwitchRuntime_cases [OF r] show ?thesis
  proof (elim disjE conjE exE)
    assume "st = Applied" "reg = catalog" and s: "saved_last paths (final_state stored artifact kid
        \<lparr>active_version = artifact_version artifact, known_good = current stored\<rparr>) h'"
    moreover have "\<exists>s. saved_last paths s h' \<and> current s = artifact_version artifact \<and>
        previousKnownGood s = current stored \<and> pending s = [] \<and> packageSha256 s = sha256 artifact"
      by (rule exI, rule conjI [OF s]) (simp add: final_state_def)
    ultimately show ?thesis using r by simp
  next
    fix ast assume "reg = registry" "st \<in> {StopRejected, PreflightRejected, ApplyRolledBack}"
      and s: "saved_last paths (rolled_back_state stored artifact ast) h'"
    moreover have "\<exists>s. saved_last paths s h' \<and> current s = current stored \<and>
        previousKnownGood s = previousKnownGood stored \<and> pending s = []"
      by (rule exI, rule conjI [OF s]) (simp add: rolled_back_state_def)
    ultimately show ?thesis using r by auto
  qed (use r in simp)
qed

section \<open>At most one engine\<close>

text \<open>
  The image of the engine that runs after a sequence of calls, given the one that runs before; there is
  none if some call started an engine while another was running.
\<close>

fun track :: "wstring option \<Rightarrow> history \<Rightarrow> wstring option option" where
  "track r [] = Some r"
| "track r (StartEngine e args True # h) = (if r = None then track (Some e) h else None)"
| "track r (StopEngine b True # h) = track (if r = Some (below b ''winws.exe'') then None else r) h"
| "track r (_ # h) = track r h"

lemma track_append: "track r (h @ h') = Option.bind (track r h) (\<lambda>r'. track r' h')"
  by (induction r h rule: track.induct) auto

definition quiet :: "fs_event \<Rightarrow> bool" where
  "quiet ev \<longleftrightarrow> (\<forall>b ok. ev \<noteq> StopEngine b ok) \<and> (\<forall>e args ok. ev \<noteq> StartEngine e args ok)"

lemma quiet_simps [simp]:
  "quiet (EnsureDirectory p ok)" "quiet (WriteFile p d ok)" "quiet (RemoveTree r p ok)" "quiet (Harden p ok)"
  by (simp_all add: quiet_def)

lemma track_quiet: "list_all quiet es \<Longrightarrow> track r es = Some r"
proof (induction es)
  case (Cons ev es)
  then show ?case by (cases ev) (auto simp: quiet_def)
qed simp

text \<open>The history has grown by calls after which the engine \<open>r\<close> runs.\<close>

definition runs :: "wstring option \<Rightarrow> history \<Rightarrow> wstring option \<Rightarrow> history \<Rightarrow> bool" where
  "runs r0 h r h' \<longleftrightarrow> (\<exists>es. h' = h @ es \<and> track r0 es = Some r)"

lemma runs_refl: "runs r h r h"
  by (simp add: runs_def)

lemma runs_step: "runs r0 h r h1 \<Longrightarrow> h2 = h1 @ es \<Longrightarrow> track r es = Some r' \<Longrightarrow> runs r0 h r' h2"
  by (auto simp: runs_def track_append)

lemma runs_start:
  "start_engine env p args h1 = (ok, h2) \<Longrightarrow> runs r0 h None h1 \<Longrightarrow>
     runs r0 h (if ok then Some (WinwsExePath p) else None) h2"
  by (cases ok) (auto simp: start_engine_def Let_def elim!: runs_step)

lemma runs_stop:
  "stop_engine env p h1 = (ok, h2) \<Longrightarrow> runs r0 h r h1 \<Longrightarrow>
     runs r0 h (if ok \<and> r = Some (WinwsExePath p) then None else r) h2"
  by (cases ok) (auto simp: stop_engine_def Let_def WinwsExePath_def elim!: runs_step)

lemma runs_save: "save_state env p s h1 = (ok, h2) \<Longrightarrow> runs r0 h r h1 \<Longrightarrow> runs r0 h r h2"
  using save_state_event [of env p s h1 ok h2]
    runs_step [of r0 h r h1 h2 "[WriteFile (ActiveRuntimePath p) (SerializeRuntimeState s) ok]" r] by auto

text \<open>Between the start of the candidate and the end of the switch.\<close>

definition candidate_phase :: "wstring option \<Rightarrow> switch_plan \<Rightarrow> history \<Rightarrow> switch_world \<Rightarrow> bool" where
  "candidate_phase r0 plan h w \<longleftrightarrow>
     (if snd w then runs r0 h (Some (WinwsExePath (candidate_paths plan))) (fst w)
      else runs r0 h None (fst w))"

definition some_engine :: "wstring option \<Rightarrow> history \<Rightarrow> switch_world \<Rightarrow> bool" where
  "some_engine r0 h w \<longleftrightarrow> (\<exists>r. runs r0 h r (fst w))"

lemma launch_candidate:
  assumes "launchVersion env plan (candidate_version plan) w = (b, w')" "\<not> snd w" "runs r0 h None (fst w)"
  shows "candidate_phase r0 plan h w'"
  using assms runs_start [of env "candidate_paths plan" _ "fst w" _ _ r0 h]
  by (cases w) (fastforce simp: launchVersion_def Let_def candidate_phase_def split: if_splits prod.splits bool.splits)

lemma launch_previous:
  assumes "launchVersion env plan v w = (b, w')" "v \<noteq> candidate_version plan" "candidate_phase r0 plan h w"
  shows "some_engine r0 h w'"
proof (cases "was_running plan")
  case True
  obtain g c where w: "w = (g, c)" by fastforce
  obtain freed h1 where s: "(if c then stop_engine env (candidate_paths plan) g else (True, g)) = (freed, h1)"
    by fastforce
  have h1: "runs r0 h (if freed then None else Some (WinwsExePath (candidate_paths plan))) h1"
    using assms(3) s runs_stop [of env "candidate_paths plan" g freed h1 r0 h
        "Some (WinwsExePath (candidate_paths plan))"]
    by (auto simp: candidate_phase_def w split: if_splits)
  show ?thesis
  proof (cases "freed \<and> rollback_strategy plan \<noteq> None")
    case True
    then obtain strategy where st: "rollback_strategy plan = Some strategy" "freed" by auto
    obtain ok h2 where go: "start_engine env (previous_paths plan)
        (launch_arguments strategy (previous_paths plan) (game_filter plan)) h1 = (ok, h2)" by fastforce
    then show ?thesis
      using assms(1,2) \<open>was_running plan\<close> s st h1 runs_start [OF go, of r0 h]
      by (auto simp: launchVersion_def Let_def w some_engine_def split: bool.splits)
  next
    case False
    then show ?thesis using assms(1,2) \<open>was_running plan\<close> s h1
      by (auto simp: launchVersion_def Let_def w some_engine_def split: if_splits option.splits)
  qed
next
  case False
  then show ?thesis using assms(1,3)
    by (cases w) (auto simp: launchVersion_def candidate_phase_def some_engine_def split: if_splits)
qed

lemma SwitchRuntime_runs:
  assumes sw: "SwitchRuntime env paths plan stored artifact kid catalog registry h = (x, h')"
    and plan: "candidate_version plan = artifact_version artifact" "current stored \<noteq> artifact_version artifact"
  shows "\<exists>r. runs (if was_running plan then Some (WinwsExePath paths) else None) h r h'"
proof -
  let ?r0 = "if was_running plan then Some (WinwsExePath paths) else None"
  let ?before = "\<lparr>active_version = current stored, known_good = previousKnownGood stored\<rparr>"
  let ?hooks = "switch_hooks env paths plan stored artifact kid"
  let ?I = "some_engine ?r0 h" and ?J = "candidate_phase ?r0 plan h"
  let ?A = "\<lambda>w. \<not> snd w \<and> runs ?r0 h ?r0 (fst w)" and ?B = "\<lambda>w. \<not> snd w \<and> runs ?r0 h None (fst w)"
  obtain y w' where act: "ActivateRuntime ?before (artifact_version artifact) ?hooks (h, False) = (y, w')" by (metis surj_pair)
  have "?I w'"
  proof (rule ActivateRuntime_rule [where A = ?A and B = ?B and J = ?J and I = ?I, OF act])
    show "?A (h, False)" by (simp add: runs_refl)
    show "?A w \<Longrightarrow> ?I w" for w by (auto simp: some_engine_def)
    show "?J w \<Longrightarrow> ?I w" for w by (auto simp: some_engine_def candidate_phase_def split: if_splits)
    show "?A w'" if "?A w" "run_hook (preflight ?hooks) (artifact_version artifact) w = (b, w')" for w b w'
      using that by (simp add: switch_hooks_def run_hook_def)
    show "if b then ?B w' else ?I w'" if "?A w" "run_hook (stopCurrent ?hooks) () w = (b, w')" for w b w'
    proof (cases "was_running plan")
      case True
      obtain ok h1 where s: "stop_engine env paths (fst w) = (ok, h1)" by fastforce
      then have "b = ok" "w' = (h1, snd w)"
        using that(2) True by (simp_all add: switch_hooks_def run_hook_def stopCurrentHook_def)
      then show ?thesis using that(1) True runs_stop [OF s, of ?r0 h ?r0]
        by (auto simp: some_engine_def split: if_splits)
    next
      case False
      then show ?thesis using that by (auto simp: switch_hooks_def run_hook_def stopCurrentHook_def)
    qed
    show "?J w'" if "?B w" "run_hook (start_hook ?hooks) (artifact_version artifact) w = (b, w')" for w b w'
      using launch_candidate [of env plan w b w' ?r0 h] that plan(1)
      by (simp add: switch_hooks_def run_hook_def)
    show "?J w'" if "?J w" "run_hook (health ?hooks) (artifact_version artifact) w = (b, w')" for w b w'
      using that by (simp add: switch_hooks_def run_hook_def healthVersion_def)
    show "?J w'" if "?J w" "run_hook (commit ?hooks)
        \<lparr>active_version = artifact_version artifact, known_good = active_version ?before\<rparr> w = (b, w')" for w b w'
    proof -
      obtain ok h1 where s: "save_state env paths (final_state stored artifact kid
          \<lparr>active_version = artifact_version artifact, known_good = current stored\<rparr>) (fst w) = (ok, h1)" by fastforce
      then have "w' = (h1, snd w)" using that(2) by (simp add: switch_hooks_def run_hook_def commitHook_def)
      then show ?thesis using that(1) runs_save [OF s] by (auto simp: candidate_phase_def split: if_splits)
    qed
    show "?I w'" if "?J w" "run_hook (start_hook ?hooks) (active_version ?before) w = (b, w')" for w b w'
      using launch_previous [of env plan "current stored" w b w' ?r0 h] that plan
      by (simp add: switch_hooks_def run_hook_def)
    show "?I w'" if "?I w" "run_hook (health ?hooks) (active_version ?before) w = (b, w')" for w b w'
      using that by (simp add: switch_hooks_def run_hook_def healthVersion_def)
  qed
  then obtain r where r: "runs ?r0 h r (fst w')" by (auto simp: some_engine_def)
  obtain st s g c where y: "y = (st, s)" "w' = (g, c)" by (metis surj_pair)
  show ?thesis
  proof (cases "st = Activated")
    case True
    then show ?thesis using sw act y r by (auto simp: SwitchRuntime_def)
  next
    case False
    let ?h2 = "if c \<and> candidate_connected env g then snd (stop_engine env (candidate_paths plan) g) else g"
    obtain ok h3 where save: "save_state env paths (rolled_back_state stored artifact st) ?h2 = (ok, h3)" by fastforce
    have "h' = h3" using sw act y False save by (simp add: SwitchRuntime_def Let_def)
    moreover have "\<exists>r2. runs ?r0 h r2 ?h2"
    proof (cases "c \<and> candidate_connected env g")
      case True
      obtain ok2 g2 where "stop_engine env (candidate_paths plan) g = (ok2, g2)" by fastforce
      then show ?thesis using runs_stop [of env "candidate_paths plan" g ok2 g2 ?r0 h r] r y True by auto
    next
      case False
      then show ?thesis using r y by auto
    qed
    ultimately show ?thesis using runs_save [OF save] by blast
  qed
qed

section \<open>The whole operation\<close>

definition grows :: "history \<Rightarrow> history \<Rightarrow> bool" where
  "grows h h' \<longleftrightarrow> (\<exists>es. h' = h @ es \<and> list_all quiet es)"

lemma grows_refl [simp]: "grows h h"
  by (simp add: grows_def)

lemma grows_trans: "grows h h1 \<Longrightarrow> grows h1 h2 \<Longrightarrow> grows h h2"
  by (auto simp: grows_def)

lemma grows_one: "quiet ev \<Longrightarrow> grows h (h @ [ev])"
  by (simp add: grows_def)

lemma grows_two: "quiet ev \<Longrightarrow> quiet ev' \<Longrightarrow> grows h (h @ [ev, ev'])"
  by (simp add: grows_def)

lemma ExtractEntry_grows: "ExtractEntry env f d b e off h = (r, h') \<Longrightarrow> grows h h'"
  by (auto simp: ExtractEntry_def Let_def fs_calls intro: grows_one grows_two
      split: option.splits if_splits prod.splits bool.splits)

lemma ExtractEntries_grows: "ExtractEntries env f d b es off h = (r, h') \<Longrightarrow> grows h h'"
proof (induction es arbitrary: off h)
  case (Cons e es)
  obtain m h1 where e: "ExtractEntry env f d b e off h = (m, h1)" by fastforce
  show ?case
  proof (cases m)
    case None
    then have "grows h1 h'" using Cons e by simp
    then show ?thesis using grows_trans ExtractEntry_grows [OF e] by blast
  next
    case (Some x)
    then show ?thesis using Cons.prems e ExtractEntry_grows [OF e] by simp
  qed
qed simp

lemma ExtractPackage_grows: "ExtractPackage env file p root d h = (r, h') \<Longrightarrow> grows h h'"
proof -
  assume r: "ExtractPackage env file p root d h = (r, h')"
  obtain ok h1 where e: "ensure env d h = (ok, h1)" by fastforce
  have 1: "grows h h1" using e by (auto simp: ensure_def Let_def intro: grows_one)
  have rm: "grows g (snd (remove_tree env root d g))" for g
    by (simp add: remove_tree_def Let_def grows_one)
  have ent: "grows h1 h2" if "ExtractEntries env f d b es off h1 = (m, h2)" for f b es off m h2
    using ExtractEntries_grows [OF that] .
  consider "h' = h" | "h' = h1" | "h' = snd (remove_tree env root d h1)"
    | f m h2 where "ExtractEntries env f d (dataOffset p) (package_entries p) 0 h1 = (m, h2)"
        "h' = h2 \<or> h' = snd (remove_tree env root d h2)"
    using r e by (auto simp: ExtractPackage_def Let_def split: if_splits bool.splits option.splits prod.splits)
  then show ?thesis
  proof cases
    case (4 f m h2)
    then have "grows h h2" using grows_trans [OF 1 ent] by blast
    then show ?thesis using 4 grows_trans rm by blast
  qed (use 1 rm grows_trans in auto)
qed

lemma InstallCandidate_grows: "InstallCandidate env paths cp package w h = (r, h') \<Longrightarrow> grows h h'"
proof -
  assume r: "InstallCandidate env paths cp package w h = (r, h')"
  have rm: "grows g (snd (remove_tree env a d g))" for a d g
    by (simp add: remove_tree_def Let_def grows_one)
  obtain cl h1 where c: "(if path_exists env h (RuntimeVersionDir cp)
      then remove_tree env (RuntimeRoot paths) (RuntimeVersionDir cp) h else (True, h)) = (cl, h1)" by fastforce
  have 1: "grows h h1" using c rm [of h] by (auto split: if_splits) (metis snd_conv)
  obtain x h2 where e: "ExtractPackage env (package_handles env) package (RuntimeRoot paths) (RuntimeVersionDir cp) h1
      = (x, h2)" by fastforce
  have 2: "grows h h2" using grows_trans [OF 1 ExtractPackage_grows [OF e]] .
  have pre: "grows h2 h3" if "PreflightCandidate env paths cp package w h2 = (y, h3)" for y h3
    using that rm by (auto simp: PreflightCandidate_def Let_def split: sum.splits if_splits option.splits)
  show ?thesis
    using r c e 1 2 pre grows_trans [OF 2]
    by (auto simp: InstallCandidate_def Let_def split: if_splits option.splits)
qed

text \<open>An admitted artifact.\<close>

lemma AdmitPayload_Inr:
  "AdmitPayload env cache artifact kid h = Inr stored \<Longrightarrow>
     (\<exists>r. verifiedManifest cache = Some r \<and> artifact = payload (manifest r) \<and> kid = keyId (manifest r)) \<and>
     (\<exists>c v. ParseVersion (current stored) = Some c \<and> ParseVersion (artifact_version artifact) = Some v \<and>
        0 < CompareVersions v c)"
  by (auto simp: AdmitPayload_def SameArtifact_iff Let_def
      split: option.splits if_splits StateResult.splits)

lemma AdmitPayload_newer:
  assumes "AdmitPayload env cache artifact kid h = Inr stored"
  shows "current stored \<noteq> artifact_version artifact"
proof
  assume "current stored = artifact_version artifact"
  then obtain v where "0 < CompareVersions v v" using AdmitPayload_Inr [OF assms] by auto
  then show False using CompareVersions_antisym [of v v] by simp
qed

text \<open>The course of an operation that gets as far as the switch, and the others.\<close>

lemma ApplyPayload_cases:
  assumes "ApplyPayload env paths cache registry artifact staged w g kid h = ((st, reg), h')"
  shows "(\<exists>stored h1 h2 plan catalog package.
      AdmitPayload env cache artifact kid h = Inr stored \<and>
      ParseStaged env paths artifact staged h = Some package \<and>
      grows h h1 \<and> candidate_version plan = artifact_version artifact \<and>
      was_running plan = manager_connected env h1 \<and> grows h1 h2 \<and>
      SwitchRuntime env paths plan stored artifact kid catalog registry h2 = ((st, reg), h')) \<or>
    (grows h h' \<and> reg = registry \<and> st \<in> {PackageRejected, PreflightRejected, ApplyRollbackFailed})"
proof (cases "AdmitPayload env cache artifact kid h")
  case (Inl x)
  then have "x = PreflightRejected"
    by (auto simp: AdmitPayload_def Let_def split: option.splits if_splits StateResult.splits)
  then show ?thesis using assms Inl by (simp add: ApplyPayload_def)
next
  case (Inr stored)
  show ?thesis
  proof (cases "ParseStaged env paths artifact staged h")
    case None
    then show ?thesis using assms Inr by (simp add: ApplyPayload_def)
  next
    case (Some package)
    let ?cp = "paths_of env (to_utf16 env (artifact_version artifact))"
    obtain x h1 where i: "InstallCandidate env paths ?cp package w h = (x, h1)" by fastforce
    note g1 = InstallCandidate_grows [OF i]
    show ?thesis
    proof (cases x)
      case (Inl y)
      then have "y \<in> {PackageRejected, PreflightRejected}"
        using i by (auto simp: InstallCandidate_def PreflightCandidate_def Let_def
            split: if_splits option.splits sum.splits prod.splits)
      then show ?thesis using assms Inr Some i Inl g1 by (auto simp: ApplyPayload_def Let_def)
    next
      case inst: (Inr cs)
      obtain catalog selected where cs: "cs = (catalog, selected)" by fastforce
      let ?pend = "stored\<lparr>pending := artifact_version artifact, packageSha256 := sha256 artifact,
                 manifestKeyId := kid, lastResult := ''candidate-preflight-ok''\<rparr>"
      obtain ok h2 where s: "save_state env paths ?pend h1 = (ok, h2)" by fastforce
      have g2: "grows h1 h2" using save_state_event [OF s] by (auto intro: grows_one)
      show ?thesis
      proof (cases ok)
        case False
        have "grows h2 (snd (remove_tree env (RuntimeRoot paths) (RuntimeVersionDir ?cp) h2))"
          by (simp add: remove_tree_def Let_def grows_one)
        then show ?thesis
          using assms Inr Some i inst cs s False grows_trans [OF grows_trans [OF g1 g2]]
          by (auto simp: ApplyPayload_def Let_def)
      next
        case True
        show ?thesis
        proof (cases "RollbackCatalog env (manager_connected env h1) stored registry h2")
          case None
          obtain sv h3 where s3: "save_state env paths
              (?pend\<lparr>pending := [], lastResult := ''previous-runtime-preflight-failed''\<rparr>) h2 = (sv, h3)" by fastforce
          have "grows h2 h3" using save_state_event [OF s3] by (auto intro: grows_one)
          then show ?thesis
            using assms Inr Some i inst cs s True None s3 grows_trans [OF grows_trans [OF g1 g2]]
            by (auto simp: ApplyPayload_def Let_def split: if_splits)
        next
          case rc: (Some rollbackCatalog)
          let ?plan = "\<lparr>was_running = manager_connected env h1, candidate_version = artifact_version artifact,
              candidate_paths = ?cp, previous_paths = paths_of env (to_utf16 env (current stored)),
              selected_strategy = selected,
              rollback_strategy = (if manager_connected env h1 then RollbackStrategy w rollbackCatalog else None),
              game_filter = g\<rparr>"
          have "SwitchRuntime env paths ?plan stored artifact kid catalog registry h2 = ((st, reg), h')"
            using assms Inr Some i inst cs s True rc by (simp add: ApplyPayload_def Let_def)
          then show ?thesis using Inr Some g1 g2
            by (intro disjI1 exI [where x = stored] exI [where x = h1] exI [where x = h2]
                exI [where x = ?plan] exI [where x = catalog] exI [where x = package]) simp
        qed
      qed
    qed
  qed
qed

text \<open>
  C5. An update never runs two engines: whatever fails on the way, at every moment of the operation
  an engine is started only when none is running, given that before the switch the current
  one runs exactly when the process manager says so; nothing is started or stopped before the
  candidate has been installed and verified.
\<close>

theorem ApplyPayload_single_engine:
  "\<exists>es1 es2 r. snd (ApplyPayload env paths cache registry artifact staged w g kid h) = h @ es1 @ es2 \<and>
     list_all quiet es1 \<and>
     (\<exists>h1. prefix h1 (h @ es1) \<and>
        track (if manager_connected env h1 then Some (WinwsExePath paths) else None) es2 = Some r)"
proof -
  obtain st reg h' where r: "ApplyPayload env paths cache registry artifact staged w g kid h = ((st, reg), h')"
    by (metis surj_pair)
  from ApplyPayload_cases [OF r] show ?thesis
  proof (elim disjE exE conjE)
    fix stored h1 h2 plan catalog package
    assume a: "AdmitPayload env cache artifact kid h = Inr stored" "grows h h1" "grows h1 h2"
      "candidate_version plan = artifact_version artifact" "was_running plan = manager_connected env h1"
      "SwitchRuntime env paths plan stored artifact kid catalog registry h2 = ((st, reg), h')"
    obtain e1 e2 where e: "h1 = h @ e1" "h2 = h @ e1 @ e2" "list_all quiet (e1 @ e2)"
      using a(2,3) by (auto simp: grows_def)
    obtain r es2 where "h' = h2 @ es2"
      "track (if manager_connected env h1 then Some (WinwsExePath paths) else None) es2 = Some r"
      using SwitchRuntime_runs [OF a(6,4) AdmitPayload_newer [OF a(1)]] a(5) by (auto simp: runs_def)
    then show ?thesis using r e
      by (intro exI [of _ "e1 @ e2"] exI [of _ es2] exI [of _ r] conjI exI [of _ h1]) auto
  next
    assume "grows h h'"
    then obtain es where "h' = h @ es" "list_all quiet es" by (auto simp: grows_def)
    then show ?thesis using r
      by (intro exI [where x = es] exI [where x = "[] :: history"] conjI) (auto intro: exI [of _ h])
  qed
qed


section \<open>A sample run\<close>

text \<open>The sample package, applied on a system on which everything succeeds and no engine runs.\<close>

definition sample_staged :: wstring where
  "sample_staged = UpdatesDir sample_paths @ W [CHR 0x5C] @ W ''p.cbpkg''"

definition sample_apply_env :: apply_env where
  "sample_apply_env = fs_env.extend
     (benign_env\<lparr>file_size := \<lambda>h p. Some (if p = sample_staged then 708 else 1),
        file_sha := \<lambda>h p. Some (replicate 64 (CHR ''0'')), data_sha := \<lambda>d. Some (replicate 64 (CHR ''0''))\<rparr>)
     (apply_env.fields (\<lambda>h. StateOk (empty_state\<lparr>current := ''1.8.4''\<rparr>))
        sample_file
        (Some \<lparr>handle_regular = True, seek_ok = \<lambda>n. True, reads_at = \<lambda>n. [Some ''x'']\<rparr>)
        (\<lambda>h p. Inr [\<lparr>strategy_id = ''general'', sourceFile = [], displayName = [], description = [],
           recommended = True, argTemplate = []\<rparr>])
        (\<lambda>h. False) (\<lambda>h. False) (\<lambda>h. False) (\<lambda>h d. True) (\<lambda>h e a. True) (\<lambda>s. W s)
        (\<lambda>v. paths_at (W ''C:'') v) ''1.8.0'')"

definition sample_stored :: StoredRuntimeState where
  "sample_stored = empty_state\<lparr>current := ''1.8.4''\<rparr>"

lemma sample_versions:
  "\<exists>c v. ParseVersion ''1.8.4'' = Some c \<and> ParseVersion ''1.8.5'' = Some v \<and> 0 < CompareVersions v c"
proof -
  have "case (ParseVersion ''1.8.4'', ParseVersion ''1.8.5'') of
      (Some c, Some v) \<Rightarrow> 0 < CompareVersions v c | _ \<Rightarrow> False" by code_simp
  then show ?thesis by (auto split: option.splits)
qed

lemma sample_admitted:
  "AdmitPayload sample_apply_env sample_cache (payload sample_parsed) ''k-1'' [] = Inr sample_stored"
proof -
  have "recorded_state sample_apply_env [] = StateOk sample_stored"
    by (simp add: sample_apply_env_def sample_stored_def fs_env.extend_def apply_env.fields_def)
  moreover have "current sample_stored = ''1.8.4''" by (simp add: sample_stored_def)
  moreover have "artifact_version (payload sample_parsed) = ''1.8.5''" "keyId sample_parsed = ''k-1''"
    "payloadSchema (payload sample_parsed) = payload_schema_supported"
    "strategySchema (payload sample_parsed) = strategy_schema_supported"
    by (simp_all add: sample_parsed_def payload_schema_supported_def strategy_schema_supported_def)
  ultimately show ?thesis using sample_versions
    by (auto simp: AdmitPayload_def sample_cache_code SameArtifact_iff)
qed

lemma sample_staged_ok:
  "strict_descendant sample_apply_env (UpdatesDir sample_paths) sample_staged"
  "parent_dir sample_staged = Some (UpdatesDir sample_paths)"
  "components_ok sample_apply_env [] (UpdatesDir sample_paths)"
  "file_size sample_apply_env [] sample_staged = Some 708" "file_ok sample_apply_env [] sample_staged"
  "ValidateArtifactFile (Some 708) (file_sha sample_apply_env [] sample_staged)
     (artifact_size (payload sample_parsed)) (sha256 (payload sample_parsed))"
  by code_simp+

lemma sample_parse_staged:
  "ParseStaged sample_apply_env sample_paths (payload sample_parsed) sample_staged [] = Some sample_package"
proof -
  have "package_reads sample_apply_env = sample_file"
    by (simp add: sample_apply_env_def fs_env.extend_def apply_env.fields_def)
  moreover have "payloadVersion sample_package = artifact_version (payload sample_parsed)"
    "package_provider sample_package = provider (payload sample_parsed)"
    "package_payloadSchema sample_package = payloadSchema (payload sample_parsed)"
    "package_strategySchema sample_package = strategySchema (payload sample_parsed)"
    by code_simp+
  ultimately show ?thesis by (simp add: ParseStaged_def sample_staged_ok sample_parse)
qed


end
