(* ===== verification/ProcessRecord.thy ===== *)
theory ProcessRecord
  imports StringUtil FileRead
begin

text \<open>
  The identity of the launched engine, \<^verbatim>\<open>struct ProcessRecord\<close> of
  \<^verbatim>\<open>src/src/core/ProcessManager.h\<close>, and its persistence in \<^verbatim>\<open>winws-run.txt\<close>: the strict
  parser of \<^verbatim>\<open>LoadRecord\<close>, the text written by \<^verbatim>\<open>SaveRecord\<close>, and the test that an image path is
  that of an engine below the runtime root.
\<close>

section \<open>The record\<close>

record ProcessRecord =
  pid :: nat
  creationTime :: nat
  imagePath :: wstring

definition empty_record :: ProcessRecord where
  "empty_record = \<lparr>pid = 0, creationTime = 0, imagePath = []\<rparr>"

definition record_valid :: "ProcessRecord \<Rightarrow> bool" where
  "record_valid r \<longleftrightarrow> pid r \<noteq> 0 \<and> creationTime r \<noteq> 0 \<and> imagePath r \<noteq> []"

lemma empty_record_invalid [simp]: "\<not> record_valid empty_record"
  by (simp add: record_valid_def empty_record_def)

definition engine_suffix :: wstring where
  "engine_suffix = W [CHR 0x5C] @ W ''bin'' @ W [CHR 0x5C] @ W ''winws.exe''"

definition IsExpectedWinwsImage :: "wstring \<Rightarrow> wstring \<Rightarrow> bool" where
  "IsExpectedWinwsImage path runtimeRoot =
     (if path = [] \<or> runtimeRoot = [] then False
      else
        let img = ToLowerAsciiW path;
            root0 = ToLowerAsciiW runtimeRoot;
            root = (if root0 \<noteq> [] \<and> last root0 \<noteq> WC (CHR 0x5C) then root0 @ W [CHR 0x5C] else root0) in
        if \<not> starts_with root img then False
        else if length img < length engine_suffix then False
        else ends_with engine_suffix img)"

section \<open>Reading\<close>

text \<open>The flags \<^verbatim>\<open>havePid\<close>, \<^verbatim>\<open>haveTime\<close>, \<^verbatim>\<open>haveImage\<close> with the values read so far.\<close>

record record_scan =
  scan_pid :: "nat option"
  scan_time :: "nat option"
  scan_image :: "wstring option"

definition no_scan :: record_scan where
  "no_scan = \<lparr>scan_pid = None, scan_time = None, scan_image = None\<rparr>"

definition u32_bound :: nat where
  \<comment> \<open>\<^verbatim>\<open>unsigned long\<close> of the Windows ABI\<close>
  "u32_bound = 2 ^ 32"

definition ParseField ::
  "(string \<Rightarrow> wstring) \<Rightarrow> string \<Rightarrow> string \<Rightarrow> record_scan \<Rightarrow> record_scan option" where
  "ParseField ToUtf16 key val s =
     (if key = ''pid'' then
        (if scan_pid s \<noteq> None then None
         else map_option (\<lambda>n. s\<lparr>scan_pid := Some n\<rparr>) (from_chars_all u32_bound val))
      else if key = ''ctime'' then
        (if scan_time s \<noteq> None then None
         else map_option (\<lambda>n. s\<lparr>scan_time := Some n\<rparr>) (from_chars_all u64_bound val))
      else if key = ''image'' then
        (if scan_image s \<noteq> None \<or> val = [] \<or> 1024 < length val then None
         else Some (s\<lparr>scan_image := Some (ToUtf16 val)\<rparr>))
      else None)"

text \<open>The loop over the lines of the content from \<^verbatim>\<open>pos\<close>.\<close>

function ParseLines :: "(string \<Rightarrow> wstring) \<Rightarrow> string \<Rightarrow> record_scan \<Rightarrow> record_scan option" where
  "ParseLines ToUtf16 rest s =
     (if rest = [] then Some s
      else (case split_at (CHR 0x0A) rest of
              (line, next) \<Rightarrow>
                (case split_at (CHR ''='') (Trim line) of
                   (key, None) \<Rightarrow> None
                 | (key, Some val) \<Rightarrow>
                     (case ParseField ToUtf16 key val s of
                        None \<Rightarrow> None
                      | Some s' \<Rightarrow>
                          ParseLines ToUtf16 (case next of None \<Rightarrow> [] | Some r \<Rightarrow> r) s'))))"
  by pat_completeness auto
termination
  by (relation "measure (\<lambda>(U, rest, s). length rest)")
    (auto split: option.split dest: split_at_shorter [OF sym])

declare ParseLines.simps [simp del]

definition ParseRecord :: "(string \<Rightarrow> wstring) \<Rightarrow> string \<Rightarrow> ProcessRecord" where
  "ParseRecord ToUtf16 content =
     (case ParseLines ToUtf16 content no_scan of
        None \<Rightarrow> empty_record
      | Some s \<Rightarrow>
          (case (scan_pid s, scan_time s, scan_image s) of
             (Some p, Some t, Some i) \<Rightarrow>
               (let r = \<lparr>pid = p, creationTime = t, imagePath = i\<rparr> in
                if record_valid r then r else empty_record)
           | _ \<Rightarrow> empty_record))"

text \<open>
  \<^verbatim>\<open>validated\<close> is the answer of \<^verbatim>\<open>ValidateProtectedObject\<close>; the regular file of \<open>opened_file\<close> has
  one link here.
\<close>

definition LoadRecord :: "(string \<Rightarrow> wstring) \<Rightarrow> bool \<Rightarrow> opened_file option \<Rightarrow> ProcessRecord" where
  "LoadRecord ToUtf16 validated file =
     (if \<not> validated then empty_record
      else (case file of
              None \<Rightarrow> empty_record
            | Some f \<Rightarrow>
                if regular_file f \<noteq> Some True then empty_record
                else (case read_loop 8192 (reads f) [] of
                        ReadAll content \<Rightarrow> ParseRecord ToUtf16 content
                      | _ \<Rightarrow> empty_record)))"

section \<open>Writing\<close>

definition SerializeRecord :: "nat \<Rightarrow> nat \<Rightarrow> string \<Rightarrow> string" where
  "SerializeRecord p t img =
     ''pid='' @ to_string p @ [CHR 0x0A] @ ''ctime='' @ to_string t @ [CHR 0x0A] @
     ''image='' @ img @ [CHR 0x0A]"

definition SaveRecord ::
  "(wstring \<Rightarrow> string) \<Rightarrow> (string \<Rightarrow> 'w \<Rightarrow> bool \<times> 'w) \<Rightarrow> ProcessRecord \<Rightarrow> 'w \<Rightarrow> bool \<times> 'w" where
  "SaveRecord ToUtf8 AtomicWrite r w =
     (if \<not> record_valid r \<or> list_ex (\<lambda>c. c = WC (CHR 0x0D) \<or> c = WC (CHR 0x0A)) (imagePath r)
      then (False, w)
      else
        let img = ToUtf8 (imagePath r) in
        if img = [] then (False, w)
        else AtomicWrite (SerializeRecord (pid r) (creationTime r) img) w)"

section \<open>What is saved is loaded\<close>

lemma ParseLines_line:
  assumes "CHR 0x0A \<notin> set line" "Trim line = key @ CHR ''='' # val" "CHR ''='' \<notin> set key"
  shows "ParseLines U (line @ CHR 0x0A # rest) s =
    (case ParseField U key val s of None \<Rightarrow> None | Some s' \<Rightarrow> ParseLines U rest s')"
  using assms by (subst ParseLines.simps) (simp add: split_at_append split: option.split)

lemma ParseLines_end [simp]: "ParseLines U [] s = Some s"
  by (simp add: ParseLines.simps)

lemma length_to_string: "n < 10 ^ k \<Longrightarrow> 0 < k \<Longrightarrow> length (to_string n) \<le> k"
proof (induction k arbitrary: n)
  case (Suc k)
  show ?case
  proof (cases "n < 10")
    case True
    then show ?thesis by (subst to_string.simps) simp
  next
    case False
    have "n div 10 < 10 ^ k" using Suc.prems(1) by (simp add: less_mult_imp_div_less)
    moreover have "0 < k"
    proof (rule ccontr)
      assume "\<not> 0 < k"
      then have "n < 10" using Suc.prems(1) by simp
      then show False using False by simp
    qed
    ultimately have "length (to_string (n div 10)) \<le> k" by (rule Suc.IH)
    then show ?thesis using False by (subst to_string.simps) simp
  qed
qed simp

lemma last_to_string: "IsDigit (last (to_string n))"
  using to_string_digits [of n] by (simp add: list_all_iff)

lemma digit_not_ws: "IsDigit c \<Longrightarrow> \<not> is_ws c \<and> c \<noteq> CHR 0x0A \<and> c \<noteq> CHR ''=''"
  by (auto simp: IsDigit_def is_ws_def less_eq_char_def)

lemma to_string_no_lf: "CHR 0x0A \<notin> set (to_string n)"
  using to_string_digits [of n] digit_not_ws by (auto simp: list_all_iff)

lemma Trim_field:
  assumes "\<not> is_ws (hd key)" "key \<noteq> []" "val \<noteq> []" "\<not> is_ws (last val)"
  shows "Trim (key @ CHR ''='' # val) = key @ CHR ''='' # val"
  by (rule Trim_no_ws) (use assms in simp_all)

text \<open>The image text that a record can hold: it survives trimming, the line split and the limit.\<close>

definition image_text_ok :: "string \<Rightarrow> bool" where
  "image_text_ok u \<longleftrightarrow> u \<noteq> [] \<and> length u \<le> 1024 \<and> CHR 0x0A \<notin> set u \<and> \<not> is_ws (last u)"

lemma ParseRecord_Serialize:
  assumes p: "p \<noteq> 0" "p < u32_bound" and t: "t \<noteq> 0" "t < u64_bound"
    and u: "image_text_ok u" "U u \<noteq> []"
  shows "ParseRecord U (SerializeRecord p t u) = \<lparr>pid = p, creationTime = t, imagePath = U u\<rparr>"
proof -
  let ?s1 = "no_scan\<lparr>scan_pid := Some p\<rparr>"
  let ?s2 = "?s1\<lparr>scan_time := Some t\<rparr>"
  let ?s3 = "?s2\<lparr>scan_image := Some (U u)\<rparr>"
  have ws: "\<not> is_ws (last (to_string n))" for n using last_to_string digit_not_ws by blast
  have trim: "Trim (''pid'' @ CHR ''='' # to_string p) = ''pid'' @ CHR ''='' # to_string p"
    "Trim (''ctime'' @ CHR ''='' # to_string t) = ''ctime'' @ CHR ''='' # to_string t"
    "Trim (''image'' @ CHR ''='' # u) = ''image'' @ CHR ''='' # u"
    using Trim_field [of "''pid''" "to_string p"] Trim_field [of "''ctime''" "to_string t"]
      Trim_field [of "''image''" u] ws u
    by (simp_all add: is_ws_def image_text_ok_def)
  have "ParseLines U (''image'' @ CHR ''='' # u @ [CHR 0x0A]) ?s2 = Some ?s3"
    using ParseLines_line [OF _ trim(3), of U "[]" ?s2] u(1)
    by (simp add: ParseField_def image_text_ok_def no_scan_def)
  moreover have "ParseLines U (''ctime'' @ CHR ''='' # to_string t @ CHR 0x0A # r) ?s1 = ParseLines U r ?s2" for r
    using ParseLines_line [OF _ trim(2), of U r ?s1] t
    by (simp add: ParseField_def to_string_no_lf no_scan_def)
  moreover have "ParseLines U (''pid'' @ CHR ''='' # to_string p @ CHR 0x0A # r) no_scan = ParseLines U r ?s1" for r
    using ParseLines_line [OF _ trim(1), of U r no_scan] p
    by (simp add: ParseField_def to_string_no_lf no_scan_def)
  ultimately have "ParseLines U (SerializeRecord p t u) no_scan = Some ?s3"
    by (simp add: SerializeRecord_def)
  then show ?thesis using p t u by (simp add: ParseRecord_def no_scan_def record_valid_def)
qed

lemma length_SerializeRecord:
  assumes "p < u32_bound" "t < u64_bound" "length u \<le> 1024"
  shows "length (SerializeRecord p t u) \<le> 8192"
proof -
  have "p < 10 ^ 10" "t < 10 ^ 20" using assms by (simp_all add: u32_bound_def u64_bound_def)
  then have "length (to_string p) \<le> 10" "length (to_string t) \<le> 20" using length_to_string by simp_all
  then show ?thesis using assms by (simp add: SerializeRecord_def)
qed

text \<open>
  What \<^verbatim>\<open>SaveRecord\<close> writes is what a later launcher loads: if the write of the text succeeds and
  the file is read back in chunks of any size, \<^verbatim>\<open>LoadRecord\<close> returns the saved record, for every
  32-bit pid and 64-bit creation time and every image whose UTF-8 text has no line feed, does not end
  in white space and is at most 1024 bytes long.
\<close>

lemma SaveRecord_roundtrip:
  assumes saved: "SaveRecord U8 (\<lambda>data w. (True, Some data)) r None = (True, Some content)"
    and bounds: "pid r < u32_bound" "creationTime r < u64_bound"
    and conv: "U16 (U8 (imagePath r)) = imagePath r" "image_text_ok (U8 (imagePath r))"
    and opened: "regular_file f = Some True" "delivers (reads f) content"
  shows "LoadRecord U16 True (Some f) = r"
proof -
  have valid: "record_valid r" and
    content: "content = SerializeRecord (pid r) (creationTime r) (U8 (imagePath r))"
    using saved by (auto simp: SaveRecord_def Let_def split: if_splits)
  have "length content \<le> 8192"
    unfolding content using bounds conv by (intro length_SerializeRecord) (simp_all add: image_text_ok_def)
  then have "read_loop 8192 (reads f) [] = ReadAll content"
    using read_loop_delivers [OF opened(2), of "[]"] by simp
  moreover have "ParseRecord U16 content = r"
    unfolding content using ParseRecord_Serialize [of "pid r" "creationTime r" "U8 (imagePath r)" U16]
      valid bounds conv by (simp add: record_valid_def)
  ultimately show ?thesis using opened(1) by (simp add: LoadRecord_def)
qed

definition sample_record :: ProcessRecord where
  "sample_record = \<lparr>pid = 4242, creationTime = 133, imagePath = W ''C:/r/bin/winws.exe''\<rparr>"

definition narrow :: "wstring \<Rightarrow> string" where
  "narrow = map (\<lambda>c. char_of (unat c))"

lemma narrow_W [simp]: "narrow (W s) = s"
  by (simp add: narrow_def unat_WC comp_def)

lemma sample_saved: "SaveRecord narrow (\<lambda>data w. (True, Some data)) sample_record None =
    (True, Some (SerializeRecord 4242 133 ''C:/r/bin/winws.exe''))"
proof -
  have "narrow (W ''C:/r/bin/winws.exe'') = ''C:/r/bin/winws.exe''" by (rule narrow_W)
  moreover have "imagePath sample_record = W ''C:/r/bin/winws.exe''" by (simp add: sample_record_def)
  moreover have "record_valid sample_record"
    "\<not> list_ex (\<lambda>c. c = WC (CHR 0x0D) \<or> c = WC (CHR 0x0A)) (imagePath sample_record)"
    by code_simp+
  ultimately show ?thesis by (simp only: SaveRecord_def Let_def) (simp add: sample_record_def)
qed

lemma SaveRecord_roundtrip_witness:
  "LoadRecord W True (Some \<lparr>regular_file = Some True,
     reads = [Some (SerializeRecord 4242 133 ''C:/r/bin/winws.exe'')]\<rparr>) = sample_record"
proof (rule SaveRecord_roundtrip [OF sample_saved])
  have i: "imagePath sample_record = W ''C:/r/bin/winws.exe''" by (simp add: sample_record_def)
  show "W (narrow (imagePath sample_record)) = imagePath sample_record" by (simp only: i narrow_W)
  show "image_text_ok (narrow (imagePath sample_record))"
    unfolding i narrow_W by code_simp
  show "delivers (reads \<lparr>regular_file = Some True,
      reads = [Some (SerializeRecord 4242 133 ''C:/r/bin/winws.exe'')]\<rparr>)
    (SerializeRecord 4242 133 ''C:/r/bin/winws.exe'')"
    unfolding delivers_def
    by (rule exI [where x = "[SerializeRecord 4242 133 ''C:/r/bin/winws.exe'']"])
      (simp add: SerializeRecord_def)
qed (simp_all add: sample_record_def u32_bound_def u64_bound_def)

end
