(* ===== verification/ProcessManager.thy ===== *)
theory ProcessManager
  imports ProcessRecord CommandLine
begin

text \<open>
  The owner of the engine process, \<^verbatim>\<open>src/src/core/ProcessManager.cpp\<close>: recovery of the persisted
  record, the transactional start (redirects, job object, suspended child, pinned identity,
  stabilisation, record, release of the job limit), the identity-verified stop. The calls of the
  operating system that change state are the events of a history; their answers, and those of the
  queries, are an environment that depends on the history. The run of the kernel's job and process
  objects over a history is the automaton \<open>engine_of\<close>, which states the documented behaviour of these
  calls: the theorems say where it stands after each operation. Each public operation holds the mutex
  for its whole body, so it is one step of a client.
\<close>

section \<open>The operating system\<close>

datatype wait_answer = WaitObject | WaitTimeout | WaitFailed | WaitAbandoned

record child =
  child_pid :: nat
  child_process :: nat   \<comment> \<open>\<^verbatim>\<open>pi.hProcess\<close>\<close>

datatype proc_event =
    RedirectReset wstring bool             \<comment> \<open>\<^verbatim>\<open>AtomicWrite(path, "")\<close>\<close>
  | JobCreated nat
  | JobLimit nat bool bool                 \<comment> \<open>job, kill on close, outcome\<close>
  | ChildCreated child wstring wstring wstring   \<comment> \<open>suspended; image, command line, directory\<close>
  | ChildAssigned nat nat bool             \<comment> \<open>job, process, outcome\<close>
  | ChildResumed nat bool
  | ChildWaited nat wait_answer
  | Terminated nat bool                    \<comment> \<open>\<^verbatim>\<open>TerminateProcess\<close> on a process handle\<close>
  | HandleClosed nat
  | RecordSaved string bool
  | RecordDeleted wstring

type_synonym proc_history = "proc_event list"

text \<open>A redirect file as the opened handle shows it.\<close>

record redirect_object =
  redirect_plain :: bool       \<comment> \<open>neither a reparse point nor a directory\<close>
  redirect_links :: nat
  redirect_protected :: bool   \<comment> \<open>\<^verbatim>\<open>ValidateProtectedHandle\<close>\<close>

record proc_env =
  check_image :: "proc_history \<Rightarrow> wstring \<Rightarrow> bool \<times> nat"   \<comment> \<open>\<^verbatim>\<open>ValidateObject\<close>: ok, error code\<close>
  descends :: "wstring \<Rightarrow> wstring \<Rightarrow> bool"                \<comment> \<open>\<^verbatim>\<open>IsStrictDescendant\<close>\<close>
  reset_ok :: "proc_history \<Rightarrow> wstring \<Rightarrow> bool"
  open_nul :: "proc_history \<Rightarrow> bool"
  open_redirect :: "proc_history \<Rightarrow> wstring \<Rightarrow> redirect_object option"
  last_error :: "proc_history \<Rightarrow> nat"
  attribute_size :: "proc_history \<Rightarrow> nat"
  attributes_init :: "proc_history \<Rightarrow> bool"
  attributes_handles :: "proc_history \<Rightarrow> bool"
  attributes_policy :: "proc_history \<Rightarrow> bool"
  create_job :: "proc_history \<Rightarrow> nat option"
  set_limit :: "proc_history \<Rightarrow> nat \<Rightarrow> bool \<Rightarrow> bool"
  create_child :: "proc_history \<Rightarrow> wstring \<Rightarrow> wstring \<Rightarrow> wstring \<Rightarrow> child option"
  assign_child :: "proc_history \<Rightarrow> nat \<Rightarrow> nat \<Rightarrow> bool"
  resume_child :: "proc_history \<Rightarrow> nat \<Rightarrow> bool"
  wait_for :: "proc_history \<Rightarrow> nat \<Rightarrow> nat \<Rightarrow> wait_answer"
  exit_code :: "proc_history \<Rightarrow> nat \<Rightarrow> nat"
  terminate_ok :: "proc_history \<Rightarrow> nat \<Rightarrow> bool"
  CreationTimeOf :: "proc_history \<Rightarrow> nat \<Rightarrow> nat option"    \<comment> \<open>of a process handle\<close>
  ImagePathOf :: "proc_history \<Rightarrow> nat \<Rightarrow> wstring option"
  ProcessAlive :: "proc_history \<Rightarrow> nat \<Rightarrow> bool"            \<comment> \<open>of a pid\<close>
  ProcessCreationTime :: "proc_history \<Rightarrow> nat \<Rightarrow> nat option"
  ProcessImagePath :: "proc_history \<Rightarrow> nat \<Rightarrow> wstring option"
  open_process :: "proc_history \<Rightarrow> nat \<Rightarrow> nat option"
  record_present :: "proc_history \<Rightarrow> wstring \<Rightarrow> bool"       \<comment> \<open>attributes read, \<^verbatim>\<open>ValidateObject\<close>\<close>
  record_protected :: "proc_history \<Rightarrow> wstring \<Rightarrow> bool"
  record_file :: "proc_history \<Rightarrow> wstring \<Rightarrow> opened_file option"
  save_ok :: "proc_history \<Rightarrow> string \<Rightarrow> bool"
  utf16 :: "string \<Rightarrow> wstring"
  utf8 :: "wstring \<Rightarrow> string"

text \<open>A call that changes state adds its event to the history.\<close>

definition redirect_reset :: "proc_env \<Rightarrow> wstring \<Rightarrow> proc_history \<Rightarrow> bool \<times> proc_history" where
  "redirect_reset env p h = (let ok = reset_ok env h p in (ok, h @ [RedirectReset p ok]))"

definition job_limit :: "proc_env \<Rightarrow> nat \<Rightarrow> bool \<Rightarrow> proc_history \<Rightarrow> bool \<times> proc_history" where
  "job_limit env job kill h = (let ok = set_limit env h job kill in (ok, h @ [JobLimit job kill ok]))"

definition assign_to_job :: "proc_env \<Rightarrow> nat \<Rightarrow> nat \<Rightarrow> proc_history \<Rightarrow> bool \<times> proc_history" where
  "assign_to_job env job p h =
     (let ok = assign_child env h job p in (ok, h @ [ChildAssigned job p ok]))"

definition resume_thread :: "proc_env \<Rightarrow> nat \<Rightarrow> proc_history \<Rightarrow> bool \<times> proc_history" where
  "resume_thread env p h = (let ok = resume_child env h p in (ok, h @ [ChildResumed p ok]))"

definition wait_process :: "proc_env \<Rightarrow> nat \<Rightarrow> nat \<Rightarrow> proc_history \<Rightarrow> wait_answer \<times> proc_history" where
  "wait_process env p ms h = (let a = wait_for env h p ms in (a, h @ [ChildWaited p a]))"

definition terminate :: "proc_env \<Rightarrow> nat \<Rightarrow> proc_history \<Rightarrow> bool \<times> proc_history" where
  "terminate env p h = (let ok = terminate_ok env h p in (ok, h @ [Terminated p ok]))"

definition save_record :: "proc_env \<Rightarrow> ProcessRecord \<Rightarrow> proc_history \<Rightarrow> bool \<times> proc_history" where
  "save_record env r h =
     SaveRecord (utf8 env) (\<lambda>content g. let ok = save_ok env g content in (ok, g @ [RecordSaved content ok])) r h"

definition DeleteRecord :: "proc_env \<Rightarrow> wstring \<Rightarrow> proc_history \<Rightarrow> proc_history" where
  "DeleteRecord env path h = (if record_present env h path then h @ [RecordDeleted path] else h)"

lemmas proc_calls = redirect_reset_def job_limit_def assign_to_job_def resume_thread_def
  wait_process_def terminate_def

section \<open>The manager\<close>

datatype StartStatus =
    StartOk | InvalidExecutable | RedirectFailed | JobFailed | CreateFailed | AssignJobFailed
  | ResumeFailed | IdentityFailed | ExitedEarly | RecordFailed

record StartResult =
  start_status :: StartStatus
  start_error :: nat
  exitCode :: nat
  start_record :: ProcessRecord

datatype StopStatus = Stopped | NotRunning | IdentityMismatch | StopFailed

record StopResult =
  stop_status :: StopStatus
  stop_error :: nat

record manager =
  recordPath :: wstring
  runtimeRoot :: wstring
  logsDir :: wstring
  current :: ProcessRecord       \<comment> \<open>\<^verbatim>\<open>record_\<close>\<close>
  process_handle :: "nat option" \<comment> \<open>\<^verbatim>\<open>process_\<close>\<close>
  job_handle :: "nat option"     \<comment> \<open>\<^verbatim>\<open>job_\<close>\<close>

definition IdentityMatches :: "proc_env \<Rightarrow> proc_history \<Rightarrow> ProcessRecord \<Rightarrow> bool" where
  "IdentityMatches env h r =
     (if \<not> record_valid r then False
      else if \<not> ProcessAlive env h (pid r) then False
      else if ProcessCreationTime env h (pid r) \<noteq> Some (creationTime r) then False
      else (case ProcessImagePath env h (pid r) of
              None \<Rightarrow> False
            | Some img \<Rightarrow> IEqualsAsciiW img (imagePath r)))"

definition NewProcessManager ::
  "proc_env \<Rightarrow> wstring \<Rightarrow> wstring \<Rightarrow> wstring \<Rightarrow> proc_history \<Rightarrow> manager \<times> proc_history" where
  "NewProcessManager env programDataRoot root logs h =
     (let path = programDataRoot @ W ([CHR 0x5C] @ ''winws-run.txt'');
          m = (\<lambda>r. \<lparr>recordPath = path, runtimeRoot = root, logsDir = logs, current = r,
                     process_handle = None, job_handle = None\<rparr>);
          r = LoadRecord (utf16 env) (record_protected env h path) (record_file env h path) in
      if record_valid r \<and> \<not> IsExpectedWinwsImage (imagePath r) root then (m empty_record, h)
      else if record_valid r \<and> \<not> IdentityMatches env h r then (m empty_record, DeleteRecord env path h)
      else (m r, h))"

definition CloseHandles :: "manager \<Rightarrow> proc_history \<Rightarrow> manager \<times> proc_history" where
  "CloseHandles m h =
     (m\<lparr>process_handle := None, job_handle := None\<rparr>,
      h @ (case process_handle m of None \<Rightarrow> [] | Some p \<Rightarrow> [HandleClosed p])
        @ (case job_handle m of None \<Rightarrow> [] | Some j \<Rightarrow> [HandleClosed j]))"

section \<open>Start\<close>

definition HandleIsSafeRegularFile :: "redirect_object \<Rightarrow> bool" where
  "HandleIsSafeRegularFile f \<longleftrightarrow> redirect_plain f \<and> redirect_links f = 1"

definition OpenProtectedRedirect ::
  "proc_env \<Rightarrow> wstring \<Rightarrow> wstring \<Rightarrow> proc_history \<Rightarrow> bool \<times> proc_history" where
  "OpenProtectedRedirect env path logsRoot h =
     (if \<not> descends env logsRoot path then (False, h)
      else (case redirect_reset env path h of
              (False, h1) \<Rightarrow> (False, h1)
            | (True, h1) \<Rightarrow>
                (case open_redirect env h1 path of
                   None \<Rightarrow> (False, h1)
                 | Some f \<Rightarrow> (HandleIsSafeRegularFile f \<and> redirect_protected f, h1))))"

definition start_failed :: "StartStatus \<Rightarrow> nat \<Rightarrow> StartResult" where
  "start_failed s e =
     \<lparr>start_status = s, start_error = e, exitCode = 0, start_record = empty_record\<rparr>"

definition error_access_denied :: nat where "error_access_denied = 5"
definition error_invalid_data :: nat where "error_invalid_data = 13"
definition error_write_fault :: nat where "error_write_fault = 29"
definition error_timeout :: nat where "error_timeout = 1460"

text \<open>The lambda \<^verbatim>\<open>rollback\<close>: terminate, close the job, wait, delete the record.\<close>

definition rollback_start :: "proc_env \<Rightarrow> child \<Rightarrow> nat \<Rightarrow> manager \<Rightarrow> proc_history \<Rightarrow> manager \<times> proc_history" where
  "rollback_start env c job m h =
     (let (_, h1) = terminate env (child_process c) h;
          (_, h2) = wait_process env (child_process c) 5000 (h1 @ [HandleClosed job])
      in (m\<lparr>current := empty_record\<rparr>,
          DeleteRecord env (recordPath m) (h2 @ [HandleClosed (child_process c)])))"

text \<open>
  The commit: from the end of the stabilisation window to the release of the job limit. The
  assignments \<^verbatim>\<open>process_ = pi.hProcess\<close> and \<^verbatim>\<open>job_ = job\<close> follow the closing of older handles.
\<close>

definition CommitStart ::
  "proc_env \<Rightarrow> child \<Rightarrow> nat \<Rightarrow> manager \<Rightarrow> proc_history \<Rightarrow> StartResult \<times> manager \<times> proc_history" where
  "CommitStart env c job m h =
     (case save_record env (current m) h of
        (False, h1) \<Rightarrow> (start_failed RecordFailed error_write_fault, rollback_start env c job m h1)
      | (True, h1) \<Rightarrow>
          (case job_limit env job False h1 of
             (False, h2) \<Rightarrow> (start_failed JobFailed (last_error env h2), rollback_start env c job m h2)
           | (True, h2) \<Rightarrow>
               (let (m', h3) = CloseHandles m h2 in
                (\<lparr>start_status = StartOk, start_error = 0, exitCode = 0, start_record = current m\<rparr>,
                 m'\<lparr>process_handle := Some (child_process c), job_handle := Some job\<rparr>, h3))))"

text \<open>The suspended child from its assignment to the job on.\<close>

definition PinnedIdentity :: "proc_env \<Rightarrow> wstring \<Rightarrow> wstring \<Rightarrow> child \<Rightarrow> proc_history \<Rightarrow> ProcessRecord option" where
  "PinnedIdentity env exePath root c h =
     (case (CreationTimeOf env h (child_process c), ImagePathOf env h (child_process c)) of
        (Some t, Some img) \<Rightarrow>
          if IEqualsAsciiW img exePath \<and> IsExpectedWinwsImage img root
          then Some \<lparr>pid = child_pid c, creationTime = t, imagePath = img\<rparr> else None
      | _ \<Rightarrow> None)"

text \<open>The stabilisation window of the resumed child, whose identity is the current record.\<close>

definition Stabilize ::
  "proc_env \<Rightarrow> nat \<Rightarrow> child \<Rightarrow> nat \<Rightarrow> manager \<Rightarrow> proc_history \<Rightarrow> StartResult \<times> manager \<times> proc_history" where
  "Stabilize env stabilizeMs c job m h =
     (case wait_process env (child_process c) stabilizeMs h of
        (waited, h1) \<Rightarrow>
          if waited = WaitObject then
            (\<lparr>start_status = ExitedEarly, start_error = 0,
               exitCode = exit_code env h1 (child_process c), start_record = current m\<rparr>,
             m\<lparr>current := empty_record\<rparr>,
             DeleteRecord env (recordPath m) h1 @
               [HandleClosed (child_process c), HandleClosed job])
          else if waited \<noteq> WaitTimeout \<or> \<not> IdentityMatches env h1 (current m) then
            (start_failed IdentityFailed
               (if waited = WaitFailed then last_error env h1 else error_invalid_data),
             rollback_start env c job m h1)
          else CommitStart env c job m h1)"

definition RunChild ::
  "proc_env \<Rightarrow> wstring \<Rightarrow> nat \<Rightarrow> child \<Rightarrow> nat \<Rightarrow> manager \<Rightarrow> proc_history \<Rightarrow>
     StartResult \<times> manager \<times> proc_history" where
  "RunChild env exePath stabilizeMs c job m h =
     (case assign_to_job env job (child_process c) h of
        (False, h1) \<Rightarrow> (start_failed AssignJobFailed (last_error env h1), rollback_start env c job m h1)
      | (True, h1) \<Rightarrow>
          (case PinnedIdentity env exePath (runtimeRoot m) c h1 of
             None \<Rightarrow> (start_failed IdentityFailed error_invalid_data, rollback_start env c job m h1)
           | Some r \<Rightarrow>
               (let m1 = m\<lparr>current := r\<rparr> in
                case resume_thread env (child_process c) h1 of
                  (False, h2) \<Rightarrow> (start_failed ResumeFailed (last_error env h2), rollback_start env c job m1 h2)
                | (True, h2) \<Rightarrow> Stabilize env stabilizeMs c job m1 h2)))"

text \<open>The attribute list: the error of the first call that fails.\<close>

definition PrepareAttributes :: "proc_env \<Rightarrow> proc_history \<Rightarrow> nat option" where
  "PrepareAttributes env h =
     (if attribute_size env h = 0 \<or> 64 * 1024 < attribute_size env h \<or> \<not> attributes_init env h \<or>
         \<not> attributes_handles env h \<or> \<not> attributes_policy env h
      then Some (last_error env h) else None)"

text \<open>The job object with its limit, and the suspended child.\<close>

definition LaunchInJob ::
  "proc_env \<Rightarrow> wstring \<Rightarrow> wstring list \<Rightarrow> wstring \<Rightarrow> nat \<Rightarrow> manager \<Rightarrow> proc_history \<Rightarrow>
     StartResult \<times> manager \<times> proc_history" where
  "LaunchInJob env exePath args workingDir stabilizeMs m h =
     (case create_job env h of
        None \<Rightarrow> (start_failed JobFailed (last_error env h), m, h)
      | Some job \<Rightarrow>
          (case job_limit env job True (h @ [JobCreated job]) of
             (False, h1) \<Rightarrow> (start_failed JobFailed (last_error env h1), m, h1 @ [HandleClosed job])
           | (True, h1) \<Rightarrow>
               (let cmd = Build exePath args in
                case create_child env h1 exePath cmd workingDir of
                  None \<Rightarrow> (start_failed CreateFailed (last_error env h1), m, h1 @ [HandleClosed job])
                | Some c \<Rightarrow>
                    RunChild env exePath stabilizeMs c job m
                      (h1 @ [ChildCreated c exePath cmd workingDir]))))"

definition Start ::
  "proc_env \<Rightarrow> wstring \<Rightarrow> wstring list \<Rightarrow> wstring \<Rightarrow> wstring \<Rightarrow> wstring \<Rightarrow> nat \<Rightarrow> manager \<Rightarrow> proc_history \<Rightarrow>
     StartResult \<times> manager \<times> proc_history" where
  "Start env exePath args workingDir stdoutLog stderrLog stabilizeMs m h =
     (let executableCheck = check_image env h exePath in
      if \<not> fst executableCheck \<or> \<not> IsExpectedWinwsImage exePath (runtimeRoot m) then
        (start_failed InvalidExecutable
           (if snd executableCheck \<noteq> 0 then snd executableCheck else error_access_denied), m, h)
      else
        let nul = open_nul env h;
            (out, h1) = OpenProtectedRedirect env stdoutLog (logsDir m) h;
            (err, h2) = OpenProtectedRedirect env stderrLog (logsDir m) h1 in
        if \<not> nul \<or> \<not> out \<or> \<not> err then (start_failed RedirectFailed (last_error env h2), m, h2)
        else (case PrepareAttributes env h2 of
                Some e \<Rightarrow> (start_failed CreateFailed e, m, h2)
              | None \<Rightarrow> LaunchInJob env exePath args workingDir stabilizeMs m h2))"

section \<open>Stop\<close>

definition stop_result :: "StopStatus \<Rightarrow> nat \<Rightarrow> StopResult" where
  "stop_result s e = \<lparr>stop_status = s, stop_error = e\<rparr>"

text \<open>From the opened handle on.\<close>

definition StopOpened ::
  "proc_env \<Rightarrow> nat \<Rightarrow> manager \<Rightarrow> proc_history \<Rightarrow> StopResult \<times> manager \<times> proc_history" where
  "StopOpened env p m h =
     (if CreationTimeOf env h p \<noteq> Some (creationTime (current m)) \<or>
         (case ImagePathOf env h p of
            None \<Rightarrow> True | Some img \<Rightarrow> \<not> IEqualsAsciiW img (imagePath (current m)))
      then (stop_result IdentityMismatch 0, m, h @ [HandleClosed p])
      else (case terminate env p h of
              (False, h1) \<Rightarrow> (stop_result StopFailed (last_error env h1), m, h1 @ [HandleClosed p])
            | (True, h1) \<Rightarrow>
                (case wait_process env p 5000 h1 of
                   (stopped, h2) \<Rightarrow>
                     if stopped \<noteq> WaitObject then
                       (stop_result StopFailed
                          (if stopped = WaitFailed then last_error env h2 else error_timeout),
                        m, h2 @ [HandleClosed p])
                     else
                       (let (m', h3) = CloseHandles m
                              (DeleteRecord env (recordPath m) (h2 @ [HandleClosed p])) in
                        (stop_result Stopped 0, m'\<lparr>current := empty_record\<rparr>, h3)))))"

definition Stop :: "proc_env \<Rightarrow> manager \<Rightarrow> proc_history \<Rightarrow> StopResult \<times> manager \<times> proc_history" where
  "Stop env m h =
     (if \<not> record_valid (current m) then (stop_result NotRunning 0, CloseHandles m h)
      else if \<not> IsExpectedWinwsImage (imagePath (current m)) (runtimeRoot m) then
        (stop_result IdentityMismatch 0, CloseHandles m h)
      else if \<not> ProcessAlive env h (pid (current m)) then
        (let (m', h1) = CloseHandles m (DeleteRecord env (recordPath m) h) in
         (stop_result NotRunning 0, m'\<lparr>current := empty_record\<rparr>, h1))
      else if \<not> IdentityMatches env h (current m) then (stop_result IdentityMismatch 0, CloseHandles m h)
      else (case open_process env h (pid (current m)) of
              None \<Rightarrow> (stop_result StopFailed (last_error env h), m, h)
            | Some p \<Rightarrow> StopOpened env p m h))"

definition Detach :: "manager \<Rightarrow> proc_history \<Rightarrow> manager \<times> proc_history" where
  "Detach m h = CloseHandles m h"

definition IsConnectedByUs :: "proc_env \<Rightarrow> proc_history \<Rightarrow> manager \<Rightarrow> bool" where
  "IsConnectedByUs env h m \<longleftrightarrow> record_valid (current m) \<and> IdentityMatches env h (current m)"

definition TrustedPidForExclusion :: "proc_env \<Rightarrow> proc_history \<Rightarrow> ProcessRecord \<Rightarrow> wstring \<Rightarrow> nat" where
  "TrustedPidForExclusion env h r root =
     (if record_valid r \<and> IsExpectedWinwsImage (imagePath r) root \<and> IdentityMatches env h r
      then pid r else 0)"

section \<open>The kernel's view\<close>

text \<open>
  The documented effect of the calls on one job and one child process: a resumed thread runs, a
  terminated or signalled process has ended, and the last handle of a job that kills on close takes
  the processes assigned to it along.
\<close>

datatype engine_state = Absent | Suspended | Running | Ended

record kernel =
  kills :: bool
  in_job :: bool
  engine :: engine_state

definition kernel0 :: kernel where
  "kernel0 = \<lparr>kills = False, in_job = False, engine = Absent\<rparr>"

fun kernel_step :: "nat \<Rightarrow> nat \<Rightarrow> kernel \<Rightarrow> proc_event \<Rightarrow> kernel" where
  "kernel_step j p k (JobLimit j' kill ok) = (if j' = j \<and> ok then k\<lparr>kills := kill\<rparr> else k)"
| "kernel_step j p k (ChildCreated c _ _ _) =
     (if child_process c = p then k\<lparr>engine := Suspended, in_job := False\<rparr> else k)"
| "kernel_step j p k (ChildAssigned j' p' ok) =
     (if j' = j \<and> p' = p \<and> ok then k\<lparr>in_job := True\<rparr> else k)"
| "kernel_step j p k (ChildResumed p' ok) =
     (if p' = p \<and> ok \<and> engine k = Suspended then k\<lparr>engine := Running\<rparr> else k)"
| "kernel_step j p k (ChildWaited p' a) =
     (if p' = p \<and> a = WaitObject then k\<lparr>engine := Ended\<rparr> else k)"
| "kernel_step j p k (Terminated p' ok) = (if p' = p \<and> ok then k\<lparr>engine := Ended\<rparr> else k)"
| "kernel_step j p k (HandleClosed x) =
     (if x = j \<and> kills k \<and> in_job k then k\<lparr>engine := Ended\<rparr> else k)"
| "kernel_step j p k _ = k"

definition kernel_run :: "nat \<Rightarrow> nat \<Rightarrow> kernel \<Rightarrow> proc_history \<Rightarrow> kernel" where
  "kernel_run j p k evs = foldl (kernel_step j p) k evs"

lemma kernel_run_simps [simp]:
  "kernel_run j p k [] = k"
  "kernel_run j p k (e # evs) = kernel_run j p (kernel_step j p k e) evs"
  "kernel_run j p k (evs @ evs') = kernel_run j p (kernel_run j p k evs) evs'"
  by (simp_all add: kernel_run_def)

fun creates :: "proc_event \<Rightarrow> bool" where
  "creates (JobCreated j) = True"
| "creates (ChildCreated c x y z) = True"
| "creates e = False"

text \<open>The events of the helpers.\<close>

lemma DeleteRecord_events:
  obtains del where "DeleteRecord env path h = h @ del" "list_all (\<lambda>e. \<not> creates e) del"
    "\<And>j p k. kernel_run j p k del = k" "set del \<subseteq> {RecordDeleted path}"
  by (cases "record_present env h path") (auto simp: DeleteRecord_def)

lemma save_record_events:
  assumes "save_record env r h = (ok, h')"
  shows "(\<not> ok \<and> h' = h) \<or>
    (h' = h @ [RecordSaved (SerializeRecord (pid r) (creationTime r) (utf8 env (imagePath r))) ok] \<and>
     record_valid r)"
  using assms by (auto simp: save_record_def SaveRecord_def Let_def split: if_splits)

lemma CloseHandles_events:
  obtains cl where "CloseHandles m h = (m\<lparr>process_handle := None, job_handle := None\<rparr>, h @ cl)"
    "list_all (\<lambda>e. \<not> creates e) cl" "\<And>j p k. \<not> kills k \<Longrightarrow> kernel_run j p k cl = k"
    "\<forall>e\<in>set cl. \<exists>x. e = HandleClosed x"
  by (cases "process_handle m"; cases "job_handle m") (auto simp: CloseHandles_def)

text \<open>A rollback: what runs in a job that kills on close has ended afterwards.\<close>

lemma rollback_events:
  obtains rb where "rollback_start env c j m h = (m\<lparr>current := empty_record\<rparr>, h @ rb)"
    "list_all (\<lambda>e. \<not> creates e) rb" "\<forall>p ok. ChildResumed p ok \<notin> set rb"
    "\<And>k. kills k \<Longrightarrow> in_job k \<Longrightarrow> engine (kernel_run j (child_process c) k rb) = Ended"
    "\<And>k. engine (kernel_run j (child_process c) k rb) = Ended \<or>
       engine (kernel_run j (child_process c) k rb) = engine k \<and> Terminated (child_process c) False \<in> set rb"
proof -
  let ?p = "child_process c"
  let ?t = "terminate_ok env h ?p"
  let ?h1 = "h @ [Terminated ?p ?t, HandleClosed j]"
  let ?w = "wait_for env ?h1 ?p 5000"
  obtain del where del: "DeleteRecord env (recordPath m) (?h1 @ [ChildWaited ?p ?w, HandleClosed ?p]) =
      (?h1 @ [ChildWaited ?p ?w, HandleClosed ?p]) @ del"
    "list_all (\<lambda>e. \<not> creates e) del" "\<And>j p k. kernel_run j p k del = k"
    "set del \<subseteq> {RecordDeleted (recordPath m)}"
    by (rule DeleteRecord_events [of env "recordPath m" "?h1 @ [ChildWaited ?p ?w, HandleClosed ?p]"]) blast
  define rb where "rb = [Terminated ?p ?t, HandleClosed j, ChildWaited ?p ?w, HandleClosed ?p] @ del"
  show ?thesis
  proof (rule that)
    show "rollback_start env c j m h = (m\<lparr>current := empty_record\<rparr>, h @ rb)"
      using del(1) by (simp add: rollback_start_def proc_calls Let_def rb_def)
  qed (use del(2,3,4) in \<open>auto simp: rb_def\<close>)
qed

section \<open>A start is a transaction\<close>

text \<open>
  What a start must leave behind, for the job \<open>j\<close> and the child \<open>c\<close> it created: on success the child
  runs in a job that no longer kills it, its pinned identity is the current record, was saved, and the
  manager owns the two handles; otherwise there is no current record and the child has ended. The one
  exception is a child that could neither be assigned to the job nor be terminated: it stays suspended.
\<close>

definition start_outcome ::
  "proc_env \<Rightarrow> wstring \<Rightarrow> nat \<Rightarrow> child \<Rightarrow> kernel \<Rightarrow> proc_history \<Rightarrow> StartResult \<Rightarrow> manager \<Rightarrow> bool" where
  "start_outcome env exePath j c k evs res m' \<longleftrightarrow>
     (let p = child_process c; k' = kernel_run j p k evs; r = current m' in
      if start_status res = StartOk then
        engine k' = Running \<and> in_job k' \<and> \<not> kills k' \<and>
        process_handle m' = Some p \<and> job_handle m' = Some j \<and>
        start_record res = r \<and> record_valid r \<and> pid r = child_pid c \<and>
        IEqualsAsciiW (imagePath r) exePath \<and> IsExpectedWinwsImage (imagePath r) (runtimeRoot m') \<and>
        RecordSaved (SerializeRecord (pid r) (creationTime r) (utf8 env (imagePath r))) True \<in> set evs
      else
        r = empty_record \<and>
        (engine k' = Ended \<or>
         engine k' = Suspended \<and> ChildAssigned j p False \<in> set evs \<and> Terminated p False \<in> set evs))"

lemma start_outcome_prefix:
  "start_outcome env exePath j c (kernel_run j (child_process c) k pre) evs res m' \<Longrightarrow>
     start_outcome env exePath j c k (pre @ evs) res m'"
  unfolding start_outcome_def Let_def by (auto split: if_splits)

lemma PinnedIdentity_Some:
  "PinnedIdentity env exePath root c h = Some r \<Longrightarrow>
     pid r = child_pid c \<and> IEqualsAsciiW (imagePath r) exePath \<and> IsExpectedWinwsImage (imagePath r) root"
  by (auto simp: PinnedIdentity_def split: option.splits if_splits)

fun resumes :: "proc_event \<Rightarrow> bool" where
  "resumes (ChildResumed p ok) = True"
| "resumes e = False"

text \<open>A child is resumed once, directly after it was assigned to the job and its identity was pinned.\<close>

definition resumed_verified ::
  "proc_env \<Rightarrow> wstring \<Rightarrow> wstring \<Rightarrow> nat \<Rightarrow> child \<Rightarrow> proc_history \<Rightarrow> proc_history \<Rightarrow> bool" where
  "resumed_verified env exePath root j c h evs \<longleftrightarrow>
     list_all (\<lambda>e. \<not> resumes e) evs \<or>
     (\<exists>ok rest. evs = ChildAssigned j (child_process c) True # ChildResumed (child_process c) ok # rest \<and>
        list_all (\<lambda>e. \<not> resumes e) rest \<and>
        PinnedIdentity env exePath root c (h @ [ChildAssigned j (child_process c) True]) \<noteq> None)"

lemma start_failed_status [simp]: "start_status (start_failed s e) = s"
  by (simp add: start_failed_def)

text \<open>A failure that rolls back after the events \<open>pre\<close>.\<close>

lemma rolled_back:
  assumes "rollback_start env c j m (h @ pre) = (m', h')" "start_status res \<noteq> StartOk"
    and "list_all (\<lambda>e. \<not> creates e) pre"
    and "kills kk \<and> in_job kk \<or> engine kk = Suspended \<and> ChildAssigned j (child_process c) False \<in> set pre"
    and "kk = kernel_run j (child_process c) k pre"
  shows "\<exists>rb. h' = h @ pre @ rb \<and> list_all (\<lambda>e. \<not> creates e) (pre @ rb) \<and>
    list_all (\<lambda>e. \<not> resumes e) rb \<and> start_outcome env exePath j c k (pre @ rb) res m'"
proof -
  obtain rb where rb: "rollback_start env c j m (h @ pre) = (m\<lparr>current := empty_record\<rparr>, (h @ pre) @ rb)"
    "list_all (\<lambda>e. \<not> creates e) rb" "\<forall>p ok. ChildResumed p ok \<notin> set rb"
    "\<And>k. kills k \<Longrightarrow> in_job k \<Longrightarrow> engine (kernel_run j (child_process c) k rb) = Ended"
    "\<And>k. engine (kernel_run j (child_process c) k rb) = Ended \<or>
       engine (kernel_run j (child_process c) k rb) = engine k \<and> Terminated (child_process c) False \<in> set rb"
    by (rule rollback_events [of env c j m "h @ pre"]) blast
  have "\<not> resumes e" if "e \<in> set rb" for e using rb(3) that by (cases e) auto
  then have "list_all (\<lambda>e. \<not> resumes e) rb" by (simp add: list_all_iff)
  moreover have "start_outcome env exePath j c k (pre @ rb) res m'"
    using assms rb(1) rb(4) [of kk] rb(5) [of kk] by (auto simp: start_outcome_def)
  ultimately show ?thesis using assms rb(1,2) by auto
qed

text \<open>The statement that the lemmas below carry from the commit to the whole start.\<close>

definition child_outcome ::
  "proc_env \<Rightarrow> wstring \<Rightarrow> nat \<Rightarrow> child \<Rightarrow> kernel \<Rightarrow> proc_history \<Rightarrow> proc_history \<Rightarrow>
     StartResult \<times> manager \<times> proc_history \<Rightarrow> bool" where
  "child_outcome env exePath j c k h pre out \<longleftrightarrow>
     (case out of (res, m', h') \<Rightarrow>
        \<exists>evs. h' = h @ pre @ evs \<and> list_all (\<lambda>e. \<not> creates e) (pre @ evs) \<and>
          list_all (\<lambda>e. \<not> resumes e) evs \<and> start_outcome env exePath j c k (pre @ evs) res m')"

lemma child_outcome_rollback:
  assumes "s \<noteq> StartOk" "list_all (\<lambda>e. \<not> creates e) (pre @ mid)" "list_all (\<lambda>e. \<not> resumes e) mid"
    and "kills kk \<and> in_job kk \<or> engine kk = Suspended \<and> ChildAssigned j (child_process c) False \<in> set pre"
    and "kk = kernel_run j (child_process c) k (pre @ mid)"
  shows "child_outcome env exePath j c k h pre (start_failed s e, rollback_start env c j m (h @ pre @ mid))"
proof -
  obtain m' h' where rb: "rollback_start env c j m (h @ pre @ mid) = (m', h')" by (cases "rollback_start env c j m (h @ pre @ mid)")
  have "\<exists>rb. h' = h @ (pre @ mid) @ rb \<and> list_all (\<lambda>e. \<not> creates e) ((pre @ mid) @ rb) \<and>
    list_all (\<lambda>e. \<not> resumes e) rb \<and> start_outcome env exePath j c k ((pre @ mid) @ rb) (start_failed s e) m'"
    by (rule rolled_back) (use rb assms in auto)
  then obtain r where "h' = h @ (pre @ mid) @ r" "list_all (\<lambda>e. \<not> creates e) ((pre @ mid) @ r)"
    "list_all (\<lambda>e. \<not> resumes e) r" "start_outcome env exePath j c k ((pre @ mid) @ r) (start_failed s e) m'"
    by blast
  then show ?thesis
    using assms(3) unfolding child_outcome_def rb by (auto intro!: exI [where x = "mid @ r"])
qed

lemma CommitStart_outcome:
  assumes pre: "list_all (\<lambda>e. \<not> creates e) pre"
    and kk: "kk = kernel_run j (child_process c) k pre" "kills kk" "in_job kk" "engine kk = Running"
    and r: "pid (current m) = child_pid c" "IEqualsAsciiW (imagePath (current m)) exePath"
      "IsExpectedWinwsImage (imagePath (current m)) (runtimeRoot m)"
  shows "child_outcome env exePath j c k h pre (CommitStart env c j m (h @ pre))"
proof (cases "save_record env (current m) (h @ pre)")
  case (Pair saved h1)
  let ?s = "SerializeRecord (pid (current m)) (creationTime (current m)) (utf8 env (imagePath (current m)))"
  note save = save_record_events [OF Pair]
  show ?thesis
  proof (cases saved)
    case False
    then obtain mid where mid: "h1 = h @ pre @ mid" "list_all (\<lambda>e. \<not> creates e) mid" "list_all (\<lambda>e. \<not> resumes e) mid"
      "kernel_run j (child_process c) kk mid = kk"
      using save by (cases "h1 = h @ pre") auto
    have "child_outcome env exePath j c k h pre
        (start_failed RecordFailed error_write_fault, rollback_start env c j m (h @ pre @ mid))"
      by (rule child_outcome_rollback [where kk = kk]) (use pre mid kk in auto)
    then show ?thesis using Pair False mid(1) by (simp add: CommitStart_def)
  next
    case True
    then have h1: "h1 = h @ pre @ [RecordSaved ?s True]" and valid: "record_valid (current m)" using save by auto
    let ?ok = "set_limit env h1 j False"
    show ?thesis
    proof (cases ?ok)
      case False
      have "child_outcome env exePath j c k h pre
          (start_failed JobFailed (last_error env (h @ pre @ [RecordSaved ?s True, JobLimit j False False])),
           rollback_start env c j m (h @ pre @ [RecordSaved ?s True, JobLimit j False False]))"
        by (rule child_outcome_rollback [where kk = kk]) (use pre kk in auto)
      then show ?thesis using Pair True False h1 by (simp add: CommitStart_def job_limit_def)
    next
      case limit: True
      let ?h2 = "h1 @ [JobLimit j False True]"
      obtain cl where cl: "CloseHandles m ?h2 = (m\<lparr>process_handle := None, job_handle := None\<rparr>, ?h2 @ cl)"
        "list_all (\<lambda>e. \<not> creates e) cl" "\<And>j p k. \<not> kills k \<Longrightarrow> kernel_run j p k cl = k"
        "\<forall>e\<in>set cl. \<exists>x. e = HandleClosed x"
        by (rule CloseHandles_events [of m ?h2]) blast
      have out: "CommitStart env c j m (h @ pre) =
          (\<lparr>start_status = StartOk, start_error = 0, exitCode = 0, start_record = current m\<rparr>,
           m\<lparr>process_handle := Some (child_process c), job_handle := Some j\<rparr>, ?h2 @ cl)"
        using Pair True limit cl(1) by (simp add: CommitStart_def job_limit_def)
      have "start_outcome env exePath j c k (pre @ [RecordSaved ?s True, JobLimit j False True] @ cl)
          \<lparr>start_status = StartOk, start_error = 0, exitCode = 0, start_record = current m\<rparr>
          (m\<lparr>process_handle := Some (child_process c), job_handle := Some j\<rparr>)"
        using kk cl(3) valid r by (simp add: start_outcome_def)
      moreover have "list_all (\<lambda>e. \<not> resumes e) cl" using cl(4) by (auto simp: list_all_iff)
      ultimately show ?thesis
        using pre cl(2) unfolding out child_outcome_def h1
        by (auto intro!: exI [where x = "RecordSaved ?s True # JobLimit j False True # cl"])
    qed
  qed
qed

definition run_outcome ::
  "proc_env \<Rightarrow> wstring \<Rightarrow> wstring \<Rightarrow> nat \<Rightarrow> child \<Rightarrow> kernel \<Rightarrow> proc_history \<Rightarrow>
     StartResult \<times> manager \<times> proc_history \<Rightarrow> bool" where
  "run_outcome env exePath root j c k h out \<longleftrightarrow>
     (case out of (res, m', h') \<Rightarrow>
        \<exists>evs. h' = h @ evs \<and> list_all (\<lambda>e. \<not> creates e) evs \<and>
          resumed_verified env exePath root j c h evs \<and> start_outcome env exePath j c k evs res m')"

lemma run_not_resumed:
  assumes "child_outcome env exePath j c k h pre out" "list_all (\<lambda>e. \<not> resumes e) pre"
  shows "run_outcome env exePath root j c k h out"
  using assms unfolding child_outcome_def run_outcome_def resumed_verified_def
  by (auto split: prod.splits)

lemma run_resumed:
  assumes "child_outcome env exePath j c k h
      (ChildAssigned j (child_process c) True # ChildResumed (child_process c) ok # rest) out"
    and "list_all (\<lambda>e. \<not> resumes e) rest"
    and "PinnedIdentity env exePath root c (h @ [ChildAssigned j (child_process c) True]) = Some r"
  shows "run_outcome env exePath root j c k h out"
proof (cases out)
  case (fields res m' h')
  with assms(1) obtain evs where
    "h' = h @ ChildAssigned j (child_process c) True # ChildResumed (child_process c) ok # rest @ evs"
    "list_all (\<lambda>e. \<not> creates e) (rest @ evs)" "list_all (\<lambda>e. \<not> resumes e) evs"
    "start_outcome env exePath j c k
       (ChildAssigned j (child_process c) True # ChildResumed (child_process c) ok # rest @ evs) res m'"
    by (auto simp: child_outcome_def)
  then show ?thesis
    unfolding fields run_outcome_def resumed_verified_def prod.case using assms(2,3)
    by (intro exI [where x = "ChildAssigned j (child_process c) True #
          ChildResumed (child_process c) ok # rest @ evs"]) simp
qed

lemma child_outcome_extend:
  assumes "child_outcome env exePath j c k h (pre @ mid) out" "list_all (\<lambda>e. \<not> resumes e) mid"
  shows "child_outcome env exePath j c k h pre out"
proof -
  obtain res m' h' where out: "out = (res, m', h')" by (cases out)
  with assms(1) obtain evs where "h' = h @ pre @ mid @ evs"
    "list_all (\<lambda>e. \<not> creates e) (pre @ mid @ evs)" "list_all (\<lambda>e. \<not> resumes e) evs"
    "start_outcome env exePath j c k (pre @ mid @ evs) res m'"
    by (auto simp: child_outcome_def)
  then show ?thesis
    unfolding out child_outcome_def prod.case using assms(2)
    by (intro exI [where x = "mid @ evs"]) simp
qed

lemma Stabilize_outcome:
  assumes pre: "list_all (\<lambda>e. \<not> creates e) pre"
    and kk: "kk = kernel_run j (child_process c) k pre" "kills kk" "in_job kk" "engine kk = Running"
    and r: "pid (current m) = child_pid c" "IEqualsAsciiW (imagePath (current m)) exePath"
      "IsExpectedWinwsImage (imagePath (current m)) (runtimeRoot m)"
  shows "child_outcome env exePath j c k h pre (Stabilize env stabilizeMs c j m (h @ pre))"
proof -
  let ?p = "child_process c"
  let ?w = "wait_for env (h @ pre) ?p stabilizeMs"
  let ?mid = "[ChildWaited ?p ?w]"
  consider (exited) "?w = WaitObject"
    | (mismatch) "?w \<noteq> WaitObject" "?w \<noteq> WaitTimeout \<or> \<not> IdentityMatches env (h @ pre @ ?mid) (current m)"
    | (commit) "?w = WaitTimeout" "IdentityMatches env (h @ pre @ ?mid) (current m)"
    by auto
  then show ?thesis
  proof cases
    case exited
    let ?h = "h @ pre @ [ChildWaited ?p WaitObject]"
    obtain del where del: "DeleteRecord env (recordPath m) ?h = ?h @ del"
      "list_all (\<lambda>e. \<not> creates e) del" "\<And>j p k. kernel_run j p k del = k"
      "set del \<subseteq> {RecordDeleted (recordPath m)}"
      by (rule DeleteRecord_events [of env "recordPath m" ?h]) blast
    have "list_all (\<lambda>e. \<not> resumes e) del" using del(4) by (auto simp: list_all_iff)
    then show ?thesis
      using exited pre kk del
      by (auto simp: Stabilize_def wait_process_def child_outcome_def start_outcome_def
          intro!: exI [where x = "ChildWaited ?p WaitObject # del @ [HandleClosed ?p, HandleClosed j]"])
  next
    case mismatch
    have "child_outcome env exePath j c k h pre
        (start_failed IdentityFailed (if ?w = WaitFailed then last_error env (h @ pre @ ?mid) else error_invalid_data),
         rollback_start env c j m (h @ pre @ ?mid))"
      by (rule child_outcome_rollback [where kk = kk]) (use kk pre mismatch in auto)
    then show ?thesis using mismatch by (simp add: Stabilize_def wait_process_def Let_def)
  next
    case commit
    have "child_outcome env exePath j c k h (pre @ ?mid) (CommitStart env c j m (h @ pre @ ?mid))"
      by (rule CommitStart_outcome [where kk = kk, simplified]) (use kk pre commit r in auto)
    then have "child_outcome env exePath j c k h pre (CommitStart env c j m (h @ pre @ ?mid))"
      by (rule child_outcome_extend) simp
    then show ?thesis using commit by (simp add: Stabilize_def wait_process_def Let_def)
  qed
qed

lemma RunChild_outcome:
  assumes k: "kills k" "\<not> in_job k" "engine k = Suspended"
  shows "run_outcome env exePath (runtimeRoot m) j c k h (RunChild env exePath stabilizeMs c j m h)"
proof -
  let ?p = "child_process c"
  let ?a = "assign_child env h j ?p"
  let ?h1 = "h @ [ChildAssigned j ?p ?a]"
  let ?u = "resume_child env ?h1 ?p"
  have failed: "run_outcome env exePath (runtimeRoot m) j c k h (start_failed s e, rollback_start env c j m (h @ [ChildAssigned j ?p b]))"
    if "s \<noteq> StartOk" for s e b
  proof -
    have "child_outcome env exePath j c k h [ChildAssigned j ?p b]
        (start_failed s e, rollback_start env c j m (h @ [ChildAssigned j ?p b] @ []))"
      by (rule child_outcome_rollback [where kk = "kernel_run j ?p k [ChildAssigned j ?p b]"])
        (use k that in auto)
    then show ?thesis by (simp add: run_not_resumed)
  qed
  consider (unassigned) "\<not> ?a"
    | (unpinned) "?a" "PinnedIdentity env exePath (runtimeRoot m) c ?h1 = None"
    | (pinned) r where "?a" "PinnedIdentity env exePath (runtimeRoot m) c ?h1 = Some r"
    by (cases "PinnedIdentity env exePath (runtimeRoot m) c ?h1") auto
  then show ?thesis
  proof cases
    case pinned
    let ?m = "m\<lparr>current := r\<rparr>"
    let ?pre = "[ChildAssigned j ?p True, ChildResumed ?p ?u]"
    have "child_outcome env exePath j c k h ?pre
        (if ?u then Stabilize env stabilizeMs c j ?m (h @ ?pre)
         else (start_failed ResumeFailed (last_error env (h @ ?pre)), rollback_start env c j ?m (h @ ?pre @ [])))"
    proof (cases ?u)
      case True
      then show ?thesis
        using k PinnedIdentity_Some [OF pinned(2)]
        by (simp add: Stabilize_outcome [where kk = "k\<lparr>in_job := True, engine := Running\<rparr>"])
    next
      case False
      have "child_outcome env exePath j c k h ?pre
        (start_failed ResumeFailed (last_error env (h @ ?pre)), rollback_start env c j ?m (h @ ?pre @ []))"
        by (rule child_outcome_rollback [where kk = "k\<lparr>in_job := True\<rparr>"]) (use k False in auto)
      then show ?thesis by (simp only: False if_False)
    qed
    then have "run_outcome env exePath (runtimeRoot m) j c k h
        (if ?u then Stabilize env stabilizeMs c j ?m (h @ ?pre)
         else (start_failed ResumeFailed (last_error env (h @ ?pre)), rollback_start env c j ?m (h @ ?pre @ [])))"
      by (rule run_resumed [where rest = "[]" and r = r]) (use pinned in simp_all)
    then show ?thesis
      using pinned by (cases ?u) (simp_all add: RunChild_def assign_to_job_def resume_thread_def Let_def)
  qed (use failed in \<open>simp_all add: RunChild_def assign_to_job_def\<close>)
qed

definition start_transaction ::
  "proc_env \<Rightarrow> wstring \<Rightarrow> wstring list \<Rightarrow> wstring \<Rightarrow> manager \<Rightarrow> proc_history \<Rightarrow> proc_history \<Rightarrow>
     StartResult \<Rightarrow> manager \<Rightarrow> bool" where
  "start_transaction env exePath args workingDir m h evs res m' \<longleftrightarrow>
     (\<forall>c x y z. ChildCreated c x y z \<notin> set evs) \<and> m' = m \<and>
       start_status res \<in> {InvalidExecutable, RedirectFailed, JobFailed, CreateFailed} \<or>
     (\<exists>j c pre rest.
        evs = pre @ [JobCreated j, JobLimit j True True,
          ChildCreated c exePath (Build exePath args) workingDir] @ rest \<and>
        list_all (\<lambda>e. \<not> creates e) (pre @ rest) \<and> list_all (\<lambda>e. \<not> resumes e) pre \<and>
        resumed_verified env exePath (runtimeRoot m) j c
          (h @ pre @ [JobCreated j, JobLimit j True True,
             ChildCreated c exePath (Build exePath args) workingDir]) rest \<and>
        start_outcome env exePath j c kernel0 evs res m')"

lemma OpenProtectedRedirect_events:
  "OpenProtectedRedirect env path logs h = (ok, h') \<Longrightarrow>
     \<exists>evs. h' = h @ evs \<and> (\<forall>e\<in>set evs. \<exists>p b. e = RedirectReset p b)"
  by (auto simp: OpenProtectedRedirect_def redirect_reset_def Let_def
      split: if_splits option.splits bool.splits)

lemma LaunchInJob_transaction:
  assumes pre: "\<forall>e\<in>set pre. \<exists>p b. e = RedirectReset p b"
    and launch: "LaunchInJob env exePath args workingDir ms m (h @ pre) = (res, m', h')"
  shows "\<exists>evs. h' = h @ evs \<and> start_transaction env exePath args workingDir m h evs res m'"
proof -
  have quiet: "list_all (\<lambda>e. \<not> creates e) pre" "list_all (\<lambda>e. \<not> resumes e) pre"
    using pre by (force simp: list_all_iff)+
  have still: "kernel_run j p k pre = k" for j p k
    using pre by (induction pre arbitrary: k) auto
  have no_child: "\<forall>c x y z. ChildCreated c x y z \<notin> set pre" using pre by auto
  show ?thesis
  proof (cases "create_job env (h @ pre)")
    case None
    then show ?thesis using launch no_child
      by (intro exI [where x = pre]) (simp add: LaunchInJob_def start_transaction_def, metis start_failed_status)
  next
    case (Some j)
    let ?ok = "set_limit env (h @ pre @ [JobCreated j]) j True"
    let ?h1 = "h @ pre @ [JobCreated j, JobLimit j True ?ok]"
    let ?cmd = "Build exePath args"
    consider (failed) s e where "s \<in> {JobFailed, CreateFailed}" "res = start_failed s e" "m' = m"
        "h' = ?h1 @ [HandleClosed j]"
      | (created) c where "?ok" "create_child env ?h1 exePath ?cmd workingDir = Some c"
      using launch Some
      by (cases ?ok; cases "create_child env ?h1 exePath ?cmd workingDir")
        (auto simp: LaunchInJob_def job_limit_def Let_def)
    then show ?thesis
    proof cases
      case failed
      then show ?thesis using no_child
        by (intro exI [where x = "pre @ [JobCreated j, JobLimit j True ?ok, HandleClosed j]"])
          (auto simp: start_transaction_def)
    next
      case created
      let ?mid = "[JobCreated j, JobLimit j True True, ChildCreated c exePath ?cmd workingDir]"
      let ?k = "kernel_run j (child_process c) kernel0 (pre @ ?mid)"
      have out: "RunChild env exePath ms c j m (h @ pre @ ?mid) = (res, m', h')"
        using launch Some created by (simp add: LaunchInJob_def job_limit_def Let_def)
      have k: "kills ?k" "\<not> in_job ?k" "engine ?k = Suspended" by (simp_all add: still)
      have "run_outcome env exePath (runtimeRoot m) j c ?k (h @ pre @ ?mid) (res, m', h')"
        unfolding out [symmetric] by (rule RunChild_outcome [OF k])
      then obtain rest where rest: "h' = (h @ pre @ ?mid) @ rest" "list_all (\<lambda>e. \<not> creates e) rest"
        "resumed_verified env exePath (runtimeRoot m) j c (h @ pre @ ?mid) rest"
        "start_outcome env exePath j c ?k rest res m'"
        by (auto simp: run_outcome_def)
      have "start_outcome env exePath j c kernel0 (pre @ ?mid @ rest) res m'"
        using start_outcome_prefix [OF rest(4)] by (simp only: append_assoc)
      then show ?thesis using rest quiet
        by (intro exI [where x = "pre @ ?mid @ rest"] conjI)
          (auto simp: start_transaction_def simp del: append_assoc intro: append_assoc)
    qed
  qed
qed

lemma Start_run:
  "case Start env exePath args workingDir stdoutLog stderrLog stabilizeMs m h of (res, m', h') \<Rightarrow>
     \<exists>evs. h' = h @ evs \<and> start_transaction env exePath args workingDir m h evs res m'"
proof -
  obtain out h1 where out: "OpenProtectedRedirect env stdoutLog (logsDir m) h = (out, h1)" by fastforce
  obtain err h2 where err: "OpenProtectedRedirect env stderrLog (logsDir m) h1 = (err, h2)" by fastforce
  obtain pre where pre: "h2 = h @ pre" "\<forall>e\<in>set pre. \<exists>p b. e = RedirectReset p b"
    using OpenProtectedRedirect_events [OF out] OpenProtectedRedirect_events [OF err]
    by (metis (no_types, lifting) append_assoc set_append Un_iff)
  have early: "\<exists>evs. h @ mid = h @ evs \<and> start_transaction env exePath args workingDir m h evs (start_failed s e) m"
    if "s \<in> {InvalidExecutable, RedirectFailed, CreateFailed}" "\<forall>e\<in>set mid. \<exists>p b. e = RedirectReset p b"
    for s e mid
    using that by (intro exI [where x = mid]) (auto simp: start_transaction_def)
  have launch: "case LaunchInJob env exePath args workingDir stabilizeMs m h2 of (res, m', h') \<Rightarrow>
      \<exists>evs. h' = h @ evs \<and> start_transaction env exePath args workingDir m h evs res m'"
    unfolding pre(1) using LaunchInJob_transaction [OF pre(2)] by (auto split: prod.split)
  show ?thesis
    using early [of InvalidExecutable "[]"] early [OF _ pre(2)] launch
    by (auto simp: Start_def Let_def out err pre(1) split: option.split)
qed

text \<open>
  C2. A start is a transaction. It either creates no child and leaves the manager as it was, or it
  creates exactly one, suspended, in a fresh job that kills on close, from the validated image and
  the quoted command line. That child is resumed at most once and only when its creation time and
  image were read and its image is the requested one below the runtime root. On \<^verbatim>\<open>Ok\<close> it runs, the
  job no longer kills it, and the record of its pinned identity is saved and current; on every other
  outcome no record is current and the child has ended, except that a child which could neither be
  assigned to the job nor be terminated stays suspended.
\<close>

theorem Start_transactional:
  "case Start env exePath args workingDir stdoutLog stderrLog stabilizeMs m h of (res, m', h') \<Rightarrow>
     \<exists>evs. h' = h @ evs \<and> start_transaction env exePath args workingDir m h evs res m'"
  by (rule Start_run)

section \<open>Stopping the right process\<close>

definition handle_verified :: "proc_env \<Rightarrow> proc_history \<Rightarrow> ProcessRecord \<Rightarrow> nat \<Rightarrow> bool" where
  "handle_verified env h r p \<longleftrightarrow>
     CreationTimeOf env h p = Some (creationTime r) \<and>
     (case ImagePathOf env h p of None \<Rightarrow> False | Some img \<Rightarrow> IEqualsAsciiW img (imagePath r))"

fun is_kill :: "proc_event \<Rightarrow> bool" where
  "is_kill (Terminated p ok) = True"
| "is_kill e = False"

definition stop_contract ::
  "proc_env \<Rightarrow> manager \<Rightarrow> proc_history \<Rightarrow> proc_history \<Rightarrow> StopResult \<Rightarrow> manager \<Rightarrow> bool" where
  "stop_contract env m h evs res m' \<longleftrightarrow>
     (filter is_kill evs = [] \<or>
      (\<exists>p ok. filter is_kill evs = [Terminated p ok] \<and> open_process env h (pid (current m)) = Some p \<and>
         IsExpectedWinwsImage (imagePath (current m)) (runtimeRoot m) \<and>
         IdentityMatches env h (current m) \<and> handle_verified env h (current m) p)) \<and>
     (case stop_status res of
        Stopped \<Rightarrow>
          (\<exists>p. Terminated p True \<in> set evs \<and> ChildWaited p WaitObject \<in> set evs) \<and>
          current m' = empty_record \<and> process_handle m' = None \<and> job_handle m' = None
      | NotRunning \<Rightarrow> \<not> record_valid (current m') \<and> process_handle m' = None \<and> job_handle m' = None
      | _ \<Rightarrow> current m' = current m \<and> RecordDeleted (recordPath m) \<notin> set evs)"

lemma StopOpened_contract:
  assumes "open_process env h (pid (current m)) = Some p"
    and "IsExpectedWinwsImage (imagePath (current m)) (runtimeRoot m)" "IdentityMatches env h (current m)"
    and "StopOpened env p m h = (res, m', h')"
  shows "\<exists>evs. h' = h @ evs \<and> stop_contract env m h evs res m'"
proof (cases "handle_verified env h (current m) p")
  case False
  then have "StopOpened env p m h = (stop_result IdentityMismatch 0, m, h @ [HandleClosed p])"
    by (auto simp: StopOpened_def handle_verified_def split: option.splits)
  then show ?thesis using assms(4) by (auto simp: stop_contract_def stop_result_def)
next
  case True
  then have opened: "StopOpened env p m h =
      (case terminate env p h of
         (False, h1) \<Rightarrow> (stop_result StopFailed (last_error env h1), m, h1 @ [HandleClosed p])
       | (True, h1) \<Rightarrow>
           (case wait_process env p 5000 h1 of
              (stopped, h2) \<Rightarrow>
                if stopped \<noteq> WaitObject then
                  (stop_result StopFailed
                     (if stopped = WaitFailed then last_error env h2 else error_timeout), m, h2 @ [HandleClosed p])
                else
                  (let (m', h3) = CloseHandles m (DeleteRecord env (recordPath m) (h2 @ [HandleClosed p])) in
                   (stop_result Stopped 0, m'\<lparr>current := empty_record\<rparr>, h3))))"
    by (auto simp: StopOpened_def handle_verified_def split: option.splits)
  let ?t = "terminate_ok env h p"
  let ?w = "wait_for env (h @ [Terminated p ?t]) p 5000"
  consider (refused) "\<not> ?t" | (unconfirmed) "?t" "?w \<noteq> WaitObject" | (stopped) "?t" "?w = WaitObject" by auto
  then show ?thesis
  proof cases
    case stopped
    let ?h = "h @ [Terminated p True, ChildWaited p WaitObject, HandleClosed p]"
    obtain del where del: "DeleteRecord env (recordPath m) ?h = ?h @ del" "set del \<subseteq> {RecordDeleted (recordPath m)}"
      by (rule DeleteRecord_events [of env "recordPath m" ?h]) blast
    obtain cl where cl: "CloseHandles m (?h @ del) = (m\<lparr>process_handle := None, job_handle := None\<rparr>, (?h @ del) @ cl)"
      "\<forall>e\<in>set cl. \<exists>x. e = HandleClosed x"
      by (rule CloseHandles_events [of m "?h @ del"]) blast
    have "filter is_kill (del @ cl) = []" using del(2) cl(2) by (auto simp: filter_empty_conv)
    then show ?thesis
      using assms True stopped del(1) cl(1)
      by (intro exI [where x = "[Terminated p True, ChildWaited p WaitObject, HandleClosed p] @ del @ cl"])
        (auto simp: opened terminate_def wait_process_def Let_def stop_contract_def stop_result_def)
  qed (use assms True in \<open>auto simp: opened terminate_def wait_process_def Let_def stop_contract_def stop_result_def\<close>)
qed

lemma CloseHandles_contract:
  assumes "CloseHandles m (DeleteRecord env (recordPath m) h) = (m', h')" "stop_status res = NotRunning"
  shows "\<exists>evs. h' = h @ evs \<and> stop_contract env m h evs res (m'\<lparr>current := empty_record\<rparr>)"
  using assms
  by (cases "record_present env h (recordPath m)"; cases "process_handle m"; cases "job_handle m")
    (auto simp: CloseHandles_def DeleteRecord_def stop_contract_def)

lemma CloseHandles_refused:
  assumes "CloseHandles m h = (m', h')"
    "stop_status res = IdentityMismatch \<or> stop_status res = NotRunning \<and> \<not> record_valid (current m)"
  shows "\<exists>evs. h' = h @ evs \<and> stop_contract env m h evs res m'"
  using assms by (cases "process_handle m"; cases "job_handle m") (auto simp: CloseHandles_def stop_contract_def)

lemma Stop_run:
  "case Stop env m h of (res, m', h') \<Rightarrow> \<exists>evs. h' = h @ evs \<and> stop_contract env m h evs res m'"
proof -
  have failed: "stop_contract env m h [] (stop_result StopFailed e) m" for e
    by (simp add: stop_contract_def stop_result_def)
  have dead: "case (let (m', h1) = CloseHandles m (DeleteRecord env (recordPath m) h) in
      (stop_result NotRunning 0, m'\<lparr>current := empty_record\<rparr>, h1)) of (res, m', h') \<Rightarrow>
      \<exists>evs. h' = h @ evs \<and> stop_contract env m h evs res m'"
    using CloseHandles_contract [of m env h] by (auto simp: stop_result_def split: prod.split)
  have refused: "case (stop_result s 0, CloseHandles m h) of (res, m', h') \<Rightarrow>
      \<exists>evs. h' = h @ evs \<and> stop_contract env m h evs res m'"
    if "s = IdentityMismatch \<or> s = NotRunning \<and> \<not> record_valid (current m)" for s
    using that CloseHandles_refused [of m h _ _ "stop_result s 0" env] by (auto simp: stop_result_def split: prod.split)
  have opened: "case StopOpened env p m h of (res, m', h') \<Rightarrow>
      \<exists>evs. h' = h @ evs \<and> stop_contract env m h evs res m'"
    if "open_process env h (pid (current m)) = Some p" "IdentityMatches env h (current m)"
      "IsExpectedWinwsImage (imagePath (current m)) (runtimeRoot m)" for p
    using StopOpened_contract [OF that(1,3,2)] by (auto split: prod.split)
  show ?thesis
    using failed dead refused opened
    by (auto simp: Stop_def split: option.split simp del: split_paired_Ex)
qed

text \<open>
  C31. A stop never terminates a foreign process: at most one process is terminated, and only when the
  record names a \<^verbatim>\<open>winws.exe\<close> below the runtime root, the live process with its pid has the recorded
  creation time and image, and so has the opened handle that is terminated. \<^verbatim>\<open>Stopped\<close> means that the
  termination was requested and confirmed and the record dropped; a refused or failed stop keeps the
  record in memory and on disk.
\<close>

theorem Stop_verified:
  "case Stop env m h of (res, m', h') \<Rightarrow> \<exists>evs. h' = h @ evs \<and> stop_contract env m h evs res m'"
  by (rule Stop_run)

section \<open>The manager over its lifetime\<close>

text \<open>
  A manager is constructed once; then clients start, stop and detach in any order, and other programs
  act in between (the history grows by events that are not the manager's).
\<close>

inductive mgr_step :: "proc_env \<Rightarrow> manager \<times> proc_history \<Rightarrow> manager \<times> proc_history \<Rightarrow> bool"
  for env :: proc_env where
  starting: "Start env exePath args workingDir out err ms m h = (res, m', h') \<Longrightarrow> mgr_step env (m, h) (m', h')"
| stopping: "Stop env m h = (res, m', h') \<Longrightarrow> mgr_step env (m, h) (m', h')"
| detaching: "Detach m h = (m', h') \<Longrightarrow> mgr_step env (m, h) (m', h')"
| others: "mgr_step env (m, h) (m, h @ ext)"

inductive_cases mgr_stepE: "mgr_step env s t"

definition mgr_init :: "proc_env \<Rightarrow> wstring \<Rightarrow> wstring \<Rightarrow> wstring \<Rightarrow> manager \<times> proc_history \<Rightarrow> bool" where
  "mgr_init env programDataRoot root logs s \<longleftrightarrow> (\<exists>h. s = NewProcessManager env programDataRoot root logs h)"

definition manager_inv :: "wstring \<Rightarrow> manager \<times> proc_history \<Rightarrow> bool" where
  "manager_inv root s \<longleftrightarrow>
     runtimeRoot (fst s) = root \<and>
     (current (fst s) = empty_record \<or>
      record_valid (current (fst s)) \<and> IsExpectedWinwsImage (imagePath (current (fst s))) root) \<and>
     (process_handle (fst s) = None \<longleftrightarrow> job_handle (fst s) = None)"

lemma LoadRecord_valid: "LoadRecord U b f = empty_record \<or> record_valid (LoadRecord U b f)"
  by (auto simp: LoadRecord_def ParseRecord_def Let_def split: option.split read_outcome.split)

lemma CloseHandles_fields:
  "CloseHandles m h = (m', h') \<Longrightarrow>
     runtimeRoot m' = runtimeRoot m \<and> current m' = current m \<and> process_handle m' = None \<and> job_handle m' = None"
  by (auto simp: CloseHandles_def)

lemma rollback_fields:
  "rollback_start env c j m h = (m', h') \<Longrightarrow> m' = m\<lparr>current := empty_record\<rparr>"
  by (auto simp: rollback_start_def proc_calls Let_def)

lemma CommitStart_fields:
  "CommitStart env c j m h = (res, m', h') \<Longrightarrow>
     runtimeRoot m' = runtimeRoot m \<and>
     (m' = m\<lparr>current := empty_record\<rparr> \<or>
      current m' = current m \<and> record_valid (current m) \<and> process_handle m' \<noteq> None \<and> job_handle m' \<noteq> None)"
  by (auto simp: CommitStart_def job_limit_def Let_def
      split: prod.splits bool.splits dest!: rollback_fields CloseHandles_fields save_record_events)

lemma Stabilize_fields:
  "Stabilize env ms c j m h = (res, m', h') \<Longrightarrow>
     runtimeRoot m' = runtimeRoot m \<and>
     (m' = m\<lparr>current := empty_record\<rparr> \<or>
      current m' = current m \<and> record_valid (current m) \<and> process_handle m' \<noteq> None \<and> job_handle m' \<noteq> None)"
  by (auto simp: Stabilize_def wait_process_def Let_def
      split: if_splits dest!: rollback_fields CommitStart_fields)

lemma RunChild_fields:
  assumes "RunChild env exePath ms c j m h = (res, m', h')"
  shows "runtimeRoot m' = runtimeRoot m \<and>
     (m' = m\<lparr>current := empty_record\<rparr> \<or>
      record_valid (current m') \<and> IsExpectedWinwsImage (imagePath (current m')) (runtimeRoot m) \<and>
      process_handle m' \<noteq> None \<and> job_handle m' \<noteq> None)"
  using assms
  by (auto simp: RunChild_def assign_to_job_def resume_thread_def Let_def
      split: bool.splits option.splits
      dest!: rollback_fields Stabilize_fields PinnedIdentity_Some)

lemma LaunchInJob_fields:
  assumes "LaunchInJob env exePath args wd ms m h = (res, m', h')"
  shows "runtimeRoot m' = runtimeRoot m \<and>
     (m' = m \<or> m' = m\<lparr>current := empty_record\<rparr> \<or>
      record_valid (current m') \<and> IsExpectedWinwsImage (imagePath (current m')) (runtimeRoot m) \<and>
      process_handle m' \<noteq> None \<and> job_handle m' \<noteq> None)"
  using assms
  by (auto simp: LaunchInJob_def job_limit_def Let_def split: bool.splits option.splits dest!: RunChild_fields)

lemma Start_fields:
  assumes "Start env exePath args wd out err ms m h = (res, m', h')"
  shows "runtimeRoot m' = runtimeRoot m \<and>
     (m' = m \<or> m' = m\<lparr>current := empty_record\<rparr> \<or>
      record_valid (current m') \<and> IsExpectedWinwsImage (imagePath (current m')) (runtimeRoot m) \<and>
      process_handle m' \<noteq> None \<and> job_handle m' \<noteq> None)"
proof -
  consider "m' = m" | h2 where "LaunchInJob env exePath args wd ms m h2 = (res, m', h')"
    using assms by (auto simp: Start_def Let_def split: if_splits prod.splits option.splits)
  then show ?thesis by cases (auto dest: LaunchInJob_fields)
qed

lemma Stop_fields:
  assumes "Stop env m h = (res, m', h')"
  shows "runtimeRoot m' = runtimeRoot m \<and> (current m' = empty_record \<or> current m' = current m) \<and>
    (m' = m \<or> process_handle m' = None \<and> job_handle m' = None)"
  using assms
  by (auto simp: Stop_def StopOpened_def proc_calls Let_def
      split: if_splits option.splits prod.splits bool.splits dest!: CloseHandles_fields)

lemma manager_inv_init: "mgr_init env pd root logs s \<Longrightarrow> manager_inv root s"
proof -
  assume "mgr_init env pd root logs s"
  then obtain h where s: "s = NewProcessManager env pd root logs h" by (auto simp: mgr_init_def)
  let ?path = "pd @ W ([CHR 0x5C] @ ''winws-run.txt'')"
  define r where "r = LoadRecord (utf16 env) (record_protected env h ?path) (record_file env h ?path)"
  have "r = empty_record \<or> record_valid r" unfolding r_def by (rule LoadRecord_valid)
  then show "manager_inv root s"
    unfolding s NewProcessManager_def Let_def r_def [symmetric] by (auto simp: manager_inv_def)
qed

lemma manager_inv_step: "manager_inv root s \<Longrightarrow> mgr_step env s t \<Longrightarrow> manager_inv root t"
  by (erule mgr_stepE)
    (auto simp: manager_inv_def Detach_def dest!: Start_fields Stop_fields CloseHandles_fields)

interpretation mgr: inductive_invariant "mgr_init env pd root logs" "mgr_step env" "manager_inv root"
  for env pd root logs
  by unfold_locales (rule manager_inv_init, assumption, rule manager_inv_step)

text \<open>
  Over the whole life of a manager, whatever is started, stopped, detached, recovered from a file
  or done by other programs: the current record is empty or names a \<^verbatim>\<open>winws.exe\<close> below the runtime
  root, and the process and job handles are owned together.
\<close>

lemma manager_never_foreign:
  assumes "reachable (mgr_init env programDataRoot root logs) (mgr_step env) (m, h)"
  shows "(if record_valid (current m) then IsExpectedWinwsImage (imagePath (current m)) root
      else current m = empty_record) \<and>
    (process_handle m = None \<longleftrightarrow> job_handle m = None)"
  using mgr.inv_reachable [OF assms] by (auto simp: manager_inv_def)

text \<open>A sample machine on which every call succeeds, and a start on it.\<close>

definition sample_image :: wstring where
  "sample_image = W ''r'' @ engine_suffix"

definition sample_env :: proc_env where
  "sample_env = \<lparr>check_image = \<lambda>h p. (True, 0), descends = \<lambda>r p. True, reset_ok = \<lambda>h p. True,
     open_nul = \<lambda>h. True,
     open_redirect = \<lambda>h p. Some \<lparr>redirect_plain = True, redirect_links = 1, redirect_protected = True\<rparr>,
     last_error = \<lambda>h. 0, attribute_size = \<lambda>h. 48, attributes_init = \<lambda>h. True,
     attributes_handles = \<lambda>h. True, attributes_policy = \<lambda>h. True, create_job = \<lambda>h. Some 7,
     set_limit = \<lambda>h j k. True, create_child = \<lambda>h e c d. Some \<lparr>child_pid = 42, child_process = 8\<rparr>,
     assign_child = \<lambda>h j p. True, resume_child = \<lambda>h p. True, wait_for = \<lambda>h p ms. WaitTimeout,
     exit_code = \<lambda>h p. 0, terminate_ok = \<lambda>h p. True, CreationTimeOf = \<lambda>h p. Some 5,
     ImagePathOf = \<lambda>h p. Some sample_image, ProcessAlive = \<lambda>h p. True,
     ProcessCreationTime = \<lambda>h p. Some 5, ProcessImagePath = \<lambda>h p. Some sample_image,
     open_process = \<lambda>h p. Some 9, record_present = \<lambda>h p. False, record_protected = \<lambda>h p. False,
     record_file = \<lambda>h p. None, save_ok = \<lambda>h s. True, utf16 = W, utf8 = narrow\<rparr>"

definition sample_manager :: manager where
  "sample_manager = \<lparr>recordPath = W ([CHR 0x5C] @ ''winws-run.txt''), runtimeRoot = W ''r'',
     logsDir = W ''l'', current = empty_record, process_handle = None, job_handle = None\<rparr>"

definition running_manager :: manager where
  "running_manager = sample_manager\<lparr>
     current := \<lparr>pid = 42, creationTime = 5, imagePath = sample_image\<rparr>,
     process_handle := Some 8, job_handle := Some 7\<rparr>"

lemma sample_new: "NewProcessManager sample_env [] (W ''r'') (W ''l'') [] = (sample_manager, [])"
  by (simp add: NewProcessManager_def sample_env_def LoadRecord_def sample_manager_def Let_def)

lemma sample_image_ok: "IsExpectedWinwsImage sample_image (W ''r'')" "IEqualsAsciiW sample_image sample_image"
  "sample_image \<noteq> []" "narrow sample_image \<noteq> []"
  "\<not> list_ex (\<lambda>c. c = WC (CHR 0x0D) \<or> c = WC (CHR 0x0A)) sample_image"
  by code_simp+

lemma sample_start:
  "fst (snd (Start sample_env sample_image [] [] [] [] 2500 sample_manager [])) = running_manager"
  using sample_image_ok
  by (simp add: Start_def sample_env_def sample_manager_def running_manager_def Let_def
      OpenProtectedRedirect_def HandleIsSafeRegularFile_def PrepareAttributes_def LaunchInJob_def
      RunChild_def Stabilize_def CommitStart_def PinnedIdentity_def IdentityMatches_def record_valid_def
      proc_calls save_record_def SaveRecord_def CloseHandles_def)

lemma manager_never_foreign_witness:
  "record_valid (current running_manager) \<and>
   IsExpectedWinwsImage (imagePath (current running_manager)) (W ''r'') \<and>
   (process_handle running_manager = None \<longleftrightarrow> job_handle running_manager = None)"
proof -
  obtain res m' h' where out: "Start sample_env sample_image [] [] [] [] 2500 sample_manager [] = (res, m', h')"
    by (cases "Start sample_env sample_image [] [] [] [] 2500 sample_manager []")
  have "mgr_init sample_env [] (W ''r'') (W ''l'') (sample_manager, [])"
    unfolding mgr_init_def using sample_new by metis
  then have "reachable (mgr_init sample_env [] (W ''r'') (W ''l'')) (mgr_step sample_env) (m', h')"
    using mgr_step.starting [OF out] by (blast intro: reachable.intros)
  moreover have "m' = running_manager" using sample_start out by simp
  moreover have "record_valid (current running_manager)"
    by (simp add: running_manager_def record_valid_def sample_image_ok)
  ultimately show ?thesis using manager_never_foreign by metis
qed

end
