(* ===== verification/RuntimeInventory.thy ===== *)
theory RuntimeInventory
  imports UpdatePackage
begin

text \<open>
  What may lie in a runtime directory: the relative paths of an installed manifest
  (\<^verbatim>\<open>SafeRuntimeRelativePath\<close>) and the walk over the directory tree that rejects every object
  outside an allowlist (\<^verbatim>\<open>ValidateRuntimeInventory\<close>), both of
  \<^verbatim>\<open>src/src/core/ResourceExtractor.cpp\<close>. The walk is a worklist with a bound of 1024 objects; it is
  proved equal to the nested recursion over the tree.
\<close>

section \<open>Relative paths\<close>

function SafeRuntime_loop :: "(string \<Rightarrow> wstring) \<Rightarrow> string \<Rightarrow> wstring \<Rightarrow> wstring option" where
  "SafeRuntime_loop ToUtf16 rest output =
     (case split_at CHR ''/'' rest of
        (component, next) \<Rightarrow>
          if \<not> safe_component component then None
          else let output' = (if output \<noteq> [] then output @ W [CHR 0x5C] else output) @ ToUtf16 component in
               (case next of None \<Rightarrow> Some output' | Some r \<Rightarrow> SafeRuntime_loop ToUtf16 r output'))"
  by pat_completeness auto
termination
  by (relation "measure (\<lambda>(_, rest, _). length rest)") (auto dest: sym simp: split_at_Some)

declare SafeRuntime_loop.simps [simp del]

definition runtime_path_allowed :: "wstring \<Rightarrow> bool" where
  "runtime_path_allowed folded \<longleftrightarrow>
     starts_with (W ''bin'' @ W [CHR 0x5C]) folded \<or> starts_with (W ''lists'' @ W [CHR 0x5C]) folded \<or>
     folded = W ''strategies'' @ W [CHR 0x5C] @ W ''catalog.json'' \<or>
     folded = W ''provenance.json'' \<or> folded = W ''runtime-manifest.json''"

definition SafeRuntimeRelativePath :: "(string \<Rightarrow> wstring) \<Rightarrow> string \<Rightarrow> wstring option" where
  "SafeRuntimeRelativePath ToUtf16 input =
     (if \<not> path_head_ok input then None
      else (case SafeRuntime_loop ToUtf16 input [] of
              None \<Rightarrow> None
            | Some output \<Rightarrow> if runtime_path_allowed (ToLowerAsciiW output) then Some output else None))"

section \<open>The walk over the tree\<close>

record find_entry =
  entry_name :: wstring
  entry_directory :: bool
  entry_reparse :: bool

text \<open>
  \<^verbatim>\<open>FindFirstFileW\<close> and \<^verbatim>\<open>FindNextFileW\<close> on a directory: no file, another failure, or the entries and
  whether the enumeration ended with \<^verbatim>\<open>ERROR_NO_MORE_FILES\<close>.
\<close>

datatype listing = NoFile | ListingFailed | Listing "find_entry list" bool

record tree_env =
  tree_dir_ok :: "wstring \<Rightarrow> bool"    \<comment> \<open>\<^verbatim>\<open>ValidateObject\<close>, directory\<close>
  tree_file_ok :: "wstring \<Rightarrow> bool"   \<comment> \<open>\<^verbatim>\<open>ValidateObject\<close>, file with one link\<close>
  list_dir :: "wstring \<Rightarrow> listing"

definition beneath :: "wstring \<Rightarrow> wstring \<Rightarrow> wstring" where
  "beneath dir name = dir @ W [CHR 0x5C] @ name"

definition in_tree :: "wstring \<Rightarrow> wstring \<Rightarrow> wstring" where
  "in_tree root relative = (if relative = [] then root else beneath root relative)"

definition child_of :: "wstring \<Rightarrow> find_entry \<Rightarrow> wstring" where
  "child_of relative e = (if relative = [] then entry_name e else beneath relative (entry_name e))"

definition dot_entry :: "find_entry \<Rightarrow> bool" where
  "dot_entry e \<longleftrightarrow> entry_name e = W ''.'' \<or> entry_name e = W ''..''"

text \<open>The parents of a folded path: the text before each backslash.\<close>

definition parents :: "wstring \<Rightarrow> wstring list" where
  "parents folded = map (\<lambda>i. take i folded) (filter (\<lambda>i. folded ! i = WC CHR 0x5C) [0..<length folded])"

record allowlist =
  allowed_files :: "wstring set"
  allowed_dirs :: "wstring set"

definition make_allowlist :: "wstring list \<Rightarrow> allowlist" where
  "make_allowlist paths =
     \<lparr>allowed_files = set (map ToLowerAsciiW paths),
      allowed_dirs = set (concat (map (parents \<circ> ToLowerAsciiW) paths))\<rparr>"

definition entry_allowed :: "tree_env \<Rightarrow> wstring \<Rightarrow> allowlist \<Rightarrow> wstring \<Rightarrow> find_entry \<Rightarrow> bool" where
  "entry_allowed env root allow relative e \<longleftrightarrow>
     (let child = child_of relative e; folded = ToLowerAsciiW child in
      \<not> entry_reparse e \<and>
      (if entry_directory e then folded \<in> allowed_dirs allow else folded \<in> allowed_files allow) \<and>
      (if entry_directory e then tree_dir_ok env (beneath root child) else tree_file_ok env (beneath root child)))"

text \<open>The inner loop: the first object that is not allowed, or the count and the stack (top first).\<close>

definition inventory_limit :: nat where
  "inventory_limit = 1024"

fun ScanEntries ::
  "tree_env \<Rightarrow> wstring \<Rightarrow> allowlist \<Rightarrow> wstring \<Rightarrow> find_entry list \<Rightarrow> nat \<Rightarrow> wstring list \<Rightarrow>
     wstring + nat \<times> wstring list" where
  "ScanEntries env root allow relative [] visited todo = Inr (visited, todo)"
| "ScanEntries env root allow relative (e # es) visited todo =
     (if dot_entry e then ScanEntries env root allow relative es visited todo
      else if inventory_limit < visited + 1 \<or> \<not> entry_allowed env root allow relative e
      then Inl (child_of relative e)
      else ScanEntries env root allow relative es (visited + 1)
             (if entry_directory e then child_of relative e # todo else todo))"

text \<open>What a round of the outer loop finds in a directory.\<close>

definition ScanDirectory ::
  "tree_env \<Rightarrow> wstring \<Rightarrow> allowlist \<Rightarrow> wstring \<Rightarrow> nat \<Rightarrow> wstring list \<Rightarrow> wstring + nat \<times> wstring list" where
  "ScanDirectory env root allow relative visited todo =
     (let directory = in_tree root relative in
      if \<not> tree_dir_ok env directory then Inl directory
      else (case list_dir env directory of
              NoFile \<Rightarrow> Inr (visited, todo)
            | ListingFailed \<Rightarrow> Inl directory
            | Listing es complete \<Rightarrow>
                (case ScanEntries env root allow relative es visited todo of
                   Inl unexpected \<Rightarrow> Inl unexpected
                 | Inr r \<Rightarrow> if complete then Inr r else Inl directory)))"

lemma ScanEntries_measure:
  "ScanEntries env root allow rel es v todo = Inr (v', todo') \<Longrightarrow>
     (inventory_limit - v') + length todo' \<le> (inventory_limit - v) + length todo"
  by (induction es arbitrary: v todo) (fastforce split: if_splits)+

lemma ScanDirectory_measure:
  "ScanDirectory env root allow rel v todo = Inr (v', todo') \<Longrightarrow>
     (inventory_limit - v') + length todo' \<le> (inventory_limit - v) + length todo"
  by (auto simp: ScanDirectory_def Let_def dest: ScanEntries_measure
      split: if_splits listing.splits sum.splits)

text \<open>The outer loop; it ends because every object pushed has been counted.\<close>

function Inventory_loop ::
  "tree_env \<Rightarrow> wstring \<Rightarrow> allowlist \<Rightarrow> nat \<Rightarrow> wstring list \<Rightarrow> wstring option" where
  "Inventory_loop env root allow visited [] = None"
| "Inventory_loop env root allow visited (relative # todo) =
     (case ScanDirectory env root allow relative visited todo of
        Inl unexpected \<Rightarrow> Some unexpected
      | Inr (visited', todo') \<Rightarrow> Inventory_loop env root allow visited' todo')"
  by pat_completeness auto
termination
  by (relation "measure (\<lambda>(_, _, _, v, todo). (inventory_limit - v) + length todo)")
    (auto dest!: sym [of "Inr _"] ScanDirectory_measure)

text \<open>\<open>None\<close>: nothing unexpected was found.\<close>

definition ValidateRuntimeInventory :: "tree_env \<Rightarrow> wstring \<Rightarrow> wstring list \<Rightarrow> wstring option" where
  "ValidateRuntimeInventory env root allowed = Inventory_loop env root (make_allowlist allowed) 0 [[]]"

section \<open>The nested recursion\<close>

definition real_entries :: "find_entry list \<Rightarrow> find_entry list" where
  "real_entries es = filter (\<lambda>e. \<not> dot_entry e) es"

definition subdirs :: "wstring \<Rightarrow> find_entry list \<Rightarrow> wstring list" where
  "subdirs d es = map (child_of d) (filter entry_directory (real_entries es))"

text \<open>
  A directory is clean with \<open>n\<close> objects below it: it is valid and can be listed to the end, each of
  its entries is allowed, and its subdirectories are clean.
\<close>

inductive clean :: "tree_env \<Rightarrow> wstring \<Rightarrow> allowlist \<Rightarrow> wstring \<Rightarrow> nat \<Rightarrow> bool"
  for env :: tree_env and root :: wstring and allow :: allowlist where
  clean_empty: "tree_dir_ok env (in_tree root d) \<Longrightarrow> list_dir env (in_tree root d) = NoFile \<Longrightarrow>
    clean env root allow d 0"
| clean_listed: "tree_dir_ok env (in_tree root d) \<Longrightarrow> list_dir env (in_tree root d) = Listing es True \<Longrightarrow>
    list_all (entry_allowed env root allow d) (real_entries es) \<Longrightarrow>
    list_all2 (clean env root allow) (subdirs d es) ns \<Longrightarrow>
    clean env root allow d (length (real_entries es) + sum_list ns)"
  monos list.rel_mono_strong

inductive_cases cleanE: "clean env root allow d n"

lemma ScanEntries_iff:
  "v \<le> inventory_limit \<Longrightarrow>
   ScanEntries env root allow d es v todo =
     Inr (v', todo') \<longleftrightarrow>
     list_all (entry_allowed env root allow d) (real_entries es) \<and>
     v' = v + length (real_entries es) \<and> v' \<le> inventory_limit \<and> todo' = rev (subdirs d es) @ todo"
proof (induction es arbitrary: v todo)
  case Nil
  then show ?case by (auto simp: real_entries_def subdirs_def)
next
  case (Cons e es)
  consider "dot_entry e" | "\<not> dot_entry e" "inventory_limit < v + 1 \<or> \<not> entry_allowed env root allow d e"
    | "\<not> dot_entry e" "v + 1 \<le> inventory_limit" "entry_allowed env root allow d e"
    by fastforce
  then show ?case
    using Cons by cases (auto simp: real_entries_def subdirs_def)
qed

lemma ScanDirectory_iff:
  assumes "v \<le> inventory_limit"
  shows "ScanDirectory env root allow d v todo = Inr (v', todo') \<longleftrightarrow>
    tree_dir_ok env (in_tree root d) \<and>
    (list_dir env (in_tree root d) = NoFile \<and> v' = v \<and> todo' = todo \<or>
     (\<exists>es. list_dir env (in_tree root d) = Listing es True \<and>
        list_all (entry_allowed env root allow d) (real_entries es) \<and>
        v' = v + length (real_entries es) \<and> v' \<le> inventory_limit \<and> todo' = rev (subdirs d es) @ todo))"
proof (cases "list_dir env (in_tree root d)")
  case (Listing es complete)
  then show ?thesis
    using ScanEntries_iff [OF assms, of env root allow d es todo]
    by (cases "ScanEntries env root allow d es v todo") (auto simp: ScanDirectory_def Let_def)
qed (auto simp: ScanDirectory_def Let_def)

lemma list_all2_rev_append:
  "list_all2 P (rev xs @ ys) ns \<longleftrightarrow>
     (\<exists>as bs. ns = rev as @ bs \<and> list_all2 P xs as \<and> list_all2 P ys bs)"
proof
  assume "list_all2 P (rev xs @ ys) ns"
  then obtain us vs where "ns = us @ vs" "list_all2 P (rev xs) us" "list_all2 P ys vs"
    by (auto simp: list_all2_append1)
  then show "\<exists>as bs. ns = rev as @ bs \<and> list_all2 P xs as \<and> list_all2 P ys bs"
    using list_all2_rev [of P "rev xs" us] by (intro exI [where x = "rev us"] exI [where x = vs]) simp
qed (auto simp: list_all2_appendI list_all2_rev)

lemma clean_iff:
  "clean env root allow d n \<longleftrightarrow>
    tree_dir_ok env (in_tree root d) \<and>
    (list_dir env (in_tree root d) = NoFile \<and> n = 0 \<or>
     (\<exists>es ns. list_dir env (in_tree root d) = Listing es True \<and>
        list_all (entry_allowed env root allow d) (real_entries es) \<and>
        list_all2 (clean env root allow) (subdirs d es) ns \<and> n = length (real_entries es) + sum_list ns))"
  by (subst clean.simps) auto

text \<open>The worklist is the nested recursion: each directory on the stack is clean, within the bound.\<close>

lemma Inventory_loop_iff:
  "v \<le> inventory_limit \<Longrightarrow>
   Inventory_loop env root allow v todo = None \<longleftrightarrow>
   (\<exists>ns. list_all2 (clean env root allow) todo ns \<and> v + sum_list ns \<le> inventory_limit)"
proof (induction env root allow v todo rule: Inventory_loop.induct)
  case (1 env root allow v)
  then show ?case by simp
next
  case (2 env root allow v d todo)
  let ?clean = "clean env root allow"
  show ?case
  proof (cases "ScanDirectory env root allow d v todo")
    case (Inl u)
    have "\<not> (\<exists>n. ?clean d n \<and> v + n \<le> inventory_limit)"
    proof
      assume "\<exists>n. ?clean d n \<and> v + n \<le> inventory_limit"
      then obtain n where n: "?clean d n" "v + n \<le> inventory_limit" by auto
      then have "\<exists>r. ScanDirectory env root allow d v todo = Inr r"
        using ScanDirectory_iff [OF 2(2), of env root allow d todo] by (force simp: clean_iff [of _ _ _ d])
      then show False using Inl by simp
    qed
    moreover have "v + n \<le> inventory_limit" if "v + (n + m) \<le> inventory_limit" for n m using that by simp
    ultimately show ?thesis using Inl by (auto simp: list_all2_Cons1)
  next
    case (Inr r)
    obtain v' todo' where r: "r = (v', todo')" by (cases r)
    note scan = ScanDirectory_iff [OF 2(2), of env root allow d todo v' todo'] and
      IH = 2(1) [OF Inr r [symmetric], simplified]
    show ?thesis
    proof (cases "list_dir env (in_tree root d) = NoFile")
      case True
      then have "v' = v" "todo' = todo" "tree_dir_ok env (in_tree root d)" using scan Inr r by auto
      moreover have "?clean d n \<longleftrightarrow> n = 0" for n
        using True calculation by (simp add: clean_iff [of _ _ _ d])
      moreover from this have "list_all2 ?clean (d # todo) ns \<longleftrightarrow> (\<exists>zs. ns = 0 # zs \<and> list_all2 ?clean todo zs)" for ns
        by (simp add: list_all2_Cons1)
      moreover have "(\<exists>ns. (\<exists>zs. ns = 0 # zs \<and> list_all2 ?clean todo zs) \<and> v + sum_list ns \<le> inventory_limit) \<longleftrightarrow>
          (\<exists>zs. list_all2 ?clean todo zs \<and> v + sum_list (0 # zs) \<le> inventory_limit)" by blast
      ultimately show ?thesis using IH 2(2) Inr r by simp
    next
      case False
      then obtain es where es: "list_dir env (in_tree root d) = Listing es True"
        "list_all (entry_allowed env root allow d) (real_entries es)" "tree_dir_ok env (in_tree root d)"
        and v': "v' = v + length (real_entries es)" "v' \<le> inventory_limit"
        and todo': "todo' = rev (subdirs d es) @ todo"
        using scan Inr r by auto
      have d: "?clean d n \<longleftrightarrow> (\<exists>ns. list_all2 ?clean (subdirs d es) ns \<and> n = length (real_entries es) + sum_list ns)" for n
        using es by (simp add: clean_iff [of _ _ _ d])
      have "Inventory_loop env root allow v (d # todo) = None \<longleftrightarrow>
          (\<exists>ns. list_all2 ?clean (rev (subdirs d es) @ todo) ns \<and> v' + sum_list ns \<le> inventory_limit)"
        using IH Inr r v'(2) todo' by simp
      also have "\<dots> \<longleftrightarrow> (\<exists>ns. list_all2 ?clean (d # todo) ns \<and> v + sum_list ns \<le> inventory_limit)"
      proof -
        let ?A = "list_all2 ?clean (subdirs d es)" and ?B = "list_all2 ?clean todo"
        let ?k = "length (real_entries es)"
        have "(\<exists>ns. list_all2 ?clean (rev (subdirs d es) @ todo) ns \<and> v' + sum_list ns \<le> inventory_limit) \<longleftrightarrow>
            (\<exists>as bs. ?A as \<and> ?B bs \<and> v' + sum_list (rev as @ bs) \<le> inventory_limit)"
          unfolding list_all2_rev_append by blast
        moreover have "(\<exists>ns. list_all2 ?clean (d # todo) ns \<and> v + sum_list ns \<le> inventory_limit) \<longleftrightarrow>
            (\<exists>as bs. ?A as \<and> ?B bs \<and> v + sum_list ((?k + sum_list as) # bs) \<le> inventory_limit)"
          unfolding list_all2_Cons1 d by blast
        ultimately show ?thesis unfolding v'(1) by (simp add: add.assoc)
      qed
      finally show ?thesis .
    qed
  qed
qed

text \<open>What a clean directory contains: every object that can be reached.\<close>

inductive reached :: "tree_env \<Rightarrow> wstring \<Rightarrow> wstring \<Rightarrow> bool" for env :: tree_env and root :: wstring where
  reached_root: "reached env root []"
| reached_child: "reached env root d \<Longrightarrow> list_dir env (in_tree root d) = Listing es complete \<Longrightarrow>
    e \<in> set (real_entries es) \<Longrightarrow> entry_directory e \<Longrightarrow> reached env root (child_of d e)"

lemma clean_reached: "clean env root allow [] n \<Longrightarrow> reached env root d \<Longrightarrow> \<exists>m. clean env root allow d m"
proof (rotate_tac 1, induction rule: reached.induct)
  case (reached_child d es complete e)
  then obtain m where "clean env root allow d m" by blast
  then obtain ns where "list_all2 (clean env root allow) (subdirs d es) ns"
    using reached_child.hyps(2) by (auto simp: clean_iff [of _ _ _ d])
  moreover have "child_of d e \<in> set (subdirs d es)" using reached_child.hyps(3,4) by (auto simp: subdirs_def)
  ultimately show ?case by (metis in_set_conv_nth list_all2_conv_all_nth)
qed blast

text \<open>
  C32. The bounded worklist decides exactly whether the directory tree is clean: it accepts if and only
  if the nested recursion finds every directory valid and fully enumerable and every object of the tree
  allowed, valid and no link, with at most 1024 objects in all. It ends on every tree, also on one
  with cycles of listings.
\<close>

theorem ValidateRuntimeInventory_iff_clean:
  "ValidateRuntimeInventory env root allowed = None \<longleftrightarrow>
     (\<exists>n. clean env root (make_allowlist allowed) [] n \<and> n \<le> inventory_limit)"
  unfolding ValidateRuntimeInventory_def
  using Inventory_loop_iff [of 0 env root "make_allowlist allowed" "[[]]"] by (auto simp: list_all2_Cons1)

text \<open>Every object that can be reached from the root is on the allowlist.\<close>

lemma inventory_allowed:
  assumes "ValidateRuntimeInventory env root allowed = None" "reached env root d"
  shows "tree_dir_ok env (in_tree root d)"
    and "list_dir env (in_tree root d) = Listing es complete \<Longrightarrow>
      complete \<and> list_all (entry_allowed env root (make_allowlist allowed) d) (real_entries es)"
proof -
  obtain n where "clean env root (make_allowlist allowed) [] n"
    using assms(1) Inventory_loop_iff [of 0 env root "make_allowlist allowed" "[[]]"]
    by (auto simp: ValidateRuntimeInventory_def list_all2_Cons1)
  then obtain m where "clean env root (make_allowlist allowed) d m"
    using clean_reached assms(2) by blast
  then show "tree_dir_ok env (in_tree root d)"
    and "list_dir env (in_tree root d) = Listing es complete \<Longrightarrow>
      complete \<and> list_all (entry_allowed env root (make_allowlist allowed) d) (real_entries es)"
    by (auto simp: clean_iff [of _ _ _ d])
qed

section \<open>The path rules\<close>

text \<open>A conversion that keeps a component a plain name, as UTF-8 to UTF-16 does on valid text.\<close>

definition plain_name :: "wstring \<Rightarrow> bool" where
  "plain_name c \<longleftrightarrow> c \<noteq> [] \<and> c \<noteq> W ''.'' \<and> c \<noteq> W ''..'' \<and> WC CHR 0x5C \<notin> set c"

definition converts_plainly :: "(string \<Rightarrow> wstring) \<Rightarrow> string \<Rightarrow> bool" where
  "converts_plainly U s \<longleftrightarrow> list_all (\<lambda>c. plain_name (U c)) (splits CHR ''/'' s)"

lemma SafeRuntime_loop_iff:
  "converts_plainly U s \<Longrightarrow>
   SafeRuntime_loop U s acc = Some n \<longleftrightarrow>
     list_all safe_component (splits CHR ''/'' s) \<and>
     n = (if acc \<noteq> [] then acc @ W [CHR 0x5C] else acc) @ join (WC CHR 0x5C) (map U (splits CHR ''/'' s))"
proof (induction s arbitrary: acc rule: splits_induct [of "CHR ''/''"])
  case (last s)
  then show ?case
    by (subst SafeRuntime_loop.simps) (auto simp: split_at_notin splits_None Let_def)
next
  case (step a r)
  then have U: "converts_plainly U r" "U a \<noteq> []" by (simp_all add: converts_plainly_def splits_Some plain_name_def)
  note IH = step(2) [OF U(1)]
  show ?case
    by (subst SafeRuntime_loop.simps)
      (use step(1) U(2) IH in \<open>auto simp: split_at_append splits_Some Let_def join_Cons\<close>)
qed

lemma splits_join:
  "xs \<noteq> [] \<Longrightarrow> \<forall>x \<in> set xs. c \<notin> set x \<Longrightarrow> splits c (join c xs) = xs"
  by (induction xs rule: join.induct) (auto simp: splits_None splits_Some)

lemma SafeRuntimeRelativePath_Some:
  assumes "converts_plainly U s"
  shows "SafeRuntimeRelativePath U s = Some n \<longleftrightarrow>
     path_head_ok s \<and> list_all safe_component (splits CHR ''/'' s) \<and>
     n = join (WC CHR 0x5C) (map U (splits CHR ''/'' s)) \<and> runtime_path_allowed (ToLowerAsciiW n)"
proof (cases "SafeRuntime_loop U s []")
  case None
  then have "\<not> list_all safe_component (splits CHR ''/'' s)"
    using SafeRuntime_loop_iff [OF assms, of "[]"] by auto
  with None show ?thesis by (simp add: SafeRuntimeRelativePath_def)
next
  case (Some m)
  then have "list_all safe_component (splits CHR ''/'' s)" "m = join (WC CHR 0x5C) (map U (splits CHR ''/'' s))"
    using SafeRuntime_loop_iff [OF assms, of "[]" m] by simp_all
  with Some show ?thesis unfolding SafeRuntimeRelativePath_def by (simp del: of_char_of) blast
qed

interpretation runtime_path: path_policy
  "\<lambda>s. converts_plainly U s \<and> SafeRuntimeRelativePath U s \<noteq> None"
  "\<lambda>s. the (SafeRuntimeRelativePath U s)" U for U
proof unfold_locales
  fix s c assume "converts_plainly U s \<and> SafeRuntimeRelativePath U s \<noteq> None"
  then obtain n where conv: "converts_plainly U s" and n: "SafeRuntimeRelativePath U s = Some n" by auto
  from SafeRuntimeRelativePath_Some [OF conv, of n] n
  have s: "path_head_ok s" "list_all safe_component (splits CHR ''/'' s)"
      "the (SafeRuntimeRelativePath U s) = join (WC CHR 0x5C) (map U (splits CHR ''/'' s))"
    by simp_all
  then show "path_head_ok s" "list_all safe_component (splits CHR ''/'' s)" by simp_all
  show "splits (WC CHR 0x5C) (the (SafeRuntimeRelativePath U s)) = map U (splits CHR ''/'' s)"
    unfolding s(3) using conv by (intro splits_join) (auto simp: converts_plainly_def plain_name_def list_all_iff)
  assume "c \<in> set (splits CHR ''/'' s)"
  then show "U c \<noteq> [] \<and> U c \<noteq> W ''.'' \<and> U c \<noteq> W ''..''"
    using conv unfolding converts_plainly_def plain_name_def list_all_iff by blast
qed

text \<open>Byte-wise widening converts every safe component plainly.\<close>

lemma W_plain: "path_head_ok s \<Longrightarrow> list_all safe_component (splits CHR ''/'' s) \<Longrightarrow> converts_plainly W s"
  unfolding converts_plainly_def list_all_iff
proof
  fix c assume s: "path_head_ok s" "\<forall>x\<in>set (splits CHR ''/'' s). safe_component x" and c: "c \<in> set (splits CHR ''/'' s)"
  have "CHR 0x5C \<notin> set c" using splits_elem [OF c] s(1) by (auto simp: path_head_ok_def)
  then have "WC CHR 0x5C \<notin> set (W c)" unfolding set_map image_iff by (metis WC_eq)
  moreover have "c \<noteq> []" "c \<noteq> ''.''" "c \<noteq> ''..''" using s(2) c by (auto simp: safe_component_def)
  ultimately show "plain_name (W c)" unfolding plain_name_def by (simp only: W_eq map_is_Nil_conv simp_thms)
qed

lemma lower_wchar_prefix: "starts_with p s \<Longrightarrow> starts_with (map f p) (map f s)"
  by (auto simp: starts_with_iff)

lemma allowed_names_folded:
  "ToLowerAsciiW (ToWindowsPath ''bin/'') = ToWindowsPath ''bin/''"
  "ToLowerAsciiW (ToWindowsPath ''lists/'') = ToWindowsPath ''lists/''"
  "ToLowerAsciiW (ToWindowsPath ''strategies/catalog.json'') = ToWindowsPath ''strategies/catalog.json''"
  "ToLowerAsciiW (ToWindowsPath ''provenance.json'') = ToWindowsPath ''provenance.json''"
  "ToLowerAsciiW (ToWindowsPath ''runtime-manifest.json'') = ToWindowsPath ''runtime-manifest.json''"
  by code_simp+

lemma allowed_names_wide:
  "ToWindowsPath ''bin/'' = W ''bin'' @ W [CHR 0x5C]"
  "ToWindowsPath ''lists/'' = W ''lists'' @ W [CHR 0x5C]"
  "ToWindowsPath ''strategies/catalog.json'' = W ''strategies'' @ W [CHR 0x5C] @ W ''catalog.json''"
  "ToWindowsPath ''provenance.json'' = W ''provenance.json''"
  "ToWindowsPath ''runtime-manifest.json'' = W ''runtime-manifest.json''"
  by code_simp+

text \<open>
  The two path checkers agree: what the package format admits, the verifier of the installed
  runtime admits too, as the very path the extraction writes. (The converse fails for letter case
  only: the verifier folds the path before it consults the list of directories.)
\<close>

lemma Runtime_path_agreement:
  assumes "NormalizePackagePath s = Some n"
  shows "SafeRuntimeRelativePath W s = Some (ToWindowsPath n)"
proof -
  have s: "n = s" "path_head_ok s" "list_all safe_component (splits CHR ''/'' s)" "package_path_allowed s"
    using assms by (simp_all add: NormalizePackagePath_Some)
  note conv = W_plain [OF s(2,3)]
  have noslash: "CHR 0x5C \<notin> set s" using s(2) by (auto simp: path_head_ok_def)
  have wide: "map W (splits CHR ''/'' s) = map (map widen) (splits CHR ''/'' s)"
    by (rule map_cong [OF refl]) (metis splits_elem widen_component)
  have path: "join (WC CHR 0x5C) (map W (splits CHR ''/'' s)) = ToWindowsPath s"
    unfolding wide ToWindowsPath_splits [OF noslash, symmetric] by (rule join_splits)
  have pre: "starts_with (ToWindowsPath p) (ToLowerAsciiW (ToWindowsPath s))"
    if "starts_with p s" "ToLowerAsciiW (ToWindowsPath p) = ToWindowsPath p" for p
  proof -
    have "starts_with (ToLowerAsciiW (ToWindowsPath p)) (ToLowerAsciiW (ToWindowsPath s))"
      unfolding ToLowerAsciiW_def ToWindowsPath_map using that(1) by (intro lower_wchar_prefix)
    then show ?thesis using that(2) by simp
  qed
  have "runtime_path_allowed (ToLowerAsciiW (ToWindowsPath s))"
    unfolding runtime_path_allowed_def allowed_names_wide [symmetric]
    using s(4) pre [OF _ allowed_names_folded(1)] pre [OF _ allowed_names_folded(2)] allowed_names_folded(3-5)
    unfolding package_path_allowed_def by metis
  then show ?thesis using s path SafeRuntimeRelativePath_Some [OF conv] by simp
qed

lemma Runtime_path_agreement_witness:
  "SafeRuntimeRelativePath W ''lists/a.txt'' = Some (W ''lists'' @ W [CHR 0x5C] @ W ''a.txt'')"
proof -
  have "NormalizePackagePath ''lists/a.txt'' = Some ''lists/a.txt''" by code_simp
  from Runtime_path_agreement [OF this]
  have "SafeRuntimeRelativePath W ''lists/a.txt'' = Some (ToWindowsPath ''lists/a.txt'')" .
  also have "ToWindowsPath ''lists/a.txt'' = W ''lists'' @ W [CHR 0x5C] @ W ''a.txt''" by code_simp
  finally show ?thesis .
qed

end
