(* ===== verification/ResourceExtractor.thy ===== *)
theory ResourceExtractor
  imports RuntimeInventory ProcessRecord RuntimePaths Strategies
begin

text \<open>
  The runtime on disk, \<^verbatim>\<open>src/src/core/ResourceExtractor.cpp\<close>: extraction of the embedded resources,
  verification of the embedded and of an installed runtime, cleanup of old versions. The file system is
  the environment of \<open>FsTrace\<close>, extended by what this component reads; the resources compiled into the
  program (\<^verbatim>\<open>GeneratedManifest.h\<close>) and the generated catalog are a parameter, the record \<open>build\<close>. User
  messages are error codes.
\<close>

record install_env = fs_env +
  listing_of :: "history \<Rightarrow> wstring \<Rightarrow> listing"
  small_file :: "history \<Rightarrow> wstring \<Rightarrow> (int option \<times> string option list) option"
    \<comment> \<open>\<^verbatim>\<open>CreateFileW\<close>, \<^verbatim>\<open>GetFileSizeEx\<close>, the outcomes of \<^verbatim>\<open>ReadFile\<close>\<close>
  stored_state :: "history \<Rightarrow> wstring \<Rightarrow> StateResult"   \<comment> \<open>\<^verbatim>\<open>LoadRuntimeState\<close>\<close>
  launch_record :: "history \<Rightarrow> ProcessRecord"           \<comment> \<open>\<^verbatim>\<open>ProcessManager::LoadRecord\<close>\<close>
  launch_matches :: "history \<Rightarrow> ProcessRecord \<Rightarrow> bool"  \<comment> \<open>\<^verbatim>\<open>ProcessManager::IdentityMatches\<close>\<close>
  ToUtf16 :: "string \<Rightarrow> wstring"
  ToUtf8 :: "wstring \<Rightarrow> string"

record EmbeddedResource =
  relPath :: wstring
  logicalName :: wstring
  expectedSize :: nat
  resource_sha :: string
  is_binary :: bool
  embedded_data :: "string option"   \<comment> \<open>\<^verbatim>\<open>LoadEmbedded\<close>: found, loaded and locked\<close>

record build =
  kVersion :: wstring
  kEmbeddedResources :: "EmbeddedResource list"
  kGeneratedCatalog :: string
  imported_text :: wstring   \<comment> \<open>the literal before the source file in a description\<close>

datatype extract_error =
    DirectoryFailed | ForeignObject | UserListFailed | UserListUnprotected | AclFailed
  | ResourceDamaged | ResourceMismatch | WriteRejected | ReverifyFailed | CatalogDirectoryFailed
  | CatalogWriteFailed | StateInitFailed | StateDamaged | DirectoryUnprotected | ManifestUnreadable
  | ManifestSchema | ManifestEntry | ManifestDuplicate | FileMismatch | ComponentsMissing
  | CatalogRejected catalog_error | CatalogMismatch

record ExtractionResult =
  extraction_ok :: bool
  extraction_error :: "extract_error option"
  extracted :: nat
  present :: nat
  failedResource :: wstring

definition fresh_result :: ExtractionResult where
  "fresh_result = \<lparr>extraction_ok = False, extraction_error = None, extracted = 0, present = 0,
     failedResource = []\<rparr>"

definition failed_with :: "extract_error \<Rightarrow> wstring \<Rightarrow> ExtractionResult \<Rightarrow> ExtractionResult" where
  "failed_with e p r = r\<lparr>extraction_error := Some e, failedResource := p\<rparr>"

record RuntimeFile =
  runtime_path :: wstring
  runtime_size :: nat
  runtime_sha :: string

section \<open>Reading and checking files\<close>

definition FileIsValid :: "'z fs_env_scheme \<Rightarrow> history \<Rightarrow> wstring \<Rightarrow> nat \<Rightarrow> string \<Rightarrow> bool" where
  "FileIsValid env h path n sha =
     (if file_size env h path \<noteq> Some n then False
      else (case file_sha env h path of None \<Rightarrow> False | Some d \<Rightarrow> HexEquals d sha))"

definition ReadSmallProtectedFile ::
  "'z install_env_scheme \<Rightarrow> history \<Rightarrow> wstring \<Rightarrow> nat \<Rightarrow> string option" where
  "ReadSmallProtectedFile env h path limit =
     (if \<not> protected_file_ok env h path then None
      else (case small_file env h path of
              Some (Some n, rs) \<Rightarrow>
                if n \<le> 0 \<or> int limit < n then None else sized_read rs (nat n)
            | _ \<Rightarrow> None))"

definition BoolAt :: "jvalue \<Rightarrow> string \<Rightarrow> bool option" where
  "BoolAt v key = (case Find v key of None \<Rightarrow> None | Some m \<Rightarrow> AsBool m)"

definition validHex :: "string \<Rightarrow> nat \<Rightarrow> bool" where
  "validHex value n \<longleftrightarrow> length value = n \<and> list_all IsLowerHex value"

definition provenance_options :: ParseOptions where
  "provenance_options = \<lparr>maxBytes = 64 * 1024, maxDepth = 4, maxValues = 32\<rparr>"

text \<open>The checks on the parsed provenance.\<close>

definition provenance_valid :: "(string \<Rightarrow> wstring) \<Rightarrow> jvalue \<Rightarrow> wstring \<Rightarrow> bool" where
  "provenance_valid U v expectedVersion \<longleftrightarrow>
     StringAt v ''provider'' = Some ''Flowseal/zapret-discord-youtube'' \<and>
     (case StringAt v ''version'' of
        None \<Rightarrow> False
      | Some version \<Rightarrow> U version = expectedVersion \<and> StringAt v ''tag'' = Some version) \<and>
     (case UIntAt v ''release_id'' of None \<Rightarrow> False | Some n \<Rightarrow> n \<noteq> 0) \<and>
     (case StringAt v ''source_url'' of None \<Rightarrow> False | Some s \<Rightarrow> starts_with ''https://'' s) \<and>
     (case StringAt v ''release_url'' of None \<Rightarrow> False | Some s \<Rightarrow> starts_with ''https://'' s) \<and>
     (case StringAt v ''imported_at_utc'' of None \<Rightarrow> False | Some s \<Rightarrow> s \<noteq> []) \<and>
     (case StringAt v ''archive_sha256'' of None \<Rightarrow> False | Some s \<Rightarrow> validHex s 64) \<and>
     (case StringAt v ''upstream_commit'' of None \<Rightarrow> False | Some s \<Rightarrow> validHex s 40) \<and>
     BoolAt v ''immutable'' = Some True"

definition ValidateInstalledProvenance ::
  "'z install_env_scheme \<Rightarrow> history \<Rightarrow> wstring \<Rightarrow> wstring \<Rightarrow> bool" where
  "ValidateInstalledProvenance env h path expectedVersion =
     (case ReadSmallProtectedFile env h path (64 * 1024) of
        None \<Rightarrow> False
      | Some bytes \<Rightarrow>
          (case Parse bytes provenance_options of
             Inl e \<Rightarrow> False
           | Inr v \<Rightarrow>
               (case AsObject v of
                  None \<Rightarrow> False
                | Some members \<Rightarrow> length members = 10 \<and> provenance_valid (ToUtf16 env) v expectedVersion)))"

definition tree_at :: "'z install_env_scheme \<Rightarrow> history \<Rightarrow> tree_env" where
  "tree_at env h = \<lparr>tree_dir_ok = dir_ok env h, tree_file_ok = file_ok env h, list_dir = listing_of env h\<rparr>"

definition strategies_dir :: "RuntimePaths \<Rightarrow> wstring" where
  "strategies_dir p = below (RuntimeVersionDir p) ''strategies''"

definition runtime_dirs :: "RuntimePaths \<Rightarrow> wstring list" where
  "runtime_dirs p = [RuntimeVersionDir p, BinDir p, ListsDir p, strategies_dir p]"

section \<open>An installed runtime\<close>

record installed_scan =
  verifiedFiles :: "RuntimeFile list"
  seen_paths :: "wstring set"
  found_winws :: bool
  found_catalog :: bool
  found_provenance :: bool

definition no_installed :: installed_scan where
  "no_installed = \<lparr>verifiedFiles = [], seen_paths = {}, found_winws = False, found_catalog = False,
     found_provenance = False\<rparr>"

definition winws_path :: wstring where
  "winws_path = W ''bin'' @ W [CHR 0x5C] @ W ''winws.exe''"

definition catalog_path :: wstring where
  "catalog_path = W ''strategies'' @ W [CHR 0x5C] @ W ''catalog.json''"

text \<open>An item of the \<^verbatim>\<open>files\<close> array: its normal path, size and digest.\<close>

definition ReadInstalledItem :: "(string \<Rightarrow> wstring) \<Rightarrow> jvalue \<Rightarrow> RuntimeFile option" where
  "ReadInstalledItem U v =
     (case (AsObject v, StringAt v ''path'', StringAt v ''sha256'', UIntAt v ''size'') of
        (Some members, Some rel, Some sha, Some n) \<Rightarrow>
          if length members \<noteq> 3 \<or> n = 0 \<or> length sha \<noteq> 64 \<or> rel = ''runtime-manifest.json'' then None
          else (case SafeRuntimeRelativePath U rel of
                  None \<Rightarrow> None
                | Some normalized \<Rightarrow>
                    Some \<lparr>runtime_path = normalized, runtime_size = n, runtime_sha = sha\<rparr>)
      | _ \<Rightarrow> None)"

definition file_verified :: "'z fs_env_scheme \<Rightarrow> history \<Rightarrow> wstring \<Rightarrow> RuntimeFile \<Rightarrow> bool" where
  "file_verified env h root f \<longleftrightarrow>
     FileIsValid env h (beneath root (runtime_path f)) (runtime_size f) (runtime_sha f) \<and>
     protected_file_ok env h (beneath root (runtime_path f))"

fun CheckInstalledItems ::
  "'z install_env_scheme \<Rightarrow> history \<Rightarrow> wstring \<Rightarrow> jvalue list \<Rightarrow> installed_scan \<Rightarrow>
     (extract_error \<times> wstring \<times> nat) + installed_scan" where
  "CheckInstalledItems env h root [] s = Inr s"
| "CheckInstalledItems env h root (v # vs) s =
     (case ReadInstalledItem (ToUtf16 env) v of
        None \<Rightarrow> Inl (ManifestEntry, [], length (verifiedFiles s))
      | Some f \<Rightarrow>
          let folded = ToLowerAsciiW (runtime_path f) in
          if folded \<in> seen_paths s then Inl (ManifestDuplicate, [], length (verifiedFiles s))
          else if \<not> file_verified env h root f
          then Inl (FileMismatch, runtime_path f, length (verifiedFiles s))
          else CheckInstalledItems env h root vs
                 \<lparr>verifiedFiles = verifiedFiles s @ [f], seen_paths = insert folded (seen_paths s),
                  found_winws = (found_winws s \<or> folded = winws_path),
                  found_catalog = (found_catalog s \<or> folded = catalog_path),
                  found_provenance = (found_provenance s \<or> folded = W ''provenance.json'')\<rparr>)"

definition manifest_options :: ParseOptions where
  "manifest_options = \<lparr>maxBytes = 1024 * 1024, maxDepth = 8, maxValues = 4096\<rparr>"

text \<open>The \<^verbatim>\<open>files\<close> array of a manifest of the right schema and version.\<close>

definition ReadInstalledManifest :: "(string \<Rightarrow> wstring) \<Rightarrow> wstring \<Rightarrow> string \<Rightarrow> jvalue list option" where
  "ReadInstalledManifest U expectedVersion bytes =
     (case Parse bytes manifest_options of
        Inl e \<Rightarrow> None
      | Inr v \<Rightarrow>
          (case (AsObject v, UIntAt v ''schema'', StringAt v ''payload_version'',
                 case Find v ''files'' of None \<Rightarrow> None | Some a \<Rightarrow> AsArray a) of
             (Some root, Some sch, Some version, Some files) \<Rightarrow>
               if length root \<noteq> 3 \<or> sch \<noteq> 1 \<or> U version \<noteq> expectedVersion \<or> files = [] \<or> 256 < length files
               then None else Some files
           | _ \<Rightarrow> None))"

definition ExtractedCatalog ::
  "'z install_env_scheme \<Rightarrow> build \<Rightarrow> RuntimePaths \<Rightarrow> history \<Rightarrow> catalog_error + RuntimeStrategy list" where
  "ExtractedCatalog env b p h =
     LoadCatalogFile (ToUtf16 env) (imported_text b) (file_ok env h (StrategyCatalogPath p))
       (small_file env h (StrategyCatalogPath p))"

text \<open>The result, the strategy catalog and the verified files, both empty on failure.\<close>

definition VerifyInstalledRuntime ::
  "'z install_env_scheme \<Rightarrow> build \<Rightarrow> RuntimePaths \<Rightarrow> history \<Rightarrow>
     ExtractionResult \<times> RuntimeStrategy list \<times> RuntimeFile list" where
  "VerifyInstalledRuntime env b p h =
     (let root = RuntimeVersionDir p in
      if \<not> list_all (protected_dir_ok env h) (runtime_dirs p)
      then (failed_with DirectoryUnprotected [] fresh_result, [], [])
      else (case ReadSmallProtectedFile env h (below root ''runtime-manifest.json'') (1024 * 1024) of
              None \<Rightarrow> (failed_with ManifestUnreadable [] fresh_result, [], [])
            | Some bytes \<Rightarrow>
                (case ReadInstalledManifest (ToUtf16 env) (RuntimeVersion p) bytes of
                   None \<Rightarrow> (failed_with ManifestSchema [] fresh_result, [], [])
                 | Some items \<Rightarrow>
                     (case CheckInstalledItems env h root items no_installed of
                        Inl (e, bad, n) \<Rightarrow> (failed_with e bad (fresh_result\<lparr>present := n\<rparr>), [], [])
                      | Inr s \<Rightarrow>
                          let r = fresh_result\<lparr>present := length (verifiedFiles s)\<rparr> in
                          (case ValidateRuntimeInventory (tree_at env h) root
                                  (W ''runtime-manifest.json'' # map runtime_path (verifiedFiles s)) of
                             Some unexpected \<Rightarrow> (failed_with ForeignObject unexpected r, [], [])
                           | None \<Rightarrow>
                               if \<not> found_winws s \<or> \<not> found_catalog s \<or> \<not> found_provenance s \<or>
                                  \<not> ValidateInstalledProvenance env h (below root ''provenance.json'') (RuntimeVersion p)
                               then (failed_with ComponentsMissing [] r, [], [])
                               else (case ExtractedCatalog env b p h of
                                       Inl e \<Rightarrow> (failed_with (CatalogRejected e) [] r, [], [])
                                     | Inr catalog \<Rightarrow>
                                         (r\<lparr>extraction_ok := True\<rparr>, catalog, verifiedFiles s)))))))"

section \<open>The embedded runtime\<close>

definition EmbeddedInventory :: "build \<Rightarrow> wstring list" where
  "EmbeddedInventory b =
     map relPath (kEmbeddedResources b) @
     [catalog_path, W ''runtime-manifest.json'', W ''provenance.json'']"

definition user_lists :: "string list" where
  "user_lists = [''list-general-user.txt'', ''list-exclude-user.txt'', ''ipset-exclude-user.txt'']"

definition user_list_path :: "RuntimePaths \<Rightarrow> string \<Rightarrow> wstring" where
  "user_list_path p name = below (below (UserDir p) ''lists'') name"

fun PrepareUserLists ::
  "'z install_env_scheme \<Rightarrow> RuntimePaths \<Rightarrow> string list \<Rightarrow> history \<Rightarrow> extract_error option \<times> history" where
  "PrepareUserLists env p [] h = (None, h)"
| "PrepareUserLists env p (name # names) h =
     (let path = user_list_path p name in
      if \<not> path_exists env h path then
        (case write_file env path [] h of
           (False, h1) \<Rightarrow> (Some UserListFailed, h1)
         | (True, h1) \<Rightarrow> PrepareUserLists env p names h1)
      else
        (case harden env path h of
           (False, h1) \<Rightarrow> (Some UserListUnprotected, h1)
         | (True, h1) \<Rightarrow> PrepareUserLists env p names h1))"

text \<open>One resource: \<open>Inr True\<close> when it was written, \<open>Inr False\<close> when it was already valid.\<close>

definition ExtractResource ::
  "'z install_env_scheme \<Rightarrow> wstring \<Rightarrow> EmbeddedResource \<Rightarrow> history \<Rightarrow> (extract_error + bool) \<times> history" where
  "ExtractResource env root r h =
     (let target = beneath root (relPath r) in
      if FileIsValid env h target (expectedSize r) (resource_sha r) then
        (case harden env target h of
           (False, h1) \<Rightarrow> (Inl AclFailed, h1)
         | (True, h1) \<Rightarrow> (Inr False, h1))
      else (case embedded_data r of
              None \<Rightarrow> (Inl ResourceDamaged, h)
            | Some data \<Rightarrow>
                if data = [] \<or> length data \<noteq> expectedSize r then (Inl ResourceDamaged, h)
                else (case data_sha env data of
                        None \<Rightarrow> (Inl ResourceMismatch, h)
                      | Some sha \<Rightarrow>
                          if \<not> HexEquals sha (resource_sha r) then (Inl ResourceMismatch, h)
                          else (case write_file env target data h of
                                  (False, h1) \<Rightarrow> (Inl WriteRejected, h1)
                                | (True, h1) \<Rightarrow>
                                    if \<not> FileIsValid env h1 target (expectedSize r) (resource_sha r)
                                    then (Inl ReverifyFailed, h1)
                                    else (case harden env target h1 of
                                            (False, h2) \<Rightarrow> (Inl AclFailed, h2)
                                          | (True, h2) \<Rightarrow> (Inr True, h2))))))"

fun ExtractResources ::
  "'z install_env_scheme \<Rightarrow> wstring \<Rightarrow> EmbeddedResource list \<Rightarrow> ExtractionResult \<Rightarrow> history \<Rightarrow>
     bool \<times> ExtractionResult \<times> history" where
  "ExtractResources env root [] res h = (True, res, h)"
| "ExtractResources env root (r # rs) res h =
     (case ExtractResource env root r h of
        (Inl e, h1) \<Rightarrow> (False, failed_with e (logicalName r) res, h1)
      | (Inr fresh, h1) \<Rightarrow>
          ExtractResources env root rs
            (if fresh then res\<lparr>extracted := extracted res + 1\<rparr> else res\<lparr>present := present res + 1\<rparr>) h1)"

definition initial_state :: "'z install_env_scheme \<Rightarrow> build \<Rightarrow> StoredRuntimeState" where
  "initial_state env b =
     empty_state\<lparr>current := ToUtf8 env (kVersion b), lastResult := ''embedded-runtime-ready''\<rparr>"

text \<open>The last part: the directory of the catalog, the catalog, the state of the active runtime.\<close>

definition InstallCatalog ::
  "'z install_env_scheme \<Rightarrow> build \<Rightarrow> RuntimePaths \<Rightarrow> history \<Rightarrow> extract_error option \<times> history" where
  "InstallCatalog env b p h =
     (case ensure env (strategies_dir p) h of
        (False, h1) \<Rightarrow> (Some CatalogDirectoryFailed, h1)
      | (True, h1) \<Rightarrow>
          (case write_file env (StrategyCatalogPath p) (kGeneratedCatalog b) h1 of
             (False, h2) \<Rightarrow> (Some CatalogWriteFailed, h2)
           | (True, h2) \<Rightarrow>
               (case stored_state env h2 (ActiveRuntimePath p) of
                  StateMissing \<Rightarrow>
                    (case SaveRuntimeState
                        (\<lambda>path data g. case write_file env path data g of
                           (ok, g') \<Rightarrow> (if ok then None else Some [], g'))
                        (ActiveRuntimePath p) (initial_state env b) h2 of
                       (None, h3) \<Rightarrow> (None, h3)
                     | (Some e, h3) \<Rightarrow> (Some StateInitFailed, h3))
                | StateError e \<Rightarrow> (Some StateDamaged, h2)
                | StateOk s \<Rightarrow> (None, h2))))"

fun EnsureAll :: "'z fs_env_scheme \<Rightarrow> wstring list \<Rightarrow> history \<Rightarrow> bool \<times> history" where
  "EnsureAll env [] h = (True, h)"
| "EnsureAll env (d # ds) h =
     (case ensure env d h of (False, h1) \<Rightarrow> (False, h1) | (True, h1) \<Rightarrow> EnsureAll env ds h1)"

definition EnsureExtracted ::
  "'z install_env_scheme \<Rightarrow> build \<Rightarrow> RuntimePaths \<Rightarrow> history \<Rightarrow> ExtractionResult \<times> history" where
  "EnsureExtracted env b p h =
     (if RuntimeVersion p \<noteq> kVersion b then (fst (VerifyInstalledRuntime env b p h), h)
      else (case EnsureAll env [RuntimeVersionDir p, BinDir p, ListsDir p, below (UserDir p) ''lists''] h of
              (False, h1) \<Rightarrow> (failed_with DirectoryFailed [] fresh_result, h1)
            | (True, h1) \<Rightarrow>
                (case ValidateRuntimeInventory (tree_at env h1) (RuntimeVersionDir p) (EmbeddedInventory b) of
                   Some unexpected \<Rightarrow> (failed_with ForeignObject unexpected fresh_result, h1)
                 | None \<Rightarrow>
                     (case PrepareUserLists env p user_lists h1 of
                        (Some e, h2) \<Rightarrow> (failed_with e [] fresh_result, h2)
                      | (None, h2) \<Rightarrow>
                          (case ExtractResources env (RuntimeVersionDir p) (kEmbeddedResources b) fresh_result h2 of
                             (False, res, h3) \<Rightarrow> (res, h3)
                           | (True, res, h3) \<Rightarrow>
                               (case InstallCatalog env b p h3 of
                                  (Some e, h4) \<Rightarrow> (failed_with e [] res, h4)
                                | (None, h4) \<Rightarrow> (res\<lparr>extraction_ok := True\<rparr>, h4)))))))"

section \<open>Read-only verification\<close>

definition resource_file :: "EmbeddedResource \<Rightarrow> RuntimeFile" where
  "resource_file r = \<lparr>runtime_path = relPath r, runtime_size = expectedSize r, runtime_sha = resource_sha r\<rparr>"

text \<open>The loop over the resources: the first bad file and the number of good ones before it.\<close>

fun VerifyResources ::
  "'z fs_env_scheme \<Rightarrow> history \<Rightarrow> wstring \<Rightarrow> EmbeddedResource list \<Rightarrow> nat \<Rightarrow> (wstring \<times> nat) + nat" where
  "VerifyResources env h root [] n = Inr n"
| "VerifyResources env h root (r # rs) n =
     (if \<not> file_verified env h root (resource_file r) then Inl (relPath r, n)
      else VerifyResources env h root rs (n + 1))"

definition catalog_matches :: "'z install_env_scheme \<Rightarrow> build \<Rightarrow> RuntimePaths \<Rightarrow> history \<Rightarrow> bool" where
  "catalog_matches env b p h \<longleftrightarrow>
     (case data_sha env (kGeneratedCatalog b) of
        None \<Rightarrow> False
      | Some sha \<Rightarrow>
          protected_file_ok env h (StrategyCatalogPath p) \<and>
          FileIsValid env h (StrategyCatalogPath p) (length (kGeneratedCatalog b)) sha)"

definition VerifyRuntime ::
  "'z install_env_scheme \<Rightarrow> build \<Rightarrow> RuntimePaths \<Rightarrow> history \<Rightarrow>
     ExtractionResult \<times> RuntimeStrategy list \<times> RuntimeFile list" where
  "VerifyRuntime env b p h =
     (if RuntimeVersion p \<noteq> kVersion b then VerifyInstalledRuntime env b p h
      else (case ValidateRuntimeInventory (tree_at env h) (RuntimeVersionDir p) (EmbeddedInventory b) of
              Some unexpected \<Rightarrow> (failed_with ForeignObject unexpected fresh_result, [], [])
            | None \<Rightarrow>
                if \<not> list_all (protected_dir_ok env h) (runtime_dirs p)
                then (failed_with DirectoryUnprotected [] fresh_result, [], [])
                else (case VerifyResources env h (RuntimeVersionDir p) (kEmbeddedResources b) 0 of
                        Inl (bad, n) \<Rightarrow> (failed_with FileMismatch bad (fresh_result\<lparr>present := n\<rparr>), [], [])
                      | Inr n \<Rightarrow>
                          let r = fresh_result\<lparr>present := n\<rparr> in
                          if \<not> catalog_matches env b p h then (failed_with CatalogMismatch [] r, [], [])
                          else (case ExtractedCatalog env b p h of
                                  Inl e \<Rightarrow> (failed_with (CatalogRejected e) [] r, [], [])
                                | Inr catalog \<Rightarrow>
                                    (r\<lparr>extraction_ok := True\<rparr>, catalog, map resource_file (kEmbeddedResources b))))))"

fun VerifyBinaryFiles :: "'z fs_env_scheme \<Rightarrow> history \<Rightarrow> wstring \<Rightarrow> EmbeddedResource list \<Rightarrow> wstring option" where
  "VerifyBinaryFiles env h root [] = None"
| "VerifyBinaryFiles env h root (r # rs) =
     (if \<not> is_binary r then VerifyBinaryFiles env h root rs
      else if \<not> file_verified env h root (resource_file r) then Some (logicalName r)
      else VerifyBinaryFiles env h root rs)"

text \<open>The answer and \<^verbatim>\<open>firstBad\<close>.\<close>

definition VerifyBinaries ::
  "'z install_env_scheme \<Rightarrow> build \<Rightarrow> RuntimePaths \<Rightarrow> history \<Rightarrow> bool \<times> wstring" where
  "VerifyBinaries env b p h =
     (if RuntimeVersion p \<noteq> kVersion b then
        (let verified = fst (VerifyInstalledRuntime env b p h) in
         (extraction_ok verified, failedResource verified))
      else (case ValidateRuntimeInventory (tree_at env h) (RuntimeVersionDir p) (EmbeddedInventory b) of
              Some unexpected \<Rightarrow> (False, unexpected)
            | None \<Rightarrow>
                (case VerifyBinaryFiles env h (RuntimeVersionDir p) (kEmbeddedResources b) of
                   Some bad \<Rightarrow> (False, bad)
                 | None \<Rightarrow> (True, []))))"

definition VerifyRuntimeDirs :: "'z fs_env_scheme \<Rightarrow> RuntimePaths \<Rightarrow> history \<Rightarrow> bool" where
  "VerifyRuntimeDirs env p h =
     list_all (\<lambda>d. if \<not> path_exists env h d then True else protected_dir_ok env h d)
       ([ProgramDataRoot p, LogsDir p, RuntimeRoot p] @ runtime_dirs p)"

section \<open>Cleanup\<close>

definition BuildRuntimeKeepSet ::
  "(string \<Rightarrow> wstring) \<Rightarrow> StateResult \<Rightarrow> wstring \<Rightarrow> wstring \<Rightarrow> wstring \<Rightarrow> wstring list option" where
  "BuildRuntimeKeepSet U state active embedded runningVersion =
     (case state of
        StateOk s \<Rightarrow>
          if current s = [] \<or> active = [] \<or> embedded = [] then None
          else Some (filter (\<lambda>v. v \<noteq> []) [active, embedded, runningVersion, U (current s)] @
                     map U (filter (\<lambda>v. v \<noteq> []) [previousKnownGood s, pending s]))
      | _ \<Rightarrow> None)"

record CleanupResult =
  cleanup_ok :: bool
  removed :: nat

fun RemoveVersions ::
  "'z install_env_scheme \<Rightarrow> wstring \<Rightarrow> wstring list \<Rightarrow> find_entry list \<Rightarrow> nat \<Rightarrow> history \<Rightarrow>
     bool \<times> nat \<times> history" where
  "RemoveVersions env root keep [] n h = (True, n, h)"
| "RemoveVersions env root keep (e # es) n h =
     (if \<not> entry_directory e \<or> dot_entry e \<or> list_ex (IEqualsAsciiW (entry_name e)) keep
      then RemoveVersions env root keep es n h
      else (case remove_tree env root (beneath root (entry_name e)) h of
              (False, h1) \<Rightarrow> (False, n, h1)
            | (True, h1) \<Rightarrow> RemoveVersions env root keep es (n + 1) h1))"

text \<open>
  The version whose engine runs: the component after the runtime root of a trusted record. \<open>None\<close> is
  the refusal of a record that matches a process but names a foreign image.
\<close>

definition RunningVersion :: "'z install_env_scheme \<Rightarrow> RuntimePaths \<Rightarrow> history \<Rightarrow> wstring option" where
  "RunningVersion env p h =
     (let r = launch_record env h in
      if record_valid r \<and> launch_matches env h r then
        if \<not> IsExpectedWinwsImage (imagePath r) (RuntimeRoot p) then None
        else Some (takeWhile (\<lambda>c. c \<noteq> WC CHR 0x5C) (drop (length (RuntimeRoot p) + 1) (imagePath r)))
      else Some [])"

definition CleanupOldVersions ::
  "'z install_env_scheme \<Rightarrow> build \<Rightarrow> RuntimePaths \<Rightarrow> history \<Rightarrow> CleanupResult \<times> history" where
  "CleanupOldVersions env b p h =
     (let refused = (\<lparr>cleanup_ok = False, removed = 0\<rparr>, h) in
      case RunningVersion env p h of
        None \<Rightarrow> refused
      | Some runningVersion \<Rightarrow>
          (case BuildRuntimeKeepSet (ToUtf16 env) (stored_state env h (ActiveRuntimePath p))
                  (RuntimeVersion p) (kVersion b) runningVersion of
             None \<Rightarrow> refused
           | Some keep \<Rightarrow>
               if \<not> protected_dir_ok env h (RuntimeRoot p) then refused
               else (case listing_of env h (RuntimeRoot p) of
                       Listing es complete \<Rightarrow>
                         (case RemoveVersions env (RuntimeRoot p) keep es 0 h of
                            (ok, n, h1) \<Rightarrow> (\<lparr>cleanup_ok = ok \<and> complete, removed = n\<rparr>, h1))
                     | _ \<Rightarrow> refused)))"

section \<open>A verified runtime is intact\<close>

definition folded_names :: "RuntimeFile list \<Rightarrow> wstring list" where
  "folded_names files = map (\<lambda>f. ToLowerAsciiW (runtime_path f)) files"

definition metadata_names :: "wstring list" where
  "metadata_names = [catalog_path, W ''runtime-manifest.json'', W ''provenance.json'']"

text \<open>Every file in the tree below the runtime directory is one of the named ones.\<close>

definition no_foreign_file :: "tree_env \<Rightarrow> wstring \<Rightarrow> wstring set \<Rightarrow> bool" where
  "no_foreign_file t root names \<longleftrightarrow>
     (\<forall>d es complete e. reached t root d \<longrightarrow> list_dir t (in_tree root d) = Listing es complete \<longrightarrow>
        e \<in> set (real_entries es) \<longrightarrow>
        \<not> entry_reparse e \<and> (\<not> entry_directory e \<longrightarrow> ToLowerAsciiW (child_of d e) \<in> names))"

definition runtime_intact ::
  "'z install_env_scheme \<Rightarrow> RuntimePaths \<Rightarrow> history \<Rightarrow> RuntimeFile list \<Rightarrow> bool" where
  "runtime_intact env p h files \<longleftrightarrow>
     list_all (protected_dir_ok env h) (runtime_dirs p) \<and>
     list_all (file_verified env h (RuntimeVersionDir p)) files \<and>
     no_foreign_file (tree_at env h) (RuntimeVersionDir p)
       (set (folded_names files) \<union> set (map ToLowerAsciiW metadata_names))"

lemma inventory_no_foreign:
  assumes "ValidateRuntimeInventory t root allowed = None" "set (map ToLowerAsciiW allowed) \<subseteq> names"
  shows "no_foreign_file t root names"
  unfolding no_foreign_file_def
proof (intro allI impI)
  fix d es complete e
  assume "reached t root d" "list_dir t (in_tree root d) = Listing es complete" "e \<in> set (real_entries es)"
  then have "entry_allowed t root (make_allowlist allowed) d e"
    using inventory_allowed [OF assms(1)] by (auto simp: list_all_iff)
  then show "\<not> entry_reparse e \<and> (\<not> entry_directory e \<longrightarrow> ToLowerAsciiW (child_of d e) \<in> names)"
    using assms(2) by (auto simp: entry_allowed_def make_allowlist_def Let_def split: if_splits)
qed

text \<open>The scan of the manifest.\<close>

definition scan_inv :: "'z fs_env_scheme \<Rightarrow> history \<Rightarrow> wstring \<Rightarrow> installed_scan \<Rightarrow> bool" where
  "scan_inv env h root s \<longleftrightarrow>
     list_all (file_verified env h root) (verifiedFiles s) \<and>
     seen_paths s = set (folded_names (verifiedFiles s)) \<and> distinct (folded_names (verifiedFiles s)) \<and>
     (found_winws s \<longleftrightarrow> winws_path \<in> seen_paths s) \<and> (found_catalog s \<longleftrightarrow> catalog_path \<in> seen_paths s) \<and>
     (found_provenance s \<longleftrightarrow> W ''provenance.json'' \<in> seen_paths s)"

lemma CheckInstalledItems_inv:
  "CheckInstalledItems env h root vs s = Inr s' \<Longrightarrow> scan_inv env h root s \<Longrightarrow>
     scan_inv env h root s' \<and> length (verifiedFiles s') = length (verifiedFiles s) + length vs"
proof (induction vs arbitrary: s)
  case Nil
  then show ?case by simp
next
  case (Cons v vs)
  obtain f where f: "ReadInstalledItem (ToUtf16 env) v = Some f"
    using Cons.prems(1) by (cases "ReadInstalledItem (ToUtf16 env) v") auto
  let ?folded = "ToLowerAsciiW (runtime_path f)"
  let ?s = "\<lparr>verifiedFiles = verifiedFiles s @ [f], seen_paths = insert ?folded (seen_paths s),
    found_winws = (found_winws s \<or> ?folded = winws_path), found_catalog = (found_catalog s \<or> ?folded = catalog_path),
    found_provenance = (found_provenance s \<or> ?folded = W ''provenance.json'')\<rparr>"
  have ok: "?folded \<notin> seen_paths s" "file_verified env h root f" "CheckInstalledItems env h root vs ?s = Inr s'"
    using Cons.prems(1) f by (auto simp: Let_def split: if_splits)
  have "scan_inv env h root ?s"
    using Cons.prems(2) ok(1,2) unfolding scan_inv_def folded_names_def by auto
  from Cons.IH [OF ok(3) this] show ?case by simp
qed

lemma no_installed_inv: "scan_inv env h root no_installed"
  by (simp add: scan_inv_def no_installed_def folded_names_def)

lemma ReadInstalledManifest_count:
  "ReadInstalledManifest U v bytes = Some items \<Longrightarrow> 0 < length items \<and> length items \<le> 256"
  by (auto simp: ReadInstalledManifest_def split: sum.splits option.splits if_splits)

lemma failed_with_ok [simp]: "extraction_ok (failed_with e bad r) = extraction_ok r"
  by (simp add: failed_with_def)

lemma fresh_not_ok [simp]: "\<not> extraction_ok fresh_result" "present fresh_result = 0"
  by (simp_all add: fresh_result_def)

lemma VerifyInstalledRuntime_intact:
  assumes "VerifyInstalledRuntime env b p h = (r, catalog, files)" "extraction_ok r"
  shows "runtime_intact env p h files" "present r = length files" "0 < length files" "length files \<le> 256"
    "distinct (folded_names files)"
    "{winws_path, catalog_path, W ''provenance.json''} \<subseteq> set (folded_names files)"
    "ValidateInstalledProvenance env h (below (RuntimeVersionDir p) ''provenance.json'') (RuntimeVersion p)"
    "ExtractedCatalog env b p h = Inr catalog"
proof -
  let ?root = "RuntimeVersionDir p"
  obtain bytes items s where dirs: "list_all (protected_dir_ok env h) (runtime_dirs p)"
    and items: "ReadInstalledManifest (ToUtf16 env) (RuntimeVersion p) bytes = Some items"
    and s: "CheckInstalledItems env h ?root items no_installed = Inr s"
    and inv: "ValidateRuntimeInventory (tree_at env h) ?root
      (W ''runtime-manifest.json'' # map runtime_path (verifiedFiles s)) = None"
    and found: "found_winws s" "found_catalog s" "found_provenance s"
    and out: "files = verifiedFiles s" "present r = length (verifiedFiles s)"
    and rest: "ValidateInstalledProvenance env h (below ?root ''provenance.json'') (RuntimeVersion p)"
      "ExtractedCatalog env b p h = Inr catalog"
    using assms
    by (auto simp: VerifyInstalledRuntime_def Let_def split: if_splits option.splits sum.splits)
  have scan: "scan_inv env h ?root s" "length files = length items"
    using CheckInstalledItems_inv [OF s no_installed_inv] out(1) by (auto simp: no_installed_def)
  have "W ''runtime-manifest.json'' \<in> set metadata_names" by (simp add: metadata_names_def)
  then have "no_foreign_file (tree_at env h) ?root (set (folded_names files) \<union> set (map ToLowerAsciiW metadata_names))"
    by (intro inventory_no_foreign [OF inv]) (auto simp: folded_names_def out(1))
  then show "runtime_intact env p h files"
    using dirs scan(1) out(1) by (simp add: runtime_intact_def scan_inv_def)
  show "present r = length files" "0 < length files" "length files \<le> 256" "distinct (folded_names files)"
    "{winws_path, catalog_path, W ''provenance.json''} \<subseteq> set (folded_names files)"
    using out scan found ReadInstalledManifest_count [OF items] by (auto simp: scan_inv_def)
qed (use assms in \<open>auto simp: VerifyInstalledRuntime_def Let_def split: if_splits option.splits sum.splits\<close>)

lemma ExtractedCatalog_nonempty: "ExtractedCatalog env b p h = Inr catalog \<Longrightarrow> catalog \<noteq> []"
  using ReadEntries_Inr
  by (fastforce simp: ExtractedCatalog_def LoadCatalogFile_def ParseCatalog_def
      split: sum.splits option.splits if_splits)

lemma VerifyResources_ok:
  "VerifyResources env h root rs n = Inr m \<Longrightarrow>
     list_all (file_verified env h root) (map resource_file rs) \<and> m = n + length rs"
  by (induction rs arbitrary: n) (fastforce split: if_splits)+

text \<open>
  C33. A runtime that passes verification is intact, be it the embedded one or an installed one: its
  directories are protected, each listed file has the listed size and SHA-256 and a protected
  descriptor, and walking the whole tree from its root meets no link and no file outside the list and
  the three metadata files. An installed runtime in addition lists between 1 and 256 distinct files,
  among them the engine, the catalog and a valid provenance.
\<close>

theorem VerifyRuntime_intact:
  assumes "VerifyRuntime env b p h = (r, catalog, files)" "extraction_ok r"
  shows "runtime_intact env p h files \<and> present r = length files \<and> ExtractedCatalog env b p h = Inr catalog \<and>
    (if RuntimeVersion p = kVersion b then files = map resource_file (kEmbeddedResources b)
     else distinct (folded_names files) \<and> 0 < length files \<and> length files \<le> 256 \<and>
       {winws_path, catalog_path, W ''provenance.json''} \<subseteq> set (folded_names files) \<and>
       ValidateInstalledProvenance env h (below (RuntimeVersionDir p) ''provenance.json'') (RuntimeVersion p))"
proof (cases "RuntimeVersion p = kVersion b")
  case True
  then obtain n where inv: "ValidateRuntimeInventory (tree_at env h) (RuntimeVersionDir p) (EmbeddedInventory b) = None"
    and dirs: "list_all (protected_dir_ok env h) (runtime_dirs p)"
    and n: "VerifyResources env h (RuntimeVersionDir p) (kEmbeddedResources b) 0 = Inr n"
    and out: "present r = n" "files = map resource_file (kEmbeddedResources b)" "ExtractedCatalog env b p h = Inr catalog"
    using assms by (auto simp: VerifyRuntime_def Let_def split: if_splits option.splits sum.splits)
  have "no_foreign_file (tree_at env h) (RuntimeVersionDir p)
      (set (folded_names files) \<union> set (map ToLowerAsciiW metadata_names))"
    by (rule inventory_no_foreign [OF inv])
      (auto simp: out(2) folded_names_def resource_file_def EmbeddedInventory_def metadata_names_def)
  then show ?thesis using True dirs VerifyResources_ok [OF n] out by (simp add: runtime_intact_def)
next
  case False
  then have "VerifyInstalledRuntime env b p h = (r, catalog, files)" using assms(1) by (simp add: VerifyRuntime_def)
  note VerifyInstalledRuntime_intact [OF this assms(2)]
  with False show ?thesis by simp
qed

definition sample_build :: build where
  "sample_build = \<lparr>kVersion = W ''1.0.0'',
     kEmbeddedResources = [\<lparr>relPath = winws_path, logicalName = W ''winws'',
       expectedSize = length shouting_catalog, resource_sha = ''aa'', is_binary = True, embedded_data = None\<rparr>],
     kGeneratedCatalog = shouting_catalog, imported_text = []\<rparr>"

definition sample_install_env :: install_env where
  "sample_install_env = \<lparr>ensure_ok = \<lambda>h p. True, write_ok = \<lambda>h p d. True, remove_ok = \<lambda>h r p. True,
     harden_ok = \<lambda>h p. True, strict_descendant = \<lambda>r p. True, path_exists = \<lambda>h p. True,
     components_ok = \<lambda>h p. True, protected_dir_ok = \<lambda>h p. True, protected_file_ok = \<lambda>h p. True,
     dir_ok = \<lambda>h p. True, file_ok = \<lambda>h p. True, file_size = \<lambda>h p. Some (length shouting_catalog),
     file_sha = \<lambda>h p. Some ''aa'', data_sha = \<lambda>d. Some ''aa'', listing_of = \<lambda>h p. NoFile,
     small_file = \<lambda>h p. Some (Some (int (length shouting_catalog)), [Some shouting_catalog]),
     stored_state = \<lambda>h p. StateMissing, launch_record = \<lambda>h. empty_record, launch_matches = \<lambda>h r. False,
     ToUtf16 = W, ToUtf8 = \<lambda>s. []\<rparr>"

definition sample_runtime_paths :: RuntimePaths where
  "sample_runtime_paths = paths_at (W ''root'') (W ''1.0.0'')"

lemma sized_read_once: "s \<noteq> [] \<Longrightarrow> length s \<le> read_request \<Longrightarrow> sized_read [Some s] (length s) = Some s"
  by simp

lemma sample_catalog_length: "0 < length shouting_catalog \<and> length shouting_catalog \<le> 200"
  by (simp add: shouting_catalog_def)

lemma sample_extracted_catalog:
  "\<exists>catalog. ExtractedCatalog sample_install_env sample_build sample_runtime_paths h = Inr catalog"
proof -
  have "ReadCatalog True (Some (Some (int (length shouting_catalog)), [Some shouting_catalog])) = Inr shouting_catalog"
    using sample_catalog_length sized_read_once [of shouting_catalog]
    by (simp add: ReadCatalog_def catalog_limit_def read_request_def del: sized_read.simps)
  moreover obtain catalog where "ParseCatalog W [] shouting_catalog = Inr catalog"
    using Catalog_general_folded by (auto split: sum.splits)
  ultimately show ?thesis
    by (simp add: ExtractedCatalog_def LoadCatalogFile_def sample_install_env_def sample_build_def)
qed

lemma HexEquals_refl [simp]: "HexEquals a a"
  by (simp add: HexEquals_def ascii_fold.ieq_refl)

lemma sample_verified:
  "\<exists>catalog. VerifyRuntime sample_install_env sample_build sample_runtime_paths [] =
     (\<lparr>extraction_ok = True, extraction_error = None, extracted = 0, present = 1, failedResource = []\<rparr>, catalog,
      map resource_file (kEmbeddedResources sample_build))"
proof -
  obtain catalog where c: "ExtractedCatalog sample_install_env sample_build sample_runtime_paths [] = Inr catalog"
    using sample_extracted_catalog by blast
  have "ValidateRuntimeInventory (tree_at sample_install_env []) (RuntimeVersionDir sample_runtime_paths)
      (EmbeddedInventory sample_build) = None"
    by (simp add: ValidateRuntimeInventory_def ScanDirectory_def tree_at_def sample_install_env_def Let_def)
  with c show ?thesis
    by (simp add: VerifyRuntime_def Let_def sample_runtime_paths_def paths_at_def fresh_result_def
        sample_build_def sample_install_env_def resource_file_def file_verified_def FileIsValid_def
        catalog_matches_def runtime_dirs_def)
qed

lemma VerifyRuntime_intact_witness:
  "runtime_intact sample_install_env sample_runtime_paths [] (map resource_file (kEmbeddedResources sample_build))"
proof -
  obtain catalog where "VerifyRuntime sample_install_env sample_build sample_runtime_paths [] =
     (\<lparr>extraction_ok = True, extraction_error = None, extracted = 0, present = 1, failedResource = []\<rparr>, catalog,
      map resource_file (kEmbeddedResources sample_build))"
    using sample_verified by blast
  from VerifyRuntime_intact [OF this] show ?thesis by simp
qed

section \<open>What extraction writes\<close>

text \<open>
  The events an extraction may cause: no tree is removed, no process touched, and every byte written is
  an empty user list, a resource whose size and digest were checked in memory, the generated catalog or
  the initial state.
\<close>

fun extraction_event :: "'z install_env_scheme \<Rightarrow> build \<Rightarrow> RuntimePaths \<Rightarrow> fs_event \<Rightarrow> bool" where
  "extraction_event env b p (WriteFile path data ok) =
     ((\<exists>name \<in> set user_lists. path = user_list_path p name \<and> data = []) \<or>
      (\<exists>r \<in> set (kEmbeddedResources b). path = beneath (RuntimeVersionDir p) (relPath r) \<and>
         length data = expectedSize r \<and>
         (case data_sha env data of None \<Rightarrow> False | Some sha \<Rightarrow> HexEquals sha (resource_sha r))) \<or>
      path = StrategyCatalogPath p \<and> data = kGeneratedCatalog b \<or>
      path = ActiveRuntimePath p \<and> data = SerializeRuntimeState (initial_state env b))"
| "extraction_event env b p (EnsureDirectory d ok) = True"
| "extraction_event env b p (Harden d ok) = True"
| "extraction_event env b p e = False"

text \<open>A resource was valid on disk when it was hardened.\<close>

definition installed_in :: "'z install_env_scheme \<Rightarrow> history \<Rightarrow> history \<Rightarrow> wstring \<Rightarrow> EmbeddedResource \<Rightarrow> bool" where
  "installed_in env h evs root r \<longleftrightarrow>
     (\<exists>pre post. evs = pre @ Harden (beneath root (relPath r)) True # post \<and>
        FileIsValid env (h @ pre) (beneath root (relPath r)) (expectedSize r) (resource_sha r))"

lemma installed_in_extend:
  "installed_in env h evs root r \<Longrightarrow> installed_in env h (evs @ evs') root r"
  "installed_in env (h @ evs0) evs root r \<Longrightarrow> installed_in env h (evs0 @ evs) root r"
  unfolding installed_in_def by (metis append_Cons append_assoc)+

definition extends_by :: "(fs_event \<Rightarrow> bool) \<Rightarrow> history \<Rightarrow> history \<Rightarrow> bool" where
  "extends_by P h h' \<longleftrightarrow> (\<exists>evs. h' = h @ evs \<and> list_all P evs)"

lemma extends_by_refl [simp]: "extends_by P h h"
  by (simp add: extends_by_def)

lemma extends_by_snoc [simp]: "extends_by P h (h @ [e]) \<longleftrightarrow> P e"
  by (auto simp: extends_by_def)

lemma extends_by_trans: "extends_by P h h' \<Longrightarrow> extends_by P h' h'' \<Longrightarrow> extends_by P h h''"
  by (auto simp: extends_by_def)

lemma extends_by_step: "extends_by P (h @ [e]) h' \<Longrightarrow> P e \<Longrightarrow> extends_by P h h'"
  by (auto simp: extends_by_def)

lemma EnsureAll_events: "EnsureAll env ds h = (ok, h') \<Longrightarrow> extends_by (extraction_event env b p) h h'"
proof (induction ds arbitrary: h)
  case (Cons d ds)
  then show ?case
    by (cases "ensure_ok env h d")
      (auto simp: ensure_def Let_def intro: extends_by_step [where e = "EnsureDirectory d True"])
qed simp

lemma PrepareUserLists_events:
  "PrepareUserLists env p names h = (e, h') \<Longrightarrow> set names \<subseteq> set user_lists \<Longrightarrow>
     extends_by (extraction_event env b p) h h'"
proof (induction names arbitrary: h)
  case (Cons name names)
  have "extraction_event env b p (WriteFile (user_list_path p name) [] ok)"
    "extraction_event env b p (Harden (user_list_path p name) ok)" for ok
    using Cons.prems(2) by auto
  note ev = this
  then have step: "extends_by (extraction_event env b p) (h @ [e]) h' \<Longrightarrow> extends_by (extraction_event env b p) h h'"
    if "e = WriteFile (user_list_path p name) [] True \<or> e = Harden (user_list_path p name) True" for e
    using that by (auto intro: extends_by_step simp del: extraction_event.simps)
  show ?case
  proof (cases "path_exists env h (user_list_path p name)")
    case True
    then show ?thesis using Cons step ev
      by (cases "harden_ok env h (user_list_path p name)") (auto simp: harden_def Let_def simp del: extraction_event.simps)
  next
    case False
    then show ?thesis using Cons step ev
      by (cases "write_ok env h (user_list_path p name) []") (auto simp: write_file_def Let_def simp del: extraction_event.simps)
  qed
qed simp

lemma ExtractResource_events:
  assumes "ExtractResource env root r h = (out, h')" "r \<in> set (kEmbeddedResources b)" "root = RuntimeVersionDir p"
  obtains evs where "h' = h @ evs" "list_all (extraction_event env b p) evs"
    "\<And>fresh. out = Inr fresh \<Longrightarrow> installed_in env h evs root r"
proof (cases "FileIsValid env h (beneath root (relPath r)) (expectedSize r) (resource_sha r)")
  case True
  have "installed_in env h [Harden (beneath root (relPath r)) True] root r"
    using True unfolding installed_in_def by (rule_tac exI [where x = "[]"]) simp
  then show ?thesis
    using True assms(1)
    by (intro that [of "[Harden (beneath root (relPath r)) (harden_ok env h (beneath root (relPath r)))]"])
      (auto simp: ExtractResource_def harden_def Let_def split: bool.splits)
next
  case False
  let ?t = "beneath root (relPath r)"
  consider e where "out = Inl e" "h' = h"
    | data sha where "embedded_data r = Some data" "length data = expectedSize r" "data_sha env data = Some sha"
        "HexEquals sha (resource_sha r)" "data \<noteq> []"
    using False assms(1)
    by (auto simp: ExtractResource_def Let_def split: option.splits if_splits)
  then show ?thesis
  proof cases
    case 1
    then show ?thesis by (intro that [of "[]"]) auto
  next
    case 2
    let ?w = "WriteFile ?t data (write_ok env h ?t data)"
    have w: "extraction_event env b p ?w" using 2 assms(2,3) by auto
    have inst: "installed_in env h [?w, Harden ?t True] root r"
      if "FileIsValid env (h @ [?w]) ?t (expectedSize r) (resource_sha r)"
      using that unfolding installed_in_def by (rule_tac exI [where x = "[?w]"]) simp
    show ?thesis
    proof (cases "write_ok env h ?t data \<and> FileIsValid env (h @ [?w]) ?t (expectedSize r) (resource_sha r)")
      case True
      let ?k = "harden_ok env (h @ [?w]) ?t"
      have out: "h' = h @ [?w, Harden ?t ?k]" "out = Inr fresh \<Longrightarrow> ?k" for fresh
        using True False assms(1) 2
        by (cases ?k; simp add: ExtractResource_def write_file_def harden_def Let_def)+
      show ?thesis
      proof (rule that [OF out(1)])
        show "list_all (extraction_event env b p) [?w, Harden ?t ?k]"
          using w by (simp del: extraction_event.simps(1))
        show "installed_in env h [?w, Harden ?t ?k] root r" if "out = Inr fresh" for fresh
          using inst [OF conjunct2 [OF True]] by (simp only: out(2) [OF that])
      qed
    next
      case bad: False
      then have "out = Inl WriteRejected \<or> out = Inl ReverifyFailed" "h' = h @ [?w]"
        using False assms(1) 2
        by (cases "write_ok env h ?t data"; auto simp: ExtractResource_def write_file_def Let_def)+
      then show ?thesis using w by (intro that [of "[?w]"]) auto
    qed
  qed
qed

lemma ExtractResources_events:
  assumes "ExtractResources env root rs res h = (ok, res', h')" "set rs \<subseteq> set (kEmbeddedResources b)"
    "root = RuntimeVersionDir p" "\<not> extraction_ok res"
  shows "\<not> extraction_ok res' \<and> (\<exists>evs. h' = h @ evs \<and> list_all (extraction_event env b p) evs \<and>
    (if ok then list_all (installed_in env h evs root) rs else True))"
  using assms
proof (induction rs arbitrary: res h)
  case (Cons r rs)
  obtain out h1 where r: "ExtractResource env root r h = (out, h1)" by fastforce
  obtain evs1 where evs1: "h1 = h @ evs1" "list_all (extraction_event env b p) evs1"
    "\<And>fresh. out = Inr fresh \<Longrightarrow> installed_in env h evs1 root r"
    using ExtractResource_events [OF r, of b p] Cons.prems(2,3) by (metis list.set_intros(1) subsetD)
  show ?case
  proof (cases out)
    case (Inl e)
    then show ?thesis using Cons.prems r evs1 by auto
  next
    case (Inr fresh)
    let ?res = "if fresh then res\<lparr>extracted := extracted res + 1\<rparr> else res\<lparr>present := present res + 1\<rparr>"
    have "ExtractResources env root rs ?res h1 = (ok, res', h')" "\<not> extraction_ok ?res"
      using Cons.prems r Inr by auto
    from Cons.IH [OF this(1) _ Cons.prems(3) this(2)] Cons.prems(2) obtain evs2 where
      evs2: "\<not> extraction_ok res'" "h' = h1 @ evs2" "list_all (extraction_event env b p) evs2"
      "if ok then list_all (installed_in env h1 evs2 root) rs else True"
      by auto
    have "if ok then list_all (installed_in env h (evs1 @ evs2) root) (r # rs) else True"
      using evs2(4) evs1(3) [OF Inr] unfolding evs1(1)
      by (auto simp: list_all_iff intro: installed_in_extend)
    then show ?thesis using evs1(1,2) evs2 by (intro conjI exI [where x = "evs1 @ evs2"]) auto
  qed
qed auto

lemma InstallCatalog_events:
  "InstallCatalog env b p h = (e, h') \<Longrightarrow> extends_by (extraction_event env b p) h h'"
  by (auto simp: InstallCatalog_def ensure_def write_file_def SaveRuntimeState_def Let_def extends_by_def
      split: bool.splits StateResult.splits if_splits)

lemma EnsureExtracted_run:
  "case EnsureExtracted env b p h of (res, h') \<Rightarrow>
     \<exists>evs. h' = h @ evs \<and> list_all (extraction_event env b p) evs \<and>
       (if extraction_ok res \<and> RuntimeVersion p = kVersion b
        then list_all (installed_in env h evs (RuntimeVersionDir p)) (kEmbeddedResources b) else True)"
proof (cases "RuntimeVersion p = kVersion b")
  case False
  then show ?thesis by (auto simp: EnsureExtracted_def)
next
  case embedded: True
  let ?ev = "extraction_event env b p" and ?root = "RuntimeVersionDir p"
  let ?dirs = "[RuntimeVersionDir p, BinDir p, ListsDir p, below (UserDir p) ''lists'']"
  obtain ok1 h1 where d: "EnsureAll env ?dirs h = (ok1, h1)" by fastforce
  note d_ev = EnsureAll_events [OF d, of b p]
  obtain e2 h2 where u: "PrepareUserLists env p user_lists h1 = (e2, h2)" by fastforce
  note u_ev = extends_by_trans [OF d_ev PrepareUserLists_events [OF u order_refl, of b]]
  obtain ok3 res h3 where x: "ExtractResources env ?root (kEmbeddedResources b) fresh_result h2 = (ok3, res, h3)"
    by (cases "ExtractResources env ?root (kEmbeddedResources b) fresh_result h2")
  obtain evs3 where x_ev: "\<not> extraction_ok res" "h3 = h2 @ evs3" "list_all ?ev evs3"
    "if ok3 then list_all (installed_in env h2 evs3 ?root) (kEmbeddedResources b) else True"
    using ExtractResources_events [OF x order_refl refl] by auto
  obtain e4 h4 where c: "InstallCatalog env b p h3 = (e4, h4)" by fastforce
  note c_ev = InstallCatalog_events [OF c]
  have x3: "extends_by ?ev h h3" using u_ev x_ev(2,3) by (auto simp: extends_by_def)
  note def = EnsureExtracted_def embedded d u x c
  consider "\<not> ok1" | "ok1" "ValidateRuntimeInventory (tree_at env h1) ?root (EmbeddedInventory b) \<noteq> None"
    | "ok1" "ValidateRuntimeInventory (tree_at env h1) ?root (EmbeddedInventory b) = None" "e2 \<noteq> None"
    | "ok1" "ValidateRuntimeInventory (tree_at env h1) ?root (EmbeddedInventory b) = None" "e2 = None" "\<not> ok3"
    | "ok1" "ValidateRuntimeInventory (tree_at env h1) ?root (EmbeddedInventory b) = None" "e2 = None" "ok3" "e4 \<noteq> None"
    | "ok1" "ValidateRuntimeInventory (tree_at env h1) ?root (EmbeddedInventory b) = None" "e2 = None" "ok3" "e4 = None"
    by blast
  then show ?thesis
  proof cases
    case 6
    obtain evs2 where evs2: "h2 = h @ evs2" "list_all ?ev evs2" using u_ev by (auto simp: extends_by_def)
    obtain evs4 where evs4: "h4 = h3 @ evs4" "list_all ?ev evs4" using c_ev by (auto simp: extends_by_def)
    have "installed_in env h (evs2 @ evs3 @ evs4) ?root r" if "r \<in> set (kEmbeddedResources b)" for r
      using x_ev(4) 6(4) that evs2(1) installed_in_extend by (fastforce simp: list_all_iff)
    moreover have "EnsureExtracted env b p h = (res\<lparr>extraction_ok := True\<rparr>, h4)"
      using 6 by (simp add: def del: EnsureAll.simps)
    ultimately show ?thesis using evs2 evs4 x_ev(2,3)
      by (auto simp: list_all_iff intro!: exI [where x = "evs2 @ evs3 @ evs4"])
  qed (use d_ev u_ev x3 extends_by_trans [OF x3 c_ev] x_ev(1) in
      \<open>auto simp: def extends_by_def simp del: EnsureAll.simps\<close>)
qed


section \<open>What a cleanup removes\<close>

text \<open>The versions a cleanup must keep, for a loaded state.\<close>

definition kept_version ::
  "'z install_env_scheme \<Rightarrow> build \<Rightarrow> RuntimePaths \<Rightarrow> StoredRuntimeState \<Rightarrow> wstring \<Rightarrow> bool" where
  "kept_version env b p s name \<longleftrightarrow>
     IEqualsAsciiW name (RuntimeVersion p) \<or> IEqualsAsciiW name (kVersion b) \<or>
     IEqualsAsciiW name (ToUtf16 env (current s)) \<and> ToUtf16 env (current s) \<noteq> [] \<or>
     previousKnownGood s \<noteq> [] \<and> IEqualsAsciiW name (ToUtf16 env (previousKnownGood s)) \<or>
     pending s \<noteq> [] \<and> IEqualsAsciiW name (ToUtf16 env (pending s))"

text \<open>The image of the running engine lies below a directory.\<close>

definition runs_below :: "'z install_env_scheme \<Rightarrow> history \<Rightarrow> wstring \<Rightarrow> bool" where
  "runs_below env h dir \<longleftrightarrow>
     record_valid (launch_record env h) \<and> launch_matches env h (launch_record env h) \<and>
     starts_with (ToLowerAsciiW (beneath dir [])) (ToLowerAsciiW (imagePath (launch_record env h)))"

fun cleanup_event :: "'z install_env_scheme \<Rightarrow> build \<Rightarrow> RuntimePaths \<Rightarrow> history \<Rightarrow> fs_event \<Rightarrow> bool" where
  "cleanup_event env b p h (RemoveTree root target ok) =
     (case stored_state env h (ActiveRuntimePath p) of
        StateOk s \<Rightarrow>
          root = RuntimeRoot p \<and>
          (\<exists>name. target = beneath (RuntimeRoot p) name \<and> name \<noteq> W ''.'' \<and> name \<noteq> W ''..'' \<and>
             \<not> kept_version env b p s name \<and>
             (if name = [] \<or> WC CHR 0x5C \<in> set name then True else \<not> runs_below env h target))
      | _ \<Rightarrow> False)"
| "cleanup_event env b p h e = False"

lemma running_version_prefix:
  assumes img: "starts_with (ToLowerAsciiW (beneath (beneath root name) [])) (ToLowerAsciiW img)"
    and name: "WC CHR 0x5C \<notin> set name"
  shows "IEqualsAsciiW (takeWhile (\<lambda>c. c \<noteq> WC CHR 0x5C) (drop (length root + 1) img)) name"
proof -
  let ?low = "map lower_wchar"
  let ?b = "WC CHR 0x5C"
  have b: "lower_wchar ?b = ?b" by code_simp
  have low_b: "lower_wchar c = ?b \<longleftrightarrow> c = ?b" for c
  proof
    assume c: "lower_wchar c = ?b"
    show "c = ?b"
    proof (rule ccontr)
      assume "c \<noteq> ?b"
      then have up: "WC CHR ''A'' \<le> c \<and> c \<le> WC CHR ''Z''" using c by (auto simp: lower_wchar_def split: if_splits)
      then have "unat c \<le> 90" "65 \<le> unat c" by (simp_all add: word_le_nat_alt)
      moreover have "c + 32 = 92" using c up by (simp add: lower_wchar_def)
      then have "unat (c + 32) = 92" by simp
      moreover have "unat (c + 32) = unat c + 32" using \<open>unat c \<le> 90\<close> by (simp add: unat_word_ariths)
      ultimately have "unat c = 60" by simp
      then show False using \<open>65 \<le> unat c\<close> by simp
    qed
  qed (use b in simp)
  obtain r where r: "?low img = ?low (root @ [?b] @ name @ [?b]) @ r"
    using img by (auto simp: starts_with_iff ToLowerAsciiW_def beneath_def)
  let ?rel = "drop (length root + 1) img"
  have "?low ?rel = drop (length root + 1) (?low img)" by (simp add: drop_map)
  also have "\<dots> = ?low name @ [lower_wchar ?b] @ r" unfolding r by simp
  finally have rel: "?low ?rel = ?low name @ ?b # r" by (simp only: b append_Cons append_Nil)
  have "?low (takeWhile (\<lambda>c. c \<noteq> ?b) ?rel) = takeWhile (\<lambda>c. c \<noteq> ?b) (?low ?rel)"
    unfolding takeWhile_map comp_def by (simp only: low_b)
  also have "\<dots> = ?low name"
  proof -
    have "\<forall>x \<in> set (?low name). x \<noteq> ?b" using name unfolding set_map by (metis imageE low_b)
    then show ?thesis unfolding rel by (subst takeWhile_append2) auto
  qed
  finally show ?thesis by (simp add: wide_fold.ieq_map)
qed

lemma RemoveVersions_events:
  assumes "RemoveVersions env root keep es n h = (ok, n', h')"
    and "\<And>name b. \<not> (name = W ''.'' \<or> name = W ''..'') \<Longrightarrow> \<not> list_ex (IEqualsAsciiW name) keep \<Longrightarrow>
      P (RemoveTree root (beneath root name) b)"
  shows "extends_by P h h'"
  using assms
proof (induction es arbitrary: n h)
  case (Cons e es)
  show ?case
  proof (cases "\<not> entry_directory e \<or> dot_entry e \<or> list_ex (IEqualsAsciiW (entry_name e)) keep")
    case True
    then show ?thesis using Cons by auto
  next
    case False
    then have "P (RemoveTree root (beneath root (entry_name e)) b)" for b
      using Cons.prems(2) by (simp add: dot_entry_def)
    then show ?thesis
      using Cons False
      by (cases "remove_ok env h root (beneath root (entry_name e))")
        (auto simp: remove_tree_def Let_def intro: extends_by_step
          [where e = "RemoveTree root (beneath root (entry_name e)) True"])
  qed
qed simp

text \<open>
  C34. A cleanup removes nothing but version directories directly below the runtime root, and never one
  it must keep: the active and the embedded version, the current, previous known good and pending
  versions of the recorded state, compared up to letter case, or the directory from which the engine of
  the launch record runs. Without a trusted state it removes nothing at all.
\<close>

theorem CleanupOldVersions_keeps:
  "case CleanupOldVersions env b p h of (res, h') \<Rightarrow>
     \<exists>evs. h' = h @ evs \<and> list_all (cleanup_event env b p h) evs"
proof -
  have "extends_by (cleanup_event env b p h) h (snd (CleanupOldVersions env b p h))"
  proof (cases "snd (CleanupOldVersions env b p h) = h")
    case False
    then obtain running keep es complete where
      running: "RunningVersion env p h = Some running"
      and keep: "BuildRuntimeKeepSet (ToUtf16 env) (stored_state env h (ActiveRuntimePath p))
          (RuntimeVersion p) (kVersion b) running = Some keep"
      and list: "listing_of env h (RuntimeRoot p) = Listing es complete"
      and prot: "protected_dir_ok env h (RuntimeRoot p)"
      by (auto simp: CleanupOldVersions_def Let_def split: option.splits if_splits listing.splits)
    obtain s where s: "stored_state env h (ActiveRuntimePath p) = StateOk s"
      and kp: "keep = filter (\<lambda>v. v \<noteq> []) [RuntimeVersion p, kVersion b, running, ToUtf16 env (current s)] @
        map (ToUtf16 env) (filter (\<lambda>v. v \<noteq> []) [previousKnownGood s, pending s])"
      and ne: "RuntimeVersion p \<noteq> []" "kVersion b \<noteq> []"
      using keep by (auto simp: BuildRuntimeKeepSet_def simp del: filter.simps split: StateResult.splits if_splits)
    have keep_set: "set keep = {v \<in> {RuntimeVersion p, kVersion b, running, ToUtf16 env (current s)}. v \<noteq> []} \<union>
        ToUtf16 env ` {v \<in> {previousKnownGood s, pending s}. v \<noteq> []}"
      by (simp only: kp set_append set_map set_filter list.set)
    obtain ok n h' where rm: "RemoveVersions env (RuntimeRoot p) keep es 0 h = (ok, n, h')"
      by (cases "RemoveVersions env (RuntimeRoot p) keep es 0 h")
    have "extends_by (cleanup_event env b p h) h h'"
    proof (rule RemoveVersions_events [OF rm])
      fix name ok'
      assume dots: "\<not> (name = W ''.'' \<or> name = W ''..'')" and kept: "\<not> list_ex (IEqualsAsciiW name) keep"
      have "\<not> kept_version env b p s name"
        using kept ne unfolding list_ex_iff keep_set kept_version_def by auto
      moreover have "\<not> runs_below env h (beneath (RuntimeRoot p) name)" if "name \<noteq> []" "WC CHR 0x5C \<notin> set name"
      proof
        assume below: "runs_below env h (beneath (RuntimeRoot p) name)"
        then have "IEqualsAsciiW running name"
          using running running_version_prefix [OF _ that(2), of "RuntimeRoot p" "imagePath (launch_record env h)"]
          by (auto simp: runs_below_def RunningVersion_def Let_def split: if_splits)
        then have "IEqualsAsciiW name running" "running \<noteq> []"
          using that(1) wide_fold.ieq_sym wide_fold.ieq_length by fastforce+
        then show False using kept unfolding list_ex_iff keep_set by auto
      qed
      ultimately show "cleanup_event env b p h (RemoveTree (RuntimeRoot p) (beneath (RuntimeRoot p) name) ok')"
        using s dots by (auto intro: exI [where x = name])
    qed
    moreover have "snd (CleanupOldVersions env b p h) = h'"
      using running keep list prot rm by (simp add: CleanupOldVersions_def Let_def)
    ultimately show ?thesis by simp
  qed simp
  then show ?thesis by (auto simp: extends_by_def split: prod.split)
qed

end
