(* ===== verification/UiEvent.thy ===== *)
theory UiEvent
  imports Prelude
begin

text \<open>
  The events that work threads hand to the user interface, \<^verbatim>\<open>src/src/ui/UiEvent.h\<close>. The queue is a list that
  is appended under its mutex and emptied as a whole; labels and details are left out.
\<close>

datatype UiEventType =
    StageStarted | StageOk | StageFailed | ProcessStarted | ProcessStopped | WatchdogHeartbeat
  | StrategyChanged | InfoEvent

datatype Severity = SevInfo | SevOk | SevWarn | SevError

record UiEvent =
  event_type :: UiEventType
  checkpoint :: nat
  percent :: nat
  severity :: Severity

definition Push :: "UiEvent \<Rightarrow> UiEvent list \<Rightarrow> UiEvent list" where
  "Push e q = q @ [e]"

definition Drain :: "UiEvent list \<Rightarrow> UiEvent list \<times> UiEvent list" where
  "Drain q = (q, [])"

end
