(* ===== verification/Launcher.thy ===== *)
theory Launcher
  imports ResourceExtractor ProcessManager UiEvent
begin

text \<open>
  The connect pipeline, \<^verbatim>\<open>src/src/core/Launcher.cpp\<close>: twenty checkpoints from the checks of the system to
  the confirmed engine, each announced to the user interface. It composes the extraction and
  verification of the runtime with the process manager; its world is their two histories, the manager,
  and the events posted so far. Labels and messages are left out.
\<close>

section \<open>Checkpoints and events\<close>

text \<open>The table \<^verbatim>\<open>kCheckpoints\<close>: index, phase, percent.\<close>

definition kCheckpoints :: "(nat \<times> nat \<times> nat) list" where
  "kCheckpoints =
     [(1, 1, 5), (2, 1, 8), (3, 1, 12), (4, 1, 18), (5, 2, 24), (6, 2, 34), (7, 2, 44), (8, 2, 50),
      (9, 3, 55), (10, 3, 60), (11, 3, 64), (12, 3, 68), (13, 4, 72), (14, 4, 76), (15, 4, 82),
      (16, 4, 88), (17, 4, 92), (18, 5, 95), (19, 5, 98), (20, 5, 100)]"

definition checkpoint_percent :: "nat \<Rightarrow> nat" where
  "checkpoint_percent i = snd (snd (kCheckpoints ! (i - 1)))"

datatype ConnectKind = Connected | AlreadyRunningOurs | AlreadyRunningService | ForeignWinws | ConnectError

record ConnectResult =
  connect_kind :: ConnectKind
  failed_at :: nat   \<comment> \<open>the checkpoint of an error, else 0\<close>

definition success :: "ConnectResult \<Rightarrow> bool" where
  "success r \<longleftrightarrow> connect_kind r = Connected \<or> connect_kind r = AlreadyRunningOurs"

text \<open>The answers of the system that the pipeline itself asks for.\<close>

record system_env =
  IsWindows10OrGreater :: bool
  Is64BitWindows :: bool
  IsElevated :: bool
  zapret_active :: bool              \<comment> \<open>\<^verbatim>\<open>ServiceActive(L"zapret")\<close>\<close>
  winws_pids :: "nat list"           \<comment> \<open>\<^verbatim>\<open>FindProcesses(L"winws.exe")\<close>\<close>

record world =
  files :: history
  mgr :: manager
  procs :: proc_history
  posted :: "UiEvent list"
  floor_percent :: nat

definition post :: "UiEventType \<Rightarrow> nat \<Rightarrow> nat \<Rightarrow> Severity \<Rightarrow> world \<Rightarrow> world" where
  "post ty i n sev w =
     w\<lparr>posted := Push \<lparr>event_type = ty, checkpoint = i, percent = n, severity = sev\<rparr> (posted w)\<rparr>"

definition started :: "nat \<Rightarrow> world \<Rightarrow> world" where
  "started i w = post StageStarted i (floor_percent w) SevInfo w"

definition okcp :: "nat \<Rightarrow> Severity \<Rightarrow> world \<Rightarrow> world" where
  "okcp i sev w =
     post StageOk i (checkpoint_percent i) sev (w\<lparr>floor_percent := checkpoint_percent i\<rparr>)"

definition fail :: "nat \<Rightarrow> world \<Rightarrow> ConnectResult \<times> world" where
  "fail i w = (\<lparr>connect_kind = ConnectError, failed_at = i\<rparr>, post StageFailed i (floor_percent w) SevError w)"

definition declined :: "ConnectKind \<Rightarrow> world \<Rightarrow> ConnectResult \<times> world" where
  "declined k w = (\<lparr>connect_kind = k, failed_at = 0\<rparr>, post InfoEvent 0 (floor_percent w) SevWarn w)"

text \<open>A checkpoint: announce it, act, and go on or fail.\<close>

definition stage ::
  "nat \<Rightarrow> (world \<Rightarrow> bool \<times> world) \<Rightarrow> (world \<Rightarrow> ConnectResult \<times> world) \<Rightarrow> world \<Rightarrow> ConnectResult \<times> world" where
  "stage i act continue w =
     (case act (started i w) of
        (False, w1) \<Rightarrow> fail i w1
      | (True, w1) \<Rightarrow> continue (okcp i SevOk w1))"

definition check :: "bool \<Rightarrow> world \<Rightarrow> bool \<times> world" where
  "check c w = (c, w)"

section \<open>The pipeline\<close>

text \<open>The constants of one connection attempt.\<close>

record connection =
  install :: install_env
  machine :: proc_env
  system :: system_env
  package :: build
  paths :: RuntimePaths
  strategy :: RuntimeStrategy
  gameFilter :: GameFilterMode

definition PrepareDirectories :: "connection \<Rightarrow> world \<Rightarrow> bool \<times> world" where
  "PrepareDirectories c w =
     (let p = paths c in
      case EnsureAll (install c) [RuntimeVersionDir p, BinDir p, ListsDir p] (files w) of
        (False, h) \<Rightarrow> (False, w\<lparr>files := h\<rparr>)
      | (True, h) \<Rightarrow> (VerifyRuntimeDirs (install c) p h, w\<lparr>files := h\<rparr>))"

definition ConflictChecks ::
  "connection \<Rightarrow> (world \<Rightarrow> ConnectResult \<times> world) \<Rightarrow> world \<Rightarrow> ConnectResult \<times> world" where
  "ConflictChecks c continue w =
     (if IsConnectedByUs (machine c) (procs w) (mgr w) then
        (if \<not> extraction_ok (fst (VerifyRuntime (install c) (package c) (paths c) (files w))) then
           (case Stop (machine c) (mgr w) (procs w) of
              (stopped, m, g) \<Rightarrow> fail 4 (w\<lparr>mgr := m, procs := g\<rparr>))
         else declined AlreadyRunningOurs w)
      else if zapret_active (system c) then declined AlreadyRunningService w
      else
        let ourPid = TrustedPidForExclusion (machine c) (procs w) (manager.current (mgr w)) (RuntimeRoot (paths c)) in
        if list_ex (\<lambda>q. q \<noteq> ourPid) (winws_pids (system c)) then declined ForeignWinws w
        else continue w)"

definition Extract :: "connection \<Rightarrow> world \<Rightarrow> bool \<times> world" where
  "Extract c w =
     (case EnsureExtracted (install c) (package c) (paths c) (files w) of
        (r, h) \<Rightarrow> (extraction_ok r, w\<lparr>files := h\<rparr>))"

definition address_lists :: "string list" where
  "address_lists = [''list-general.txt'', ''list-exclude.txt'', ''list-google.txt'', ''ipset-all.txt'',
     ''ipset-exclude.txt'']"

definition CheckLists :: "connection \<Rightarrow> world \<Rightarrow> world" where
  "CheckLists c w =
     (let w1 = started 11 w;
          listsOk = list_all (\<lambda>l. file_size (install c) (files w1) (below (ListsDir (paths c)) l) \<noteq> None)
                      address_lists in
      okcp 11 (if listsOk then SevOk else SevWarn) w1)"

definition StdoutLogPath :: "RuntimePaths \<Rightarrow> wstring" where
  "StdoutLogPath p = below (LogsDir p) ''winws-stdout.log''"

definition StderrLogPath :: "RuntimePaths \<Rightarrow> wstring" where
  "StderrLogPath p = below (LogsDir p) ''winws-stderr.log''"

definition engine_arguments :: "connection \<Rightarrow> wstring list" where
  "engine_arguments c =
     BuildArguments (strategy c) (BinDir (paths c)) (ListsDir (paths c)) (gameFilter c)
       (below (UserDir (paths c)) ''lists'')"

text \<open>The last phase: registration, watchdog, 100 percent and the start event.\<close>

definition LinkPhase :: "world \<Rightarrow> ConnectResult \<times> world" where
  "LinkPhase w =
     (let w1 = okcp 20 SevOk (started 20 (okcp 19 SevOk (started 19 (okcp 18 SevOk (started 18 w))))) in
      (\<lparr>connect_kind = Connected, failed_at = 0\<rparr>, post ProcessStarted 0 100 SevOk w1))"

text \<open>Checkpoints 15 to 17 around the start of the engine.\<close>

definition StartPhase :: "connection \<Rightarrow> world \<Rightarrow> ConnectResult \<times> world" where
  "StartPhase c w =
     (let w1 = started 15 w; p = paths c in
      case Start (machine c) (WinwsExePath p) (engine_arguments c) (BinDir p) (StdoutLogPath p)
             (StderrLogPath p) 2500 (mgr w1) (procs w1) of
        (sr, m, g) \<Rightarrow>
          let w2 = w1\<lparr>mgr := m, procs := g\<rparr> in
          if start_status sr \<noteq> StartOk \<and> start_status sr \<noteq> ExitedEarly then fail 15 w2
          else stage 16 (check (record_valid (start_record sr)))
                 (stage 17 (check (start_status sr \<noteq> ExitedEarly)) LinkPhase)
                 (okcp 15 SevOk w2))"

definition PayloadPhase :: "connection \<Rightarrow> world \<Rightarrow> ConnectResult \<times> world" where
  "PayloadPhase c =
     stage 5 (check True) (stage 6 (Extract c) (stage 7 (check True) (stage 8 (check True)
       (stage 9 (check True) (stage 10 (check True) (\<lambda>w.
          stage 12 (check True)
            (stage 13 (\<lambda>w. (fst (VerifyBinaries (install c) (package c) (paths c) (files w)), w))
              (stage 14 (check True) (StartPhase c)))
            (CheckLists c w)))))))"

definition Connect ::
  "connection \<Rightarrow> history \<Rightarrow> manager \<Rightarrow> proc_history \<Rightarrow> ConnectResult \<times> world" where
  "Connect c h m g =
     stage 1 (check (IsWindows10OrGreater (system c)))
       (stage 2 (check (Is64BitWindows (system c)))
         (stage 3 (check (IsElevated (system c)))
           (stage 4 (PrepareDirectories c)
             (ConflictChecks c (PayloadPhase c)))))
       \<lparr>files = h, mgr = m, procs = g, posted = [], floor_percent = 0\<rparr>"

section \<open>The tail of a log\<close>

text \<open>The non-empty trimmed lines of a text.\<close>

function log_lines :: "string \<Rightarrow> string list" where
  "log_lines content =
     (if content = [] then []
      else (case split_at (CHR 0x0A) content of
              (line, next) \<Rightarrow>
                (if Trim line \<noteq> [] then [Trim line] else []) @
                log_lines (case next of None \<Rightarrow> [] | Some r \<Rightarrow> r)))"
  by pat_completeness auto
termination
  by (relation "measure length") (auto split: option.split dest: split_at_shorter [OF sym])

declare log_lines.simps [simp del]

definition TailOf :: "(string \<Rightarrow> wstring) \<Rightarrow> nat \<Rightarrow> string \<Rightarrow> wstring" where
  "TailOf U maxLines content =
     (let lines = log_lines content in
      foldl (\<lambda>out l. (if out \<noteq> [] then out @ W [CHR 0x0A] else out) @ U l) []
        (drop (length lines - maxLines) lines))"

text \<open>
  \<open>opened\<close> is the answer of opening the log as a plain file with one link: its size, and what one
  read of the given number of bytes from the given offset returns.
\<close>

definition ReadTail ::
  "(string \<Rightarrow> wstring) \<Rightarrow> (int option \<times> (nat \<Rightarrow> nat \<Rightarrow> string option)) option \<Rightarrow> nat \<Rightarrow> wstring" where
  "ReadTail U opened maxLines =
     (case opened of
        Some (Some n, read) \<Rightarrow>
          if n < 0 then []
          else
            let toRead = min (nat n) (64 * 1024) in
            if toRead = 0 then TailOf U maxLines []
            else (case read (nat n - toRead) toRead of
                    None \<Rightarrow> []
                  | Some content \<Rightarrow> if length content \<noteq> toRead then [] else TailOf U maxLines content)
      | _ \<Rightarrow> [])"

section \<open>Progress\<close>

definition at_floor :: "nat \<Rightarrow> world \<Rightarrow> bool" where
  "at_floor n w \<longleftrightarrow> floor_percent w = n \<and> sorted (map percent (posted w)) \<and>
     list_all (\<lambda>e. percent e \<le> n) (posted w)"

definition progress_ok :: "ConnectResult \<times> world \<Rightarrow> bool" where
  "progress_ok out \<longleftrightarrow>
     (case out of (r, w) \<Rightarrow>
        sorted (map percent (posted w)) \<and> list_all (\<lambda>e. percent e \<le> 100) (posted w) \<and>
        (list_ex (\<lambda>e. percent e = 100) (posted w) \<longleftrightarrow> connect_kind r = Connected))"

lemma at_floor_started: "at_floor n w \<Longrightarrow> at_floor n (started i w)"
  by (auto simp: at_floor_def started_def post_def Push_def sorted_append list_all_iff)

lemma at_floor_okcp: "at_floor n w \<Longrightarrow> n \<le> checkpoint_percent i \<Longrightarrow> at_floor (checkpoint_percent i) (okcp i sev w)"
  by (auto simp: at_floor_def okcp_def post_def Push_def sorted_append list_all_iff intro: order_trans)

lemma at_floor_update [simp]:
  "at_floor n (w\<lparr>files := h\<rparr>) = at_floor n w" "at_floor n (w\<lparr>mgr := m, procs := g\<rparr>) = at_floor n w"
  by (simp_all add: at_floor_def)

lemma progress_fail: "at_floor n w \<Longrightarrow> n < 100 \<Longrightarrow> progress_ok (fail i w)"
  by (force simp: progress_ok_def fail_def post_def Push_def at_floor_def sorted_append list_all_iff list_ex_iff)

lemma progress_declined: "at_floor n w \<Longrightarrow> n < 100 \<Longrightarrow> k \<noteq> Connected \<Longrightarrow> progress_ok (declined k w)"
  by (force simp: progress_ok_def declined_def post_def Push_def at_floor_def sorted_append list_all_iff list_ex_iff)

lemma stage_cases:
  assumes "\<And>w1. act (started i w) = (False, w1) \<Longrightarrow> Q (fail i w1)"
    and "\<And>w1. act (started i w) = (True, w1) \<Longrightarrow> Q (continue (okcp i SevOk w1))"
  shows "Q (stage i act continue w)"
  using assms by (cases "act (started i w)"; cases "fst (act (started i w))") (auto simp: stage_def)

lemma progress_stage:
  assumes w: "at_floor n w" "n < 100" "n \<le> checkpoint_percent i"
    and act: "\<And>v b v'. act v = (b, v') \<Longrightarrow> at_floor n v \<Longrightarrow> at_floor n v'"
    and continue: "\<And>v. at_floor (checkpoint_percent i) v \<Longrightarrow> progress_ok (continue v)"
  shows "progress_ok (stage i act continue w)"
proof (rule stage_cases)
  fix w1
  show "progress_ok (fail i w1)" if "act (started i w) = (False, w1)"
    by (rule progress_fail [OF _ w(2)]) (rule act [OF that at_floor_started [OF w(1)]])
  show "progress_ok (continue (okcp i SevOk w1))" if "act (started i w) = (True, w1)"
    by (rule continue, rule at_floor_okcp [OF _ w(3)]) (rule act [OF that at_floor_started [OF w(1)]])
qed

lemma check_keeps: "check c v = (b, v') \<Longrightarrow> P v \<Longrightarrow> P v'"
  by (simp add: check_def)

lemma percents [simp]:
  "checkpoint_percent 1 = 5" "checkpoint_percent 2 = 8" "checkpoint_percent 3 = 12" "checkpoint_percent 4 = 18"
  "checkpoint_percent 5 = 24" "checkpoint_percent 6 = 34" "checkpoint_percent 7 = 44" "checkpoint_percent 8 = 50"
  "checkpoint_percent 9 = 55" "checkpoint_percent 10 = 60" "checkpoint_percent 11 = 64" "checkpoint_percent 12 = 68"
  "checkpoint_percent 13 = 72" "checkpoint_percent 14 = 76" "checkpoint_percent 15 = 82" "checkpoint_percent 16 = 88"
  "checkpoint_percent 17 = 92" "checkpoint_percent 18 = 95" "checkpoint_percent 19 = 98" "checkpoint_percent 20 = 100"
  by (simp_all add: checkpoint_percent_def kCheckpoints_def)

lemma percents_Suc [simp]: "checkpoint_percent (Suc 0) = 5"
  using percents(1) by simp

lemma progress_link: "at_floor 92 w \<Longrightarrow> progress_ok (LinkPhase w)"
  by (auto simp: LinkPhase_def progress_ok_def started_def okcp_def post_def Push_def at_floor_def sorted_append
      list_all_iff Let_def)

lemma progress_start: "at_floor 76 w \<Longrightarrow> progress_ok (StartPhase c w)"
proof -
  assume w: "at_floor 76 w"
  let ?p = "paths c"
  obtain sr m g where s: "Start (machine c) (WinwsExePath ?p) (engine_arguments c) (BinDir ?p) (StdoutLogPath ?p)
      (StderrLogPath ?p) 2500 (mgr (started 15 w)) (procs (started 15 w)) = (sr, m, g)"
    by (cases "Start (machine c) (WinwsExePath ?p) (engine_arguments c) (BinDir ?p) (StdoutLogPath ?p)
      (StderrLogPath ?p) 2500 (mgr (started 15 w)) (procs (started 15 w))")
  let ?w = "started 15 w\<lparr>mgr := m, procs := g\<rparr>"
  have w2: "at_floor 76 ?w" using at_floor_started [OF w] by simp
  have "progress_ok (stage 16 (check b) (stage 17 (check b') LinkPhase) (okcp 15 SevOk ?w))" for b b'
  proof (rule progress_stage [where n = 82])
    show "at_floor 82 (okcp 15 SevOk ?w)" using at_floor_okcp [OF w2, of 15] by simp
    fix v assume "at_floor (checkpoint_percent 16) v"
    then have "at_floor 88 v" by simp
    then show "progress_ok (stage 17 (check b') LinkPhase v)"
      by (rule progress_stage) (auto intro: check_keeps progress_link)
  qed (auto intro: check_keeps)
  then show ?thesis
    using progress_fail [OF w2] by (simp add: StartPhase_def Let_def s)
qed

lemma progress_payload: "at_floor 18 w \<Longrightarrow> progress_ok (PayloadPhase c w)"
proof -
  have lists: "at_floor 60 v \<Longrightarrow> at_floor 64 (CheckLists c v)" for v
    using at_floor_okcp [OF at_floor_started, of 60 v 11] by (simp add: CheckLists_def Let_def)
  have extr: "Extract c v = (b, v') \<Longrightarrow> at_floor n v \<Longrightarrow> at_floor n v'" for v b v' n
    by (auto simp: Extract_def split: prod.splits)
  show "at_floor 18 w \<Longrightarrow> progress_ok (PayloadPhase c w)"
    unfolding PayloadPhase_def
    by (rule progress_stage [where n = 18], assumption, simp, simp, erule (1) check_keeps,
        rule progress_stage [where n = 24], simp, simp, simp, erule (1) extr,
        rule progress_stage [where n = 34], simp, simp, simp, erule (1) check_keeps,
        rule progress_stage [where n = 44], simp, simp, simp, erule (1) check_keeps,
        rule progress_stage [where n = 50], simp, simp, simp, erule (1) check_keeps,
        rule progress_stage [where n = 55], simp, simp, simp, erule (1) check_keeps,
        rule progress_stage [where n = 64], rule lists, simp, simp, simp, erule (1) check_keeps,
        rule progress_stage [where n = 68], simp, simp, simp, simp,
        rule progress_stage [where n = 72], simp, simp, simp, erule (1) check_keeps,
        rule progress_start, simp)
qed

lemma progress_conflict: "at_floor 18 w \<Longrightarrow> progress_ok (ConflictChecks c (PayloadPhase c) w)"
  by (auto simp: ConflictChecks_def Let_def progress_payload
      intro: progress_fail progress_declined split: prod.split)

lemma Connect_progress_ok: "progress_ok (Connect c h m g)"
proof -
  have prepare: "PrepareDirectories c v = (b, v') \<Longrightarrow> at_floor n v \<Longrightarrow> at_floor n v'" for v b v' n
    by (auto simp: PrepareDirectories_def Let_def simp del: EnsureAll.simps split: prod.splits bool.splits)
  show ?thesis
    unfolding Connect_def
    by (rule progress_stage [where n = 0], simp add: at_floor_def, simp, simp, erule (1) check_keeps,
        rule progress_stage [where n = 5], simp, simp, simp, erule (1) check_keeps,
        rule progress_stage [where n = 8], simp, simp, simp, erule (1) check_keeps,
        rule progress_stage [where n = 12], simp, simp, simp, erule (1) prepare,
        rule progress_conflict, simp)
qed

text \<open>
  The progress of a connection never runs backwards and never lies: the percentages posted are
  sorted and at most 100, and an event with 100 percent is posted exactly when the result is
  \<^verbatim>\<open>Connected\<close>.
\<close>

lemma Connect_progress:
  "case Connect c h m g of (r, w) \<Rightarrow>
     sorted (map percent (posted w)) \<and> list_all (\<lambda>e. percent e \<le> 100) (posted w) \<and>
     (list_ex (\<lambda>e. percent e = 100) (posted w) \<longleftrightarrow> connect_kind r = Connected)"
  using Connect_progress_ok [of c h m g] by (simp add: progress_ok_def)

section \<open>When the engine is launched\<close>

text \<open>The conditions a launch must meet, over the state before it.\<close>

definition may_launch :: "connection \<Rightarrow> history \<Rightarrow> manager \<Rightarrow> proc_history \<Rightarrow> bool" where
  "may_launch c h m g \<longleftrightarrow>
     IsWindows10OrGreater (system c) \<and> Is64BitWindows (system c) \<and> IsElevated (system c) \<and>
     \<not> IsConnectedByUs (machine c) g m \<and> \<not> zapret_active (system c) \<and>
     list_all (\<lambda>q. q = TrustedPidForExclusion (machine c) g (manager.current m) (RuntimeRoot (paths c)))
       (winws_pids (system c)) \<and>
     fst (VerifyBinaries (install c) (package c) (paths c) h)"

text \<open>
  Either no process is created and the result is not \<^verbatim>\<open>Connected\<close>, or the conditions hold for the
  runtime as it is on disk when the engine starts, and the one start decides the result.
\<close>

definition connect_contract ::
  "connection \<Rightarrow> manager \<Rightarrow> proc_history \<Rightarrow> ConnectResult \<times> world \<Rightarrow> bool" where
  "connect_contract c m g out \<longleftrightarrow>
     (case out of (r, w) \<Rightarrow>
        (connect_kind r \<noteq> Connected \<and> (\<exists>evs. procs w = g @ evs \<and> list_all (\<lambda>e. \<not> creates e) evs)) \<or>
        (may_launch c (files w) m g \<and>
         (\<exists>sr evs. procs w = g @ evs \<and>
            start_transaction (machine c) (WinwsExePath (paths c)) (engine_arguments c) (BinDir (paths c))
              m g evs sr (mgr w) \<and>
            (connect_kind r = Connected \<longleftrightarrow> start_status sr = StartOk))))"

definition untouched :: "manager \<Rightarrow> proc_history \<Rightarrow> world \<Rightarrow> bool" where
  "untouched m g w \<longleftrightarrow> mgr w = m \<and> procs w = g"

lemma untouched_post [simp]:
  "untouched m g (started i w) = untouched m g w" "untouched m g (okcp i sev w) = untouched m g w"
  "untouched m g (w\<lparr>files := h\<rparr>) = untouched m g w" "untouched m g (CheckLists c w) = untouched m g w"
  by (simp_all add: untouched_def started_def okcp_def post_def Push_def CheckLists_def Let_def)

lemma files_post [simp]:
  "files (started i w) = files w" "files (okcp i sev w) = files w" "files (post ty i n sev w) = files w"
  "procs (started i w) = procs w" "procs (okcp i sev w) = procs w" "procs (post ty i n sev w) = procs w"
  "mgr (started i w) = mgr w" "mgr (okcp i sev w) = mgr w" "mgr (post ty i n sev w) = mgr w"
  by (simp_all add: started_def okcp_def post_def Push_def)

lemma contract_fail: "untouched m g w \<Longrightarrow> connect_contract c m g (fail i w)"
  by (simp add: connect_contract_def fail_def untouched_def)

lemma contract_declined: "untouched m g w \<Longrightarrow> k \<noteq> Connected \<Longrightarrow> connect_contract c m g (declined k w)"
  by (simp add: connect_contract_def declined_def untouched_def)

lemma contract_stage:
  assumes "untouched m g w" "\<And>v b v'. act v = (b, v') \<Longrightarrow> untouched m g v \<Longrightarrow> untouched m g v'"
    and "\<And>v w1. act v = (True, w1) \<Longrightarrow> untouched m g w1 \<Longrightarrow> connect_contract c m g (continue (okcp i SevOk w1))"
  shows "connect_contract c m g (stage i act continue w)"
proof (rule stage_cases)
  have w: "untouched m g (started i w)" using assms(1) by simp
  show "connect_contract c m g (fail i w1)" if "act (started i w) = (False, w1)" for w1
    using assms(2) [OF that w] by (rule contract_fail)
  show "connect_contract c m g (continue (okcp i SevOk w1))" if "act (started i w) = (True, w1)" for w1
    using assms(2) [OF that w] assms(3) [OF that] by simp
qed

lemma contract_check:
  assumes "untouched m g w" "\<And>v. b \<Longrightarrow> untouched m g v \<Longrightarrow> files v = files w \<Longrightarrow> connect_contract c m g (continue v)"
  shows "connect_contract c m g (stage i (check b) continue w)"
  by (rule stage_cases) (use assms in \<open>auto simp: check_def intro: contract_fail\<close>)

lemma Stop_creates_nothing:
  "Stop env m h = (res, m', h') \<Longrightarrow> \<exists>evs. h' = h @ evs \<and> list_all (\<lambda>e. \<not> creates e) evs"
  by (auto simp: Stop_def StopOpened_def CloseHandles_def DeleteRecord_def proc_calls Let_def
      split: if_splits option.splits bool.splits)

lemma start_outcome_valid:
  "start_outcome env e j ch k evs res m' \<Longrightarrow> start_status res = StartOk \<Longrightarrow> record_valid (start_record res)"
  by (auto simp: start_outcome_def Let_def)

lemma transaction_valid:
  "start_transaction env e args wd m h evs res m' \<Longrightarrow> start_status res = StartOk \<Longrightarrow> record_valid (start_record res)"
  by (auto simp: start_transaction_def dest: start_outcome_valid)

lemma link_result: "LinkPhase w = (r, w') \<Longrightarrow> connect_kind r = Connected \<and> files w' = files w \<and> procs w' = procs w \<and> mgr w' = mgr w"
  by (auto simp: LinkPhase_def Let_def)

lemma contract_start:
  assumes w: "untouched m g w" and ok: "may_launch c (files w) m g"
  shows "connect_contract c m g (StartPhase c w)"
proof -
  let ?p = "paths c"
  obtain sr m' g' where s: "Start (machine c) (WinwsExePath ?p) (engine_arguments c) (BinDir ?p) (StdoutLogPath ?p)
      (StderrLogPath ?p) 2500 m g = (sr, m', g')"
    by (cases "Start (machine c) (WinwsExePath ?p) (engine_arguments c) (BinDir ?p) (StdoutLogPath ?p)
      (StderrLogPath ?p) 2500 m g")
  obtain evs where evs: "g' = g @ evs"
    "start_transaction (machine c) (WinwsExePath ?p) (engine_arguments c) (BinDir ?p) m g evs sr m'"
    using Start_run [where env = "machine c" and exePath = "WinwsExePath ?p" and args = "engine_arguments c" and
        workingDir = "BinDir ?p" and stdoutLog = "StdoutLogPath ?p" and stderrLog = "StderrLogPath ?p" and
        stabilizeMs = 2500 and m = m and h = g] unfolding s by auto
  define v where "v = started 15 w\<lparr>mgr := m', procs := g'\<rparr>"
  have v: "files v = files w" "procs v = g @ evs" "mgr v = m'" by (simp_all add: v_def evs(1))
  have contract: "connect_contract c m g (r, v')"
    if "files v' = files w" "procs v' = g @ evs" "mgr v' = m'" "connect_kind r = Connected \<longleftrightarrow> start_status sr = StartOk"
    for r v'
    using that ok evs(2) by (auto simp: connect_contract_def)
  have out: "StartPhase c w =
      (if start_status sr \<noteq> StartOk \<and> start_status sr \<noteq> ExitedEarly then fail 15 v
       else stage 16 (check (record_valid (start_record sr)))
              (stage 17 (check (start_status sr \<noteq> ExitedEarly)) LinkPhase) (okcp 15 SevOk v))"
    using w s by (simp add: StartPhase_def untouched_def Let_def v_def)
  have valid: "start_status sr = StartOk \<Longrightarrow> record_valid (start_record sr)" by (rule transaction_valid [OF evs(2)])
  show ?thesis
    unfolding out stage_def check_def fail_def
    using v valid by (auto intro!: contract simp: LinkPhase_def Let_def split: bool.split)
qed

lemma contract_payload:
  assumes w: "untouched m g w"
    and ok: "\<And>h. fst (VerifyBinaries (install c) (package c) (paths c) h) \<Longrightarrow> may_launch c h m g"
  shows "connect_contract c m g (PayloadPhase c w)"
proof -
  have extr: "Extract c v = (b, v') \<Longrightarrow> untouched m g v \<Longrightarrow> untouched m g v'" for v b v'
    by (auto simp: Extract_def split: prod.splits)
  have verified: "connect_contract c m g (stage 13
      (\<lambda>w. (fst (VerifyBinaries (install c) (package c) (paths c) (files w)), w))
      (stage 14 (check True) (StartPhase c)) v)" if "untouched m g v" for v
    by (rule stage_cases) (use that ok in \<open>auto intro!: contract_fail contract_check contract_start\<close>)
  show ?thesis
    unfolding PayloadPhase_def
    by (intro contract_check contract_stage w verified)
      (auto dest: extr intro!: contract_check verified)
qed


end
