(* ===== verification/Startup.thy ===== *)
theory Startup
  imports Launcher OperationState
begin

text \<open>
  The start of the application: the recovery decisions of \<^verbatim>\<open>src/src/app/RuntimeRecovery.cpp\<close> and the
  constructor \<^verbatim>\<open>App::App\<close> of \<^verbatim>\<open>src/src/app/App.cpp\<close> that carries them out, with the operations of the
  controller that do not draw: \<^verbatim>\<open>CurrentStrategy\<close>, \<^verbatim>\<open>VerifyInstallation\<close>,
  \<^verbatim>\<open>StopManagedConnection\<close>, \<^verbatim>\<open>HandleExit\<close>. A thrown \<^verbatim>\<open>std::runtime_error\<close> is a \<open>startup_error\<close>.
\<close>

section \<open>Recovery decisions\<close>

datatype PendingAction =
  NoPending | StopPendingRuntimeThenClear | ClearPendingOnly | RefuseUnknownRuntime

definition DecidePendingRecovery :: "bool \<Rightarrow> bool \<Rightarrow> wstring \<Rightarrow> wstring \<Rightarrow> wstring \<Rightarrow> PendingAction" where
  "DecidePendingRecovery hasPending processValid runningImagePath pendingWinwsPath currentWinwsPath =
     (if \<not> hasPending then NoPending
      else if \<not> processValid then ClearPendingOnly
      else if IEqualsAsciiW runningImagePath pendingWinwsPath then StopPendingRuntimeThenClear
      else if IEqualsAsciiW runningImagePath currentWinwsPath then ClearPendingOnly
      else RefuseUnknownRuntime)"

datatype IntegrityAction = UseEmbedded | UseInstalled | RollbackToPrevious | RefuseStart

definition DecideIntegrityRecovery :: "bool \<Rightarrow> bool \<Rightarrow> bool \<Rightarrow> bool \<Rightarrow> IntegrityAction" where
  "DecideIntegrityRecovery runtimeIsEmbeddedVersion activeVerified haveTrustedState havePreviousKnownGood =
     (if runtimeIsEmbeddedVersion then UseEmbedded
      else if activeVerified then UseInstalled
      else if \<not> haveTrustedState \<or> \<not> havePreviousKnownGood then RefuseStart
      else RollbackToPrevious)"

text \<open>An empty \<^verbatim>\<open>std::function\<close> is \<open>None\<close>.\<close>

definition CommitIntegrityRecovery ::
  "bool \<Rightarrow> wstring \<Rightarrow> wstring \<Rightarrow> wstring \<Rightarrow> ('w \<Rightarrow> bool \<times> 'w) option \<Rightarrow> ('w \<Rightarrow> bool \<times> 'w) option \<Rightarrow> 'w \<Rightarrow>
     bool \<times> 'w" where
  "CommitIntegrityRecovery processValid runningImage failedImage fallbackImage stop commit w =
     (let run_commit = (\<lambda>w. case commit of None \<Rightarrow> (False, w) | Some f \<Rightarrow> f w) in
      if processValid \<and> \<not> IEqualsAsciiW runningImage fallbackImage then
        (if \<not> IEqualsAsciiW runningImage failedImage then (False, w)
         else (case stop of
                 None \<Rightarrow> (False, w)
               | Some f \<Rightarrow> (case f w of (False, w1) \<Rightarrow> (False, w1) | (True, w1) \<Rightarrow> run_commit w1)))
      else run_commit w)"

section \<open>The constructor\<close>

record startup_env =
  install :: install_env
  machine :: proc_env
  package :: build
  program_data :: wstring              \<comment> \<open>\<^verbatim>\<open>SHGetKnownFolderPath\<close>\<close>
  version_text :: string
  generated :: "GeneratedStrategy list"
  general_text :: wstring
  upstream_text :: wstring
  config_ok :: "history \<Rightarrow> wstring \<Rightarrow> bool"
  config_file :: "history \<Rightarrow> wstring \<Rightarrow> opened_file option"
  config_attributes :: "history \<Rightarrow> wstring \<Rightarrow> attributes"

datatype startup_error =
    NoProgramData | InvalidState | UnknownRuntime | PendingNotStopped | PendingNotCleared | NoFallback
  | FallbackRejected | ProcessStateMismatch | DefaultNotSaved | RunningVersionMismatch

text \<open>What the constructor acts on: the files and the processes.\<close>

record boot =
  boot_files :: history
  boot_procs :: proc_history

record app =
  app_paths :: RuntimePaths
  app_config :: Config
  app_catalog :: "RuntimeStrategy list"
  app_manager :: manager
  app_gate :: AppOperationState

definition paths_for :: "startup_env \<Rightarrow> history \<Rightarrow> wstring \<Rightarrow> RuntimePaths" where
  "paths_for e h version =
     MakeRuntimePaths (program_data e) (stored_state (install e) h) (ToUtf16 (install e))
       (kVersion (package e)) version"

definition embedded_catalog :: "startup_env \<Rightarrow> RuntimeStrategy list" where
  "embedded_catalog e = BuildRegistry (general_text e) (upstream_text e) (generated e)"

definition new_manager :: "startup_env \<Rightarrow> RuntimePaths \<Rightarrow> boot \<Rightarrow> manager \<times> boot" where
  "new_manager e p w =
     (case NewProcessManager (machine e) (ProgramDataRoot p) (RuntimeRoot p) (LogsDir p) (boot_procs w) of
        (m, g) \<Rightarrow> (m, w\<lparr>boot_procs := g\<rparr>))"

text \<open>The two lambdas: stop the recovered process, save a runtime state.\<close>

definition stop_recovered :: "startup_env \<Rightarrow> manager \<Rightarrow> boot \<Rightarrow> bool \<times> boot" where
  "stop_recovered e m w =
     (case Stop (machine e) m (boot_procs w) of
        (r, m', g) \<Rightarrow> (stop_status r = Stopped \<or> stop_status r = NotRunning, w\<lparr>boot_procs := g\<rparr>))"

definition save_state_file :: "startup_env \<Rightarrow> RuntimePaths \<Rightarrow> StoredRuntimeState \<Rightarrow> boot \<Rightarrow> bool \<times> boot" where
  "save_state_file e p s w =
     (case SaveRuntimeState
         (\<lambda>path data h. case write_file (install e) path data h of (ok, h') \<Rightarrow> (if ok then None else Some [], h'))
         (ActiveRuntimePath p) s (boot_files w) of
        (r, h) \<Rightarrow> (r = None, w\<lparr>boot_files := h\<rparr>))"

definition recovered_state :: "StoredRuntimeState \<Rightarrow> StoredRuntimeState" where
  "recovered_state s = s\<lparr>pending := [], lastResult := ''interrupted-pending-rolled-back''\<rparr>"

definition rolledBack_state :: "StoredRuntimeState \<Rightarrow> StoredRuntimeState" where
  "rolledBack_state s =
     s\<lparr>StoredRuntimeState.current := previousKnownGood s, previousKnownGood := [], pending := [],
       lastResult := ''startup-integrity-rollback''\<rparr>"

text \<open>The block for a state with a pending version.\<close>

definition RecoverPending ::
  "startup_env \<Rightarrow> RuntimePaths \<Rightarrow> StoredRuntimeState \<Rightarrow> boot \<Rightarrow> startup_error option \<times> boot" where
  "RecoverPending e p s w =
     (if pending s = [] then (None, w)
      else
        let pendingPaths = paths_for e (boot_files w) (ToUtf16 (install e) (pending s));
            currentPaths = paths_for e (boot_files w) (ToUtf16 (install e) (StoredRuntimeState.current s));
            (recovery, w1) = new_manager e p w;
            active = manager.current recovery;
            action = DecidePendingRecovery True (record_valid active) (imagePath active)
              (WinwsExePath pendingPaths) (WinwsExePath currentPaths);
            clear = (\<lambda>v. case save_state_file e p (recovered_state s) v of
                       (False, v1) \<Rightarrow> (Some PendingNotCleared, v1) | (True, v1) \<Rightarrow> (None, v1)) in
        if action = RefuseUnknownRuntime then (Some UnknownRuntime, w1)
        else if action = StopPendingRuntimeThenClear then
          (case stop_recovered e recovery w1 of
             (False, w2) \<Rightarrow> (Some PendingNotStopped, w2)
           | (True, w2) \<Rightarrow> clear w2)
        else clear w1)"

text \<open>The fallback of a failed installed runtime: whether it is verified, and its catalog.\<close>

definition VerifyFallback ::
  "startup_env \<Rightarrow> RuntimePaths \<Rightarrow> boot \<Rightarrow> (bool \<times> RuntimeStrategy list) \<times> boot" where
  "VerifyFallback e fallback w =
     (if RuntimeVersion fallback = kVersion (package e) then
        (case EnsureExtracted (install e) (package e) fallback (boot_files w) of
           (r, h) \<Rightarrow> ((extraction_ok r, []), w\<lparr>boot_files := h\<rparr>))
      else
        (case VerifyInstalledRuntime (install e) (package e) fallback (boot_files w) of
           (r, catalog, listed) \<Rightarrow> ((extraction_ok r, catalog), w)))"

definition RecoverIntegrity ::
  "startup_env \<Rightarrow> RuntimePaths \<Rightarrow> StateResult \<Rightarrow> boot \<Rightarrow>
     (startup_error + RuntimePaths \<times> RuntimeStrategy list) \<times> boot" where
  "RecoverIntegrity e p state w =
     (if RuntimeVersion p = kVersion (package e) then (Inr (p, embedded_catalog e), w)
      else
        let (verified, catalog, listed) = VerifyInstalledRuntime (install e) (package e) p (boot_files w);
            s = (case state of StateOk s \<Rightarrow> s | _ \<Rightarrow> empty_state);
            integrity = DecideIntegrityRecovery False (extraction_ok verified)
              (case state of StateOk s \<Rightarrow> True | _ \<Rightarrow> False) (previousKnownGood s \<noteq> []) in
        if integrity = UseInstalled then (Inr (p, catalog), w)
        else if integrity = RefuseStart then (Inl NoFallback, w)
        else
          let fallback = paths_for e (boot_files w) (ToUtf16 (install e) (previousKnownGood s)) in
          (case VerifyFallback e fallback w of
             ((False, _), w1) \<Rightarrow> (Inl FallbackRejected, w1)
           | ((True, fallbackCatalog), w1) \<Rightarrow>
               let (recovery, w2) = new_manager e p w1; running = manager.current recovery in
               (case CommitIntegrityRecovery (record_valid running) (imagePath running) (WinwsExePath p)
                       (WinwsExePath fallback) (Some (stop_recovered e recovery))
                       (Some (save_state_file e p (rolledBack_state s))) w2 of
                  (False, w3) \<Rightarrow> (Inl ProcessStateMismatch, w3)
                | (True, w3) \<Rightarrow>
                    (Inr (fallback, if fallbackCatalog \<noteq> [] then fallbackCatalog else embedded_catalog e), w3))))"

definition config_write :: "startup_env \<Rightarrow> wstring \<Rightarrow> string \<Rightarrow> history \<Rightarrow> bool \<times> history" where
  "config_write e path data h = write_file (install e) path data h"

definition StartupConfig ::
  "startup_env \<Rightarrow> RuntimePaths \<Rightarrow> RuntimeStrategy list \<Rightarrow> boot \<Rightarrow> (startup_error + Config) \<times> boot" where
  "StartupConfig e p catalog w =
     (let h = boot_files w;
          (_, h1) = MigrateLegacyConfig (config_write e) (version_text e) (config_attributes e h)
            (config_ok e h) (config_file e h) (below (ProgramDataRoot p) ''config.json'') (ConfigPath p) h;
          config = LoadConfig (config_ok e h1 (ConfigPath p)) (config_file e h1 (ConfigPath p)) in
      if StrategyExists catalog (strategyId config) then (Inr config, w\<lparr>boot_files := h1\<rparr>)
      else
        let config' = config\<lparr>strategyId := ''general''\<rparr> in
        (case SaveConfig (config_write e) (version_text e) (ConfigPath p) config' h1 of
           (False, h2) \<Rightarrow> (Inl DefaultNotSaved, w\<lparr>boot_files := h2\<rparr>)
         | (True, h2) \<Rightarrow> (Inr config', w\<lparr>boot_files := h2\<rparr>)))"

text \<open>The end of the constructor, and the constructor.\<close>

definition AttachManager ::
  "startup_env \<Rightarrow> RuntimePaths \<Rightarrow> RuntimeStrategy list \<Rightarrow> Config \<Rightarrow> boot \<Rightarrow> (startup_error + app) \<times> boot" where
  "AttachManager e p catalog config w =
     (let (m, w1) = new_manager e p w;
          connected = IsConnectedByUs (machine e) (boot_procs w1) m in
      if connected \<and> \<not> IEqualsAsciiW (imagePath (manager.current m)) (WinwsExePath p)
      then (Inl RunningVersionMismatch, w1)
      else (Inr \<lparr>app_paths = p, app_config = config, app_catalog = catalog, app_manager = m,
                  app_gate = Complete (if connected then OpConnected else OpDisconnected) OpDisconnected\<rparr>, w1))"

definition StartApp :: "startup_env \<Rightarrow> boot \<Rightarrow> (startup_error + app) \<times> boot" where
  "StartApp e w =
     (let p = paths_for e (boot_files w) [] in
      if ProgramDataRoot p = [] then (Inl NoProgramData, w)
      else
        let state = stored_state (install e) (boot_files w) (ActiveRuntimePath p) in
        case (case state of
                StateError m \<Rightarrow> (Some InvalidState, w)
              | StateMissing \<Rightarrow> (None, w)
              | StateOk s \<Rightarrow> RecoverPending e p s w) of
          (Some err, w1) \<Rightarrow> (Inl err, w1)
        | (None, w1) \<Rightarrow>
            (case RecoverIntegrity e p state w1 of
               (Inl err, w2) \<Rightarrow> (Inl err, w2)
             | (Inr (p', catalog), w2) \<Rightarrow>
                 (case StartupConfig e p' catalog w2 of
                    (Inl err, w3) \<Rightarrow> (Inl err, w3)
                  | (Inr config, w3) \<Rightarrow> AttachManager e p' catalog config w3)))"

section \<open>Operations of the controller\<close>

definition CurrentStrategy :: "app \<Rightarrow> RuntimeStrategy" where
  "CurrentStrategy a =
     (case FindStrategy (app_catalog a) (strategyId (app_config a)) of
        Some s \<Rightarrow> s | None \<Rightarrow> DefaultStrategy (app_catalog a))"

definition VerifyInstallation ::
  "startup_env \<Rightarrow> app \<Rightarrow> boot \<Rightarrow> bool \<times> boot" where
  "VerifyInstallation e a w =
     (case EnsureExtracted (install e) (package e) (app_paths a) (boot_files w) of
        (prepared, h1) \<Rightarrow>
          let w1 = w\<lparr>boot_files := h1\<rparr> in
          if \<not> extraction_ok prepared then (False, w1)
          else if \<not> extraction_ok (fst (VerifyRuntime (install e) (package e) (app_paths a) h1)) then (False, w1)
          else if path_exists (install e) h1 (ConfigPath (app_paths a)) then (True, w1)
          else (case SaveConfig (config_write e) (version_text e) (ConfigPath (app_paths a)) (app_config a) h1 of
                  (ok, h2) \<Rightarrow> (ok, w\<lparr>boot_files := h2\<rparr>)))"

definition error_busy :: nat where "error_busy = 170"

definition StopManagedConnection :: "proc_env \<Rightarrow> app \<Rightarrow> proc_history \<Rightarrow> StopResult \<times> app \<times> proc_history" where
  "StopManagedConnection env a g =
     (let state = app_gate a in
      if state = OpDisconnected then
        (if IsConnectedByUs env g (app_manager a) then (stop_result StopFailed error_invalid_data, a, g)
         else (stop_result NotRunning 0, a, g))
      else if state \<noteq> OpConnected \<and> state \<noteq> OpError then (stop_result StopFailed error_busy, a, g)
      else
        (case TryTransition state OpDisconnecting state of
           (_, False) \<Rightarrow> (stop_result StopFailed error_busy, a, g)
         | (busy, True) \<Rightarrow>
             (case Stop env (app_manager a) g of
                (result, m, g1) \<Rightarrow>
                  (result,
                   a\<lparr>app_manager := m,
                     app_gate := Complete (if stop_status result = Stopped \<or> stop_status result = NotRunning
                                           then OpDisconnected else OpError) busy\<rparr>, g1))))"

text \<open>\<open>leave\<close> is the answer of the user to the question whether the connection stays.\<close>

definition HandleExit :: "proc_env \<Rightarrow> bool \<Rightarrow> app \<Rightarrow> proc_history \<Rightarrow> app \<times> proc_history" where
  "HandleExit env leave a g =
     (if IsConnectedByUs env g (app_manager a) then
        (if leave then
           (case Detach (app_manager a) g of (m, g1) \<Rightarrow> (a\<lparr>app_manager := m\<rparr>, g1))
         else
           (case StopManagedConnection env a g of (_, a', g1) \<Rightarrow> (a', g1)))
      else (a, g))"

section \<open>What a start leaves behind\<close>

text \<open>
  The events a start may cause. In the state file it writes only the recovered or rolled-back form of
  the state it read, or the initial state of an extraction; both name no pending version.
\<close>

definition product_root :: "startup_env \<Rightarrow> wstring" where
  "product_root e = below (program_data e) ''CHEBURNET''"

definition at_root :: "startup_env \<Rightarrow> RuntimePaths \<Rightarrow> bool" where
  "at_root e p \<longleftrightarrow> p = paths_at (product_root e) (RuntimeVersion p)"

definition state_path :: "startup_env \<Rightarrow> wstring" where
  "state_path e = below (product_root e) ''active-runtime.json''"

definition config_path :: "startup_env \<Rightarrow> wstring" where
  "config_path e = below (below (product_root e) ''user'') ''config.json''"

lemma at_root_paths:
  "at_root e p \<Longrightarrow> ActiveRuntimePath p = state_path e"
  "at_root e p \<Longrightarrow> ConfigPath p = config_path e"
  by (subst (asm) at_root_def, erule ssubst,
      simp add: paths_at_def Let_def ActiveRuntimePath_def state_path_def config_path_def)+

lemma paths_at_root: "ProgramDataRoot (paths_at root v) = root"
  by (simp add: paths_at_def Let_def)

lemma paths_for_at_root: "program_data e \<noteq> [] \<Longrightarrow> at_root e (paths_for e h v)"
  by (simp add: at_root_def paths_for_def MakeRuntimePaths_def product_root_def paths_at_def Let_def)

fun startup_write :: "startup_env \<Rightarrow> StateResult \<Rightarrow> fs_event \<Rightarrow> bool" where
  "startup_write e state (WriteFile path data ok) =
     (path = state_path e \<and>
        (case state of
           StateOk s \<Rightarrow>
             data = SerializeRuntimeState (recovered_state s) \<or>
             data = SerializeRuntimeState (rolledBack_state s) \<and> previousKnownGood s \<noteq> []
         | _ \<Rightarrow> False) \<or>
      extraction_event (install e) (package e) (paths_at (product_root e) (kVersion (package e)))
        (WriteFile path data ok) \<or>
      path = config_path e)"
| "startup_write e state (EnsureDirectory d ok) = True"
| "startup_write e state (Harden d ok) = True"
| "startup_write e state ev = False"

lemma extraction_is_startup_write:
  "extraction_event (install e) (package e) (paths_at (product_root e) (kVersion (package e))) ev \<Longrightarrow>
     startup_write e state ev"
proof (cases ev)
  case (WriteFile path data ok)
  then show "extraction_event (install e) (package e) (paths_at (product_root e) (kVersion (package e))) ev \<Longrightarrow>
      startup_write e state ev"
    unfolding WriteFile startup_write.simps by blast
qed simp_all

lemma EnsureExtracted_events:
  assumes "EnsureExtracted (install e) (package e) p h = (r, h')" "at_root e p"
  shows "extends_by (startup_write e state) h h'"
proof (cases "RuntimeVersion p = kVersion (package e)")
  case True
  then have "p = paths_at (product_root e) (kVersion (package e))" using assms(2) by (simp add: at_root_def)
  then show ?thesis
    using EnsureExtracted_run [where env = "install e" and b = "package e" and p = p and h = h] extraction_is_startup_write [of e _ state] assms(1)
    by (auto simp: extends_by_def list_all_iff)
qed (use assms(1) in \<open>auto simp: EnsureExtracted_def\<close>)

text \<open>No process is created: the state of a phase extends both histories.\<close>

definition boots :: "startup_env \<Rightarrow> StateResult \<Rightarrow> boot \<Rightarrow> boot \<Rightarrow> bool" where
  "boots e state w w' \<longleftrightarrow>
     extends_by (startup_write e state) (boot_files w) (boot_files w') \<and>
     (\<exists>evs. boot_procs w' = boot_procs w @ evs \<and> list_all (\<lambda>ev. \<not> creates ev) evs)"

lemma boots_refl [simp]: "boots e state w w"
  by (simp add: boots_def)

lemma boots_trans: "boots e state w v \<Longrightarrow> boots e state v u \<Longrightarrow> boots e state w u"
  unfolding boots_def by (auto intro: extends_by_trans)

lemma new_manager_boots: "new_manager e p w = (m, w') \<Longrightarrow> boots e state w w' \<and> boot_files w' = boot_files w"
  by (auto simp: new_manager_def NewProcessManager_def DeleteRecord_def boots_def Let_def split: if_splits)

lemma stop_recovered_boots: "stop_recovered e m w = (ok, w') \<Longrightarrow> boots e state w w'"
  using Stop_creates_nothing by (fastforce simp: stop_recovered_def boots_def split: prod.splits)

lemma save_state_boots:
  assumes "save_state_file e p s' w = (ok, w')" "state = StateOk s"
    "s' = recovered_state s \<or> s' = rolledBack_state s \<and> previousKnownGood s \<noteq> []" "at_root e p"
  shows "boots e state w w'"
proof -
  have "startup_write e state (WriteFile (ActiveRuntimePath p) (SerializeRuntimeState s') b)" for b
    using assms(2,3) unfolding startup_write.simps at_root_paths [OF assms(4)] by auto
  then show ?thesis
    using assms(1)
    by (auto simp: save_state_file_def SaveRuntimeState_def write_file_def boots_def Let_def
        simp del: startup_write.simps split: if_splits prod.splits)
qed

lemma RecoverPending_boots:
  assumes "RecoverPending e p s w = (r, w')" "state = StateOk s" "at_root e p"
  shows "boots e state w w'"
proof (cases "pending s = []")
  case False
  obtain m w1 where m: "new_manager e p w = (m, w1)" by fastforce
  have w1: "boots e state w w1" using new_manager_boots [OF m] by blast
  have clear: "boots e state w v'" if "save_state_file e p (recovered_state s) v = (b, v')" "boots e state w v" for v b v'
    using save_state_boots [OF that(1) assms(2) _ assms(3)] that(2) boots_trans by blast
  show ?thesis
    using assms(1) False m w1 clear [OF _ w1] clear boots_trans [OF w1 stop_recovered_boots]
    by (auto simp: RecoverPending_def Let_def split: if_splits prod.splits bool.splits)
qed (use assms(1) in \<open>simp add: RecoverPending_def\<close>)

lemma RecoverIntegrity_boots:
  assumes "RecoverIntegrity e p state w = (r, w')" "at_root e p" "program_data e \<noteq> []"
  shows "boots e state w w'"
proof -
  let ?h = "boot_files w"
  obtain verified catalog listed where v: "VerifyInstalledRuntime (install e) (package e) p ?h = (verified, catalog, listed)"
    by (cases "VerifyInstalledRuntime (install e) (package e) p ?h")
  consider (stay) "w' = w"
    | (rollback) s where "state = StateOk s" "previousKnownGood s \<noteq> []" "\<not> extraction_ok verified"
        "RuntimeVersion p \<noteq> kVersion (package e)"
    using assms(1) v
    by (cases state) (auto simp: RecoverIntegrity_def DecideIntegrityRecovery_def Let_def empty_state_def split: if_splits)
  then show ?thesis
  proof cases
    case rollback
    let ?fb = "paths_for e ?h (ToUtf16 (install e) (previousKnownGood s))"
    note fb = paths_for_at_root [OF assms(3), of ?h "ToUtf16 (install e) (previousKnownGood s)"]
    obtain ok fcat w1 where f: "VerifyFallback e ?fb w = ((ok, fcat), w1)"
      by (cases "VerifyFallback e ?fb w"; cases "fst (VerifyFallback e ?fb w)") auto
    have w1: "boots e state w w1"
      using f EnsureExtracted_events [OF _ fb, of ?h _ _ state]
      by (auto simp: VerifyFallback_def boots_def split: if_splits prod.splits)
    obtain m w2 where m: "new_manager e p w1 = (m, w2)" by fastforce
    have w2: "boots e state w w2" using w1 new_manager_boots [OF m] boots_trans by blast
    have save: "boots e state w v'" if "save_state_file e p (rolledBack_state s) u = (b, v')" "boots e state w u" for u b v'
      using save_state_boots [OF that(1) rollback(1) _ assms(2)] rollback(2) that(2) boots_trans by blast
    show ?thesis
      using assms(1) rollback v f m w1 w2 save [OF _ w2] save [OF _ boots_trans [OF w2 stop_recovered_boots]]
        boots_trans [OF w2 stop_recovered_boots]
      by (auto simp: RecoverIntegrity_def DecideIntegrityRecovery_def CommitIntegrityRecovery_def Let_def
          split: if_splits prod.splits bool.splits)
  qed simp
qed

lemma StartupConfig_boots:
  assumes "StartupConfig e p catalog w = (r, w')" "at_root e p"
  shows "boots e state w w'"
proof -
  have "startup_write e state (WriteFile (ConfigPath p) data b)" for data b
    unfolding startup_write.simps at_root_paths [OF assms(2)] by blast
  then show ?thesis
    using assms(1)
    by (auto simp: StartupConfig_def MigrateLegacyConfig_def SaveConfig_def config_write_def write_file_def
        boots_def extends_by_def Let_def simp del: startup_write.simps
        split: if_splits prod.splits attributes.splits sum.splits bool.splits)
qed

lemma RecoverIntegrity_runtime:
  assumes "RecoverIntegrity e p state w = (Inr (p', catalog), w')" "at_root e p" "program_data e \<noteq> []"
  shows "at_root e p' \<and>
    (RuntimeVersion p' = kVersion (package e) \<or>
     (\<exists>h r files. VerifyInstalledRuntime (install e) (package e) p' h = (r, catalog, files) \<and> extraction_ok r))"
proof (cases "RuntimeVersion p = kVersion (package e)")
  case False
  let ?h = "boot_files w"
  obtain verified cat1 listed where v: "VerifyInstalledRuntime (install e) (package e) p ?h = (verified, cat1, listed)"
    by (cases "VerifyInstalledRuntime (install e) (package e) p ?h")
  show ?thesis
  proof (cases "extraction_ok verified")
    case True
    then show ?thesis
      using assms(1,2) False v by (auto simp: RecoverIntegrity_def DecideIntegrityRecovery_def Let_def)
  next
    case bad: False
    let ?s = "case state of StateOk s \<Rightarrow> s | _ \<Rightarrow> empty_state"
    let ?fb = "paths_for e ?h (ToUtf16 (install e) (previousKnownGood ?s))"
    obtain fcat w1 where f: "VerifyFallback e ?fb w = ((True, fcat), w1)" and p': "p' = ?fb"
      and cat: "catalog = (if fcat \<noteq> [] then fcat else embedded_catalog e)"
      using assms(1) False v bad
      by (auto simp: RecoverIntegrity_def DecideIntegrityRecovery_def Let_def
          split: if_splits prod.splits bool.splits StateResult.splits)
    have "at_root e ?fb" by (rule paths_for_at_root [OF assms(3)])
    moreover have "RuntimeVersion ?fb = kVersion (package e) \<or>
        (\<exists>r files. VerifyInstalledRuntime (install e) (package e) ?fb ?h = (r, catalog, files) \<and> extraction_ok r)"
    proof (rule disjCI)
      assume "\<not> (\<exists>r files. VerifyInstalledRuntime (install e) (package e) ?fb ?h = (r, catalog, files) \<and> extraction_ok r)"
      moreover have "fcat \<noteq> []" if "VerifyInstalledRuntime (install e) (package e) ?fb ?h = (r, fcat, fs)" "extraction_ok r" for r fs
        using VerifyInstalledRuntime_intact(8) [OF that] ExtractedCatalog_nonempty by blast
      ultimately show "RuntimeVersion ?fb = kVersion (package e)"
        using f cat by (fastforce simp: VerifyFallback_def split: if_splits prod.splits)
    qed
    ultimately show ?thesis using p' by blast
  qed
qed (use assms in \<open>simp add: RecoverIntegrity_def\<close>)

definition startup_ready :: "startup_env \<Rightarrow> app \<Rightarrow> boot \<Rightarrow> bool" where
  "startup_ready e a w \<longleftrightarrow>
     (let p = app_paths a; m = app_manager a; connected = IsConnectedByUs (machine e) (boot_procs w) m in
      p = paths_at (product_root e) (RuntimeVersion p) \<and>
      (RuntimeVersion p = kVersion (package e) \<or>
       (\<exists>h r files. VerifyInstalledRuntime (install e) (package e) p h = (r, app_catalog a, files) \<and> extraction_ok r)) \<and>
      (StrategyExists (app_catalog a) (strategyId (app_config a)) \<or> strategyId (app_config a) = ''general'') \<and>
      app_gate a = (if connected then OpConnected else OpDisconnected) \<and>
      (connected \<longrightarrow> IEqualsAsciiW (imagePath (manager.current m)) (WinwsExePath p)))"

lemma StartupConfig_strategy:
  "StartupConfig e p catalog w = (Inr c, w') \<Longrightarrow> StrategyExists catalog (strategyId c) \<or> strategyId c = ''general''"
  by (auto simp: StartupConfig_def Let_def split: if_splits prod.splits bool.splits)

lemma AttachManager_ready:
  assumes "AttachManager e p catalog config w = (Inr a, w')" "at_root e p"
    and "RuntimeVersion p = kVersion (package e) \<or>
      (\<exists>h r files. VerifyInstalledRuntime (install e) (package e) p h = (r, catalog, files) \<and> extraction_ok r)"
    and "StrategyExists catalog (strategyId config) \<or> strategyId config = ''general''"
  shows "startup_ready e a w'"
proof -
  obtain m w1 where m: "new_manager e p w = (m, w1)" by fastforce
  then have "w' = w1" "a = \<lparr>app_paths = p, app_config = config, app_catalog = catalog, app_manager = m,
      app_gate = (if IsConnectedByUs (machine e) (boot_procs w1) m then OpConnected else OpDisconnected)\<rparr>"
    "IsConnectedByUs (machine e) (boot_procs w1) m \<Longrightarrow> IEqualsAsciiW (imagePath (manager.current m)) (WinwsExePath p)"
    using assms(1) by (auto simp: AttachManager_def Complete_def Let_def split: if_splits)
  then show ?thesis using assms(2-4) unfolding startup_ready_def at_root_def by auto
qed

lemma AttachManager_boots: "AttachManager e p catalog config w = (r, w') \<Longrightarrow> boots e state w w'"
  using new_manager_boots by (auto simp: AttachManager_def Let_def split: if_splits prod.splits)

lemma StartApp_run:
  assumes "StartApp e w = (out, w')"
  shows "boots e (stored_state (install e) (boot_files w) (state_path e)) w w' \<and>
    (case out of Inl err \<Rightarrow> True | Inr a \<Rightarrow> startup_ready e a w')"
proof (cases "program_data e = []")
  case True
  then show ?thesis
    using assms by (auto simp: StartApp_def paths_for_def MakeRuntimePaths_def no_paths_def)
next
  case pd: False
  let ?p = "paths_for e (boot_files w) []"
  let ?state = "stored_state (install e) (boot_files w) (state_path e)"
  have p: "at_root e ?p" by (rule paths_for_at_root [OF pd])
  have root: "ProgramDataRoot ?p \<noteq> []"
    using p unfolding at_root_def by (metis below_def append_is_Nil_conv list.distinct(1) list.simps(8) paths_at_root product_root_def map_is_Nil_conv)
  obtain e1 w1 where r: "(case ?state of StateError m \<Rightarrow> (Some InvalidState, w) | StateMissing \<Rightarrow> (None, w)
      | StateOk s \<Rightarrow> RecoverPending e ?p s w) = (e1, w1)" by fastforce
  have w1: "boots e ?state w w1"
    using r RecoverPending_boots [OF _ _ p] by (auto split: StateResult.splits)
  have start: "StartApp e w = (case e1 of Some err \<Rightarrow> (Inl err, w1) | None \<Rightarrow>
      (case RecoverIntegrity e ?p ?state w1 of
         (Inl err, w2) \<Rightarrow> (Inl err, w2)
       | (Inr (p', catalog), w2) \<Rightarrow>
           (case StartupConfig e p' catalog w2 of
              (Inl err, w3) \<Rightarrow> (Inl err, w3)
            | (Inr config, w3) \<Rightarrow> AttachManager e p' catalog config w3)))"
    using r root by (simp add: StartApp_def Let_def at_root_paths [OF p])
  show ?thesis
  proof (cases e1)
    case (Some err)
    then show ?thesis using start assms w1 by auto
  next
    case None
    obtain r2 w2 where i: "RecoverIntegrity e ?p ?state w1 = (r2, w2)" by fastforce
    have w2: "boots e ?state w w2" using RecoverIntegrity_boots [OF i p pd] w1 boots_trans by blast
    show ?thesis
    proof (cases r2)
      case (Inl err)
      then show ?thesis using start assms None i w2 by auto
    next
      case (Inr pc)
      obtain p' catalog where pc: "pc = (p', catalog)" by fastforce
      note rt = RecoverIntegrity_runtime [OF i [unfolded Inr pc] p pd]
      obtain r3 w3 where c: "StartupConfig e p' catalog w2 = (r3, w3)" by fastforce
      have w3: "boots e ?state w w3" using StartupConfig_boots [OF c conjunct1 [OF rt]] w2 boots_trans by blast
      show ?thesis
      proof (cases r3)
        case (Inl err)
        then show ?thesis using start assms None i Inr pc c w3 by auto
      next
        case config: (Inr config)
        then have a: "AttachManager e p' catalog config w3 = (out, w')" using start assms None i Inr pc c by simp
        have "boots e ?state w w'" using AttachManager_boots [OF a] w3 boots_trans by blast
        then show ?thesis
          using AttachManager_ready [OF _ conjunct1 [OF rt] conjunct2 [OF rt] StartupConfig_strategy] a c config
          by (auto split: sum.split)
      qed
    qed
  qed
qed


section \<open>Stopping through the gate\<close>

text \<open>
  The stop button goes through the gate: unless the gate is at rest with something to stop, nothing
  changes and nothing is reported as stopped; otherwise the manager stops the verified process, and the
  gate ends at \<^verbatim>\<open>Disconnected\<close> when no engine is left and at \<^verbatim>\<open>Error\<close> when the stop was refused.
\<close>

lemma StopManagedConnection_gate:
  "case StopManagedConnection env a g of (r, a', g') \<Rightarrow>
     if app_gate a = OpConnected \<or> app_gate a = OpError then
       (\<exists>evs. g' = g @ evs \<and> stop_contract env (app_manager a) g evs r (app_manager a')) \<and>
       app_gate a' = (if stop_status r = Stopped \<or> stop_status r = NotRunning then OpDisconnected else OpError)
     else a' = a \<and> g' = g \<and> stop_status r \<noteq> Stopped"
proof (cases "app_gate a = OpConnected \<or> app_gate a = OpError")
  case True
  obtain r m g' where s: "Stop env (app_manager a) g = (r, m, g')" by (cases "Stop env (app_manager a) g")
  have "\<exists>evs. g' = g @ evs \<and> stop_contract env (app_manager a) g evs r m"
    using Stop_run [where env = env and m = "app_manager a" and h = g] unfolding s by simp
  then show ?thesis
    using True s by (auto simp: StopManagedConnection_def TryTransition_def Complete_def Let_def)
qed (auto simp: StopManagedConnection_def stop_result_def Let_def)

end
