(* ===== verification/UpdateCheckService.thy ===== *)
theory UpdateCheckService
  imports UpdateManager
begin

text \<open>
  The background update check, \<^verbatim>\<open>src/src/update/UpdateCheckService.cpp\<close>: a phase under a mutex, a
  worker thread that runs one check and stores its result, an owner thread that starts, polls and
  cancels. The machine below interleaves the two threads at the granularity of the mutex and of
  \<^verbatim>\<open>join\<close>; the owner calls the public operations one after another, as \<^verbatim>\<open>App\<close> does. The locale \<open>wf1\<close>
  is the rule that turns a helpful action under weak fairness into progress.
\<close>

section \<open>Whom to notify\<close>

definition ShouldNotify :: "CheckResult \<Rightarrow> string \<Rightarrow> bool" where
  "ShouldNotify result skipped \<longleftrightarrow>
     check_status result = Rejected \<or>
     (check_status result = Available \<and>
        (launcher_eligibility result = Upgrade \<or>
         (payload_eligibility result = Upgrade \<and>
            artifact_version (payload (manifest result)) \<noteq> skipped)))"

section \<open>The service\<close>

datatype CheckPhase = PhaseIdle | PhaseRunning | PhaseReady | PhaseTaken | PhaseCancelled

text \<open>The worker: no thread object, running the check, holding its result, returned but not joined.\<close>

datatype worker = NoThread | Checking | Produced CheckResult | Returned

text \<open>Where the owner is: outside, or inside \<^verbatim>\<open>Start\<close> or \<^verbatim>\<open>Cancel\<close>.\<close>

datatype owner_pc = Outside | StartJoin | StartSpawn | CancelJoin | CancelFinish

record service =
  phase :: CheckPhase
  result :: "CheckResult option"
  cancel_flag :: bool
  worker_thread :: worker
  owner :: owner_pc
  stored_log :: "CheckResult list"   \<comment> \<open>history: the results stored\<close>
  taken_log :: "CheckResult list"    \<comment> \<open>history: the results handed out\<close>

definition new_service :: service where
  "new_service = \<lparr>phase = PhaseIdle, result = None, cancel_flag = False, worker_thread = NoThread,
     owner = Outside, stored_log = [], taken_log = []\<rparr>"

text \<open>The first block of \<^verbatim>\<open>Start\<close> (\<open>None\<close> is \<^verbatim>\<open>return false\<close>); \<open>has_check\<close> says that \<^verbatim>\<open>check_\<close> is not empty.\<close>

definition StartClaim :: "bool \<Rightarrow> service \<Rightarrow> service option" where
  "StartClaim has_check s =
     (if phase s = PhaseRunning \<or> phase s = PhaseReady \<or> phase s = PhaseCancelled then None
      else if \<not> has_check then None
      else Some (s\<lparr>phase := PhaseRunning\<rparr>))"

text \<open>\<^verbatim>\<open>Join\<close>: \<open>None\<close> while it blocks.\<close>

definition JoinWorker :: "service \<Rightarrow> service option" where
  "JoinWorker s =
     (case worker_thread s of
        NoThread \<Rightarrow> Some s
      | Returned \<Rightarrow> Some (s\<lparr>worker_thread := NoThread\<rparr>)
      | _ \<Rightarrow> None)"

definition Spawn :: "service \<Rightarrow> service" where
  "Spawn s = s\<lparr>cancel_flag := False, worker_thread := Checking\<rparr>"

text \<open>What the worker stores: the value of the check, or \<^verbatim>\<open>Offline\<close> for an exception.\<close>

definition produced :: "CheckResult option \<Rightarrow> CheckResult" where
  "produced outcome = (case outcome of Some r \<Rightarrow> r | None \<Rightarrow> empty_check Offline)"

definition StoreResult :: "CheckResult \<Rightarrow> service \<Rightarrow> service" where
  "StoreResult r s =
     s\<lparr>result := Some r, phase := (if phase s = PhaseRunning then PhaseReady else phase s),
       worker_thread := Returned, stored_log := stored_log s @ [r]\<rparr>"

definition TryTakeResult :: "service \<Rightarrow> CheckResult option \<times> service" where
  "TryTakeResult s =
     (case result s of
        None \<Rightarrow> (None, s)
      | Some r \<Rightarrow>
          if phase s \<noteq> PhaseReady then (None, s)
          else (Some r, s\<lparr>result := None, phase := PhaseTaken, taken_log := taken_log s @ [r]\<rparr>))"

definition CancelRequest :: "service \<Rightarrow> service" where
  "CancelRequest s = s\<lparr>cancel_flag := True\<rparr>"

definition CancelEnd :: "service \<Rightarrow> service" where
  "CancelEnd s = s\<lparr>phase := PhaseCancelled, result := None\<rparr>"

section \<open>The interleaving\<close>

datatype actor = Owner | Worker

inductive svc_step :: "actor \<Rightarrow> service \<Rightarrow> service \<Rightarrow> bool" where
  start_refused: "owner s = Outside \<Longrightarrow> StartClaim has_check s = None \<Longrightarrow> svc_step Owner s s"
| start_claim: "owner s = Outside \<Longrightarrow> StartClaim has_check s = Some t \<Longrightarrow>
    svc_step Owner s (t\<lparr>owner := StartJoin\<rparr>)"
| start_join: "owner s = StartJoin \<Longrightarrow> JoinWorker s = Some t \<Longrightarrow> svc_step Owner s (t\<lparr>owner := StartSpawn\<rparr>)"
| start_spawn: "owner s = StartSpawn \<Longrightarrow> svc_step Owner s (Spawn s\<lparr>owner := Outside\<rparr>)"
| take: "owner s = Outside \<Longrightarrow> TryTakeResult s = (r, t) \<Longrightarrow> svc_step Owner s t"
| cancel_request: "owner s = Outside \<Longrightarrow> svc_step Owner s (CancelRequest s\<lparr>owner := CancelJoin\<rparr>)"
| cancel_join: "owner s = CancelJoin \<Longrightarrow> JoinWorker s = Some t \<Longrightarrow> svc_step Owner s (t\<lparr>owner := CancelFinish\<rparr>)"
| cancel_end: "owner s = CancelFinish \<Longrightarrow> svc_step Owner s (CancelEnd s\<lparr>owner := Outside\<rparr>)"
| check_returns: "worker_thread s = Checking \<Longrightarrow>
    svc_step Worker s (s\<lparr>worker_thread := Produced (produced outcome)\<rparr>)"
| store: "worker_thread s = Produced r \<Longrightarrow> svc_step Worker s (StoreResult r s)"

inductive_cases owner_stepE: "svc_step Owner s t"
inductive_cases worker_stepE: "svc_step Worker s t"

definition svc_any :: "service \<Rightarrow> service \<Rightarrow> bool" where
  "svc_any s t \<longleftrightarrow> (\<exists>a. svc_step a s t)"

definition svc_init :: "service \<Rightarrow> bool" where
  "svc_init s \<longleftrightarrow> s = new_service"

definition pending_result :: "service \<Rightarrow> CheckResult list" where
  "pending_result s = (case result s of None \<Rightarrow> [] | Some r \<Rightarrow> [r])"

definition joined :: "worker \<Rightarrow> bool" where
  "joined v \<longleftrightarrow> v = NoThread \<or> v = Returned"

definition svc_inv :: "service \<Rightarrow> bool" where
  "svc_inv s \<longleftrightarrow>
     (result s \<noteq> None \<longleftrightarrow> phase s = PhaseReady) \<and>
     (owner s = StartJoin \<longrightarrow> phase s = PhaseRunning \<and> joined (worker_thread s)) \<and>
     (owner s = StartSpawn \<longrightarrow> phase s = PhaseRunning \<and> worker_thread s = NoThread) \<and>
     (owner s = CancelFinish \<longrightarrow> phase s \<noteq> PhaseRunning \<and> worker_thread s = NoThread) \<and>
     (phase s = PhaseCancelled \<longrightarrow> worker_thread s = NoThread) \<and>
     (phase s = PhaseRunning \<longrightarrow> owner s = StartJoin \<or> owner s = StartSpawn \<or> \<not> joined (worker_thread s)) \<and>
     (phase s \<noteq> PhaseRunning \<longrightarrow> joined (worker_thread s)) \<and>
     (if phase s = PhaseCancelled then \<exists>dropped. length dropped \<le> 1 \<and> stored_log s = taken_log s @ dropped
      else stored_log s = taken_log s @ pending_result s)"

lemma svc_inv_step: "svc_inv s \<Longrightarrow> svc_any s t \<Longrightarrow> svc_inv t"
  unfolding svc_any_def
  by (elim exE svc_step.cases)
    (auto simp: svc_inv_def StartClaim_def JoinWorker_def Spawn_def StoreResult_def TryTakeResult_def
      CancelRequest_def CancelEnd_def pending_result_def joined_def
      split: if_splits worker.splits option.splits)

lemma svc_inv_init: "svc_init s \<Longrightarrow> svc_inv s"
  by (simp add: svc_init_def new_service_def svc_inv_def pending_result_def joined_def)

interpretation service_machine: inductive_invariant svc_init svc_any svc_inv
  by unfold_locales (rule svc_inv_init, assumption, rule svc_inv_step)

text \<open>
  C35. The service hands out every result at most once, in order and unchanged, whatever the
  interleaving: what was taken so far is what was stored, up to the one result that is ready, or that a
  cancellation dropped. A result is ready exactly in the phase \<^verbatim>\<open>Ready\<close>; a cancelled service has no
  thread left; and a new thread is created only when the old one was joined.
\<close>

theorem Service_delivers_once:
  assumes "reachable svc_init svc_any s"
  shows "(if phase s = PhaseCancelled
          then worker_thread s = NoThread \<and> (\<exists>dropped. length dropped \<le> 1 \<and> stored_log s = taken_log s @ dropped)
          else stored_log s = taken_log s @ pending_result s) \<and>
    (phase s = PhaseReady \<longleftrightarrow> result s \<noteq> None) \<and>
    (if owner s = StartSpawn then worker_thread s = NoThread else True)"
  using service_machine.inv_reachable [OF assms] by (auto simp: svc_inv_def)

text \<open>One check from start to delivery.\<close>

definition one_check :: "service list" where
  "one_check =
     (let s0 = new_service; s1 = s0\<lparr>phase := PhaseRunning, owner := StartJoin\<rparr>;
          s2 = s1\<lparr>owner := StartSpawn\<rparr>; s3 = Spawn s2\<lparr>owner := Outside\<rparr>;
          s4 = s3\<lparr>worker_thread := Produced (empty_check Offline)\<rparr>; s5 = StoreResult (empty_check Offline) s4;
          s6 = snd (TryTakeResult s5) in [s0, s1, s2, s3, s4, s5, s6])"

definition one_actor :: "nat \<Rightarrow> actor" where
  "one_actor i = (if i = 3 \<or> i = 4 then Worker else Owner)"

text \<open>The run goes on with polls that find nothing.\<close>

definition one_run :: "nat \<Rightarrow> service" where
  "one_run i = one_check ! min i 6"

lemma one_run_step: "svc_step (one_actor i) (one_run i) (one_run (Suc i))"
proof -
  have start: "svc_step Owner (one_check ! 0) (one_check ! 1)" "svc_step Owner (one_check ! 1) (one_check ! 2)"
    "svc_step Owner (one_check ! 2) (one_check ! 3)"
    using svc_step.start_claim [of "one_check ! 0" True "new_service\<lparr>phase := PhaseRunning\<rparr>"]
      svc_step.start_join [of "one_check ! 1" "one_check ! 1"] svc_step.start_spawn [of "one_check ! 2"]
    by (simp_all add: one_check_def new_service_def StartClaim_def JoinWorker_def Spawn_def Let_def)
  have work: "svc_step Worker (one_check ! 3) (one_check ! 4)" "svc_step Worker (one_check ! 4) (one_check ! 5)"
    using svc_step.check_returns [of "one_check ! 3" None] svc_step.store [of "one_check ! 4" "empty_check Offline"]
    by (simp_all add: one_check_def new_service_def Spawn_def produced_def Let_def)
  have polls: "svc_step Owner (one_check ! 5) (one_check ! 6)" "svc_step Owner (one_check ! 6) (one_check ! 6)"
    using svc_step.take [of "one_check ! 5" "fst (TryTakeResult (one_check ! 5))" "one_check ! 6"]
      svc_step.take [of "one_check ! 6" None "one_check ! 6"]
    by (simp_all add: one_check_def new_service_def Spawn_def StoreResult_def TryTakeResult_def Let_def)
  consider "i = 0" | "i = 1" | "i = 2" | "i = 3" | "i = 4" | "i = 5" | "6 \<le> i" by linarith
  then show ?thesis
    using start work polls by cases (simp_all add: one_run_def one_actor_def min_def numeral_eq_Suc)
qed

lemma one_run_reachable: "reachable svc_init svc_any (one_run i)"
proof (induction i)
  case 0
  have "one_run 0 = new_service" by (simp add: one_run_def one_check_def Let_def)
  then show ?case by (simp add: reachable.start svc_init_def)
next
  case (Suc i)
  then show ?case using one_run_step [of i] reachable.move unfolding svc_any_def by metis
qed

lemma one_run_end: "phase (one_run 6) = PhaseTaken" "owner (one_run 6) = Outside" "phase (one_run 3) = PhaseRunning"
  "stored_log (one_run 6) = [empty_check Offline]" "taken_log (one_run 6) = [empty_check Offline]"
  by (simp_all add: one_run_def one_check_def new_service_def Spawn_def StoreResult_def TryTakeResult_def Let_def)

lemma Service_delivers_once_witness:
  "stored_log (one_run 6) = taken_log (one_run 6) @ pending_result (one_run 6) \<and> taken_log (one_run 6) = [empty_check Offline]"
  using Service_delivers_once [OF one_run_reachable [of 6]] one_run_end by simp

section \<open>Progress\<close>

text \<open>
  Weakly fair runs, and the rule of progress: when a property is kept until a helpful action reaches the
  goal, and that action is enabled as long as the property holds, the goal is reached.
\<close>

definition run_of :: "('a \<Rightarrow> 's \<Rightarrow> 's \<Rightarrow> bool) \<Rightarrow> (nat \<Rightarrow> 'a) \<Rightarrow> (nat \<Rightarrow> 's) \<Rightarrow> bool" where
  "run_of step act \<sigma> \<longleftrightarrow> (\<forall>i. step (act i) (\<sigma> i) (\<sigma> (Suc i)))"

definition weakly_fair :: "('a \<Rightarrow> 's \<Rightarrow> 's \<Rightarrow> bool) \<Rightarrow> (nat \<Rightarrow> 'a) \<Rightarrow> (nat \<Rightarrow> 's) \<Rightarrow> bool" where
  "weakly_fair step act \<sigma> \<longleftrightarrow> (\<forall>a i. (\<forall>j\<ge>i. \<exists>t. step a (\<sigma> j) t) \<longrightarrow> (\<exists>j\<ge>i. act j = a))"

locale wf1 =
  fixes step :: "'a \<Rightarrow> 's \<Rightarrow> 's \<Rightarrow> bool" and P Q :: "'s \<Rightarrow> bool" and helper :: 'a
  assumes stable: "P s \<Longrightarrow> step b s t \<Longrightarrow> P t \<or> Q t"
    and helpful: "P s \<Longrightarrow> step helper s t \<Longrightarrow> Q t"
    and enabled: "P s \<Longrightarrow> \<exists>t. step helper s t"
begin

lemma leads_to:
  assumes run: "run_of step act \<sigma>" and fair: "weakly_fair step act \<sigma>" and P: "P (\<sigma> i)"
  shows "\<exists>j\<ge>i. Q (\<sigma> j)"
proof (rule ccontr)
  assume "\<not> (\<exists>j\<ge>i. Q (\<sigma> j))"
  then have never: "\<not> Q (\<sigma> j)" if "i \<le> j" for j using that by blast
  have always: "P (\<sigma> (i + n))" for n
  proof (induction n)
    case (Suc n)
    have "step (act (i + n)) (\<sigma> (i + n)) (\<sigma> (Suc (i + n)))" using run by (simp add: run_of_def)
    then show ?case using stable [OF Suc] never [of "Suc (i + n)"] by auto
  qed (use P in simp)
  then have "\<forall>j\<ge>i. \<exists>t. step helper (\<sigma> j) t" using enabled le_Suc_ex by metis
  then obtain j where j: "i \<le> j" "act j = helper" using fair unfolding weakly_fair_def by blast
  then have "Q (\<sigma> (Suc j))" using helpful always le_Suc_ex run unfolding run_of_def by metis
  then show False using never [of "Suc j"] j(1) by simp
qed

end

definition running_at :: "owner_pc set \<Rightarrow> (worker \<Rightarrow> bool) \<Rightarrow> service \<Rightarrow> bool" where
  "running_at pcs workers s \<longleftrightarrow> svc_inv s \<and> phase s = PhaseRunning \<and> owner s \<in> pcs \<and> workers (worker_thread s)"

lemma svc_inv_any: "svc_inv s \<Longrightarrow> svc_step a s t \<Longrightarrow> svc_inv t"
  using svc_inv_step unfolding svc_any_def by blast

lemma with_inv: "running_at pcs workers s \<Longrightarrow> svc_step b s t \<Longrightarrow> (svc_inv t \<Longrightarrow> goal) \<Longrightarrow> goal"
  unfolding running_at_def using svc_inv_any by blast

interpretation joining: wf1 svc_step "running_at {StartJoin} joined" "running_at {StartSpawn} joined" Owner
proof
  fix s b t
  show "running_at {StartJoin} joined s \<Longrightarrow> svc_step b s t \<Longrightarrow>
      running_at {StartJoin} joined t \<or> running_at {StartSpawn} joined t"
    by (rule with_inv, assumption+, elim svc_step.cases)
      (auto simp: running_at_def JoinWorker_def joined_def split: worker.splits)
  show "running_at {StartJoin} joined s \<Longrightarrow> svc_step Owner s t \<Longrightarrow> running_at {StartSpawn} joined t"
    by (rule with_inv, assumption+, elim owner_stepE)
      (auto simp: running_at_def JoinWorker_def joined_def split: worker.splits)
  show "running_at {StartJoin} joined s \<Longrightarrow> \<exists>t. svc_step Owner s t"
    unfolding running_at_def joined_def JoinWorker_def
    using svc_step.start_join [of s] by (auto simp: JoinWorker_def)
qed

interpretation spawning: wf1 svc_step "running_at {StartSpawn} joined"
  "running_at {Outside, CancelJoin} (\<lambda>v. v = Checking)" Owner
proof
  fix s b t
  show "running_at {StartSpawn} joined s \<Longrightarrow> svc_step b s t \<Longrightarrow>
      running_at {StartSpawn} joined t \<or> running_at {Outside, CancelJoin} (\<lambda>v. v = Checking) t"
    by (rule with_inv, assumption+, elim svc_step.cases)
      (auto simp: running_at_def Spawn_def joined_def)
  show "running_at {StartSpawn} joined s \<Longrightarrow> svc_step Owner s t \<Longrightarrow>
      running_at {Outside, CancelJoin} (\<lambda>v. v = Checking) t"
    by (rule with_inv, assumption+, elim owner_stepE)
      (auto simp: running_at_def Spawn_def)
  show "running_at {StartSpawn} joined s \<Longrightarrow> \<exists>t. svc_step Owner s t"
    unfolding running_at_def using svc_step.start_spawn by blast
qed

lemmas service_ops = StartClaim_def JoinWorker_def TryTakeResult_def CancelRequest_def StoreResult_def

interpretation check_phase: wf1 svc_step "running_at {Outside, CancelJoin} (\<lambda>v. v = Checking)"
  "running_at {Outside, CancelJoin} (\<lambda>v. \<exists>r. v = Produced r)" Worker
proof
  fix s b t
  show "running_at {Outside, CancelJoin} (\<lambda>v. v = Checking) s \<Longrightarrow> svc_step b s t \<Longrightarrow>
      running_at {Outside, CancelJoin} (\<lambda>v. v = Checking) t \<or>
      running_at {Outside, CancelJoin} (\<lambda>v. \<exists>r. v = Produced r) t"
    by (rule with_inv, assumption+, elim svc_step.cases)
      (auto simp: running_at_def service_ops split: option.splits if_splits)
  show "running_at {Outside, CancelJoin} (\<lambda>v. v = Checking) s \<Longrightarrow> svc_step Worker s t \<Longrightarrow>
      running_at {Outside, CancelJoin} (\<lambda>v. \<exists>r. v = Produced r) t"
    by (rule with_inv, assumption+, elim worker_stepE) (auto simp: running_at_def)
  show "running_at {Outside, CancelJoin} (\<lambda>v. v = Checking) s \<Longrightarrow> \<exists>t. svc_step Worker s t"
    unfolding running_at_def using svc_step.check_returns by blast
qed

interpretation storing: wf1 svc_step "running_at {Outside, CancelJoin} (\<lambda>v. \<exists>r. v = Produced r)"
  "\<lambda>s. phase s = PhaseReady" Worker
proof
  fix s b t
  show "running_at {Outside, CancelJoin} (\<lambda>v. \<exists>r. v = Produced r) s \<Longrightarrow> svc_step b s t \<Longrightarrow>
      running_at {Outside, CancelJoin} (\<lambda>v. \<exists>r. v = Produced r) t \<or> phase t = PhaseReady"
    by (rule with_inv, assumption+, elim svc_step.cases)
      (auto simp: running_at_def service_ops split: option.splits if_splits)
  show "running_at {Outside, CancelJoin} (\<lambda>v. \<exists>r. v = Produced r) s \<Longrightarrow> svc_step Worker s t \<Longrightarrow> phase t = PhaseReady"
    unfolding running_at_def by (elim worker_stepE) (auto simp: StoreResult_def)
  show "running_at {Outside, CancelJoin} (\<lambda>v. \<exists>r. v = Produced r) s \<Longrightarrow> \<exists>t. svc_step Worker s t"
    unfolding running_at_def using svc_step.store by blast
qed

lemma run_reachable:
  assumes "run_of svc_step act \<sigma>" "svc_init (\<sigma> 0)"
  shows "reachable svc_init svc_any (\<sigma> i)"
proof (induction i)
  case 0
  show ?case using assms(2) by (rule reachable.start)
next
  case (Suc i)
  have "svc_any (\<sigma> i) (\<sigma> (Suc i))" using assms(1) unfolding run_of_def svc_any_def by blast
  with Suc show ?case by (rule reachable.move)
qed

text \<open>The four places where a running check can be.\<close>

lemma running_cases:
  assumes "svc_inv s" "phase s = PhaseRunning"
  shows "running_at {StartJoin} joined s \<or> running_at {StartSpawn} joined s \<or>
    running_at {Outside, CancelJoin} (\<lambda>v. v = Checking) s \<or>
    running_at {Outside, CancelJoin} (\<lambda>v. \<exists>r. v = Produced r) s"
  using assms by (cases "owner s"; cases "worker_thread s") (auto simp: running_at_def svc_inv_def joined_def)

lemma check_completes:
  assumes run: "run_of svc_step act \<sigma>" and fair: "weakly_fair svc_step act \<sigma>"
    and inv: "svc_inv (\<sigma> i)" and running: "phase (\<sigma> i) = PhaseRunning"
  shows "\<exists>j\<ge>i. phase (\<sigma> j) = PhaseReady"
proof -
  have stored: "\<exists>j\<ge>k. phase (\<sigma> j) = PhaseReady"
    if "running_at {Outside, CancelJoin} (\<lambda>v. \<exists>r. v = Produced r) (\<sigma> k)" for k
    using storing.leads_to [OF run fair that] .
  have checked: "\<exists>j\<ge>k. phase (\<sigma> j) = PhaseReady"
    if "running_at {Outside, CancelJoin} (\<lambda>v. v = Checking) (\<sigma> k)" for k
    using check_phase.leads_to [OF run fair that] stored order_trans by meson
  have spawned: "\<exists>j\<ge>k. phase (\<sigma> j) = PhaseReady" if "running_at {StartSpawn} joined (\<sigma> k)" for k
    using spawning.leads_to [OF run fair that] checked order_trans by meson
  have "\<exists>j\<ge>k. phase (\<sigma> j) = PhaseReady" if "running_at {StartJoin} joined (\<sigma> k)" for k
    using joining.leads_to [OF run fair that] spawned order_trans by meson
  then show ?thesis using running_cases [OF inv running] stored checked spawned by blast
qed


lemma one_run_fair: "weakly_fair svc_step one_actor one_run"
  unfolding weakly_fair_def
proof (intro allI impI)
  fix a i assume enabled: "\<forall>j\<ge>i. \<exists>t. svc_step a (one_run j) t"
  have "a = Owner"
  proof (rule ccontr)
    assume "a \<noteq> Owner"
    then have "a = Worker" by (cases a) auto
    then obtain t where "svc_step Worker (one_run (max i 6)) t" using enabled by (meson max.cobounded1)
    moreover have "worker_thread (one_run (max i 6)) = Returned"
      by (simp add: one_run_def one_check_def new_service_def Spawn_def StoreResult_def TryTakeResult_def Let_def)
    ultimately show False by (elim worker_stepE) auto
  qed
  then show "\<exists>j\<ge>i. one_actor j = a" by (intro exI [where x = "max i 6"]) (auto simp: one_actor_def max_def)
qed


end
