(* ===== verification/ZipArchive.thy ===== *)
theory ZipArchive
  imports Prelude
begin

text \<open>
  The archive of the diagnostics export, \<^verbatim>\<open>src/src/app/Diagnostics.cpp\<close>: CRC-32 with its table,
  the ZIP writer (method store) and the creation of the file. The format is stated independently, as a
  reader that starts from the end record, walks the central directory and checks every local header and
  every checksum; the writer and the reader form a \<open>codec\<close>.
\<close>

unbundle bit_operations_syntax

section \<open>CRC-32\<close>

text \<open>One step of the generation of the table, an entry, the table.\<close>

definition crc_bit :: "32 word \<Rightarrow> 32 word" where
  "crc_bit v = (if v AND 1 \<noteq> 0 then 0xEDB88320 XOR drop_bit 1 v else drop_bit 1 v)"

definition crc_entry :: "nat \<Rightarrow> 32 word" where
  "crc_entry index = (crc_bit ^^ 8) (of_nat index)"

definition crc_table :: "32 word list" where
  "crc_table = map crc_entry [0..<256]"

definition crc_update :: "32 word \<Rightarrow> char \<Rightarrow> 32 word" where
  "crc_update crc b = crc_table ! unat ((crc XOR of_char b) AND 0xFF) XOR drop_bit 8 crc"

definition Crc32 :: "string \<Rightarrow> 32 word" where
  "Crc32 bytes = foldl crc_update 0xFFFFFFFF bytes XOR 0xFFFFFFFF"

text \<open>
  The reference: a 32-bit shift register with the feedback of the IEEE polynomial, fed with the bits of
  the message, least significant bit of each byte first, preset to ones and complemented at the end.
\<close>

definition shift_register :: "32 word \<Rightarrow> bool \<Rightarrow> 32 word" where
  "shift_register r b = (if bit r 0 = b then drop_bit 1 r else drop_bit 1 r XOR 0xEDB88320)"

definition byte_bits :: "char \<Rightarrow> bool list" where
  "byte_bits c = map (bit (of_char c :: nat)) [0..<8]"

definition crc_reference :: "string \<Rightarrow> 32 word" where
  "crc_reference bytes = foldl shift_register 0xFFFFFFFF (concat (map byte_bits bytes)) XOR 0xFFFFFFFF"

text \<open>The step is linear, and shifts what does not reach the lowest bit.\<close>

lemma and_one_bit: "(v :: 'a::len word) AND 1 \<noteq> 0 \<longleftrightarrow> bit v 0"
  by (simp add: and_one_eq bit_0 odd_iff_mod_2_eq_one)

lemma crc_bit_xor: "crc_bit (a XOR b) = crc_bit a XOR crc_bit b"
  unfolding crc_bit_def and_one_bit bit_xor_iff
  by (simp add: ac_simps xor.left_commute)

lemma crc_bits_xor: "(crc_bit ^^ n) (a XOR b) = (crc_bit ^^ n) a XOR (crc_bit ^^ n) b"
  by (induction n arbitrary: a b) (simp_all add: funpow_Suc_right crc_bit_xor del: funpow.simps)

lemma crc_bit_even: "\<not> bit v 0 \<Longrightarrow> crc_bit v = drop_bit 1 v"
  by (simp add: crc_bit_def and_one_bit)

lemma crc_bits_high: "(\<And>i. i < n \<Longrightarrow> \<not> bit v i) \<Longrightarrow> (crc_bit ^^ n) v = drop_bit n v"
proof (induction n arbitrary: v)
  case (Suc n)
  have "crc_bit v = drop_bit 1 v" using Suc.prems [of 0] by (simp add: crc_bit_even)
  moreover have "(crc_bit ^^ n) (drop_bit 1 v) = drop_bit n (drop_bit 1 v)"
    by (rule Suc.IH) (use Suc.prems in \<open>simp add: bit_drop_bit_eq\<close>)
  ultimately show ?case by (simp add: funpow_Suc_right drop_bit_drop_bit del: funpow.simps)
qed simp

lemma shift_register_crc: "shift_register r b = crc_bit (r XOR of_bool b)"
proof -
  have "bit (r XOR of_bool b) 0 \<longleftrightarrow> bit r 0 \<noteq> b" by (cases b) (simp_all add: bit_xor_iff)
  moreover have "drop_bit 1 (r XOR of_bool b) = drop_bit 1 r" by (cases b) (simp_all add: drop_bit_xor)
  ultimately show ?thesis by (auto simp: shift_register_def crc_bit_def and_one_bit xor.commute)
qed

lemma bit_char: "bit (of_char c :: 32 word) i \<longleftrightarrow> i < 8 \<and> bit (of_char c :: nat) i"
proof -
  have "bit (of_char c :: 32 word) i \<longleftrightarrow> i < 32 \<and> bit (of_char c :: nat) i"
    using bit_of_nat_iff [where m = "of_char c" and n = i, where 'a = "32 word"] by (simp add: of_nat_of_char)
  moreover have "bit (of_char c :: nat) i \<longleftrightarrow> i < 8 \<and> bit (of_char c :: nat) i"
    using bit_take_bit_iff [of 8 "of_char c :: nat" i] by (simp add: take_bit_eq_mod)
  ultimately show ?thesis by auto
qed

text \<open>Eight bits at once: the table is indexed with the low byte, the rest is shifted.\<close>

lemma take_bit_Suc_xor:
  fixes w :: "32 word"
  shows "take_bit (Suc n) w = of_bool (bit w 0) XOR 2 * take_bit n (drop_bit 1 w)"
proof (rule bit_word_eqI)
  fix i assume "i < LENGTH(32)"
  then show "bit (take_bit (Suc n) w) i = bit (of_bool (bit w 0) XOR 2 * take_bit n (drop_bit 1 w)) i"
    by (cases i) (auto simp: bit_xor_iff bit_take_bit_iff bit_double_iff bit_of_bool_iff bit_drop_bit_eq)
qed

lemma shift_bits:
  fixes w :: "32 word"
  assumes "n \<le> 32"
  shows "foldl shift_register r (map (bit w) [0..<n]) = (crc_bit ^^ n) (r XOR take_bit n w)"
  using assms
proof (induction n arbitrary: r w)
  case (Suc n)
  have high: "crc_bit (2 * take_bit n (drop_bit 1 w)) = take_bit n (drop_bit 1 w)"
  proof (subst crc_bit_even)
    show "\<not> bit (2 * take_bit n (drop_bit 1 w)) 0" by (simp add: bit_double_iff)
    show "drop_bit 1 (2 * take_bit n (drop_bit 1 w)) = take_bit n (drop_bit 1 w)"
      using Suc.prems by (intro bit_word_eqI) (auto simp: bit_double_iff bit_take_bit_iff bit_drop_bit_eq)
  qed
  have "map (bit w) [0..<Suc n] = bit w 0 # map (bit (drop_bit 1 w)) [0..<n]"
    by (simp add: upt_conv_Cons map_Suc_upt [symmetric] bit_drop_bit_eq comp_def del: upt_Suc)
  then have "foldl shift_register r (map (bit w) [0..<Suc n]) =
      foldl shift_register (crc_bit (r XOR of_bool (bit w 0))) (map (bit (drop_bit 1 w)) [0..<n])"
    by (simp only: foldl.simps shift_register_crc)
  also have "\<dots> = (crc_bit ^^ n) (crc_bit (r XOR of_bool (bit w 0)) XOR take_bit n (drop_bit 1 w))"
    by (rule Suc.IH) (use Suc.prems in simp)
  also have "crc_bit (r XOR of_bool (bit w 0)) XOR take_bit n (drop_bit 1 w) = crc_bit (r XOR take_bit (Suc n) w)"
    unfolding take_bit_Suc_xor by (simp only: crc_bit_xor high xor.assoc)
  finally show ?case by (simp add: funpow_Suc_right del: funpow.simps)
qed simp

lemma crc_table_nth: "(v :: 32 word) < 256 \<Longrightarrow> crc_table ! unat v = (crc_bit ^^ 8) v"
  by (simp add: crc_table_def crc_entry_def word_less_nat_alt)

lemma crc_update_shift: "crc_update crc b = foldl shift_register crc (byte_bits b)"
proof -
  let ?x = "crc XOR of_char b" and ?m = "mask 8 :: 32 word"
  have m: "0xFF = ?m" by (simp add: mask_eq_exp_minus_1)
  have low: "take_bit 8 (of_char b :: 32 word) = of_char b"
    by (rule bit_word_eqI) (auto simp: bit_take_bit_iff bit_char)
  have "foldl shift_register crc (byte_bits b) = foldl shift_register crc (map (bit (of_char b :: 32 word)) [0..<8])"
    by (rule arg_cong [where f = "foldl shift_register crc"]) (simp add: byte_bits_def bit_char)
  also have "\<dots> = (crc_bit ^^ 8) ?x" by (simp only: shift_bits low)
  also have "?x = (?x AND ?m) XOR (?x AND NOT ?m)"
    by (rule bit_word_eqI) (auto simp: bit_xor_iff bit_and_iff bit_not_iff)
  also have "(crc_bit ^^ 8) \<dots> = (crc_bit ^^ 8) (?x AND ?m) XOR drop_bit 8 (?x AND NOT ?m)"
    unfolding crc_bits_xor by (subst (2) crc_bits_high) (auto simp: bit_and_iff bit_not_iff bit_mask_iff)
  also have "drop_bit 8 (?x AND NOT ?m) = drop_bit 8 crc"
    by (rule bit_word_eqI) (auto simp: bit_drop_bit_eq bit_and_iff bit_not_iff bit_mask_iff bit_xor_iff bit_char dest: bit_imp_le_length)
  also have "(crc_bit ^^ 8) (?x AND ?m) = crc_table ! unat (?x AND ?m)"
  proof (rule crc_table_nth [symmetric])
    have "?x AND ?m \<le> 0xFF" unfolding m by (rule word_and_le1)
    then show "?x AND ?m < 256" by (rule order.strict_trans1) simp
  qed
  finally show ?thesis by (simp add: crc_update_def m)
qed

lemma Crc32_reference: "Crc32 bytes = crc_reference bytes"
proof -
  have "foldl crc_update r bytes = foldl shift_register r (concat (map byte_bits bytes))" for r
    by (induction bytes arbitrary: r) (simp_all add: crc_update_shift)
  then show ?thesis by (simp add: Crc32_def crc_reference_def)
qed

section \<open>The writer\<close>

text \<open>\<^verbatim>\<open>static_cast<char>(value & 0xFF)\<close>, and the little-endian appends.\<close>

definition low_byte :: "'a::len word \<Rightarrow> char" where
  "low_byte v = char_of (unat (v AND 0xFF))"

definition PutU16 :: "string \<Rightarrow> 16 word \<Rightarrow> string" where
  "PutU16 out v = out @ [low_byte v, low_byte (drop_bit 8 v)]"

definition PutU32 :: "string \<Rightarrow> 32 word \<Rightarrow> string" where
  "PutU32 out v = out @ [low_byte v, low_byte (drop_bit 8 v), low_byte (drop_bit 16 v), low_byte (drop_bit 24 v)]"

record BundleEntry =
  bundle_name :: string
  bundle_content :: string

record zip_state =
  zip_archive :: string
  zip_directory :: string
  zip_offset :: "32 word"
  zip_count :: "16 word"

definition zip_start :: zip_state where
  "zip_start = \<lparr>zip_archive = [], zip_directory = [], zip_offset = 0, zip_count = 0\<rparr>"

definition has_dots :: "string \<Rightarrow> bool" where
  "has_dots s \<longleftrightarrow> list_ex (\<lambda>i. take 2 (drop i s) = ''..'') [0..<length s]"

definition entry_name_refused :: "string \<Rightarrow> bool" where
  "entry_name_refused s \<longleftrightarrow> s = [] \<or> 250 < length s \<or> CHR 0x5C \<in> set s \<or> has_dots s"

text \<open>The local header with name and content, and the record of the central directory.\<close>

definition PutLocal :: "string \<Rightarrow> 32 word \<Rightarrow> 32 word \<Rightarrow> 16 word \<Rightarrow> BundleEntry \<Rightarrow> string" where
  "PutLocal archive crc sz nameLength e =
     (let a1 = PutU32 archive 0x04034B50; a2 = PutU16 a1 20; a3 = PutU16 a2 (push_bit 11 1); a4 = PutU16 a3 0;
          a5 = PutU16 a4 0; a6 = PutU16 a5 0x21; a7 = PutU32 a6 crc; a8 = PutU32 a7 sz; a9 = PutU32 a8 sz;
          a10 = PutU16 a9 nameLength; a11 = PutU16 a10 0 in
      a11 @ bundle_name e @ bundle_content e)"

definition PutCentral :: "string \<Rightarrow> 32 word \<Rightarrow> 32 word \<Rightarrow> 16 word \<Rightarrow> 32 word \<Rightarrow> BundleEntry \<Rightarrow> string" where
  "PutCentral directory crc sz nameLength offset e =
     (let d1 = PutU32 directory 0x02014B50; d2 = PutU16 d1 20; d3 = PutU16 d2 20; d4 = PutU16 d3 (push_bit 11 1);
          d5 = PutU16 d4 0; d6 = PutU16 d5 0; d7 = PutU16 d6 0x21; d8 = PutU32 d7 crc; d9 = PutU32 d8 sz;
          d10 = PutU32 d9 sz; d11 = PutU16 d10 nameLength; d12 = PutU16 d11 0; d13 = PutU16 d12 0;
          d14 = PutU16 d13 0; d15 = PutU16 d14 0; d16 = PutU32 d15 0; d17 = PutU32 d16 offset in
      d17 @ bundle_name e)"

datatype zip_error = NothingToExport | BadEntryName | EntryTooLarge | AlreadyExistsOrRefused | ArchiveWriteFailed

definition AddEntry :: "BundleEntry \<Rightarrow> zip_state \<Rightarrow> zip_error + zip_state" where
  "AddEntry e s =
     (if entry_name_refused (bundle_name e) then Inl BadEntryName
      else if 0xFFFFFFFF < length (bundle_content e) then Inl EntryTooLarge
      else let crc = Crc32 (bundle_content e); sz = of_nat (length (bundle_content e));
               nameLength = of_nat (length (bundle_name e));
               archive = PutLocal (zip_archive s) crc sz nameLength e in
        Inr \<lparr>zip_archive = archive,
             zip_directory = PutCentral (zip_directory s) crc sz nameLength (zip_offset s) e,
             zip_offset = of_nat (length archive), zip_count = zip_count s + 1\<rparr>)"

fun AddEntries :: "BundleEntry list \<Rightarrow> zip_state \<Rightarrow> zip_error + zip_state" where
  "AddEntries [] s = Inr s"
| "AddEntries (e # es) s = (case AddEntry e s of Inl err \<Rightarrow> Inl err | Inr t \<Rightarrow> AddEntries es t)"

text \<open>The directory behind the entries, and the end record.\<close>

definition FinishArchive :: "zip_state \<Rightarrow> string" where
  "FinishArchive s =
     (let directoryOffset = of_nat (length (zip_archive s)); a0 = zip_archive s @ zip_directory s;
          a1 = PutU32 a0 0x06054B50; a2 = PutU16 a1 0; a3 = PutU16 a2 0; a4 = PutU16 a3 (zip_count s);
          a5 = PutU16 a4 (zip_count s); a6 = PutU32 a5 (of_nat (length (zip_directory s)));
          a7 = PutU32 a6 directoryOffset in
      PutU16 a7 0)"

definition BuildArchive :: "BundleEntry list \<Rightarrow> zip_error + string" where
  "BuildArchive entries =
     (if entries = [] then Inl NothingToExport
      else case AddEntries entries zip_start of Inl err \<Rightarrow> Inl err | Inr s \<Rightarrow> Inr (FinishArchive s))"

text \<open>
  What the system answers: whether \<^verbatim>\<open>CREATE_NEW\<close> succeeds on a path that is free, the outcomes of the
  successive \<^verbatim>\<open>WriteFile\<close> calls (\<open>None\<close> for a failure, else the bytes written), the flush, the deletion.
\<close>

record zip_os =
  create_ok :: bool
  write_counts :: "nat option list"
  flush_ok :: bool
  delete_ok :: bool

fun WriteAll :: "nat option list \<Rightarrow> string \<Rightarrow> string \<Rightarrow> bool \<times> string" where
  "WriteAll rs [] content = (True, content)"
| "WriteAll [] data content = (False, content)"
| "WriteAll (None # rs) data content = (False, content)"
| "WriteAll (Some n # rs) data content =
     (if n = 0 then (False, content) else WriteAll rs (drop n data) (content @ take n data))"

text \<open>The file at the path before and after: \<open>None\<close> when there is none.\<close>

definition WriteZipArchive ::
  "zip_os \<Rightarrow> string option \<Rightarrow> BundleEntry list \<Rightarrow> (zip_error + unit) \<times> string option" where
  "WriteZipArchive os before entries =
     (case BuildArchive entries of
        Inl err \<Rightarrow> (Inl err, before)
      | Inr archive \<Rightarrow>
          if before \<noteq> None \<or> \<not> create_ok os then (Inl AlreadyExistsOrRefused, before)
          else (case WriteAll (write_counts os) archive [] of
                  (wrote, content) \<Rightarrow>
                    if wrote \<and> flush_ok os then (Inr (), Some content)
                    else (Inl ArchiveWriteFailed, if delete_ok os then None else Some content)))"

section \<open>The format\<close>

text \<open>Little-endian numbers, and the fields of a file.\<close>

fun le_bytes :: "nat \<Rightarrow> nat \<Rightarrow> string" where
  "le_bytes 0 v = []"
| "le_bytes (Suc n) v = char_of (v mod 256) # le_bytes n (v div 256)"

fun le_value :: "string \<Rightarrow> nat" where
  "le_value [] = 0"
| "le_value (c # cs) = of_char c + 256 * le_value cs"

declare le_bytes.simps [simp del] le_value.simps [simp del]

definition le_field :: "string \<Rightarrow> nat \<Rightarrow> nat \<Rightarrow> nat" where
  "le_field s pos n = le_value (take n (drop pos s))"

text \<open>
  A reader of the format: the end record in the last 22 bytes (no comment) gives the number of entries
  and the place of the central directory; each of its records gives a local header, whose name, size and
  checksum (by the shift register) must agree; the directory ends where the end record begins.
\<close>

definition read_end :: "string \<Rightarrow> (nat \<times> nat \<times> nat) option" where
  "read_end s =
     (let e = length s - 22 in
      if length s < 22 \<or> le_field s e 4 \<noteq> 0x06054B50 \<or> le_field s (e + 20) 2 \<noteq> 0 then None
      else Some (le_field s (e + 10) 2, le_field s (e + 12) 4, le_field s (e + 16) 4))"

definition read_local :: "string \<Rightarrow> nat \<Rightarrow> string \<Rightarrow> nat \<Rightarrow> nat \<Rightarrow> string option" where
  "read_local s pos name sz crc =
     (let n = le_field s (pos + 26) 2; x = le_field s (pos + 28) 2;
          content = take sz (drop (pos + 30 + n + x) s) in
      if le_field s pos 4 \<noteq> 0x04034B50 \<or> le_field s (pos + 8) 2 \<noteq> 0 \<or>
         take n (drop (pos + 30) s) \<noteq> name \<or> length content \<noteq> sz \<or> unat (crc_reference content) \<noteq> crc
      then None else Some content)"

fun read_entries :: "string \<Rightarrow> nat \<Rightarrow> nat \<Rightarrow> (BundleEntry list \<times> nat) option" where
  "read_entries s 0 pos = Some ([], pos)"
| "read_entries s (Suc k) pos =
     (if le_field s pos 4 \<noteq> 0x02014B50 \<or> le_field s (pos + 10) 2 \<noteq> 0 \<or>
         le_field s (pos + 20) 4 \<noteq> le_field s (pos + 24) 4 then None
      else let n = le_field s (pos + 28) 2; name = take n (drop (pos + 46) s);
               next = pos + 46 + n + le_field s (pos + 30) 2 + le_field s (pos + 32) 2 in
        (case read_local s (le_field s (pos + 42) 4) name (le_field s (pos + 24) 4) (le_field s (pos + 16) 4) of
           None \<Rightarrow> None
         | Some content \<Rightarrow>
             (case read_entries s k next of
                None \<Rightarrow> None
              | Some (es, p) \<Rightarrow> Some (\<lparr>bundle_name = name, bundle_content = content\<rparr> # es, p))))"

definition read_zip :: "string \<Rightarrow> BundleEntry list option" where
  "read_zip s =
     (case read_end s of
        None \<Rightarrow> None
      | Some (k, sz, pos) \<Rightarrow>
          (case read_entries s k pos of
             Some (es, p) \<Rightarrow> if p = pos + sz \<and> p = length s - 22 then Some es else None
           | None \<Rightarrow> None))"

section \<open>What the writer writes\<close>

lemma length_le_bytes [simp]: "length (le_bytes n v) = n"
  by (induction n arbitrary: v) (simp_all add: le_bytes.simps)

lemma le_value_bytes: "le_value (le_bytes n v) = v mod 256 ^ n"
proof (induction n arbitrary: v)
  case (Suc n)
  then show ?case using mod_mult2_eq [of v 256 "256 ^ n"] by (simp add: le_bytes.simps le_value.simps)
qed (simp add: le_bytes.simps le_value.simps)

lemma le_bytes_mod: "le_bytes n (v mod 256 ^ n) = le_bytes n v"
proof (induction n arbitrary: v)
  case (Suc n)
  have "v mod 256 ^ Suc n div 256 = v div 256 mod 256 ^ n"
    using mod_mult2_eq [of v 256 "256 ^ n"] by simp
  moreover have "v mod 256 ^ Suc n mod 256 = v mod 256" by (simp add: mod_mod_cancel)
  ultimately show ?case using Suc [of "v div 256"] by (simp only: le_bytes.simps)
qed (simp add: le_bytes.simps)

lemma le_field_skip: "length x \<le> k \<Longrightarrow> le_field (x @ r) k n = le_field r (k - length x) n"
  by (simp add: le_field_def)

lemma le_field_after: "le_field (p @ r) (length p + k) n = le_field r k n" "le_field (p @ r) (length p) n = le_field r 0 n"
  by (simp_all add: le_field_def)

lemma le_field_here: "le_field (le_bytes n v @ r) 0 n = v mod 256 ^ n"
  by (simp add: le_field_def le_value_bytes)

lemma low_byte_char: "low_byte v = char_of (unat v)"
proof -
  have "v AND 0xFF = take_bit 8 v" by (simp add: take_bit_eq_mask mask_eq_exp_minus_1)
  then have "unat (v AND 0xFF) = take_bit 8 (unat v)" by (simp only: unsigned_take_bit_eq)
  then show ?thesis by (simp add: low_byte_def take_bit_eq_mod)
qed

lemma low_byte_shifted: "low_byte (drop_bit n v) = char_of (unat v div 2 ^ n)"
  unfolding low_byte_char unat_drop_bit_eq by (simp only: drop_bit_eq_div)

lemma le_bytes_2: "le_bytes 2 v = [char_of v, char_of (v div 256)]"
  by (simp add: numeral_2_eq_2 le_bytes.simps)

lemma le_bytes_4: "le_bytes 4 v = [char_of v, char_of (v div 256), char_of (v div 65536), char_of (v div 16777216)]"
proof -
  have "(4 :: nat) = Suc (Suc (Suc (Suc 0)))" by simp
  then show ?thesis by (simp only: le_bytes.simps) (simp add: div_mult2_eq [symmetric])
qed

lemma PutU16_bytes: "PutU16 out v = out @ le_bytes 2 (unat v)"
  unfolding PutU16_def low_byte_shifted le_bytes_2 low_byte_char [of v] by simp

lemma PutU32_bytes: "PutU32 out v = out @ le_bytes 4 (unat v)"
  unfolding PutU32_def low_byte_shifted le_bytes_4 low_byte_char [of v] by simp

definition local_bytes :: "BundleEntry \<Rightarrow> string" where
  "local_bytes e =
     le_bytes 4 0x04034B50 @ le_bytes 2 20 @ le_bytes 2 2048 @ le_bytes 2 0 @ le_bytes 2 0 @ le_bytes 2 0x21 @
     le_bytes 4 (unat (Crc32 (bundle_content e))) @ le_bytes 4 (length (bundle_content e)) @
     le_bytes 4 (length (bundle_content e)) @ le_bytes 2 (length (bundle_name e)) @ le_bytes 2 0 @
     bundle_name e @ bundle_content e"

definition central_bytes :: "nat \<Rightarrow> BundleEntry \<Rightarrow> string" where
  "central_bytes pos e =
     le_bytes 4 0x02014B50 @ le_bytes 2 20 @ le_bytes 2 20 @ le_bytes 2 2048 @ le_bytes 2 0 @ le_bytes 2 0 @
     le_bytes 2 0x21 @ le_bytes 4 (unat (Crc32 (bundle_content e))) @ le_bytes 4 (length (bundle_content e)) @
     le_bytes 4 (length (bundle_content e)) @ le_bytes 2 (length (bundle_name e)) @ le_bytes 2 0 @ le_bytes 2 0 @
     le_bytes 2 0 @ le_bytes 2 0 @ le_bytes 4 0 @ le_bytes 4 pos @ bundle_name e"

lemma le_bytes_of_nat:
  "le_bytes 4 (unat (of_nat n :: 32 word)) = le_bytes 4 n" "le_bytes 2 (unat (of_nat n :: 16 word)) = le_bytes 2 n"
  using le_bytes_mod [of 4 n] le_bytes_mod [of 2 n] by (simp_all add: unat_of_nat)

lemma PutLocal_bytes:
  "PutLocal a (Crc32 (bundle_content e)) (of_nat (length (bundle_content e))) (of_nat (length (bundle_name e))) e =
     a @ local_bytes e"
  by (simp add: PutLocal_def PutU16_bytes PutU32_bytes local_bytes_def le_bytes_of_nat)

lemma PutCentral_bytes:
  "PutCentral d (Crc32 (bundle_content e)) (of_nat (length (bundle_content e))) (of_nat (length (bundle_name e)))
     (of_nat pos) e = d @ central_bytes pos e"
  by (simp add: PutCentral_def PutU16_bytes PutU32_bytes central_bytes_def le_bytes_of_nat)

fun centrals :: "nat \<Rightarrow> BundleEntry list \<Rightarrow> string" where
  "centrals pos [] = []"
| "centrals pos (e # es) = central_bytes pos e @ centrals (pos + length (local_bytes e)) es"

definition locals :: "BundleEntry list \<Rightarrow> string" where
  "locals es = concat (map local_bytes es)"

lemma locals_simps [simp]: "locals [] = []" "locals (e # es) = local_bytes e @ locals es"
  by (simp_all add: locals_def)

definition end_bytes :: "nat \<Rightarrow> nat \<Rightarrow> nat \<Rightarrow> string" where
  "end_bytes k sz pos =
     le_bytes 4 0x06054B50 @ le_bytes 2 0 @ le_bytes 2 0 @ le_bytes 2 k @ le_bytes 2 k @ le_bytes 4 sz @
     le_bytes 4 pos @ le_bytes 2 0"

definition entry_accepted :: "BundleEntry \<Rightarrow> bool" where
  "entry_accepted e \<longleftrightarrow> \<not> entry_name_refused (bundle_name e) \<and> length (bundle_content e) \<le> 0xFFFFFFFF"

lemma AddEntry_run:
  assumes "zip_offset s = of_nat (length (zip_archive s))"
  shows "AddEntry e s =
     (if entry_accepted e
      then Inr \<lparr>zip_archive = zip_archive s @ local_bytes e,
                zip_directory = zip_directory s @ central_bytes (length (zip_archive s)) e,
                zip_offset = of_nat (length (zip_archive s @ local_bytes e)), zip_count = zip_count s + 1\<rparr>
      else Inl (if entry_name_refused (bundle_name e) then BadEntryName else EntryTooLarge))"
  unfolding AddEntry_def Let_def assms PutLocal_bytes PutCentral_bytes by (simp add: entry_accepted_def)

lemma AddEntries_run:
  assumes "zip_offset s = of_nat (length (zip_archive s))" "AddEntries es s = Inr t"
  shows "list_all entry_accepted es \<and> zip_archive t = zip_archive s @ locals es \<and>
    zip_directory t = zip_directory s @ centrals (length (zip_archive s)) es \<and>
    zip_count t = zip_count s + of_nat (length es)"
  using assms
proof (induction es arbitrary: s)
  case (Cons e es)
  from Cons.prems(2) have ok: "entry_accepted e" by (auto simp: AddEntry_run [OF Cons.prems(1)] split: if_splits)
  from Cons.prems(2) ok show ?case
    by (auto simp: AddEntry_run [OF Cons.prems(1)] dest!: Cons.IH [rotated])
qed simp

lemma FinishArchive_bytes:
  "FinishArchive s = zip_archive s @ zip_directory s @
     end_bytes (unat (zip_count s)) (length (zip_directory s)) (length (zip_archive s))"
  by (simp add: FinishArchive_def end_bytes_def PutU16_bytes PutU32_bytes le_bytes_of_nat)

lemma BuildArchive_bytes:
  assumes "BuildArchive es = Inr s"
  shows "es \<noteq> [] \<and> list_all entry_accepted es \<and>
    s = locals es @ centrals 0 es @ end_bytes (length es mod 2 ^ 16) (length (centrals 0 es)) (length (locals es))"
proof -
  from assms obtain t where t: "es \<noteq> []" "AddEntries es zip_start = Inr t" "s = FinishArchive t"
    by (auto simp: BuildArchive_def split: if_splits sum.splits)
  have "zip_offset zip_start = of_nat (length (zip_archive zip_start))" by (simp add: zip_start_def)
  from AddEntries_run [OF this t(2)] t show ?thesis
    by (simp add: zip_start_def FinishArchive_bytes unat_of_nat)
qed

section \<open>The reader reads what the writer wrote\<close>

lemma accepted_bounds:
  "entry_accepted e \<Longrightarrow> length (bundle_name e) < 65536 \<and> length (bundle_content e) < 4294967296"
  by (auto simp: entry_accepted_def entry_name_refused_def)

lemma unat_crc: "unat (Crc32 s) < 4294967296"
proof -
  have "unat (Crc32 s) < 2 ^ LENGTH(32)" by (rule unsigned_less)
  then show ?thesis by simp
qed

lemmas le_fields = le_field_after le_field_skip le_field_here le_field_here [where r = "[]", simplified]

lemma read_local_bytes:
  assumes "entry_accepted e" "s = p @ local_bytes e @ q"
  shows "read_local s (length p) (bundle_name e) (length (bundle_content e)) (unat (Crc32 (bundle_content e))) =
    Some (bundle_content e)"
  using accepted_bounds [OF assms(1)]
  by (simp add: read_local_def assms(2) local_bytes_def le_fields Let_def flip: Crc32_reference)

lemma read_central_bytes:
  assumes e: "entry_accepted e" "pos < 2 ^ 32" and s: "s = p @ central_bytes pos e @ q"
  shows "read_entries s (Suc k) (length p) =
    (case read_local s pos (bundle_name e) (length (bundle_content e)) (unat (Crc32 (bundle_content e))) of
       None \<Rightarrow> None
     | Some content \<Rightarrow>
         (case read_entries s k (length p + (46 + length (bundle_name e))) of
            None \<Rightarrow> None
          | Some (es, r) \<Rightarrow> Some (\<lparr>bundle_name = bundle_name e, bundle_content = content\<rparr> # es, r)))"
proof -
  let ?n = "length (bundle_name e)" and ?m = "length (bundle_content e)"
  have fields: "le_field s (length p) 4 = 0x02014B50" "le_field s (length p + 10) 2 = 0"
    "le_field s (length p + 16) 4 = unat (Crc32 (bundle_content e))" "le_field s (length p + 20) 4 = ?m"
    "le_field s (length p + 24) 4 = ?m" "le_field s (length p + 28) 2 = ?n" "le_field s (length p + 30) 2 = 0"
    "le_field s (length p + 32) 2 = 0" "le_field s (length p + 42) 4 = pos"
    "take ?n (drop (length p + 46) s) = bundle_name e"
    using accepted_bounds [OF e(1)] e(2) unat_crc [of "bundle_content e"]
    by (simp_all add: s central_bytes_def le_fields)
  show ?thesis by (simp add: fields Let_def add.assoc cong: option.case_cong)
qed

lemma length_central [simp]: "length (central_bytes pos e) = 46 + length (bundle_name e)"
  by (simp add: central_bytes_def)

lemma read_entries_bytes:
  assumes "list_all entry_accepted es" "s = p @ locals es @ q" "s = p' @ centrals (length p) es @ q'"
    "length p + length (locals es) < 2 ^ 32"
  shows "read_entries s (length es) (length p') = Some (es, length p' + length (centrals (length p) es))"
  using assms
proof (induction es arbitrary: p p')
  case (Cons e es)
  let ?pos = "length p" and ?p = "p @ local_bytes e" and ?p' = "p' @ central_bytes (length p) e"
  have e: "entry_accepted e" and es: "list_all entry_accepted es" using Cons.prems(1) by simp_all
  have loc: "read_local s ?pos (bundle_name e) (length (bundle_content e)) (unat (Crc32 (bundle_content e))) =
      Some (bundle_content e)"
    using read_local_bytes [OF e] Cons.prems(2) by simp
  have rest: "read_entries s (length es) (length ?p') = Some (es, length ?p' + length (centrals (length ?p) es))"
    by (rule Cons.IH [OF es]) (use Cons.prems in simp_all)
  have "?pos < 2 ^ 32" using Cons.prems(4) by simp
  from read_central_bytes [OF e this, of s p' "centrals (length ?p) es @ q'" "length es"] Cons.prems(3) loc rest
  show ?case by simp
qed simp

lemma read_zip_bytes:
  assumes accepted: "list_all entry_accepted es" and few: "length es < 2 ^ 16"
    and s: "s = locals es @ centrals 0 es @ end_bytes (length es) (length (centrals 0 es)) (length (locals es))"
    and small: "length s < 2 ^ 32"
  shows "read_zip s = Some es"
proof -
  let ?l = "length (locals es)" and ?c = "length (centrals 0 es)"
  have e: "s = (locals es @ centrals 0 es) @ end_bytes (length es) ?c ?l" using s by simp
  have pos: "length s - 22 = length (locals es @ centrals 0 es)" by (simp add: s end_bytes_def)
  have bounds: "?l < 4294967296" "?c < 4294967296" using small by (simp_all add: s)
  have "read_end s = Some (length es, ?c, ?l)"
    using few bounds unfolding read_end_def pos Let_def
    by (subst (1 2 3 4 5 6) e) (simp add: end_bytes_def le_fields)
  moreover have "read_entries s (length es) ?l = Some (es, ?l + ?c)"
    using read_entries_bytes [of es s "[]" _ "locals es"] accepted s bounds by simp
  ultimately show ?thesis using pos by (simp add: read_zip_def)
qed

definition archive_bytes :: "BundleEntry list \<Rightarrow> string" where
  "archive_bytes es = (case BuildArchive es of Inl _ \<Rightarrow> [] | Inr s \<Rightarrow> s)"

definition archive_ok :: "BundleEntry list \<Rightarrow> bool" where
  "archive_ok es \<longleftrightarrow> (case BuildArchive es of Inl _ \<Rightarrow> False | Inr s \<Rightarrow> length s < 2 ^ 32 \<and> length es < 2 ^ 16)"

interpretation zip_file: codec archive_bytes read_zip archive_ok
proof
  fix es assume "archive_ok es"
  then obtain s where s: "BuildArchive es = Inr s" "length s < 2 ^ 32" "length es < 2 ^ 16"
    by (auto simp: archive_ok_def split: sum.splits)
  from BuildArchive_bytes [OF s(1)] s show "read_zip (archive_bytes es) = Some es"
    by (auto simp: archive_bytes_def intro: read_zip_bytes)
qed

lemma AddEntries_error: "AddEntries es s = Inl err \<Longrightarrow> err = BadEntryName \<or> err = EntryTooLarge"
  by (induction es arbitrary: s) (auto simp: AddEntry_def Let_def split: sum.splits if_splits)

lemma WriteAll_True: "WriteAll rs data content = (True, final) \<Longrightarrow> final = content @ data"
  by (induction rs data content rule: WriteAll.induct) (auto split: if_splits)

lemma BuildArchive_ok: "BuildArchive es = Inr s \<Longrightarrow> archive_bytes es = s \<and>
    (archive_ok es \<longleftrightarrow> length s < 2 ^ 32 \<and> length es < 2 ^ 16)"
  by (simp add: archive_bytes_def archive_ok_def)

text \<open>
  C10. The exported archive is a correct ZIP file and never replaces another one. When \<^verbatim>\<open>WriteZipArchive\<close>
  reports success, nothing was at the path before, and a reader of the format (end record, central
  directory, local headers, checksums) gets exactly the entries back, as long as the file stays below
  four gigabytes and 65536 entries; when it fails, the path is as it was before, unless the half-written
  file could not be deleted.
\<close>

theorem WriteZipArchive_correct:
  "case WriteZipArchive os before entries of
     (Inr _, after) \<Rightarrow>
       before = None \<and>
       (case after of
          None \<Rightarrow> False
        | Some content \<Rightarrow>
            if length content < 2 ^ 32 \<and> length entries < 2 ^ 16 then read_zip content = Some entries else True)
   | (Inl err, after) \<Rightarrow>
       if err = ArchiveWriteFailed then before = None \<and> (if delete_ok os then after = None else True)
       else after = before"
proof (cases "BuildArchive entries")
  case (Inl err)
  then have "err \<noteq> ArchiveWriteFailed"
    by (auto simp: BuildArchive_def split: if_splits sum.splits dest!: AddEntries_error)
  with Inl show ?thesis by (simp add: WriteZipArchive_def)
next
  case (Inr archive)
  obtain wrote content where w: "WriteAll (write_counts os) archive [] = (wrote, content)" by force
  have "wrote \<Longrightarrow> content = archive" using WriteAll_True [of _ archive "[]"] w by simp
  then show ?thesis
    using BuildArchive_ok [OF Inr] zip_file.decode_encode [of entries] w by (auto simp: WriteZipArchive_def Inr)
qed

end
