(* ===== verification/Redaction.thy ===== *)
theory Redaction
  imports StringUtil FileRead
begin

text \<open>
  What leaves the machine in the diagnostics export: the redaction of \<^verbatim>\<open>src/src/app/Diagnostics.cpp\<close>
  (names, the profile, directories below \<^verbatim>\<open>\Users\\<close>, addresses, token-like strings) and the bounded
  log tail. \<^verbatim>\<open>towlower\<close> is the ASCII folding of the C locale, which the program never leaves; whether a
  text is an IPv6 address is the answer of \<^verbatim>\<open>InetPtonW\<close>, a parameter. The locale \<open>rewriter\<close> is the
  contract of the last two passes.
\<close>

section \<open>Replacing\<close>

definition kRedactedUser :: wstring where
  "kRedactedUser = [0x3C, 0x41F, 0x41E, 0x41B, 0x42C, 0x417, 0x41E, 0x412, 0x410, 0x422, 0x415, 0x41B, 0x42C, 0x3E]"

definition kRedactedMachine :: wstring where
  "kRedactedMachine = [0x3C, 0x41A, 0x41E, 0x41C, 0x41F, 0x42C, 0x42E, 0x422, 0x415, 0x420, 0x3E]"

definition kRedactedPath :: wstring where
  "kRedactedPath = [0x3C, 0x41F, 0x420, 0x41E, 0x424, 0x418, 0x41B, 0x42C, 0x3E]"

definition kRedactedAddress :: wstring where
  "kRedactedAddress = [0x3C, 0x410, 0x414, 0x420, 0x415, 0x421, 0x3E]"

definition kRedactedSecret :: wstring where
  "kRedactedSecret = [0x3C, 0x421, 0x41A, 0x420, 0x42B, 0x422, 0x41E, 0x3E]"

text \<open>\<^verbatim>\<open>IEqualsAt\<close>, on what follows the position.\<close>

definition IEqualsAt :: "wstring \<Rightarrow> wstring \<Rightarrow> bool" where
  "IEqualsAt rest needle \<longleftrightarrow>
     needle \<noteq> [] \<and> length needle \<le> length rest \<and>
     map lower_wchar (take (length needle) rest) = map lower_wchar needle"

function ReplaceAll_loop :: "wstring \<Rightarrow> wstring \<Rightarrow> wstring \<Rightarrow> wstring" where
  "ReplaceAll_loop needle replacement [] = []"
| "ReplaceAll_loop needle replacement (c # cs) =
     (if IEqualsAt (c # cs) needle
      then replacement @ ReplaceAll_loop needle replacement (drop (length needle) (c # cs))
      else c # ReplaceAll_loop needle replacement cs)"
  by pat_completeness auto
termination
  by (relation "measure (\<lambda>(needle, replacement, text). length text)") (auto simp: IEqualsAt_def)

definition ReplaceAllNoCase :: "wstring \<Rightarrow> wstring \<Rightarrow> wstring \<Rightarrow> wstring" where
  "ReplaceAllNoCase needle replacement text = (if needle = [] then text else ReplaceAll_loop needle replacement text)"

section \<open>Profile directories\<close>

definition users_marker :: wstring where
  "users_marker = W (CHR 0x5C # ''users'' @ [CHR 0x5C])"

definition Users_prefix :: wstring where
  "Users_prefix = W (CHR 0x5C # ''Users'' @ [CHR 0x5C])"

definition name_end :: "wchar \<Rightarrow> bool" where
  "name_end c \<longleftrightarrow> c = 0x5C \<or> c = 0x2F \<or> c = 0x22 \<or> c = 0x20"

function HideUsers :: "wstring \<Rightarrow> wstring" where
  "HideUsers [] = []"
| "HideUsers (c # cs) =
     (if IEqualsAt (c # cs) users_marker
      then Users_prefix @ kRedactedUser @
        HideUsers (dropWhile (\<lambda>x. \<not> name_end x) (drop (length users_marker) (c # cs)))
      else c # HideUsers cs)"
  by pat_completeness auto
termination
proof (relation "measure length")
  fix c :: wchar and cs
  show "(dropWhile (\<lambda>x. \<not> name_end x) (drop (length users_marker) (c # cs)), c # cs) \<in> measure length"
    using length_dropWhile_le [of "\<lambda>x. \<not> name_end x" "drop (length users_marker) (c # cs)"]
    by (simp add: users_marker_def)
qed auto

section \<open>Addresses\<close>

definition IsDigitW :: "wchar \<Rightarrow> bool" where
  "IsDigitW c \<longleftrightarrow> 0x30 \<le> c \<and> c \<le> 0x39"

definition IsHexDigitW :: "wchar \<Rightarrow> bool" where
  "IsHexDigitW c \<longleftrightarrow> IsDigitW c \<or> (0x61 \<le> c \<and> c \<le> 0x66) \<or> (0x41 \<le> c \<and> c \<le> 0x46)"

definition IsLetterW :: "wchar \<Rightarrow> bool" where
  "IsLetterW c \<longleftrightarrow> (0x61 \<le> c \<and> c \<le> 0x7A) \<or> (0x41 \<le> c \<and> c \<le> 0x5A)"

definition octet_value :: "wstring \<Rightarrow> nat" where
  "octet_value ds = foldl (\<lambda>v c. v * 10 + unat (c - 0x30)) 0 ds"

text \<open>At most three digits; \<open>None\<close> for \<^verbatim>\<open>false\<close>.\<close>

definition ReadIpv4Octet :: "wstring \<Rightarrow> wstring option" where
  "ReadIpv4Octet text =
     (let ds = takeWhile IsDigitW (take 3 text) in
      if ds \<noteq> [] \<and> octet_value ds \<le> 255 then Some (drop (length ds) text) else None)"

definition ReadDot :: "wstring \<Rightarrow> wstring option" where
  "ReadDot text = (case text of [] \<Rightarrow> None | c # cs \<Rightarrow> if c = 0x2E then Some cs else None)"

fun Ipv4_loop :: "nat \<Rightarrow> wstring \<Rightarrow> wstring option" where
  "Ipv4_loop 0 text = Some text"
| "Ipv4_loop (Suc k) text =
     (case ReadDot text of
        None \<Rightarrow> None
      | Some rest \<Rightarrow> (case ReadIpv4Octet rest of None \<Rightarrow> None | Some rest' \<Rightarrow> Ipv4_loop k rest'))"

definition ReadIpv4 :: "wstring \<Rightarrow> wstring option" where
  "ReadIpv4 text = (case ReadIpv4Octet text of None \<Rightarrow> None | Some rest \<Rightarrow> Ipv4_loop 3 rest)"

definition digit_or_dot :: "wchar \<Rightarrow> bool" where
  "digit_or_dot c \<longleftrightarrow> IsDigitW c \<or> c = 0x2E"

definition head_is :: "(wchar \<Rightarrow> bool) \<Rightarrow> wstring \<Rightarrow> bool" where
  "head_is p text \<longleftrightarrow> (case text of [] \<Rightarrow> False | c # _ \<Rightarrow> p c)"

definition prev_is :: "(wchar \<Rightarrow> bool) \<Rightarrow> wchar option \<Rightarrow> bool" where
  "prev_is p prev \<longleftrightarrow> (case prev of None \<Rightarrow> False | Some c \<Rightarrow> p c)"

definition Ipv4At :: "wchar option \<Rightarrow> wstring \<Rightarrow> wstring option" where
  "Ipv4At prev text =
     (case ReadIpv4 text of
        None \<Rightarrow> None
      | Some rest \<Rightarrow> if prev_is digit_or_dot prev \<or> head_is digit_or_dot rest then None else Some rest)"

definition addressChar :: "wchar \<Rightarrow> bool" where
  "addressChar c \<longleftrightarrow> IsDigitW c \<or> IsLetterW c \<or> c = 0x3A \<or> c = 0x2E \<or> c = 0x25 \<or> c = 0x5F \<or> c = 0x2D"

definition Ipv6At :: "(wstring \<Rightarrow> bool) \<Rightarrow> wchar option \<Rightarrow> wstring \<Rightarrow> wstring option" where
  "Ipv6At inet_pton prev text =
     (if \<not> head_is (\<lambda>c. c = 0x3A \<or> IsHexDigitW c) text \<or> prev_is addressChar prev then None
      else case split_at 0x25 (takeWhile addressChar text) of
             (address, scope) \<Rightarrow>
               if (case scope of None \<Rightarrow> True | Some s \<Rightarrow> s \<noteq> [] \<and> 0x25 \<notin> set s) \<and>
                  0x3A \<in> set address \<and> inet_pton address
               then Some (dropWhile addressChar text) else None)"

lemma ReadIpv4Octet_shorter: "ReadIpv4Octet text = Some rest \<Longrightarrow> length rest < length text"
  by (cases "text") (auto simp: ReadIpv4Octet_def Let_def split: if_splits)

lemma ReadDot_shorter: "ReadDot text = Some rest \<Longrightarrow> length rest < length text"
  by (auto simp: ReadDot_def split: list.splits if_splits)

lemma Ipv4_loop_no_growth: "Ipv4_loop k text = Some rest \<Longrightarrow> length rest \<le> length text"
  by (induction k arbitrary: "text")
    (auto split: option.splits dest!: ReadDot_shorter ReadIpv4Octet_shorter, fastforce)

lemma Ipv4At_shorter: "Ipv4At prev text = Some rest \<Longrightarrow> length rest < length text"
  by (auto simp: Ipv4At_def ReadIpv4_def split: option.splits if_splits
      dest!: Ipv4_loop_no_growth ReadIpv4Octet_shorter)

lemma hex_address_char: "c = 0x3A \<or> IsHexDigitW c \<Longrightarrow> addressChar c"
  by (auto simp: IsHexDigitW_def addressChar_def IsLetterW_def intro: order.trans)

lemma Ipv6At_shorter: "Ipv6At p prev text = Some rest \<Longrightarrow> length rest < length text"
  using length_dropWhile_le [of addressChar "tl text"]
  by (cases "text") (auto simp: Ipv6At_def head_is_def hex_address_char split: if_splits prod.splits)

text \<open>The scan: what was read before the position, and what follows it.\<close>

function RedactAddresses_loop :: "(wstring \<Rightarrow> bool) \<Rightarrow> wchar option \<Rightarrow> wstring \<Rightarrow> wstring" where
  "RedactAddresses_loop inet_pton prev [] = []"
| "RedactAddresses_loop inet_pton prev (c # cs) =
     (case Ipv4At prev (c # cs) of
        Some rest \<Rightarrow>
          kRedactedAddress @
          RedactAddresses_loop inet_pton (Some (last (take (length (c # cs) - length rest) (c # cs)))) rest
      | None \<Rightarrow>
          (case Ipv6At inet_pton prev (c # cs) of
             Some rest \<Rightarrow>
               kRedactedAddress @
               RedactAddresses_loop inet_pton (Some (last (take (length (c # cs) - length rest) (c # cs)))) rest
           | None \<Rightarrow> c # RedactAddresses_loop inet_pton (Some c) cs))"
  by pat_completeness auto
termination
  by (relation "measure (\<lambda>(p, prev, text). length text)") (auto dest: Ipv4At_shorter Ipv6At_shorter)

definition RedactAddresses :: "(wstring \<Rightarrow> bool) \<Rightarrow> wstring \<Rightarrow> wstring" where
  "RedactAddresses inet_pton text = RedactAddresses_loop inet_pton None text"

section \<open>Token-like strings\<close>

definition IsTokenChar :: "wchar \<Rightarrow> bool" where
  "IsTokenChar c \<longleftrightarrow> IsDigitW c \<or> IsLetterW c \<or> c = 0x2B \<or> c = 0x2F \<or> c = 0x5F \<or> c = 0x2D"

definition kSuspiciousLength :: nat where
  "kSuspiciousLength = 40"

definition token_padding :: "wstring \<Rightarrow> wstring" where
  "token_padding rest = takeWhile (\<lambda>c. c = 0x3D) (take 2 rest)"

definition known_digest :: "wstring \<Rightarrow> wstring \<Rightarrow> bool" where
  "known_digest run padding \<longleftrightarrow>
     list_all IsHexDigitW run \<and> padding = [] \<and> (length (run @ padding) = 64 \<or> length (run @ padding) = 40)"

function RedactSecrets :: "wstring \<Rightarrow> wstring" where
  "RedactSecrets [] = []"
| "RedactSecrets (c # cs) =
     (if \<not> IsTokenChar c then c # RedactSecrets cs
      else let run = takeWhile IsTokenChar (c # cs); rest = dropWhile IsTokenChar (c # cs);
               padding = token_padding rest; piece = run @ padding in
        (if kSuspiciousLength \<le> length piece \<and> \<not> known_digest run padding then kRedactedSecret else piece) @
        RedactSecrets (drop (length padding) rest))"
  by pat_completeness auto
termination
proof (relation "measure length")
  fix c :: wchar and cs run rest padding piece
  assume "\<not> \<not> IsTokenChar c" "rest = dropWhile IsTokenChar (c # cs)"
  then show "(drop (length padding) rest, c # cs) \<in> measure length"
    using length_dropWhile_le [of IsTokenChar cs] by simp
qed auto

section \<open>The redaction, and the log tail\<close>

record RedactionContext =
  userName :: wstring
  machineName :: wstring
  userProfile :: wstring

definition Redact :: "(wstring \<Rightarrow> bool) \<Rightarrow> wstring \<Rightarrow> RedactionContext \<Rightarrow> wstring" where
  "Redact inet_pton text ctx =
     (let t1 = (if 3 < length (userProfile ctx) then ReplaceAllNoCase (userProfile ctx) kRedactedPath text else text);
          t2 = (if 2 \<le> length (userName ctx) then ReplaceAllNoCase (userName ctx) kRedactedUser t1 else t1);
          t3 = (if 2 \<le> length (machineName ctx) then ReplaceAllNoCase (machineName ctx) kRedactedMachine t2 else t2) in
      RedactSecrets (RedactAddresses inet_pton (HideUsers t3)))"

text \<open>
  \<^verbatim>\<open>ReadLogTail\<close>: the file is opened, its size and the seek may fail (\<open>None\<close>); the tail is read in
  requests for all that is left; a cut tail starts in the middle of a line, which is dropped.
\<close>

fun tail_loop :: "nat \<Rightarrow> string option list \<Rightarrow> string \<Rightarrow> string" where
  "tail_loop want [] bytes = bytes"
| "tail_loop want (None # rs) bytes = bytes"
| "tail_loop want (Some chunk # rs) bytes =
     (if want \<le> length bytes \<or> chunk = [] then bytes
      else tail_loop want rs (bytes @ take (want - length bytes) chunk))"

definition ReadLogTail :: "nat option \<Rightarrow> bool \<Rightarrow> string option list \<Rightarrow> nat \<Rightarrow> string" where
  "ReadLogTail file_bytes seek_ok rs maxBytes =
     (case file_bytes of
        None \<Rightarrow> []
      | Some total_bytes \<Rightarrow>
          if total_bytes = 0 then []
          else let want = (if maxBytes < total_bytes then maxBytes else total_bytes) in
            if \<not> seek_ok then []
            else let bytes = tail_loop want rs [] in
              (case split_at (CHR 0x0A) bytes of
                 (line, Some rest) \<Rightarrow> if want < total_bytes then rest else bytes
               | (line, None) \<Rightarrow> bytes))"

lemma tail_loop_bound: "length bytes \<le> want \<Longrightarrow> length (tail_loop want rs bytes) \<le> want"
  by (induction want rs bytes rule: tail_loop.induct) auto

lemma ReadLogTail_bound: "length (ReadLogTail file_bytes seek_ok rs maxBytes) \<le> maxBytes"
proof (cases file_bytes)
  case (Some n)
  define want where "want = (if maxBytes < n then maxBytes else n)"
  define bytes where "bytes = tail_loop want rs []"
  have bytes: "length bytes \<le> want" unfolding bytes_def by (rule tail_loop_bound) simp
  have want: "want \<le> maxBytes" by (simp add: want_def)
  obtain line rest where at: "split_at (CHR 0x0A) bytes = (line, rest)" by force
  have "length r \<le> length bytes" if "rest = Some r" for r
    using at that split_at_shorter [of "CHR 0x0A" bytes line r] by simp
  then have bound: "length (case rest of Some r \<Rightarrow> if want < n then r else bytes | None \<Rightarrow> bytes) \<le> maxBytes"
    using bytes want by (auto split: option.splits intro: order.trans)
  have eq: "ReadLogTail (Some n) seek_ok rs maxBytes =
      (if n = 0 then [] else if \<not> seek_ok then []
       else case split_at (CHR 0x0A) bytes of
              (line, Some rest) \<Rightarrow> if want < n then rest else bytes | (line, None) \<Rightarrow> bytes)"
    unfolding ReadLogTail_def Let_def option.case want_def bytes_def by (rule refl)
  show ?thesis unfolding Some eq at prod.case
  proof (cases rest)
    case None
    then show "length (if n = 0 then [] else if \<not> seek_ok then []
        else case rest of None \<Rightarrow> bytes | Some rest \<Rightarrow> if want < n then rest else bytes) \<le> maxBytes"
      using bound by simp
  next
    case (Some r)
    then show "length (if n = 0 then [] else if \<not> seek_ok then []
        else case rest of None \<Rightarrow> bytes | Some rest \<Rightarrow> if want < n then rest else bytes) \<le> maxBytes"
      using bound by simp
  qed
qed (simp add: ReadLogTail_def)

section \<open>What may not remain\<close>

text \<open>Every occurrence of the marker is followed by the placeholder for the user.\<close>

fun users_hidden :: "wstring \<Rightarrow> bool" where
  "users_hidden [] = True"
| "users_hidden (c # cs) \<longleftrightarrow>
     (if IEqualsAt (c # cs) users_marker then starts_with kRedactedUser (drop (length users_marker) (c # cs)) else True) \<and>
     users_hidden cs"

text \<open>The maximal runs of token characters.\<close>

function token_runs :: "wstring \<Rightarrow> wstring list" where
  "token_runs [] = []"
| "token_runs (c # cs) =
     (if IsTokenChar c then takeWhile IsTokenChar (c # cs) # token_runs (dropWhile IsTokenChar cs) else token_runs cs)"
  by pat_completeness auto
termination
proof (relation "measure length")
  show "(dropWhile IsTokenChar cs, c # cs) \<in> measure length" for c :: wchar and cs
    using length_dropWhile_le [of IsTokenChar cs] by simp
qed auto

definition harmless_run :: "wstring \<Rightarrow> bool" where
  "harmless_run run \<longleftrightarrow>
     length run < kSuspiciousLength \<or> (list_all IsHexDigitW run \<and> (length run = 64 \<or> length run = 40))"

text \<open>Folding keeps the characters that delimit the marker.\<close>

lemma lower_wchar_other: "\<not> (97 \<le> unat d \<and> unat d \<le> 122) \<Longrightarrow> lower_wchar c = d \<longleftrightarrow> c = d \<and> \<not> (65 \<le> unat d \<and> unat d \<le> 90)"
proof (cases "WC CHR ''A'' \<le> c \<and> c \<le> WC CHR ''Z''")
  case True
  then have c: "65 \<le> unat c" "unat c \<le> 90" by (simp_all add: word_le_nat_alt)
  have "lower_wchar c = c + 32" using True by (simp add: lower_wchar_def)
  moreover have "unat (c + 32) = unat c + 32" using c by (simp add: unat_word_ariths)
  ultimately have "unat (lower_wchar c) = unat c + 32" by simp
  then show "\<not> (97 \<le> unat d \<and> unat d \<le> 122) \<Longrightarrow> ?thesis" using c by auto
next
  case False
  then show ?thesis by (auto simp: lower_wchar_def word_le_nat_alt)
qed

lemma lower_delimiters [simp]: "lower_wchar c = 0x5C \<longleftrightarrow> c = 0x5C" "lower_wchar c = 0x3C \<longleftrightarrow> c = 0x3C"
  by (simp_all add: lower_wchar_other)

lemma users_marker_eq: "users_marker = [0x5C, 0x75, 0x73, 0x65, 0x72, 0x73, 0x5C]"
  by (simp add: users_marker_def)

lemma Users_prefix_eq: "Users_prefix = [0x5C, 0x55, 0x73, 0x65, 0x72, 0x73, 0x5C]"
  by (simp add: Users_prefix_def)

section \<open>Profile directories stay hidden\<close>

lemma length_users: "length users_marker = 7"
  by (simp add: users_marker_eq)

definition folded_marker :: wstring where
  "folded_marker = [0x5C, 0x75, 0x73, 0x65, 0x72, 0x73, 0x5C]"

lemma length_folded [simp]: "length folded_marker = 7"
  by (simp add: folded_marker_def)

lemma IEqualsAt_users: "IEqualsAt s users_marker \<longleftrightarrow> map lower_wchar (take 7 s) = folded_marker"
proof -
  have m: "map lower_wchar users_marker = folded_marker"
    by (simp add: users_marker_eq lower_wchar_def folded_marker_def)
  have l: "length users_marker = 7" "users_marker \<noteq> []" by (simp_all add: users_marker_eq)
  have "map lower_wchar (take 7 s) = folded_marker \<Longrightarrow> 7 \<le> length s"
    by (drule arg_cong [where f = length]) simp
  then show ?thesis unfolding IEqualsAt_def m l by (auto simp: l)
qed

lemma IEqualsAt_users_head: "IEqualsAt (c # cs) users_marker \<Longrightarrow> c = 0x5C"
  by (simp add: IEqualsAt_users folded_marker_def)

lemma users_hidden_skip: "0x5C \<notin> set p \<Longrightarrow> users_hidden (p @ s) = users_hidden s"
  by (induction p) (auto dest: IEqualsAt_users_head)

text \<open>
  A pass that copies characters and replaces segments: the segments consist of characters \<open>inside\<close>, the
  placeholder starts with a character that no marker has.
\<close>

inductive edits :: "(wchar \<Rightarrow> bool) \<Rightarrow> wstring \<Rightarrow> wstring \<Rightarrow> wstring \<Rightarrow> bool"
  for inside :: "wchar \<Rightarrow> bool" and placeholder :: wstring where
  nothing: "edits inside placeholder [] []"
| copied: "edits inside placeholder xs ys \<Longrightarrow> edits inside placeholder (x # xs) (x # ys)"
| replaced: "edits inside placeholder xs ys \<Longrightarrow> seg \<noteq> [] \<Longrightarrow> list_all inside seg \<Longrightarrow>
    edits inside placeholder (seg @ xs) (placeholder @ ys)"

inductive_cases edits_NilE: "edits inside placeholder xs []"
inductive_cases edits_ConsE: "edits inside placeholder xs (y # ys)"

lemma edits_copy: "edits inside placeholder xs ys \<Longrightarrow> edits inside placeholder (s @ xs) (s @ ys)"
  by (induction s) (auto intro: edits.intros)

locale rewriter =
  fixes pass :: "wstring \<Rightarrow> wstring" and inside :: "wchar \<Rightarrow> bool" and placeholder :: wstring
  assumes pass: "edits inside placeholder s (pass s)"
    and placeholder: "placeholder \<noteq> []" "hd placeholder = 0x3C" "0x5C \<notin> set placeholder"
    and outside: "list_all (\<lambda>c. \<not> inside c) kRedactedUser"
begin

lemma marker_copied:
  assumes "edits inside placeholder xs ys" "map lower_wchar (take (length q) ys) = q" "0x3C \<notin> set q"
  shows "map lower_wchar (take (length q) xs) = q \<and>
    edits inside placeholder (drop (length q) xs) (drop (length q) ys)"
  using assms
proof (induction arbitrary: q rule: edits.induct)
  case nothing
  then show ?case by (auto intro: edits.nothing)
next
  case (copied xs ys x)
  then show ?case by (cases q) (auto intro: edits.copied)
next
  case (replaced xs ys seg)
  show ?case
  proof (cases q)
    case Nil
    then show ?thesis using replaced.hyps by (auto intro: edits.replaced)
  next
    case (Cons c q')
    then show ?thesis using replaced.prems placeholder(1, 2) by (cases placeholder) auto
  qed
qed

lemma outside_copied:
  assumes "edits inside placeholder xs ys" "starts_with u xs" "list_all (\<lambda>c. \<not> inside c) u"
  shows "starts_with u ys"
  using assms
proof (induction arbitrary: u rule: edits.induct)
  case (copied xs ys x)
  then show ?case by (cases u) (auto simp: starts_with_def)
next
  case (replaced xs ys seg)
  then have "u = []" by (cases u; cases seg) (auto simp: starts_with_def)
  then show ?case by (simp add: starts_with_def)
qed (simp add: starts_with_def)

lemma hidden_edits: "edits inside placeholder xs ys \<Longrightarrow> users_hidden xs \<Longrightarrow> users_hidden ys"
proof (induction rule: edits.induct)
  case (copied xs ys x)
  have "starts_with kRedactedUser (drop 7 (x # ys))" if "IEqualsAt (x # ys) users_marker"
  proof -
    have all: "edits inside placeholder (x # xs) (x # ys)" using copied.hyps by (rule edits.copied)
    note m = marker_copied [OF all, of folded_marker, unfolded length_folded]
    have "IEqualsAt (x # xs) users_marker" "edits inside placeholder (drop 7 (x # xs)) (drop 7 (x # ys))"
      using m that by (simp_all add: IEqualsAt_users folded_marker_def)
    moreover from this(1) copied.prems have "starts_with kRedactedUser (drop 7 (x # xs))"
      by (simp only: users_hidden.simps length_users if_True simp_thms)
    ultimately show ?thesis using outside_copied outside by blast
  qed
  moreover have "users_hidden ys" using copied by simp
  ultimately show ?case by (simp only: users_hidden.simps length_users split: if_split) simp
next
  case (replaced xs ys seg)
  have "users_hidden xs" using replaced.prems by (induction seg) auto
  then show ?case using replaced.IH users_hidden_skip [OF placeholder(3)] by simp
qed simp

lemma hidden_pass: "users_hidden s \<Longrightarrow> users_hidden (pass s)"
  using hidden_edits pass by blast

end

text \<open>The pass over the profile directories establishes it.\<close>

lemma HideUsers_marker:
  assumes "map lower_wchar (take (Suc (length q)) (HideUsers s)) = q @ [0x5C]" "0x5C \<notin> set q"
  shows "map lower_wchar (take (Suc (length q)) s) = q @ [0x5C]"
  using assms
proof (induction q arbitrary: s)
  case Nil
  then show ?case
    by (cases s) (auto simp: Users_prefix_eq dest: IEqualsAt_users_head split: if_splits)
next
  case (Cons a q)
  then show ?case
    by (cases s) (auto simp: Users_prefix_eq split: if_splits)
qed

lemma HideUsers_hidden: "users_hidden (HideUsers s)"
proof (induction s rule: HideUsers.induct)
  case (2 c cs)
  show ?case
  proof (cases "IEqualsAt (c # cs) users_marker")
    case True
    define t where "t = HideUsers (dropWhile (\<lambda>x. \<not> name_end x) (drop (length users_marker) (c # cs)))"
    have t: "HideUsers (c # cs) = Users_prefix @ kRedactedUser @ t" using True by (simp add: t_def)
    have "users_hidden t" using 2(1) [OF True] by (simp add: t_def)
    then have "users_hidden (kRedactedUser @ t)"
      using users_hidden_skip [of kRedactedUser t] by (simp add: kRedactedUser_def)
    then have "users_hidden (0x5C # kRedactedUser @ t)"
      by (simp add: IEqualsAt_users kRedactedUser_def folded_marker_def)
    then have "users_hidden ([0x55, 0x73, 0x65, 0x72, 0x73] @ 0x5C # kRedactedUser @ t)"
      by (subst users_hidden_skip) simp_all
    moreover have "drop (length users_marker) (Users_prefix @ kRedactedUser @ t) = kRedactedUser @ t"
      by (simp add: Users_prefix_eq users_marker_eq)
    moreover have "Users_prefix @ kRedactedUser @ t = 0x5C # [0x55, 0x73, 0x65, 0x72, 0x73] @ 0x5C # kRedactedUser @ t"
      by (simp add: Users_prefix_eq)
    ultimately show ?thesis unfolding t by (simp only: users_hidden.simps starts_with_append if_cancel simp_thms)
  next
    case False
    let ?q = "[0x75, 0x73, 0x65, 0x72, 0x73] :: wstring"
    have q: "Suc (length ?q) = 6" "0x5C \<notin> set ?q" by simp_all
    have split: "IEqualsAt (c # s) users_marker \<longleftrightarrow> c = 0x5C \<and> map lower_wchar (take 6 s) = ?q @ [0x5C]" for s
      by (simp add: IEqualsAt_users folded_marker_def)
    have "\<not> IEqualsAt (c # HideUsers cs) users_marker"
      using False HideUsers_marker [of ?q cs, unfolded q(1), OF _ q(2)] unfolding split by blast
    with False 2(2) [OF False] show ?thesis by simp
  qed
qed simp

section \<open>The last two passes\<close>

definition consumed :: "(wchar \<Rightarrow> bool) \<Rightarrow> wstring \<Rightarrow> wstring \<Rightarrow> bool" where
  "consumed inside s rest \<longleftrightarrow> (\<exists>seg. s = seg @ rest \<and> list_all inside seg)"

lemma consumed_trans: "consumed p s t \<Longrightarrow> consumed p t u \<Longrightarrow> consumed p s u"
  unfolding consumed_def by force

lemma digit_address: "IsDigitW c \<Longrightarrow> addressChar c"
  by (simp add: addressChar_def)

lemma ReadIpv4Octet_consumed: "ReadIpv4Octet s = Some rest \<Longrightarrow> consumed addressChar s rest"
proof -
  assume some: "ReadIpv4Octet s = Some rest"
  define ds where "ds = takeWhile IsDigitW (take 3 s)"
  obtain t where "take 3 s = ds @ t" unfolding ds_def by (metis takeWhile_dropWhile_id)
  then have "s = ds @ drop (length ds) s"
    by (metis append_eq_conv_conj append_take_drop_id append.assoc)
  moreover have "list_all addressChar ds"
    unfolding ds_def list_all_iff using set_takeWhileD digit_address by metis
  moreover have "rest = drop (length ds) s"
    using some by (simp add: ReadIpv4Octet_def ds_def [symmetric] Let_def split: if_splits)
  ultimately show "consumed addressChar s rest" unfolding consumed_def by blast
qed

lemma ReadDot_consumed: "ReadDot s = Some rest \<Longrightarrow> consumed addressChar s rest"
  by (auto simp: ReadDot_def consumed_def addressChar_def split: list.splits if_splits intro!: exI [of _ "[0x2E]"])

lemma Ipv4_loop_consumed: "Ipv4_loop k s = Some rest \<Longrightarrow> consumed addressChar s rest"
proof (induction k arbitrary: s)
  case 0
  then show ?case by (simp add: consumed_def)
next
  case (Suc k)
  then obtain t u where "ReadDot s = Some t" "ReadIpv4Octet t = Some u" "Ipv4_loop k u = Some rest"
    by (auto split: option.splits)
  then show ?case using Suc.IH ReadDot_consumed ReadIpv4Octet_consumed consumed_trans by blast
qed

lemma Ipv4At_consumed: "Ipv4At prev s = Some rest \<Longrightarrow> consumed addressChar s rest"
  by (auto simp: Ipv4At_def ReadIpv4_def split: option.splits if_splits
      intro: consumed_trans ReadIpv4Octet_consumed Ipv4_loop_consumed)

lemma Ipv6At_consumed: "Ipv6At p prev s = Some rest \<Longrightarrow> consumed addressChar s rest"
  unfolding consumed_def
  by (rule exI [of _ "takeWhile addressChar s"])
    (auto simp: Ipv6At_def list_all_iff split: if_splits prod.splits dest: set_takeWhileD)

lemma edits_consumed:
  assumes "consumed inside s rest" "length rest < length s" "edits inside placeholder rest out"
  shows "edits inside placeholder s (placeholder @ out)"
  using assms edits.replaced [of inside placeholder rest out] unfolding consumed_def by auto

lemma RedactAddresses_loop_edits:
  "edits addressChar kRedactedAddress s (RedactAddresses_loop inet_pton prev s)"
proof (induction inet_pton prev s rule: RedactAddresses_loop.induct)
  case (2 inet_pton prev c cs)
  show ?case
  proof (cases "Ipv4At prev (c # cs)")
    case (Some rest)
    then show ?thesis using edits_consumed [OF Ipv4At_consumed [OF Some] Ipv4At_shorter [OF Some] 2(3) [OF Some]] by simp
  next
    case None
    show ?thesis
    proof (cases "Ipv6At inet_pton prev (c # cs)")
      case (Some rest)
      then show ?thesis
        using None edits_consumed [OF Ipv6At_consumed [OF Some] Ipv6At_shorter [OF Some] 2(2) [OF None Some]] by simp
    next
      case none: None
      then show ?thesis using None 2(1) [OF None none] by (simp add: edits.copied)
    qed
  qed
qed (simp add: edits.nothing)

definition secret_char :: "wchar \<Rightarrow> bool" where
  "secret_char c \<longleftrightarrow> IsTokenChar c \<or> c = 0x3D"

lemma token_split:
  "token_padding (dropWhile IsTokenChar s) = padding \<Longrightarrow>
     s = (takeWhile IsTokenChar s @ padding) @ drop (length padding) (dropWhile IsTokenChar s)"
proof -
  assume p: "token_padding (dropWhile IsTokenChar s) = padding"
  obtain t where "take 2 (dropWhile IsTokenChar s) = padding @ t"
    using p unfolding token_padding_def by (metis takeWhile_dropWhile_id)
  then have "dropWhile IsTokenChar s = padding @ drop (length padding) (dropWhile IsTokenChar s)"
    by (metis append_eq_conv_conj append_take_drop_id append.assoc)
  then show ?thesis by simp
qed

lemma token_piece_chars: "list_all secret_char (takeWhile IsTokenChar s @ token_padding t)"
  by (auto simp: list_all_iff secret_char_def token_padding_def dest: set_takeWhileD)

lemma RedactSecrets_edits: "edits secret_char kRedactedSecret s (RedactSecrets s)"
proof (induction s rule: RedactSecrets.induct)
  case (2 c cs)
  show ?case
  proof (cases "IsTokenChar c")
    case True
    define run rest padding where parts: "run = takeWhile IsTokenChar (c # cs)"
      "rest = dropWhile IsTokenChar (c # cs)" "padding = token_padding rest"
    let ?next = "drop (length padding) rest"
    have IH: "edits secret_char kRedactedSecret ?next (RedactSecrets ?next)"
      using 2(2) True by (simp add: parts)
    have s: "c # cs = (run @ padding) @ ?next" using token_split [of "c # cs"] by (simp only: parts)
    have chars: "list_all secret_char (run @ padding)" using token_piece_chars by (simp only: parts)
    have "run @ padding \<noteq> []" using True by (simp add: parts)
    from edits.replaced [OF IH this chars] edits_copy [OF IH, of "run @ padding"]
    have "edits secret_char kRedactedSecret (c # cs)
        ((if kSuspiciousLength \<le> length (run @ padding) \<and> \<not> known_digest run padding then kRedactedSecret
          else run @ padding) @ RedactSecrets ?next)"
      unfolding s by (simp split: if_splits)
    moreover have "RedactSecrets (c # cs) =
        (if kSuspiciousLength \<le> length (run @ padding) \<and> \<not> known_digest run padding then kRedactedSecret
          else run @ padding) @ RedactSecrets ?next"
      using True by (simp only: RedactSecrets.simps parts Let_def simp_thms if_False)
    ultimately show ?thesis by simp
  next
    case False
    then show ?thesis using 2(1) by (simp add: edits.copied)
  qed
qed (simp add: edits.nothing)

interpretation addresses: rewriter "RedactAddresses inet_pton" addressChar kRedactedAddress
  by (unfold_locales, unfold RedactAddresses_def, rule RedactAddresses_loop_edits)
    (simp_all add: kRedactedAddress_def kRedactedUser_def
      addressChar_def IsDigitW_def IsLetterW_def)

interpretation secrets: rewriter RedactSecrets secret_char kRedactedSecret
  by (unfold_locales, rule RedactSecrets_edits)
    (simp_all add: kRedactedSecret_def kRedactedUser_def secret_char_def IsTokenChar_def
      IsDigitW_def IsLetterW_def)

section \<open>No suspicious run is left\<close>

lemma token_runs_other: "list_all (\<lambda>c. \<not> IsTokenChar c) p \<Longrightarrow> token_runs (p @ s) = token_runs s"
  by (induction p) auto

lemma token_runs_run:
  assumes "run \<noteq> []" "list_all IsTokenChar run" "\<not> head_is IsTokenChar s"
  shows "token_runs (run @ s) = run # token_runs s"
proof -
  have stop: "takeWhile IsTokenChar s = []" "dropWhile IsTokenChar s = s"
    using assms(3) by (cases s; simp add: head_is_def)+
  from assms(1) obtain c cs where "run = c # cs" by (cases run) auto
  with assms(2) stop show ?thesis by (simp add: list_all_iff takeWhile_append2 dropWhile_append2)
qed

lemma RedactSecrets_head: "\<not> head_is IsTokenChar s \<Longrightarrow> \<not> head_is IsTokenChar (RedactSecrets s)"
  by (cases s) (simp_all add: head_is_def)

lemma token_padding_cases:
  "token_padding s = [] \<or> (list_all (\<lambda>c. \<not> IsTokenChar c) (token_padding s) \<and> token_padding s \<noteq> [])"
  by (auto simp: token_padding_def list_all_iff IsTokenChar_def IsDigitW_def IsLetterW_def dest: set_takeWhileD)

lemma RedactSecrets_harmless: "list_all harmless_run (token_runs (RedactSecrets s))"
proof (induction s rule: RedactSecrets.induct)
  case (2 c cs)
  show ?case
  proof (cases "IsTokenChar c")
    case True
    define run rest padding where parts: "run = takeWhile IsTokenChar (c # cs)"
      "rest = dropWhile IsTokenChar (c # cs)" "padding = token_padding rest"
    define out where "out = RedactSecrets (drop (length padding) rest)"
    have IH: "list_all harmless_run (token_runs out)" using 2(2) True by (simp add: parts out_def)
    have eq: "RedactSecrets (c # cs) =
        (if kSuspiciousLength \<le> length (run @ padding) \<and> \<not> known_digest run padding then kRedactedSecret
          else run @ padding) @ out"
      using True by (simp only: RedactSecrets.simps parts Let_def simp_thms if_False out_def)
    have secret: "token_runs (kRedactedSecret @ out) = token_runs out"
      by (rule token_runs_other) (simp add: kRedactedSecret_def IsTokenChar_def IsDigitW_def IsLetterW_def)
    have run: "run \<noteq> []" "list_all IsTokenChar run"
      using True by (auto simp: parts list_all_iff dest: set_takeWhileD)
    have "\<not> head_is IsTokenChar rest"
      unfolding parts head_is_def using hd_dropWhile [of IsTokenChar "c # cs"] by (cases "dropWhile IsTokenChar (c # cs)") auto
    then have "\<not> head_is IsTokenChar (padding @ out)"
      using token_padding_cases [of rest] RedactSecrets_head [of rest] unfolding parts(3) out_def
      by (cases "token_padding rest") (auto simp: head_is_def)
    then have kept: "token_runs ((run @ padding) @ out) = run # token_runs out"
      using token_runs_run [OF run] token_padding_cases [of rest] token_runs_other [of padding out]
      by (auto simp: parts(3))
    have "harmless_run run" if "\<not> (kSuspiciousLength \<le> length (run @ padding) \<and> \<not> known_digest run padding)"
      using that by (auto simp: harmless_run_def known_digest_def)
    with IH show ?thesis unfolding eq using secret kept by (simp split: if_splits)
  next
    case False
    then show ?thesis using 2(1) by simp
  qed
qed simp

text \<open>
  What leaves the machine keeps two promises, whatever the text, the context and the answers of
  \<^verbatim>\<open>InetPtonW\<close>: every directory below \<^verbatim>\<open>\Users\\<close> shows the placeholder instead of a name, and no
  maximal run of token characters of 40 or more is left, except digests (exactly 40 or 64 hexadecimal
  digits). The passes come one after another, so the later ones must not undo the earlier ones.
\<close>

lemma Redact_hides:
  "users_hidden (Redact inet_pton s ctx) \<and> list_all harmless_run (token_runs (Redact inet_pton s ctx))"
  unfolding Redact_def Let_def
  by (rule conjI [OF secrets.hidden_pass [OF addresses.hidden_pass [OF HideUsers_hidden]] RedactSecrets_harmless])

text \<open>
  An address at the end of a sentence is not redacted: the test of the right boundary rejects the dot.
\<close>

lemma RedactAddresses_final_dot: "RedactAddresses inet_pton (W ''192.168.0.1.'') = W ''192.168.0.1.''"
  by (simp add: RedactAddresses_def Ipv4At_def ReadIpv4_def ReadIpv4Octet_def ReadDot_def Ipv6At_def
      octet_value_def prev_is_def head_is_def digit_or_dot_def IsDigitW_def IsHexDigitW_def IsLetterW_def addressChar_def
      numeral_3_eq_3 Let_def)

end
