(* ===== verification/FrameBuffer.thy ===== *)
theory FrameBuffer
  imports Prelude
begin

text \<open>
  The off-screen character grid, \<^verbatim>\<open>src/src/ui/FrameBuffer.cpp\<close>: every drawing primitive, and the
  differential \<^verbatim>\<open>Present\<close> that sends changed rows to the console. Coordinates are integers and may lie
  anywhere; an access of the cell vector out of its range sets a history flag, so the bounds are a
  theorem and not an assumption. The abstract picture of a buffer is a partial map from coordinates to
  cells, which the primitives overwrite; a state machine relates the buffer to what the console shows.
\<close>

section \<open>The buffer\<close>

record CHAR_INFO =
  glyph :: wchar
  attributes :: "16 word"

record FrameBuffer =
  fb_w :: int
  fb_h :: int
  cells :: "CHAR_INFO list"
  prev :: "CHAR_INFO list"
  prevValid :: bool
  out_of_range :: bool   \<comment> \<open>history: the vector was accessed out of its range\<close>

definition blank :: CHAR_INFO where
  "blank = \<lparr>glyph = 0, attributes = 0\<rparr>"

definition new_buffer :: FrameBuffer where
  "new_buffer = \<lparr>fb_w = 0, fb_h = 0, cells = [], prev = [], prevValid = False, out_of_range = False\<rparr>"

definition Index :: "FrameBuffer \<Rightarrow> int \<Rightarrow> int \<Rightarrow> int" where
  "Index fb x y = y * fb_w fb + x"

definition InBounds :: "FrameBuffer \<Rightarrow> int \<Rightarrow> int \<Rightarrow> bool" where
  "InBounds fb x y \<longleftrightarrow> 0 \<le> x \<and> 0 \<le> y \<and> x < fb_w fb \<and> y < fb_h fb"

text \<open>\<^verbatim>\<open>cells_[Index(x, y)] = c\<close>.\<close>

definition store_cell :: "int \<Rightarrow> int \<Rightarrow> CHAR_INFO \<Rightarrow> FrameBuffer \<Rightarrow> FrameBuffer" where
  "store_cell x y c fb =
     (let i = Index fb x y in
      if 0 \<le> i \<and> nat i < length (cells fb) then fb\<lparr>cells := (cells fb)[nat i := c]\<rparr>
      else fb\<lparr>out_of_range := True\<rparr>)"

definition at_least_one :: "int \<Rightarrow> int" where
  "at_least_one n = (if n < 1 then 1 else n)"

definition Resize :: "int \<Rightarrow> int \<Rightarrow> FrameBuffer \<Rightarrow> FrameBuffer" where
  "Resize w0 h0 fb =
     (let w = at_least_one w0; h = at_least_one h0 in
      if w = fb_w fb \<and> h = fb_h fb then fb
      else fb\<lparr>fb_w := w, fb_h := h, cells := replicate (nat (w * h)) blank,
              prev := replicate (nat (w * h)) blank, prevValid := False\<rparr>)"

definition Clear :: "16 word \<Rightarrow> FrameBuffer \<Rightarrow> FrameBuffer" where
  "Clear attr fb = fb\<lparr>cells := map (\<lambda>c. c\<lparr>glyph := WC CHR '' '', attributes := attr\<rparr>) (cells fb)\<rparr>"

definition PutCh :: "int \<Rightarrow> int \<Rightarrow> wchar \<Rightarrow> 16 word \<Rightarrow> FrameBuffer \<Rightarrow> FrameBuffer" where
  "PutCh x y ch attr fb =
     (if \<not> InBounds fb x y then fb else store_cell x y \<lparr>glyph = ch, attributes = attr\<rparr> fb)"

fun PutText_loop :: "int \<Rightarrow> int \<Rightarrow> wstring \<Rightarrow> 16 word \<Rightarrow> FrameBuffer \<Rightarrow> FrameBuffer" where
  "PutText_loop cx y [] attr fb = fb"
| "PutText_loop cx y (ch # rest) attr fb =
     (if ch = 0x0A then fb
      else let fb' = (if 0 \<le> cx \<and> cx < fb_w fb then store_cell cx y \<lparr>glyph = ch, attributes = attr\<rparr> fb else fb) in
        if fb_w fb' \<le> cx + 1 then fb' else PutText_loop (cx + 1) y rest attr fb')"

definition PutText :: "int \<Rightarrow> int \<Rightarrow> wstring \<Rightarrow> 16 word \<Rightarrow> FrameBuffer \<Rightarrow> FrameBuffer" where
  "PutText x y s attr fb = (if y < 0 \<or> fb_h fb \<le> y then fb else PutText_loop x y s attr fb)"

definition FillRect :: "int \<Rightarrow> int \<Rightarrow> int \<Rightarrow> int \<Rightarrow> wchar \<Rightarrow> 16 word \<Rightarrow> FrameBuffer \<Rightarrow> FrameBuffer" where
  "FillRect x y w h ch attr = fold (\<lambda>j. fold (\<lambda>i. PutCh (x + i) (y + j) ch attr) [0..w - 1]) [0..h - 1]"

definition HLine :: "int \<Rightarrow> int \<Rightarrow> int \<Rightarrow> wchar \<Rightarrow> 16 word \<Rightarrow> FrameBuffer \<Rightarrow> FrameBuffer" where
  "HLine x y len ch attr = fold (\<lambda>i. PutCh (x + i) y ch attr) [0..len - 1]"

record Glyphs =
  g_tl :: wchar
  g_tr :: wchar
  g_bl :: wchar
  g_br :: wchar
  g_h :: wchar
  g_v :: wchar
  ltee :: wchar
  rtee :: wchar
  ttee :: wchar
  btee :: wchar
  barFull :: wchar
  barEmpty :: wchar
  barHi :: wchar
  bullet :: wchar
  heartbeat :: wchar
  cursorBlock :: wchar
  arrow :: wchar
  spinner :: wstring

definition box_title :: "int \<Rightarrow> wstring \<Rightarrow> wstring" where
  "box_title w title = W '' '' @ take (nat (w - 6)) title @ W '' ''"

text \<open>Drawing statements, one after another.\<close>

definition in_order :: "(FrameBuffer \<Rightarrow> FrameBuffer) list \<Rightarrow> FrameBuffer \<Rightarrow> FrameBuffer" where
  "in_order fs = fold (\<lambda>f. f) fs"

definition Box :: "int \<Rightarrow> int \<Rightarrow> int \<Rightarrow> int \<Rightarrow> 16 word \<Rightarrow> Glyphs \<Rightarrow> wstring \<Rightarrow> 16 word \<Rightarrow> FrameBuffer \<Rightarrow> FrameBuffer" where
  "Box x y w h attr g title titleAttr =
     (if w < 2 \<or> h < 2 then id
      else in_order
        [PutCh x y (g_tl g) attr, PutCh (x + w - 1) y (g_tr g) attr,
         PutCh x (y + h - 1) (g_bl g) attr, PutCh (x + w - 1) (y + h - 1) (g_br g) attr,
         fold (\<lambda>i. in_order [PutCh (x + i) y (g_h g) attr, PutCh (x + i) (y + h - 1) (g_h g) attr]) [1..w - 2],
         fold (\<lambda>j. in_order [PutCh x (y + j) (g_v g) attr, PutCh (x + w - 1) (y + j) (g_v g) attr]) [1..h - 2],
         if title \<noteq> [] \<and> 6 < w
         then PutText (x + 2) y (box_title w title) (if titleAttr \<noteq> 0 then titleAttr else attr) else id])"

text \<open>
  \<^verbatim>\<open>Present\<close>: a row is written when the previous frame is unknown or differs. The console is what its
  rows show; \<^verbatim>\<open>WriteConsoleOutputW\<close> may fail for a row, its result is not looked at.
\<close>

definition row_of :: "FrameBuffer \<Rightarrow> CHAR_INFO list \<Rightarrow> int \<Rightarrow> CHAR_INFO list" where
  "row_of fb cs y = take (nat (fb_w fb)) (drop (nat (y * fb_w fb)) cs)"

definition row_changed :: "FrameBuffer \<Rightarrow> int \<Rightarrow> bool" where
  "row_changed fb y \<longleftrightarrow> \<not> (prevValid fb \<and> row_of fb (cells fb) y = row_of fb (prev fb) y)"

type_synonym console = "int \<Rightarrow> CHAR_INFO list"

definition write_row :: "(int \<Rightarrow> bool) \<Rightarrow> FrameBuffer \<Rightarrow> int \<Rightarrow> nat \<times> console \<Rightarrow> nat \<times> console" where
  "write_row accepts fb y s =
     (case s of (rows, con) \<Rightarrow>
        if row_changed fb y
        then (rows + 1, if accepts y then con(y := row_of fb (cells fb) y) else con) else (rows, con))"

definition Present :: "(int \<Rightarrow> bool) \<Rightarrow> bool \<Rightarrow> console \<Rightarrow> FrameBuffer \<Rightarrow> nat \<times> console \<times> FrameBuffer" where
  "Present accepts valid_handle con fb =
     (if \<not> valid_handle then (0, con, fb)
      else case fold (write_row accepts fb) [0..fb_h fb - 1] (0, con) of
             (rows, con') \<Rightarrow> (rows, con', fb\<lparr>prev := cells fb, prevValid := True\<rparr>))"

definition Invalidate :: "FrameBuffer \<Rightarrow> FrameBuffer" where
  "Invalidate fb = fb\<lparr>prevValid := False\<rparr>"

section \<open>The invariant\<close>

definition fb_inv :: "FrameBuffer \<Rightarrow> bool" where
  "fb_inv fb \<longleftrightarrow>
     0 \<le> fb_w fb \<and> 0 \<le> fb_h fb \<and> length (cells fb) = nat (fb_w fb * fb_h fb) \<and>
     length (prev fb) = nat (fb_w fb * fb_h fb) \<and> \<not> out_of_range fb"

text \<open>A drawing step keeps the invariant, the size and the previous frame.\<close>

definition draws :: "(FrameBuffer \<Rightarrow> FrameBuffer) \<Rightarrow> bool" where
  "draws f \<longleftrightarrow> (\<forall>fb. fb_inv fb \<longrightarrow>
     fb_inv (f fb) \<and> fb_w (f fb) = fb_w fb \<and> fb_h (f fb) = fb_h fb \<and> prev (f fb) = prev fb \<and> prevValid (f fb) = prevValid fb)"

named_theorems drawing \<open>operations that only draw\<close>

lemma drawsD: "draws f \<Longrightarrow> fb_inv fb \<Longrightarrow> fb_inv (f fb)"
  "draws f \<Longrightarrow> fb_inv fb \<Longrightarrow> fb_w (f fb) = fb_w fb" "draws f \<Longrightarrow> fb_inv fb \<Longrightarrow> fb_h (f fb) = fb_h fb"
  "draws f \<Longrightarrow> fb_inv fb \<Longrightarrow> prev (f fb) = prev fb" "draws f \<Longrightarrow> fb_inv fb \<Longrightarrow> prevValid (f fb) = prevValid fb"
  by (simp_all add: draws_def)

lemma Index_range: "fb_inv fb \<Longrightarrow> InBounds fb x y \<Longrightarrow> 0 \<le> Index fb x y \<and> nat (Index fb x y) < length (cells fb)"
proof -
  assume "fb_inv fb" "InBounds fb x y"
  then have b: "0 \<le> x" "0 \<le> y" "x < fb_w fb" "y < fb_h fb" "length (cells fb) = nat (fb_w fb * fb_h fb)"
    by (simp_all add: InBounds_def fb_inv_def)
  have "y * fb_w fb + x < (y + 1) * fb_w fb" using b(3) by (simp add: algebra_simps)
  also have "\<dots> \<le> fb_h fb * fb_w fb" using b by (intro mult_right_mono) simp_all
  finally have "Index fb x y < fb_w fb * fb_h fb" by (simp add: Index_def mult.commute)
  moreover have "0 \<le> Index fb x y" using b by (simp add: Index_def)
  ultimately show "0 \<le> Index fb x y \<and> nat (Index fb x y) < length (cells fb)" using b(5) by simp
qed

lemma store_cell_in: "fb_inv fb \<Longrightarrow> InBounds fb x y \<Longrightarrow>
    store_cell x y c fb = fb\<lparr>cells := (cells fb)[nat (Index fb x y) := c]\<rparr>"
  using Index_range by (simp add: store_cell_def Let_def)

lemma draws_PutCh [drawing]: "draws (PutCh x y ch attr)"
  by (auto simp: draws_def PutCh_def store_cell_in) (auto simp: fb_inv_def)

lemma draws_id [drawing]: "draws id"
  by (simp add: draws_def)

lemma draws_if [drawing]: "draws f \<Longrightarrow> draws g \<Longrightarrow> draws (if b then f else g)"
  by simp

lemma draws_fold [drawing]: "(\<And>x. draws (f x)) \<Longrightarrow> draws (fold f xs)"
  by (induction xs) (auto simp: draws_def)

lemma draws_in_order [drawing]: "list_all draws fs \<Longrightarrow> draws (in_order fs)"
  unfolding in_order_def by (induction fs) (auto simp: draws_def)

lemma draws_Clear [drawing]: "draws (Clear attr)"
  by (simp add: draws_def Clear_def fb_inv_def)

lemma draws_PutText [drawing]: "draws (PutText x y s attr)"
proof -
  have "fb_inv fb \<Longrightarrow> 0 \<le> y \<Longrightarrow> y < fb_h fb \<Longrightarrow>
      fb_inv (PutText_loop cx y s attr fb) \<and> fb_w (PutText_loop cx y s attr fb) = fb_w fb \<and>
      fb_h (PutText_loop cx y s attr fb) = fb_h fb \<and> prev (PutText_loop cx y s attr fb) = prev fb \<and>
      prevValid (PutText_loop cx y s attr fb) = prevValid fb" for fb cx
  proof (induction cx y s attr fb rule: PutText_loop.induct)
    case (2 cx y ch rest attr fb)
    define fb' where "fb' = (if 0 \<le> cx \<and> cx < fb_w fb then store_cell cx y \<lparr>glyph = ch, attributes = attr\<rparr> fb else fb)"
    have "fb' = PutCh cx y ch attr fb" using 2 by (simp add: fb'_def PutCh_def InBounds_def)
    then have fb': "fb_inv fb'" "fb_w fb' = fb_w fb" "fb_h fb' = fb_h fb" "prev fb' = prev fb" "prevValid fb' = prevValid fb"
      using drawsD [OF draws_PutCh 2(2)] by simp_all
    show ?case
      using 2(1) [OF _ fb'_def _ fb'(1)] 2(2-4) fb' unfolding PutText_loop.simps fb'_def [symmetric] Let_def
      by (cases "ch = 0x0A"; cases "fb_w fb' \<le> cx + 1") simp_all
  qed simp
  then show ?thesis by (simp add: draws_def PutText_def)
qed

lemma draws_FillRect [drawing]: "draws (FillRect x y w h ch attr)"
  by (simp add: FillRect_def drawing)

lemma draws_HLine [drawing]: "draws (HLine x y len ch attr)"
  by (simp add: HLine_def drawing)

lemma draws_Box [drawing]: "draws (Box x y w h attr g title titleAttr)"
  by (simp add: Box_def drawing)

section \<open>The picture\<close>

text \<open>What a buffer shows, and what each primitive paints, coordinate by coordinate.\<close>

definition pixel :: "FrameBuffer \<Rightarrow> int \<Rightarrow> int \<Rightarrow> CHAR_INFO option" where
  "pixel fb x y = (if InBounds fb x y then Some (cells fb ! nat (Index fb x y)) else None)"

datatype draw_op =
    DrawClear "16 word"
  | DrawCh int int wchar "16 word"
  | DrawText int int wstring "16 word"
  | DrawFill int int int int wchar "16 word"
  | DrawHLine int int int wchar "16 word"

fun draw :: "draw_op \<Rightarrow> FrameBuffer \<Rightarrow> FrameBuffer" where
  "draw (DrawClear a) = Clear a"
| "draw (DrawCh x y ch a) = PutCh x y ch a"
| "draw (DrawText x y s a) = PutText x y s a"
| "draw (DrawFill x y w h ch a) = FillRect x y w h ch a"
| "draw (DrawHLine x y len ch a) = HLine x y len ch a"

definition first_line :: "wstring \<Rightarrow> wstring" where
  "first_line s = takeWhile (\<lambda>c. c \<noteq> 0x0A) s"

fun paints :: "draw_op \<Rightarrow> int \<Rightarrow> int \<Rightarrow> CHAR_INFO option" where
  "paints (DrawClear a) px py = Some \<lparr>glyph = WC CHR '' '', attributes = a\<rparr>"
| "paints (DrawCh x y ch a) px py = (if px = x \<and> py = y then Some \<lparr>glyph = ch, attributes = a\<rparr> else None)"
| "paints (DrawText x y s a) px py =
     (if py = y \<and> x \<le> px \<and> nat (px - x) < length (first_line s)
      then Some \<lparr>glyph = first_line s ! nat (px - x), attributes = a\<rparr> else None)"
| "paints (DrawFill x y w h ch a) px py =
     (if x \<le> px \<and> px < x + w \<and> y \<le> py \<and> py < y + h then Some \<lparr>glyph = ch, attributes = a\<rparr> else None)"
| "paints (DrawHLine x y len ch a) px py =
     (if x \<le> px \<and> px < x + len \<and> py = y then Some \<lparr>glyph = ch, attributes = a\<rparr> else None)"

lemma Index_inj:
  assumes "InBounds fb x y" "InBounds fb x' y'" "Index fb x y = Index fb x' y'"
  shows "x = x' \<and> y = y'"
proof -
  have w: "0 \<le> x" "x < fb_w fb" "0 \<le> x'" "x' < fb_w fb" using assms by (simp_all add: InBounds_def)
  have "Index fb x y div fb_w fb = y" "Index fb x' y' div fb_w fb = y'"
    using w by (simp_all add: Index_def)
  with assms(3) show ?thesis by (simp add: Index_def)
qed

lemma pixel_PutCh:
  assumes "fb_inv fb"
  shows "pixel (PutCh x y ch a fb) px py =
    (if InBounds fb x y \<and> px = x \<and> py = y then Some \<lparr>glyph = ch, attributes = a\<rparr> else pixel fb px py)"
proof (cases "InBounds fb x y")
  case True
  then have eq: "PutCh x y ch a fb = fb\<lparr>cells := (cells fb)[nat (Index fb x y) := \<lparr>glyph = ch, attributes = a\<rparr>]\<rparr>"
    using store_cell_in [OF assms] by (simp add: PutCh_def)
  have same: "InBounds (PutCh x y ch a fb) = InBounds fb" "Index (PutCh x y ch a fb) = Index fb"
    unfolding eq by (simp_all add: fun_eq_iff InBounds_def Index_def)
  show ?thesis
  proof (cases "InBounds fb px py \<and> Index fb px py = Index fb x y")
    case same_cell: True
    then have "px = x \<and> py = y" using Index_inj True by blast
    then show ?thesis using True Index_range [OF assms True] unfolding pixel_def same by (simp add: eq)
  next
    case False
    then have "InBounds fb px py \<Longrightarrow> nat (Index fb px py) \<noteq> nat (Index fb x y)"
      using Index_range [OF assms] True eq_nat_nat_iff by blast
    moreover have "\<not> (px = x \<and> py = y)" using False True by blast
    ultimately show ?thesis unfolding pixel_def same by (auto simp: eq)
  qed
qed (simp add: PutCh_def)

lemma InBounds_draws: "draws f \<Longrightarrow> fb_inv fb \<Longrightarrow> InBounds (f fb) x y = InBounds fb x y"
  by (simp add: InBounds_def drawsD)

text \<open>A fold of drawing steps that all paint the same cell.\<close>

lemma pixel_fold:
  assumes "\<And>i. draws (f i)"
    and "\<And>i fb px py. fb_inv fb \<Longrightarrow> pixel (f i fb) px py = (if InBounds fb px py \<and> on i px py then Some c else pixel fb px py)"
    and "fb_inv fb"
  shows "pixel (fold f ks fb) px py = (if InBounds fb px py \<and> (\<exists>i\<in>set ks. on i px py) then Some c else pixel fb px py)"
  using assms(3)
proof (induction ks arbitrary: fb)
  case (Cons i ks)
  then show ?case
    using assms(2) [OF Cons.prems, of i] Cons.IH [of "f i fb"] assms(1) [of i]
    by (auto simp: drawsD InBounds_draws)
qed simp

lemma pixel_None: "\<not> InBounds fb x y \<Longrightarrow> pixel fb x y = None"
  by (simp add: pixel_def)

lemma pixel_PutCh': "fb_inv fb \<Longrightarrow> pixel (PutCh x y ch a fb) px py =
    (if InBounds fb px py \<and> (px = x \<and> py = y) then Some \<lparr>glyph = ch, attributes = a\<rparr> else pixel fb px py)"
  by (auto simp: pixel_PutCh)

lemma pixel_HLine:
  assumes "fb_inv fb"
  shows "pixel (HLine x y len ch a fb) px py =
    (if InBounds fb px py \<and> (x \<le> px \<and> px < x + len \<and> py = y) then Some \<lparr>glyph = ch, attributes = a\<rparr> else pixel fb px py)"
proof -
  have "(\<exists>i\<in>set [0..len - 1]. px = x + i \<and> py = y) \<longleftrightarrow> x \<le> px \<and> px < x + len \<and> py = y"
    by (auto intro!: bexI [where x = "px - x"])
  then show ?thesis
    using pixel_fold [where f = "\<lambda>i. PutCh (x + i) y ch a" and on = "\<lambda>i px py. px = x + i \<and> py = y" and ks = "[0..len - 1]",
        OF draws_PutCh pixel_PutCh' assms]
    by (simp add: HLine_def)
qed

lemma pixel_FillRect:
  assumes "fb_inv fb"
  shows "pixel (FillRect x y w h ch a fb) px py =
    (if InBounds fb px py \<and> (x \<le> px \<and> px < x + w \<and> y \<le> py \<and> py < y + h) then Some \<lparr>glyph = ch, attributes = a\<rparr> else pixel fb px py)"
proof -
  have row: "FillRect x y w h ch a = fold (\<lambda>j. HLine x (y + j) w ch a) [0..h - 1]"
    by (simp add: FillRect_def HLine_def)
  have "(\<exists>j\<in>set [0..h - 1]. x \<le> px \<and> px < x + w \<and> py = y + j) \<longleftrightarrow> x \<le> px \<and> px < x + w \<and> y \<le> py \<and> py < y + h"
    by (auto intro!: bexI [where x = "py - y"])
  then show ?thesis
    using pixel_fold [where f = "\<lambda>j. HLine x (y + j) w ch a" and on = "\<lambda>j px py. x \<le> px \<and> px < x + w \<and> py = y + j"
        and ks = "[0..h - 1]", OF draws_HLine pixel_HLine assms]
    by (simp add: row)
qed

lemma pixel_PutText_loop:
  assumes "fb_inv fb" "0 \<le> y" "y < fb_h fb"
  shows "pixel (PutText_loop x y s a fb) px py =
    (if InBounds fb px py \<and> py = y \<and> x \<le> px \<and> nat (px - x) < length (first_line s)
     then Some \<lparr>glyph = first_line s ! nat (px - x), attributes = a\<rparr> else pixel fb px py)"
  using assms
proof (induction x y s a fb rule: PutText_loop.induct)
  case (1 cx y attr fb)
  then show ?case by (simp add: first_line_def)
next
  case (2 cx y ch rest attr fb)
  show ?case
  proof (cases "ch = 0x0A")
    case True
    then show ?thesis by (simp add: first_line_def)
  next
    case False
    define fb' where "fb' = (if 0 \<le> cx \<and> cx < fb_w fb then store_cell cx y \<lparr>glyph = ch, attributes = attr\<rparr> fb else fb)"
    have eq: "fb' = PutCh cx y ch attr fb" using 2 by (simp add: fb'_def PutCh_def InBounds_def)
    note d = drawsD [OF draws_PutCh 2(2), of cx y ch attr, folded eq]
    have px': "pixel fb' px py = (if InBounds fb px py \<and> px = cx \<and> py = y then Some \<lparr>glyph = ch, attributes = attr\<rparr>
        else pixel fb px py)" unfolding eq using pixel_PutCh' [OF 2(2)] by simp
    have bounds: "InBounds fb' px py = InBounds fb px py" by (simp add: InBounds_def d)
    have line: "first_line (ch # rest) = ch # first_line rest" using False by (simp add: first_line_def)
    have loop: "PutText_loop cx y (ch # rest) attr fb =
        (if fb_w fb' \<le> cx + 1 then fb' else PutText_loop (cx + 1) y rest attr fb')"
      using False by (simp add: fb'_def Let_def)
    have shift: "cx \<le> px \<and> nat (px - cx) < length (first_line (ch # rest)) \<longleftrightarrow>
        px = cx \<or> (cx + 1 \<le> px \<and> nat (px - (cx + 1)) < length (first_line rest))"
      unfolding line by (auto simp: nat_less_iff)
    have glyph_at: "first_line (ch # rest) ! nat (px - cx) =
        (if px = cx then ch else first_line rest ! nat (px - (cx + 1)))" if "cx \<le> px"
    proof (cases "px = cx")
      case False
      then have "nat (px - cx) = Suc (nat (px - (cx + 1)))" using that by simp
      then show ?thesis using False unfolding line by simp
    qed (simp add: line)
    show ?thesis
    proof (cases "fb_w fb' \<le> cx + 1")
      case True
      have "InBounds fb px py \<Longrightarrow> px \<le> cx" using True d by (simp add: InBounds_def)
      then show ?thesis unfolding loop shift using True px' glyph_at by auto
    next
      case go: False
      have "pixel (PutText_loop (cx + 1) y rest attr fb') px py =
          (if InBounds fb' px py \<and> py = y \<and> cx + 1 \<le> px \<and> nat (px - (cx + 1)) < length (first_line rest)
           then Some \<lparr>glyph = first_line rest ! nat (px - (cx + 1)), attributes = attr\<rparr> else pixel fb' px py)"
        by (rule 2(1) [OF False fb'_def go]) (use 2 d in simp_all)
      then show ?thesis unfolding loop shift using go px' bounds glyph_at by auto
    qed
  qed
qed

text \<open>
  C36. Each primitive paints exactly what it says, clipped to the buffer: the picture afterwards is the
  picture before, overwritten where the abstract operation paints, for any coordinates and lengths,
  negative ones included; and it never touches a cell outside the vector.
\<close>

theorem Drawing_refines_picture:
  assumes "fb_inv fb"
  shows "pixel (draw op fb) x y =
      (if InBounds fb x y then (case paints op x y of Some c \<Rightarrow> Some c | None \<Rightarrow> pixel fb x y) else None) \<and>
    fb_inv (draw op fb)"
proof
  have d: "draws (draw op)" by (cases op) (simp_all add: drawing)
  then show "fb_inv (draw op fb)" using assms by (rule drawsD)
  show "pixel (draw op fb) x y =
      (if InBounds fb x y then (case paints op x y of Some c \<Rightarrow> Some c | None \<Rightarrow> pixel fb x y) else None)"
  proof (cases op)
    case (DrawClear a)
    then show ?thesis using Index_range [OF assms, of x y] by (simp add: pixel_def Clear_def InBounds_def Index_def)
  next
    case (DrawText px py s a)
    then show ?thesis
      using pixel_PutText_loop [OF assms, of py px s a x y] pixel_None [of fb x y]
      by (auto simp: PutText_def InBounds_def)
  qed (use assms pixel_None [of fb x y] in \<open>auto simp: pixel_PutCh' pixel_FillRect pixel_HLine\<close>)
qed

definition sample_buffer :: FrameBuffer where
  "sample_buffer = Resize 3 2 new_buffer"

lemma Drawing_refines_picture_witness:
  "fb_inv sample_buffer \<and>
   pixel (draw (DrawText (- 1) 1 (W ''abcdef'') 7) sample_buffer) 0 1 = Some \<lparr>glyph = WC CHR ''b'', attributes = 7\<rparr>"
proof -
  have "fb_inv sample_buffer"
    by (simp add: fb_inv_def sample_buffer_def Resize_def new_buffer_def at_least_one_def)
  moreover have "InBounds sample_buffer 0 1"
    by (simp add: InBounds_def sample_buffer_def Resize_def new_buffer_def at_least_one_def)
  ultimately show ?thesis
    using Drawing_refines_picture [of sample_buffer "DrawText (- 1) 1 (W ''abcdef'') 7" 0 1]
    by (simp add: first_line_def)
qed

section \<open>What the console shows\<close>

text \<open>
  The life of a buffer together with the console: drawing, resizing (after which the console may show
  anything), invalidating, presenting with rows that are accepted.
\<close>

definition accept_all :: "int \<Rightarrow> bool" where
  "accept_all y \<longleftrightarrow> True"

inductive frame_step :: "FrameBuffer \<times> console \<Rightarrow> FrameBuffer \<times> console \<Rightarrow> bool" where
  drawn: "draws f \<Longrightarrow> frame_step (fb, con) (f fb, con)"
| resized: "Resize w h fb \<noteq> fb \<Longrightarrow> frame_step (fb, con) (Resize w h fb, con')"
| unchanged: "Resize w h fb = fb \<Longrightarrow> frame_step (fb, con) (fb, con)"
| invalidated: "frame_step (fb, con) (Invalidate fb, con')"
| presented: "Present accept_all valid_handle con fb = (rows, con', fb') \<Longrightarrow> frame_step (fb, con) (fb', con')"

inductive_cases frame_stepE: "frame_step s t"

definition frame_init :: "FrameBuffer \<times> console \<Rightarrow> bool" where
  "frame_init s \<longleftrightarrow> fst s = new_buffer"

definition frame_inv :: "FrameBuffer \<times> console \<Rightarrow> bool" where
  "frame_inv s \<longleftrightarrow>
     (case s of (fb, con) \<Rightarrow>
        fb_inv fb \<and> (prevValid fb \<longrightarrow> (\<forall>y. 0 \<le> y \<and> y < fb_h fb \<longrightarrow> con y = row_of fb (prev fb) y)))"

lemma row_of_width: "fb_w fb = fb_w fb' \<Longrightarrow> row_of fb = row_of fb'"
  by (simp add: row_of_def fun_eq_iff)

lemma write_rows:
  "fold (write_row accepts fb) ys (n, con) =
     (n + length (filter (row_changed fb) ys),
      \<lambda>y. if y \<in> set ys \<and> row_changed fb y \<and> accepts y then row_of fb (cells fb) y else con y)"
  by (induction ys arbitrary: n con) (auto simp: write_row_def fun_eq_iff)

lemma Present_run:
  assumes "Present accept_all True con fb = (rows, con', fb')" "frame_inv (fb, con)"
  shows "rows = length (filter (row_changed fb) [0..fb_h fb - 1]) \<and> fb' = fb\<lparr>prev := cells fb, prevValid := True\<rparr> \<and>
    (\<forall>y. 0 \<le> y \<and> y < fb_h fb \<longrightarrow> con' y = row_of fb (cells fb) y)"
proof -
  have "con' y = row_of fb (cells fb) y" if "0 \<le> y" "y < fb_h fb" for y
  proof (cases "row_changed fb y")
    case True
    then show ?thesis using assms(1) that by (auto simp: Present_def write_rows accept_all_def)
  next
    case False
    then have "con y = row_of fb (cells fb) y" using assms(2) that by (auto simp: frame_inv_def row_changed_def)
    then show ?thesis using assms(1) False by (auto simp: Present_def write_rows)
  qed
  then show ?thesis using assms(1) by (auto simp: Present_def write_rows)
qed

lemma frame_inv_step: "frame_inv s \<Longrightarrow> frame_step s t \<Longrightarrow> frame_inv t"
proof (elim frame_stepE)
  fix f fb con assume "frame_inv s" "s = (fb, con)" "t = (f fb, con)" "draws f"
  then show ?thesis using row_of_width [of "f fb" fb] by (simp add: frame_inv_def drawsD)
next
  fix w h fb con con' assume "frame_inv s" "s = (fb, con)" "t = (Resize w h fb, con')" "Resize w h fb \<noteq> fb"
  then show ?thesis
    by (auto simp: frame_inv_def fb_inv_def Resize_def at_least_one_def Let_def split: if_splits)
next
  fix valid_handle con fb rows con' fb'
  assume s: "frame_inv s" "s = (fb, con)" "t = (fb', con')" and p: "Present accept_all valid_handle con fb = (rows, con', fb')"
  show ?thesis
  proof (cases valid_handle)
    case True
    with Present_run [of con fb rows con' fb'] s p show ?thesis
      by (auto simp: frame_inv_def fb_inv_def row_of_def)
  next
    case False
    then show ?thesis using s p by (simp add: Present_def)
  qed
qed (auto simp: frame_inv_def fb_inv_def Invalidate_def)

lemma frame_inv_init: "frame_init s \<Longrightarrow> frame_inv s"
  by (cases s) (simp add: frame_init_def frame_inv_def new_buffer_def fb_inv_def)

interpretation frames: inductive_invariant frame_init frame_step frame_inv
  by unfold_locales (rule frame_inv_init, assumption, rule frame_inv_step)

lemma row_pixel: "fb_inv fb \<Longrightarrow> InBounds fb x y \<Longrightarrow> pixel fb x y = Some (row_of fb (cells fb) y ! nat x)"
proof -
  assume inv: "fb_inv fb" and b: "InBounds fb x y"
  then have xy: "0 \<le> x" "x < fb_w fb" "0 \<le> y * fb_w fb" by (simp_all add: InBounds_def)
  then have "nat (y * fb_w fb) + nat x = nat (Index fb x y)" by (simp add: Index_def nat_add_distrib)
  moreover have "nat x < nat (fb_w fb)" using xy by simp
  ultimately have "row_of fb (cells fb) y ! nat x = cells fb ! nat (Index fb x y)"
    using Index_range [OF inv b] by (simp add: row_of_def)
  then show ?thesis using b by (simp add: pixel_def)
qed

text \<open>
  C37. The differential output is exact: whatever was drawn, resized, invalidated or presented before, no
  access was out of range, and after \<^verbatim>\<open>Present\<close> the console shows every cell of the buffer, although only
  the rows that changed were written.
\<close>

theorem Present_shows_buffer:
  assumes "reachable frame_init frame_step (fb, con)"
    and "Present accept_all True con fb = (rows, con', fb')"
  shows "\<not> out_of_range fb \<and> rows = length (filter (row_changed fb) [0..fb_h fb - 1]) \<and>
    (if InBounds fb x y then pixel fb x y = Some (con' y ! nat x) else True)"
proof -
  have inv: "frame_inv (fb, con)" using frames.inv_reachable [OF assms(1)] .
  then have "fb_inv fb" by (simp add: frame_inv_def)
  with Present_run [OF assms(2) inv] row_pixel show ?thesis by (auto simp: fb_inv_def InBounds_def)
qed

definition sample_frame :: FrameBuffer where
  "sample_frame = PutCh 1 1 (WC CHR ''x'') 7 sample_buffer"

lemma sample_frame_reachable: "reachable frame_init frame_step (sample_frame, \<lambda>_. [])"
proof -
  have "reachable frame_init frame_step (new_buffer, \<lambda>_. [])" by (rule reachable.start) (simp add: frame_init_def)
  moreover have "frame_step (new_buffer, \<lambda>_. []) (sample_buffer, \<lambda>_. [])"
    unfolding sample_buffer_def by (rule frame_step.resized) (simp add: Resize_def new_buffer_def at_least_one_def)
  moreover have "frame_step (sample_buffer, \<lambda>_. []) (sample_frame, \<lambda>_. [])"
    unfolding sample_frame_def by (rule frame_step.drawn) (rule draws_PutCh)
  ultimately show ?thesis by (blast intro: reachable.move)
qed

lemma Present_shows_buffer_witness:
  "case Present accept_all True (\<lambda>_. []) sample_frame of (rows, con', fb') \<Rightarrow>
     rows = 2 \<and> con' 1 ! 1 = \<lparr>glyph = WC CHR ''x'', attributes = 7\<rparr>"
proof -
  obtain rows con' fb' where p: "Present accept_all True (\<lambda>_. []) sample_frame = (rows, con', fb')"
    using prod_cases3 by blast
  have "fb_h sample_frame = 2" "\<not> prevValid sample_frame" "InBounds sample_frame 1 1"
    "pixel sample_frame 1 1 = Some \<lparr>glyph = WC CHR ''x'', attributes = 7\<rparr>"
    by (simp_all add: sample_frame_def sample_buffer_def PutCh_def InBounds_def Resize_def new_buffer_def at_least_one_def
        store_cell_def Index_def Let_def pixel_def)
  with Present_shows_buffer [OF sample_frame_reachable p, of 1 1] p show ?thesis
    by (simp add: row_changed_def upto_rec1)
qed

end
