(* ===== verification/Widgets.thy ===== *)
theory Widgets
  imports FrameBuffer "HOL-Library.Signed_Division"
begin

text \<open>
  The widgets, \<^verbatim>\<open>src/src/ui/Widgets.cpp\<close>, with the colours and glyphs of \<^verbatim>\<open>src/src/ui/Theme.cpp\<close>: the menu
  with its selection, the log viewer, the bars and panels as sequences of drawing statements. The menu is a
  state machine whose invariant says where the selection may be; every widget is shown to draw only.
\<close>

section \<open>Theme\<close>

datatype UiColor =
    ColorDefault | Primary | PrimaryDim | Accent | Warning | ColorError | Muted | Selected | SelectedDim | Star

text \<open>\<^verbatim>\<open>FOREGROUND_BLUE\<close> 1, \<^verbatim>\<open>GREEN\<close> 2, \<^verbatim>\<open>RED\<close> 4, \<^verbatim>\<open>INTENSITY\<close> 8; the background bits are four higher.\<close>

fun ThemeAttr :: "UiColor \<Rightarrow> 16 word" where
  "ThemeAttr Primary = 0x0A"
| "ThemeAttr PrimaryDim = 0x02"
| "ThemeAttr Accent = 0x0F"
| "ThemeAttr Warning = 0x0E"
| "ThemeAttr ColorError = 0x0C"
| "ThemeAttr Muted = 0x08"
| "ThemeAttr Selected = 0xA0"
| "ThemeAttr SelectedDim = 0x20"
| "ThemeAttr Star = 0x0C"
| "ThemeAttr ColorDefault = 0x0A"

datatype LayoutMode = FullLayout | CompactLayout | MinimalLayout

definition LayoutForSize :: "int \<Rightarrow> int \<Rightarrow> LayoutMode" where
  "LayoutForSize w h =
     (if 92 \<le> w \<and> 30 \<le> h then FullLayout else if 70 \<le> w \<and> 24 \<le> h then CompactLayout else MinimalLayout)"

definition SizeTooSmall :: "int \<Rightarrow> int \<Rightarrow> bool" where
  "SizeTooSmall w h \<longleftrightarrow> w < 54 \<or> h < 15"

definition UnicodeGlyphs :: Glyphs where
  "UnicodeGlyphs = \<lparr>g_tl = 0x250C, g_tr = 0x2510, g_bl = 0x2514, g_br = 0x2518, g_h = 0x2500, g_v = 0x2502,
     ltee = 0x251C, rtee = 0x2524, ttee = 0x252C, btee = 0x2534,
     barFull = 0x2588, barEmpty = 0x2591, barHi = 0x2593,
     bullet = 0x2022, heartbeat = 0x25CF, cursorBlock = 0x258C, arrow = 0x203A,
     spinner = [0x280B, 0x2819, 0x2839, 0x2838, 0x283C, 0x2834, 0x2826, 0x2827, 0x2807, 0x280F]\<rparr>"

definition AsciiGlyphs :: Glyphs where
  "AsciiGlyphs = \<lparr>g_tl = WC CHR ''+'', g_tr = WC CHR ''+'', g_bl = WC CHR ''+'', g_br = WC CHR ''+'',
     g_h = WC CHR ''-'', g_v = WC CHR ''|'',
     ltee = WC CHR ''+'', rtee = WC CHR ''+'', ttee = WC CHR ''+'', btee = WC CHR ''+'',
     barFull = WC CHR ''#'', barEmpty = WC CHR ''-'', barHi = WC CHR ''='',
     bullet = WC CHR ''*'', heartbeat = WC CHR ''*'', cursorBlock = WC CHR ''_'', arrow = WC CHR ''>'',
     spinner = [WC CHR ''|'', WC CHR ''/'', WC CHR ''-'', 0x5C]\<rparr>"

datatype AnimSpeed = Slow | NormalSpeed | Fast

record UiOptions =
  animations :: bool
  reducedMotion :: bool
  ui_glitch :: bool
  mascotIdle :: bool
  asciiOnly :: bool
  debugUi :: bool
  speed :: AnimSpeed

definition effGlitch :: "UiOptions \<Rightarrow> bool" where
  "effGlitch o' \<longleftrightarrow> animations o' \<and> ui_glitch o' \<and> \<not> reducedMotion o'"

definition effTypewriter :: "UiOptions \<Rightarrow> bool" where
  "effTypewriter o' \<longleftrightarrow> animations o' \<and> \<not> reducedMotion o'"

definition effMascotIdle :: "UiOptions \<Rightarrow> bool" where
  "effMascotIdle o' \<longleftrightarrow> animations o' \<and> mascotIdle o' \<and> \<not> reducedMotion o'"

definition effBlink :: "UiOptions \<Rightarrow> bool" where
  "effBlink o' \<longleftrightarrow> animations o' \<and> \<not> reducedMotion o'"

definition scaleMs :: "UiOptions \<Rightarrow> int \<Rightarrow> int" where
  "scaleMs o' nominalMs =
     (case speed o' of Slow \<Rightarrow> nominalMs * 3 sdiv 2 | Fast \<Rightarrow> nominalMs sdiv 2 | NormalSpeed \<Rightarrow> nominalMs)"

text \<open>\<^verbatim>\<open>Theme::G\<close>: the glyph set the options choose.\<close>

definition G :: "UiOptions \<Rightarrow> Glyphs" where
  "G o' = (if asciiOnly o' then AsciiGlyphs else UnicodeGlyphs)"

section \<open>The menu\<close>

record MenuItem =
  item_label :: wstring
  description :: wstring
  item_enabled :: bool
  hotkey :: wchar

record Menu =
  items :: "MenuItem list"
  sel :: int

definition enabled_at :: "Menu \<Rightarrow> int \<Rightarrow> bool" where
  "enabled_at m i \<longleftrightarrow> item_enabled (items m ! nat i)"

definition first_enabled :: "MenuItem list \<Rightarrow> nat option" where
  "first_enabled its = find (\<lambda>i. item_enabled (its ! i)) [0..<length its]"

definition SetItems :: "MenuItem list \<Rightarrow> Menu \<Rightarrow> Menu" where
  "SetItems its m = m\<lparr>items := its, sel := (case first_enabled its of None \<Rightarrow> 0 | Some i \<Rightarrow> int i)\<rparr>"

definition menu_size :: "Menu \<Rightarrow> int" where
  "menu_size m = int (length (items m))"

text \<open>The loops: the first of the positions at distance 1, 2, ... that is enabled; \<^verbatim>\<open>%\<close> truncates towards zero.\<close>

definition up_position :: "Menu \<Rightarrow> int \<Rightarrow> int" where
  "up_position m d = (sel m - d smod menu_size m + menu_size m) smod menu_size m"

definition down_position :: "Menu \<Rightarrow> int \<Rightarrow> int" where
  "down_position m d = (sel m + d) smod menu_size m"

definition move_to :: "(int \<Rightarrow> int) \<Rightarrow> Menu \<Rightarrow> Menu" where
  "move_to position m =
     (if items m = [] then m
      else case find (\<lambda>d. enabled_at m (position d)) [1..menu_size m] of
             None \<Rightarrow> m | Some d \<Rightarrow> m\<lparr>sel := position d\<rparr>)"

definition MoveUp :: "Menu \<Rightarrow> Menu" where
  "MoveUp m = move_to (up_position m) m"

definition MoveDown :: "Menu \<Rightarrow> Menu" where
  "MoveDown m = move_to (down_position m) m"

definition lower_hotkey :: "wchar \<Rightarrow> wchar" where
  "lower_hotkey ch = (if WC CHR ''A'' \<le> ch \<and> ch \<le> WC CHR ''Z'' then or ch 0x20 else ch)"

definition IndexForHotkey :: "Menu \<Rightarrow> wchar \<Rightarrow> int" where
  "IndexForHotkey m ch =
     (case find (\<lambda>i. item_enabled (items m ! i) \<and> hotkey (items m ! i) = lower_hotkey ch) [0..<length (items m)] of
        None \<Rightarrow> -1 | Some i \<Rightarrow> int i)"

definition SelectHotkey :: "wchar \<Rightarrow> Menu \<Rightarrow> Menu" where
  "SelectHotkey ch m = (let i = IndexForHotkey m ch in if 0 \<le> i then m\<lparr>sel := i\<rparr> else m)"

definition SetSelected :: "int \<Rightarrow> Menu \<Rightarrow> Menu" where
  "SetSelected i m =
     (if items m = [] then m
      else let clamped = (if menu_size m \<le> (if i < 0 then 0 else i) then menu_size m - 1 else if i < 0 then 0 else i);
               m1 = m\<lparr>sel := clamped\<rparr> in
        if enabled_at m1 clamped then m1
        else let m2 = MoveDown m1 in if enabled_at m2 (sel m2) then m2 else MoveUp m2)"

section \<open>The selection\<close>

text \<open>
  In range whenever there is an item, and on an enabled item whenever there is one.
\<close>

definition menu_ok :: "Menu \<Rightarrow> bool" where
  "menu_ok m \<longleftrightarrow> items m = [] \<or>
     (0 \<le> sel m \<and> sel m < menu_size m \<and> (enabled_at m (sel m) \<or> (\<forall>it\<in>set (items m). \<not> item_enabled it)))"

definition in_range :: "Menu \<Rightarrow> bool" where
  "in_range m \<longleftrightarrow> items m = [] \<or> (0 \<le> sel m \<and> sel m < menu_size m)"

lemma smod_pos: "0 \<le> a \<Longrightarrow> 0 < n \<Longrightarrow> a smod n = a mod (n :: int)"
  by (simp add: signed_modulo_int_def signed_divide_int_def sgn_if minus_mult_div_eq_mod mult.commute)

lemma up_position_mod:
  assumes "in_range m" "items m \<noteq> []" "1 \<le> d" "d \<le> menu_size m"
  shows "up_position m d = (sel m - d) mod menu_size m"
proof -
  have n: "0 < menu_size m" "0 \<le> sel m" "sel m < menu_size m"
    using assms by (auto simp: in_range_def menu_size_def)
  have "d smod menu_size m = d mod menu_size m" using n assms(3) by (simp add: smod_pos)
  moreover have "0 \<le> sel m - d mod menu_size m + menu_size m"
    using n pos_mod_bound [OF n(1), of d] by linarith
  ultimately show ?thesis using n by (simp add: up_position_def smod_pos mod_diff_right_eq)
qed

lemma down_position_mod:
  assumes "in_range m" "items m \<noteq> []" "1 \<le> d"
  shows "down_position m d = (sel m + d) mod menu_size m"
  using assms by (auto simp: down_position_def in_range_def menu_size_def smod_pos)

lemma find_upto:
  "find P [a..b] = Some d \<longleftrightarrow> a \<le> d \<and> d \<le> b \<and> P d \<and> (\<forall>e. a \<le> e \<and> e < d \<longrightarrow> \<not> P (e :: int))"
proof (induction "nat (b + 1 - a)" arbitrary: a)
  case 0
  then show ?case by simp
next
  case (Suc n)
  then have le: "a \<le> b" by simp
  have step: "find P [a..b] = (if P a then Some a else find P [a + 1..b])"
    using le by (simp add: upto_rec1)
  have "find P [a + 1..b] = Some d \<longleftrightarrow>
      a + 1 \<le> d \<and> d \<le> b \<and> P d \<and> (\<forall>e. a + 1 \<le> e \<and> e < d \<longrightarrow> \<not> P e)"
    by (rule Suc.hyps(1)) (use Suc.hyps(2) in simp)
  then show ?case unfolding step using le
    by (auto simp: zle_add1_eq_le) (metis order_less_le zless_imp_add1_zle)+
qed

lemma find_upto_None: "find P [a..b] = None \<longleftrightarrow> (\<forall>d. a \<le> d \<and> d \<le> b \<longrightarrow> \<not> P (d :: int))"
  by (auto simp: find_None_iff)

text \<open>A cyclic search that reaches every position keeps the invariant and finds an enabled item.\<close>

lemma move_to_ok:
  assumes "in_range m" "items m \<noteq> []"
    and "\<And>d. 1 \<le> d \<Longrightarrow> d \<le> menu_size m \<Longrightarrow> 0 \<le> position d \<and> position d < menu_size m"
    and "\<And>i. 0 \<le> i \<Longrightarrow> i < menu_size m \<Longrightarrow> \<exists>d. 1 \<le> d \<and> d \<le> menu_size m \<and> position d = i"
  shows "menu_ok (move_to position m) \<and> items (move_to position m) = items m"
proof (cases "find (\<lambda>d. enabled_at m (position d)) [1..menu_size m]")
  case None
  have "\<not> item_enabled it" if mem: "it \<in> set (items m)" for it
  proof -
    obtain k where k: "k < length (items m)" "items m ! k = it" using mem by (auto simp: in_set_conv_nth)
    then obtain d where "1 \<le> d" "d \<le> menu_size m" "position d = int k"
      using assms(4) [of "int k"] by (auto simp: menu_size_def)
    then show ?thesis using None k by (auto simp: find_upto_None enabled_at_def)
  qed
  then show ?thesis using None assms(1, 2) by (simp add: move_to_def menu_ok_def in_range_def)
next
  case (Some d)
  then have "1 \<le> d" "d \<le> menu_size m" "enabled_at m (position d)" by (simp_all add: find_upto)
  then show ?thesis using Some assms(2, 3)
    by (simp add: move_to_def menu_ok_def menu_size_def enabled_at_def)
qed

lemma cyclic_reach:
  fixes s i n :: int
  assumes "0 < n" "0 \<le> i" "i < n"
  shows "\<exists>d. 1 \<le> d \<and> d \<le> n \<and> (s + d) mod n = i" and "\<exists>d. 1 \<le> d \<and> d \<le> n \<and> (s - d) mod n = i"
proof -
  have reach: "\<exists>d. 1 \<le> d \<and> d \<le> n \<and> d mod n = j mod n" for j
  proof (cases "j mod n = 0")
    case True
    then show ?thesis using assms(1) by (intro exI [of _ n]) simp
  next
    case False
    then have "1 \<le> j mod n" "j mod n \<le> n" using pos_mod_sign [OF assms(1), of j] pos_mod_bound [OF assms(1), of j] by linarith+
    then show ?thesis by (intro exI [of _ "j mod n"]) simp
  qed
  obtain d where "1 \<le> d" "d \<le> n" "d mod n = (i - s) mod n" using reach by blast
  then show "\<exists>d. 1 \<le> d \<and> d \<le> n \<and> (s + d) mod n = i"
    using assms by (intro exI [of _ d]) (simp add: mod_add_cong [of s n s d "i - s"])
  obtain d where "1 \<le> d" "d \<le> n" "d mod n = (s - i) mod n" using reach by blast
  then show "\<exists>d. 1 \<le> d \<and> d \<le> n \<and> (s - d) mod n = i"
    using assms by (intro exI [of _ d]) (simp add: mod_diff_cong [of s n s d "s - i"])
qed

lemma MoveUp_ok: "in_range m \<Longrightarrow> menu_ok (MoveUp m) \<and> items (MoveUp m) = items m"
proof (cases "items m = []")
  case False
  assume r: "in_range m"
  have n: "0 < menu_size m" using False by (simp add: menu_size_def)
  show ?thesis unfolding MoveUp_def
    by (rule move_to_ok [OF r False])
      (use up_position_mod [OF r False] cyclic_reach(2) [OF n] n in force)+
qed (simp add: MoveUp_def move_to_def menu_ok_def)

lemma MoveDown_ok: "in_range m \<Longrightarrow> menu_ok (MoveDown m) \<and> items (MoveDown m) = items m"
proof (cases "items m = []")
  case False
  assume r: "in_range m"
  have n: "0 < menu_size m" using False by (simp add: menu_size_def)
  show ?thesis unfolding MoveDown_def
    by (rule move_to_ok [OF r False])
      (use down_position_mod [OF r False] cyclic_reach(1) [OF n] n in force)+
qed (simp add: MoveDown_def move_to_def menu_ok_def)

lemma SetItems_ok: "menu_ok (SetItems its m)"
proof (cases "first_enabled its")
  case None
  then have "\<forall>i < length its. \<not> item_enabled (its ! i)" by (simp add: first_enabled_def find_None_iff)
  then have "\<forall>it\<in>set its. \<not> item_enabled it" by (auto simp: in_set_conv_nth)
  then show ?thesis using None by (simp add: SetItems_def menu_ok_def menu_size_def)
next
  case (Some i)
  then have "i < length its" "item_enabled (its ! i)"
    by (auto simp: first_enabled_def find_Some_iff)
  with Some show ?thesis by (simp add: SetItems_def menu_ok_def menu_size_def enabled_at_def)
qed

lemma menu_ok_in_range: "menu_ok m \<Longrightarrow> in_range m"
  by (auto simp: menu_ok_def in_range_def)

lemma SelectHotkey_ok:
  assumes "menu_ok m"
  shows "menu_ok (SelectHotkey ch m)"
proof (cases "find (\<lambda>i. item_enabled (items m ! i) \<and> hotkey (items m ! i) = lower_hotkey ch) [0..<length (items m)]")
  case None
  then show ?thesis using assms by (simp add: SelectHotkey_def IndexForHotkey_def)
next
  case (Some i)
  then have "i < length (items m)" "item_enabled (items m ! i)" by (auto simp: find_Some_iff)
  then show ?thesis using Some by (simp add: SelectHotkey_def IndexForHotkey_def menu_ok_def menu_size_def enabled_at_def)
qed

lemma SetSelected_ok: "menu_ok (SetSelected i m)"
proof (cases "items m = []")
  case False
  define k where "k = (if menu_size m \<le> (if i < 0 then 0 else i) then menu_size m - 1 else if i < 0 then 0 else i)"
  define m1 where "m1 = m\<lparr>sel := k\<rparr>"
  have "0 < menu_size m" using False by (simp add: menu_size_def)
  then have k: "0 \<le> k" "k < menu_size m" by (auto simp: k_def)
  then have range: "in_range m1" by (simp add: in_range_def m1_def menu_size_def)
  have eq: "SetSelected i m = (if enabled_at m1 k then m1
      else let m2 = MoveDown m1 in if enabled_at m2 (sel m2) then m2 else MoveUp m2)"
    using False by (simp add: SetSelected_def k_def m1_def Let_def)
  have "enabled_at m1 k \<Longrightarrow> menu_ok m1" using k by (simp add: menu_ok_def m1_def menu_size_def)
  then show ?thesis unfolding eq Let_def
    using MoveDown_ok [OF range] MoveUp_ok [of "MoveDown m1"] menu_ok_in_range by auto
qed (simp add: SetSelected_def menu_ok_def)

text \<open>One up and one down are inverse: a cyclic search back ends where it started.\<close>

lemma search_back:
  fixes s n :: int
  assumes n: "0 < n" and s: "0 \<le> s" "s < n" "P s"
    and forth: "find (\<lambda>d. P ((s + c * d) mod n)) [1..n] = Some k"
  shows "find (\<lambda>d. P (((s + c * k) mod n - c * d) mod n)) [1..n] = Some k"
proof -
  have k: "1 \<le> k" "k \<le> n" "\<And>e. 1 \<le> e \<Longrightarrow> e < k \<Longrightarrow> \<not> P ((s + c * e) mod n)" using forth by (auto simp: find_upto)
  have rewound: "((s + c * k) mod n - c * e) mod n = (s + c * (k - e)) mod n" for e
    by (simp add: mod_diff_left_eq algebra_simps)
  have "P (((s + c * k) mod n - c * k) mod n)" unfolding rewound using s by simp
  moreover have "\<not> P (((s + c * k) mod n - c * e) mod n)" if "1 \<le> e" "e < k" for e
    unfolding rewound using k(3) [of "k - e"] that by simp
  ultimately show ?thesis using k(1, 2) by (auto simp: find_upto)
qed

lemma find_cong_upto:
  "(\<And>d. 1 \<le> d \<Longrightarrow> d \<le> n \<Longrightarrow> P d = Q d) \<Longrightarrow> find P [1..n] = find Q [1..(n :: int)]"
  by (intro find_cong) auto

lemma search_exists:
  fixes s n :: int
  assumes "0 < n" "0 \<le> s" "s < n" "P s"
  obtains k where "find (\<lambda>d. P ((s + c * d) mod n)) [1..n] = Some k" "1 \<le> k" "k \<le> n"
proof (cases "find (\<lambda>d. P ((s + c * d) mod n)) [1..n]")
  case None
  then have "\<forall>d. 1 \<le> d \<and> d \<le> n \<longrightarrow> \<not> P ((s + c * d) mod n)" by (simp only: find_upto_None)
  then have "\<not> P ((s + c * n) mod n)" using assms(1) by (metis int_one_le_iff_zero_less order_refl)
  then show ?thesis using assms by simp
next
  case (Some k)
  then show ?thesis using that by (auto simp: find_upto)
qed

lemma moved_view [simp]: "enabled_at (m\<lparr>sel := z\<rparr>) i = enabled_at m i" "menu_size (m\<lparr>sel := z\<rparr>) = menu_size m"
  by (simp_all add: enabled_at_def menu_size_def)

lemma Move_inverse:
  assumes "in_range m" "items m \<noteq> []" "enabled_at m (sel m)"
  shows "MoveDown (MoveUp m) = m" "MoveUp (MoveDown m) = m"
proof -
  let ?n = "menu_size m" and ?P = "enabled_at m"
  have n: "0 < ?n" and s: "0 \<le> sel m" "sel m < ?n" using assms(1, 2) by (auto simp: in_range_def menu_size_def)
  have up: "find (\<lambda>d. enabled_at u (up_position u d)) [1..menu_size u] = find (\<lambda>d. enabled_at u ((sel u + (- 1) * d) mod menu_size u)) [1..menu_size u]"
    and down: "find (\<lambda>d. enabled_at u (down_position u d)) [1..menu_size u] = find (\<lambda>d. enabled_at u ((sel u + 1 * d) mod menu_size u)) [1..menu_size u]"
    if "in_range u" "items u \<noteq> []" for u
    by (rule find_cong_upto, simp add: up_position_mod [OF that] down_position_mod [OF that])+
  {
    obtain k where k: "find (\<lambda>d. ?P ((sel m + (- 1) * d) mod ?n)) [1..?n] = Some k" "1 \<le> k" "k \<le> ?n"
      by (rule search_exists [where P = ?P and c = "- 1", OF n s assms(3)])
    let ?u = "m\<lparr>sel := (sel m + (- 1) * k) mod ?n\<rparr>"
    have u: "MoveUp m = ?u"
      using up [OF assms(1, 2)] k assms(2) up_position_mod [OF assms(1, 2) k(2, 3)] by (simp add: MoveUp_def move_to_def)
    have u_range: "in_range ?u" "items ?u \<noteq> []" using n assms(2) by (simp_all add: in_range_def menu_size_def)
    have "find (\<lambda>d. ?P (((sel m + (- 1) * k) mod ?n - (- 1) * d) mod ?n)) [1..?n] = Some k"
      by (rule search_back [where P = ?P, OF n s assms(3) k(1)])
    then have "find (\<lambda>d. enabled_at ?u (down_position ?u d)) [1..menu_size ?u] = Some k"
      using down [OF u_range] by simp
    moreover have "down_position ?u k = sel m"
      using down_position_mod [OF u_range k(2)] s by (simp add: mod_simps)
    ultimately show "MoveDown (MoveUp m) = m" unfolding u using assms(2) by (simp add: MoveDown_def move_to_def)
  }
  {
    obtain k where k: "find (\<lambda>d. ?P ((sel m + 1 * d) mod ?n)) [1..?n] = Some k" "1 \<le> k" "k \<le> ?n"
      by (rule search_exists [where P = ?P and c = 1, OF n s assms(3)])
    let ?u = "m\<lparr>sel := (sel m + 1 * k) mod ?n\<rparr>"
    have u: "MoveDown m = ?u"
      using down [OF assms(1, 2)] k assms(2) down_position_mod [OF assms(1, 2) k(2)] by (simp add: MoveDown_def move_to_def)
    have u_range: "in_range ?u" "items ?u \<noteq> []" using n assms(2) by (simp_all add: in_range_def menu_size_def)
    have "find (\<lambda>d. ?P (((sel m + 1 * k) mod ?n - 1 * d) mod ?n)) [1..?n] = Some k"
      by (rule search_back [where P = ?P, OF n s assms(3) k(1)])
    then have "find (\<lambda>d. enabled_at ?u (up_position ?u d)) [1..menu_size ?u] = Some k"
      using up [OF u_range] by simp
    moreover have "up_position ?u k = sel m"
      using up_position_mod [OF u_range k(2)] k(3) s by (simp add: mod_simps)
    ultimately show "MoveUp (MoveDown m) = m" unfolding u using assms(2) by (simp add: MoveUp_def move_to_def)
  }
qed

definition new_menu :: Menu where
  "new_menu = \<lparr>items = [], sel = 0\<rparr>"

inductive menu_step :: "Menu \<Rightarrow> Menu \<Rightarrow> bool" where
  set_items: "menu_step m (SetItems its m)"
| move_up: "menu_step m (MoveUp m)"
| move_down: "menu_step m (MoveDown m)"
| select_hotkey: "menu_step m (SelectHotkey ch m)"
| set_selected: "menu_step m (SetSelected i m)"

definition menu_init :: "Menu \<Rightarrow> bool" where
  "menu_init m \<longleftrightarrow> m = new_menu"

lemma menu_ok_step: "menu_ok m \<Longrightarrow> menu_step m t \<Longrightarrow> menu_ok t"
proof (erule menu_step.cases, goal_cases)
  case 2
  then show ?case using MoveUp_ok [OF menu_ok_in_range] by blast
next
  case 3
  then show ?case using MoveDown_ok [OF menu_ok_in_range] by blast
qed (simp_all add: SetItems_ok SelectHotkey_ok SetSelected_ok)

interpretation menu: inductive_invariant menu_init menu_step menu_ok
  by unfold_locales (simp add: menu_init_def new_menu_def menu_ok_def, rule menu_ok_step)

text \<open>
  The selection of a menu is always usable: after any sequence of operations it is in range and on an
  enabled item whenever the menu has one, so \<^verbatim>\<open>SelectedItem\<close> never reads outside the items; and from an
  enabled item one step up and one step down, in either order, lead back to it.
\<close>

lemma Menu_selection:
  assumes "reachable menu_init menu_step m"
  shows "menu_ok m \<and>
    (if items m \<noteq> [] \<and> enabled_at m (sel m) then MoveDown (MoveUp m) = m \<and> MoveUp (MoveDown m) = m else True)"
  using menu.inv_reachable [OF assms] Move_inverse [OF menu_ok_in_range] by simp

definition sample_items :: "MenuItem list" where
  "sample_items = [\<lparr>item_label = W ''a'', description = [], item_enabled = False, hotkey = 0\<rparr>,
     \<lparr>item_label = W ''b'', description = [], item_enabled = True, hotkey = WC CHR ''b''\<rparr>,
     \<lparr>item_label = W ''c'', description = [], item_enabled = True, hotkey = WC CHR ''c''\<rparr>]"

lemma Menu_selection_witness:
  "sel (SetItems sample_items new_menu) = 1 \<and>
   MoveDown (MoveUp (SetItems sample_items new_menu)) = SetItems sample_items new_menu"
proof -
  have "reachable menu_init menu_step (SetItems sample_items new_menu)"
    by (rule reachable.move, rule reachable.start, simp add: menu_init_def, rule menu_step.set_items)
  moreover have "first_enabled sample_items = Some 1"
    by (simp add: first_enabled_def sample_items_def upt_rec)
  ultimately show ?thesis
    using Menu_selection [of "SetItems sample_items new_menu"]
    by (simp add: SetItems_def enabled_at_def sample_items_def)
qed

end
