(* ===== verification/WidgetsDraw.thy ===== *)
theory WidgetsDraw
  imports Widgets UiEvent
begin

text \<open>
  What the widgets of \<^verbatim>\<open>src/src/ui/Widgets.cpp\<close> paint: the bars, the rows of the menu, the status panel, the
  log viewer and the mascot, each as the sequence of drawing statements the code makes. A widget that
  returns the height it used is a pair of that height and its drawing. Each is shown to stay inside the
  rectangle it was given, so that no screen can overwrite another part by a long text.

  Sizes of strings and lists are read as \<^verbatim>\<open>int\<close>: they are below 2^31 on every screen.
\<close>

section \<open>Bars\<close>

definition clamp_percent :: "int \<Rightarrow> int" where
  "clamp_percent pct = (let p = (if pct < 0 then 0 else pct) in if 100 < p then 100 else p)"

definition bar_filled :: "int \<Rightarrow> int \<Rightarrow> int" where
  "bar_filled innerWidth pct =
     (let filled = pct * innerWidth div 100 in if innerWidth < filled then innerWidth else filled)"

text \<open>\<^verbatim>\<open>swprintf(pct, 8, "%3d%%", percent)\<close>\<close>

definition percent_text :: "int \<Rightarrow> wstring" where
  "percent_text pct =
     (let digits = to_string (nat pct) in W (replicate (3 - length digits) CHR '' '' @ digits @ ''%''))"

definition DrawProgressBar ::
    "UiOptions \<Rightarrow> int \<Rightarrow> int \<Rightarrow> int \<Rightarrow> int \<Rightarrow> nat \<Rightarrow> bool \<Rightarrow> FrameBuffer \<Rightarrow> FrameBuffer" where
  "DrawProgressBar th x y innerWidth pct elapsedMs animating =
     (if innerWidth < 1 then id
      else let pct = clamp_percent pct; g = G th; filled = bar_filled innerWidth pct in
        in_order
          [PutCh x y (WC CHR ''['') (ThemeAttr Muted),
           fold (\<lambda>i. PutCh (x + 1 + i) y (if i < filled then barFull g else barEmpty g)
                   (ThemeAttr (if i < filled then Primary else PrimaryDim))) [0..innerWidth - 1],
           if animating \<and> 0 < filled
           then PutCh (x + 1 + int (elapsedMs div 70) mod filled) y (barHi g) (ThemeAttr Accent) else id,
           PutCh (x + 1 + innerWidth) y (WC CHR '']'') (ThemeAttr Muted),
           PutText (x + innerWidth + 3) y (percent_text pct) (ThemeAttr Accent)])"

definition comet_distance :: "int \<Rightarrow> int \<Rightarrow> int \<Rightarrow> int" where
  "comet_distance innerWidth pos i = (let d = i - pos in if d < 0 then d + innerWidth else d)"

definition DrawLoadingBar :: "UiOptions \<Rightarrow> int \<Rightarrow> int \<Rightarrow> int \<Rightarrow> nat \<Rightarrow> FrameBuffer \<Rightarrow> FrameBuffer" where
  "DrawLoadingBar th x y innerWidth elapsedMs =
     (if innerWidth < 1 then id
      else let g = G th; seg = (if 12 \<le> innerWidth then 6 else 3); pos = int (elapsedMs div 45) mod innerWidth in
        in_order
          [PutCh x y (WC CHR ''['') (ThemeAttr Muted),
           fold (\<lambda>i. let on_comet = comet_distance innerWidth pos i < seg in
                   PutCh (x + 1 + i) y (if on_comet then barFull g else barEmpty g)
                     (ThemeAttr (if on_comet then Accent else PrimaryDim))) [0..innerWidth - 1],
           PutCh (x + 1 + innerWidth) y (WC CHR '']'') (ThemeAttr Muted)])"

section \<open>Menu rows and the status panel\<close>

definition PutClipped :: "int \<Rightarrow> int \<Rightarrow> wstring \<Rightarrow> 16 word \<Rightarrow> int \<Rightarrow> FrameBuffer \<Rightarrow> FrameBuffer" where
  "PutClipped x y s attr maxW =
     (if maxW \<le> 0 then id
      else PutText x y (if maxW < int (length s) then take (nat maxW) s else s) attr)"

definition row_attr :: "MenuItem \<Rightarrow> bool \<Rightarrow> 16 word" where
  "row_attr it selected =
     (if \<not> item_enabled it then ThemeAttr Muted else if selected then ThemeAttr Selected else ThemeAttr Primary)"

text \<open>
  The prefix of three columns, the label, two blanks and an em dash when disabled, then padding or a cut;
  \<^verbatim>\<open>substr\<close> with a negative width converted to \<^verbatim>\<open>size_t\<close> keeps the whole row.
\<close>

definition menu_row :: "UiOptions \<Rightarrow> MenuItem \<Rightarrow> bool \<Rightarrow> int \<Rightarrow> wstring" where
  "menu_row th it selected width =
     (let row = W '' '' @ [if selected then arrow (G th) else WC CHR '' ''] @ W '' '' @ item_label it @
            (if item_enabled it then [] else W ''  '' @ [0x2014]) in
      if int (length row) < width then row @ replicate (nat width - length row) (WC CHR '' '')
      else if width < 0 then row else take (nat width) row)"

definition Menu_Render :: "Menu \<Rightarrow> UiOptions \<Rightarrow> int \<Rightarrow> int \<Rightarrow> int \<Rightarrow> int \<times> (FrameBuffer \<Rightarrow> FrameBuffer)" where
  "Menu_Render m th x y width =
     (menu_size m,
      fold (\<lambda>i. let it = items m ! i; selected = (int i = sel m) in
          PutText x (y + int i) (menu_row th it selected width) (row_attr it selected)) [0..<length (items m)])"

record StatusCell =
  cell_label :: wstring
  cell_value :: wstring
  valueColor :: UiColor

definition status_cell :: "int \<Rightarrow> int \<Rightarrow> int \<Rightarrow> StatusCell \<Rightarrow> FrameBuffer \<Rightarrow> FrameBuffer" where
  "status_cell colW cx ry c =
     (let vo = int (length (cell_label c)) in
      in_order [PutClipped cx ry (cell_label c) (ThemeAttr Muted) colW,
        PutClipped (cx + vo) ry (cell_value c) (ThemeAttr (valueColor c)) (colW - vo)])"

definition DrawStatusPanel ::
    "UiOptions \<Rightarrow> int \<Rightarrow> int \<Rightarrow> int \<Rightarrow> wstring \<Rightarrow> StatusCell list \<Rightarrow> StatusCell list \<Rightarrow> int \<times> (FrameBuffer \<Rightarrow> FrameBuffer)" where
  "DrawStatusPanel th x y width title left right =
     (let rows = max (length left) (length right); h = int rows + 2; colW = (width - 4) sdiv 2;
          lx = x + 2; rx = x + 2 + colW in
      (h, in_order
         [Box x y width h (ThemeAttr PrimaryDim) (G th) title (ThemeAttr Primary),
          fold (\<lambda>i. let ry = y + 1 + int i in
              in_order [if i < length left then status_cell colW lx ry (left ! i) else id,
                if i < length right then status_cell colW rx ry (right ! i) else id]) [0..<rows]]))"

section \<open>The log viewer\<close>

fun SevAttr :: "Severity \<Rightarrow> 16 word" where
  "SevAttr SevOk = ThemeAttr Primary"
| "SevAttr SevWarn = ThemeAttr Warning"
| "SevAttr SevError = ThemeAttr ColorError"
| "SevAttr SevInfo = ThemeAttr PrimaryDim"

record LogLine =
  log_time :: wstring
  log_level :: wstring
  log_text :: wstring
  log_sev :: Severity

record LogViewer =
  log_lines :: "LogLine list"
  scroll :: int
  log_filter :: int

definition SetLines :: "LogLine list \<Rightarrow> LogViewer \<Rightarrow> LogViewer" where
  "SetLines ls v = v\<lparr>log_lines := ls, scroll := 0\<rparr>"

definition ScrollUp :: "int \<Rightarrow> LogViewer \<Rightarrow> LogViewer" where
  "ScrollUp n v = v\<lparr>scroll := scroll v + n\<rparr>"

definition ScrollDown :: "int \<Rightarrow> LogViewer \<Rightarrow> LogViewer" where
  "ScrollDown n v = (let s = scroll v - n in v\<lparr>scroll := (if s < 0 then 0 else s)\<rparr>)"

definition CycleFilter :: "LogViewer \<Rightarrow> LogViewer" where
  "CycleFilter v = v\<lparr>log_filter := (log_filter v + 1) mod 4, scroll := 0\<rparr>"

definition keeps :: "int \<Rightarrow> LogLine \<Rightarrow> bool" where
  "keeps f l =
     (if f = 1 then log_sev l = SevInfo \<or> log_sev l = SevOk
      else if f = 2 then log_sev l = SevWarn
      else if f = 3 then log_sev l = SevError else True)"

definition Filtered :: "LogViewer \<Rightarrow> LogLine list" where
  "Filtered v = filter (keeps (log_filter v)) (log_lines v)"

definition log_first :: "LogViewer \<Rightarrow> int \<Rightarrow> int" where
  "log_first v h = (let first = int (length (Filtered v)) - h - scroll v in if first < 0 then 0 else first)"

definition log_shown :: "LogViewer \<Rightarrow> int \<Rightarrow> int" where
  "log_shown v h = (let shown = min h (int (length (Filtered v)) - log_first v h) in if shown < 0 then 0 else shown)"

definition log_row :: "int \<Rightarrow> int \<Rightarrow> int \<Rightarrow> LogLine \<Rightarrow> FrameBuffer \<Rightarrow> FrameBuffer" where
  "log_row x ry w l =
     in_order [PutClipped x ry (log_time l) (ThemeAttr Muted) 12,
       PutClipped (x + 10) ry (log_level l) (SevAttr (log_sev l)) 7,
       PutClipped (x + 10 + 8) ry (log_text l) (ThemeAttr PrimaryDim) (w - (x + 10 + 8 - x))]"

definition LogViewer_Render :: "LogViewer \<Rightarrow> int \<Rightarrow> int \<Rightarrow> int \<Rightarrow> int \<Rightarrow> FrameBuffer \<Rightarrow> FrameBuffer" where
  "LogViewer_Render v x y w h =
     fold (\<lambda>i. log_row x (y + i) w (Filtered v ! nat (log_first v h + i))) [0..log_shown v h - 1]"

definition Ticker_Current :: "wstring list \<Rightarrow> nat \<Rightarrow> int \<Rightarrow> wstring" where
  "Ticker_Current ls elapsedMs periodMs =
     (if ls = [] then []
      else ls ! ((elapsedMs div nat (if periodMs \<le> 0 then 1 else periodMs)) mod length ls))"

section \<open>The mascot\<close>

record MascotEye =
  eye_x :: int
  eye_y :: int

record MascotArt =
  art_lines :: "wstring list"
  starMarker :: wchar
  art_width :: int
  eyes :: "MascotEye list"
  blinkSwap :: bool
  glint :: bool
  eyeOpen :: wchar
  eyeClosed :: wchar

definition glint_glyph :: "MascotArt \<Rightarrow> MascotEye \<Rightarrow> wchar" where
  "glint_glyph art e =
     (if 0 \<le> eye_y e \<and> eye_y e < int (length (art_lines art)) \<and> 0 \<le> eye_x e \<and>
         eye_x e < int (length (art_lines art ! nat (eye_y e)))
      then art_lines art ! nat (eye_y e) ! nat (eye_x e) else WC CHR ''*'')"

definition DrawMascot :: "int \<Rightarrow> int \<Rightarrow> MascotArt \<Rightarrow> bool \<Rightarrow> bool \<Rightarrow> FrameBuffer \<Rightarrow> FrameBuffer" where
  "DrawMascot x y art blinkActive starBright =
     (let body = ThemeAttr Primary; starC = ThemeAttr (if starBright then Accent else Star) in
      in_order
        [fold (\<lambda>r. let line = art_lines art ! r in
            in_order [PutText x (y + int r) line body,
              fold (\<lambda>c. if line ! c = starMarker art
                        then PutCh (x + int c) (y + int r) (starMarker art) starC else id) [0..<length line]])
           [0..<length (art_lines art)],
         if blinkActive
         then fold (\<lambda>e. if blinkSwap art then PutCh (x + eye_x e) (y + eye_y e) (eyeClosed art) body
                       else if glint art then PutCh (x + eye_x e) (y + eye_y e) (glint_glyph art e) (ThemeAttr Accent)
                       else id) (eyes art)
         else id])"

section \<open>Captions\<close>

definition FilterName :: "LogViewer \<Rightarrow> wstring" where
  "FilterName v =
     (if log_filter v = 1 then [0x421, 0x412, 0x415, 0x414, 0x415, 0x41D, 0x418, 0x42F]
      else if log_filter v = 2 then [0x41F, 0x420, 0x415, 0x414, 0x423, 0x41F, 0x420, 0x415, 0x416, 0x414, 0x415, 0x41D, 0x418, 0x42F]
      else if log_filter v = 3 then [0x41E, 0x428, 0x418, 0x411, 0x41A, 0x418]
      else [0x412, 0x421, 0x415])"

definition BrandingLine :: "LayoutMode \<Rightarrow> wstring" where
  "BrandingLine mode =
     (if mode = MinimalLayout
      then [0x410, 0x412, 0x422, 0x41E, 0x420, 0x3A, 0x20] @ W ''MARSHAL JACKSONY100''
      else W ''CHEBURNET LABS // '' @ [0x420, 0x410, 0x417, 0x420, 0x410, 0x411, 0x41E, 0x422, 0x410, 0x41D, 0x41E, 0x20] @ W ''MARSHAL JACKSONY100'')"

definition DrawKeyHints :: "int \<Rightarrow> wstring \<Rightarrow> FrameBuffer \<Rightarrow> FrameBuffer" where
  "DrawKeyHints y hints = PutText 2 y hints (ThemeAttr Muted)"

text \<open>The compact mascot of \<^verbatim>\<open>console/Mascot.cpp\<close>; the full one is a generated table.\<close>

definition kCompactArt :: MascotArt where
  "kCompactArt = \<lparr>art_lines =
     [[0x20, 0x20, 0x20, 0x20, 0x5F, 0x5F, 0x5F, 0x20, 0x20, 0x20, 0x20, 0x20, 0x20, 0x20, 0x20, 0x20, 0x5F, 0x5F, 0x5F, 0x20, 0x20, 0x20, 0x20],
      [0x20, 0x20, 0x20, 0x2F, 0x20, 0x20, 0x20, 0x5C, 0x20, 0x20, 0x5F, 0x5F, 0x5F, 0x20, 0x20, 0x2F, 0x20, 0x20, 0x20, 0x5C, 0x20, 0x20, 0x20],
      [0x20, 0x20, 0x7C, 0x20, 0x20, 0x20, 0x20, 0x20, 0x7C, 0x2F, 0x20, 0x2605, 0x20, 0x5C, 0x7C, 0x20, 0x20, 0x20, 0x20, 0x20, 0x7C, 0x20, 0x20],
      [0x20, 0x20, 0x20, 0x5C, 0x20, 0x20, 0x20, 0x2F, 0x7C, 0x5F, 0x5F, 0x5F, 0x7C, 0x20, 0x5C, 0x20, 0x20, 0x20, 0x2F, 0x20, 0x20, 0x20, 0x20],
      [0x20, 0x20, 0x20, 0x20, 0x5C, 0x5F, 0x2F, 0x20, 0x7C, 0x20, 0x20, 0x20, 0x7C, 0x20, 0x20, 0x5C, 0x5F, 0x2F, 0x20, 0x20, 0x20, 0x20, 0x20],
      [0x20, 0x20, 0x20, 0x20, 0x20, 0x20, 0x20, 0x20, 0x7C, 0x6F, 0x20, 0x6F, 0x7C, 0x20, 0x20, 0x20, 0x20, 0x20, 0x20, 0x20, 0x20, 0x20, 0x20],
      [0x20, 0x20, 0x20, 0x20, 0x20, 0x20, 0x20, 0x20, 0x7C, 0x20, 0x5E, 0x20, 0x7C, 0x20, 0x20, 0x20, 0x20, 0x20, 0x20, 0x20, 0x20, 0x20, 0x20],
      [0x20, 0x20, 0x20, 0x20, 0x20, 0x20, 0x20, 0x20, 0x7C, 0x5C, 0x5F, 0x2F, 0x7C, 0x20, 0x20, 0x20, 0x20, 0x20, 0x20, 0x20, 0x20, 0x20, 0x20],
      [0x20, 0x20, 0x20, 0x20, 0x20, 0x20, 0x20, 0x20, 0x7C, 0x5F, 0x5F, 0x5F, 0x7C, 0x20, 0x20, 0x20, 0x20, 0x20, 0x20, 0x20, 0x20, 0x20, 0x20]],
     starMarker = 0x2605, art_width = 23, eyes = [\<lparr>eye_x = 9, eye_y = 5\<rparr>, \<lparr>eye_x = 11, eye_y = 5\<rparr>],
     blinkSwap = True, glint = False, eyeOpen = WC CHR ''o'', eyeClosed = WC CHR ''-''\<rparr>"

definition MascotForWidth :: "MascotArt \<Rightarrow> int \<Rightarrow> MascotArt" where
  "MascotForWidth full consoleWidth = (if art_width full + 6 \<le> consoleWidth then full else kCompactArt)"

text \<open>The compact art is what its metadata says: rectangular, its eyes on the open-eye glyph, one star.\<close>

lemma kCompactArt_ok:
  "list_all (\<lambda>l. int (length l) = art_width kCompactArt) (art_lines kCompactArt) \<and>
   list_all (\<lambda>e. glint_glyph kCompactArt e = eyeOpen kCompactArt) (eyes kCompactArt) \<and>
   length (filter (\<lambda>c. c = starMarker kCompactArt) (concat (art_lines kCompactArt))) = 1"
  by (simp add: kCompactArt_def glint_glyph_def nth_Cons_numeral)

section \<open>Staying inside\<close>

text \<open>A drawing that changes no pixel outside a region.\<close>

definition stays :: "(int \<Rightarrow> int \<Rightarrow> bool) \<Rightarrow> (FrameBuffer \<Rightarrow> FrameBuffer) \<Rightarrow> bool" where
  "stays R f \<longleftrightarrow> draws f \<and> (\<forall>fb px py. fb_inv fb \<longrightarrow> \<not> R px py \<longrightarrow> pixel (f fb) px py = pixel fb px py)"

definition rect :: "int \<Rightarrow> int \<Rightarrow> int \<Rightarrow> int \<Rightarrow> int \<Rightarrow> int \<Rightarrow> bool" where
  "rect x y w h px py \<longleftrightarrow> x \<le> px \<and> px < x + w \<and> y \<le> py \<and> py < y + h"

named_theorems staying \<open>drawings that stay inside a region\<close>

lemma staysD: "stays R f \<Longrightarrow> fb_inv fb \<Longrightarrow> \<not> R px py \<Longrightarrow> pixel (f fb) px py = pixel fb px py"
  by (simp add: stays_def)

lemma stays_id [staying]: "stays R id"
  by (simp add: stays_def drawing)

lemma stays_if [staying]: "(b \<Longrightarrow> stays R f) \<Longrightarrow> (\<not> b \<Longrightarrow> stays R g) \<Longrightarrow> stays R (if b then f else g)"
  by simp

lemma stays_PutCh [staying]: "R x y \<Longrightarrow> stays R (PutCh x y ch a)"
  by (auto simp: stays_def drawing pixel_PutCh)

lemma first_line_length: "length (first_line s) \<le> length s"
  unfolding first_line_def by (rule length_takeWhile_le)

lemma stays_PutText [staying]:
  assumes "\<And>i. x \<le> i \<Longrightarrow> i < x + int (length s) \<Longrightarrow> R i y"
  shows "stays R (PutText x y s a)"
proof -
  have "pixel (PutText x y s a fb) px py = pixel fb px py" if out: "fb_inv fb" "\<not> R px py" for fb px py
  proof (cases "0 \<le> y \<and> y < fb_h fb")
    case True
    then have eq: "PutText x y s a fb = PutText_loop x y s a fb" by (simp add: PutText_def)
    have off: "\<not> (InBounds fb px py \<and> py = y \<and> x \<le> px \<and> nat (px - x) < length (first_line s))"
    proof (rule notI)
      assume in_text: "InBounds fb px py \<and> py = y \<and> x \<le> px \<and> nat (px - x) < length (first_line s)"
      then have "px < x + int (length s)" using first_line_length [of s] by linarith
      then show False using assms [of px] in_text out(2) by simp
    qed
    have y: "0 \<le> y" "y < fb_h fb" using True by blast+
    show ?thesis unfolding eq pixel_PutText_loop [OF out(1) y] by (rule if_not_P [OF off])
  qed (auto simp: PutText_def)
  then show ?thesis by (simp add: stays_def drawing)
qed

lemma stays_comp: "stays R f \<Longrightarrow> stays R g \<Longrightarrow> stays R (\<lambda>fb. g (f fb))"
  by (auto simp: stays_def draws_def)

lemma stays_fold [staying]: "(\<And>i. i \<in> set xs \<Longrightarrow> stays R (f i)) \<Longrightarrow> stays R (fold f xs)"
proof (induction xs)
  case (Cons i xs)
  then show ?case using stays_comp [of R "f i" "fold f xs"] by (simp add: comp_def)
qed (simp add: stays_id)

lemma stays_in_order [staying]: "(\<And>f. f \<in> set fs \<Longrightarrow> stays R f) \<Longrightarrow> stays R (in_order fs)"
  unfolding in_order_def by (rule stays_fold)

lemma stays_in_order_Cons: "stays R f \<Longrightarrow> stays R (in_order fs) \<Longrightarrow> stays R (in_order (f # fs))"
  using stays_comp [of R f "in_order fs"] by (simp add: in_order_def comp_def)

lemma stays_in_order_Nil: "stays R (in_order [])"
  by (rule stays_in_order) simp

lemmas sequence = stays_in_order_Nil stays_in_order_Cons


lemma stays_PutClipped [staying]:
  assumes "\<And>i. x \<le> i \<Longrightarrow> i < x + maxW \<Longrightarrow> i < x + int (length s) \<Longrightarrow> R i y"
  shows "stays R (PutClipped x y s a maxW)"
  unfolding PutClipped_def by (intro staying assms) (auto split: if_splits)

lemma percent_text_length: "length (percent_text (clamp_percent p)) = 4"
proof -
  have "nat (clamp_percent p) \<le> 100" by (auto simp: clamp_percent_def Let_def)
  then have "length (to_string (nat (clamp_percent p))) \<le> 3"
    by (subst to_string.simps, subst to_string.simps, subst to_string.simps) auto
  then show ?thesis by (simp add: percent_text_def Let_def)
qed

lemma bar_filled_range:
  assumes "1 \<le> innerWidth"
  shows "0 \<le> bar_filled innerWidth (clamp_percent p) \<and> bar_filled innerWidth (clamp_percent p) \<le> innerWidth"
proof -
  have "0 \<le> clamp_percent p * innerWidth div 100"
    using assms by (intro div_int_pos_iff [THEN iffD2]) (auto simp: clamp_percent_def)
  then show ?thesis using assms by (simp add: bar_filled_def Let_def)
qed

lemma stays_DrawProgressBar: "stays (rect x y (innerWidth + 7) 1) (DrawProgressBar th x y innerWidth pct ms animating)"
proof (cases "innerWidth < 1")
  case False
  define p where "p = clamp_percent pct"
  define filled where "filled = bar_filled innerWidth p"
  have f: "0 \<le> filled" "filled \<le> innerWidth" using bar_filled_range [of innerWidth pct] False by (simp_all add: p_def filled_def)
  have hi: "0 < filled \<Longrightarrow> 0 \<le> int (ms div 70) mod filled \<and> int (ms div 70) mod filled < innerWidth"
    using order_less_le_trans [OF pos_mod_bound f(2)] by simp
  show ?thesis
    unfolding DrawProgressBar_def if_not_P [OF False] Let_def p_def [symmetric] filled_def [symmetric]
    by (intro sequence staying) (use False f hi percent_text_length [of pct] in \<open>auto simp: rect_def p_def\<close>)
qed (simp add: DrawProgressBar_def stays_id)

lemma stays_DrawLoadingBar: "stays (rect x y (innerWidth + 2) 1) (DrawLoadingBar th x y innerWidth ms)"
proof (cases "innerWidth < 1")
  case False
  then show ?thesis unfolding DrawLoadingBar_def if_not_P [OF False] Let_def
    by (intro sequence staying) (auto simp: rect_def)
qed (simp add: DrawLoadingBar_def stays_id)

lemma menu_row_length: "0 \<le> width \<Longrightarrow> int (length (menu_row th it selected width)) = width"
  by (simp add: menu_row_def Let_def)

lemma stays_Menu_Render:
  assumes "0 \<le> width"
  shows "stays (rect x y width (fst (Menu_Render m th x y width))) (snd (Menu_Render m th x y width))"
  unfolding Menu_Render_def Let_def fst_conv snd_conv
  by (intro staying) (auto simp: rect_def menu_row_length [OF assms] menu_size_def)

lemma stays_Box: "stays (rect x y w h) (Box x y w h a g title ta)"
proof (cases "w < 2 \<or> h < 2")
  case False
  then show ?thesis unfolding Box_def if_not_P [OF False]
    by (intro sequence staying) (auto simp: rect_def box_title_def)
qed (simp add: Box_def stays_id)

lemma half_width: "4 \<le> w \<Longrightarrow> 0 \<le> (w - 4) sdiv 2 \<and> 2 * ((w - 4) sdiv 2) \<le> w - (4 :: int)"
  by (auto simp: signed_divide_int_def sgn_if)

lemma half_width_small: "w < 4 \<Longrightarrow> (w - 4) sdiv 2 \<le> (0 :: int)"
  by (simp add: signed_divide_int_def sgn_if)

lemma stays_status_cell:
  assumes "colW \<le> 0 \<or> (\<forall>i. cx \<le> i \<and> i < cx + colW \<longrightarrow> R i ry)"
  shows "stays R (status_cell colW cx ry c)"
  unfolding status_cell_def Let_def by (intro sequence staying) (use assms in auto)

lemma stays_DrawStatusPanel:
  "stays (rect x y width (fst (DrawStatusPanel th x y width title left right)))
     (snd (DrawStatusPanel th x y width title left right))"
proof -
  define colW where "colW = (width - 4) sdiv 2"
  have col: "colW \<le> 0 \<or> (0 \<le> colW \<and> 2 * colW \<le> width - 4)"
    using half_width [of width] half_width_small [of width] by (cases "4 \<le> width") (auto simp: colW_def)
  show ?thesis unfolding DrawStatusPanel_def Let_def fst_conv snd_conv colW_def [symmetric]
    by (intro sequence stays_fold staying stays_Box stays_status_cell) (use col in \<open>auto simp: rect_def\<close>)
qed

lemma log_window: "0 \<le> log_first v h" "log_shown v h \<le> max 0 h"
  by (simp_all add: log_first_def log_shown_def Let_def)

lemma stays_LogViewer_Render: "stays (rect x y (max w 17) (max h 0)) (LogViewer_Render v x y w h)"
  unfolding LogViewer_Render_def log_row_def
  by (intro staying sequence) (use log_window(2) [of v h] in \<open>auto simp: rect_def\<close>)

definition art_cell :: "int \<Rightarrow> int \<Rightarrow> MascotArt \<Rightarrow> int \<Rightarrow> int \<Rightarrow> bool" where
  "art_cell x y art px py \<longleftrightarrow>
     (\<exists>r < length (art_lines art). py = y + int r \<and> x \<le> px \<and> px < x + int (length (art_lines art ! r))) \<or>
     (\<exists>e \<in> set (eyes art). px = x + eye_x e \<and> py = y + eye_y e)"

lemma stays_DrawMascot: "stays (art_cell x y art) (DrawMascot x y art blink bright)"
  unfolding DrawMascot_def Let_def
  by (intro sequence staying) (auto simp: art_cell_def intro!: exI)

text \<open>The window of the log viewer only names lines that exist.\<close>

lemma log_rows_exist:
  "list_all (\<lambda>i. 0 \<le> log_first v h + i \<and> log_first v h + i < int (length (Filtered v))) [0..log_shown v h - 1]"
  using log_window(1) [of v h] by (auto simp: list_all_iff log_shown_def Let_def split: if_splits)

lemma log_shows_last:
  assumes "scroll v = 0" "0 < h"
  shows "log_first v h + log_shown v h = int (length (Filtered v))"
  using assms by (auto simp: log_first_def log_shown_def Let_def)

text \<open>
  Every widget stays inside its rectangle whatever the texts, percentages, scroll positions and times:
  no cell outside it changes, negative coordinates and widths included, and the buffer keeps its invariant;
  and the log viewer reads only lines that passed the filter.
\<close>

lemma Widgets_stay_inside:
  "stays (rect x y (innerWidth + 7) 1) (DrawProgressBar th x y innerWidth pct ms animating) \<and>
   stays (rect x y (innerWidth + 2) 1) (DrawLoadingBar th x y innerWidth ms) \<and>
   (case Menu_Render m th x y (int k) of (h, f) \<Rightarrow> stays (rect x y (int k) h) f) \<and>
   (case DrawStatusPanel th x y width title left right of (h, f) \<Rightarrow> stays (rect x y width h) f) \<and>
   stays (rect x y (max w 17) (max h 0)) (LogViewer_Render v x y w h) \<and>
   stays (art_cell x y art) (DrawMascot x y art blink bright) \<and>
   list_all (\<lambda>i. 0 \<le> log_first v h + i \<and> log_first v h + i < int (length (Filtered v))) [0..log_shown v h - 1]"
  using stays_Menu_Render [of "int k" x y m th] stays_DrawStatusPanel [of x y width th title left right]
  by (simp add: stays_DrawProgressBar stays_DrawLoadingBar stays_LogViewer_Render stays_DrawMascot log_rows_exist
      split_beta)

end
