(* ===== verification/ScreenUpdates.thy ===== *)
theory ScreenUpdates
  imports PayloadApply OperationState
begin

text \<open>
  The update screen, \<^verbatim>\<open>App::ScreenUpdates\<close> and \<^verbatim>\<open>App::DownloadWithProgress\<close> of \<^verbatim>\<open>src/src/app/UiScreens.cpp\<close>: the
  check, the questions to the user, the downloads and the application of a payload, composed from the
  models of \<^verbatim>\<open>UpdateManager\<close> and of the gate of operations. The world logs what the screen does; a monitor
  says what the log of a consented update looks like. Drawing and the texts of the report are left out.
\<close>

section \<open>The screen\<close>

text \<open>The questions (\<^verbatim>\<open>Confirm\<close>).\<close>

datatype prompt = ResetSkip | DownloadUpdates | ApplyNow | SkipPayload

datatype ui_action =
    Asked prompt bool
  | Downloaded Artifact wstring "wstring option"   \<comment> \<open>\<^verbatim>\<open>DownloadVerified\<close>: artifact, file name, staged path\<close>
  | OpenedFolder                                   \<comment> \<open>\<^verbatim>\<open>ShellExecuteExW\<close> on the updates directory\<close>
  | AppliedPackage Artifact wstring PayloadApplyStatus
  | SavedSettings Config bool
  | GateSet AppOperationState

record updates_world =
  ui_log :: "ui_action list"
  ui_gate :: AppOperationState
  ui_config :: Config
  ui_paths :: RuntimePaths
  ui_catalog :: "RuntimeStrategy list"
  ui_cache :: update_cache
  ui_disk :: win_history
  ui_files :: history

text \<open>What the screen meets; answers may depend on everything logged so far.\<close>

record updates_env =
  answer :: "ui_action list \<Rightarrow> prompt \<Rightarrow> bool"
  check_starts :: bool                        \<comment> \<open>\<^verbatim>\<open>manual.Start()\<close>\<close>
  check_escaped :: "bool option"              \<comment> \<open>Esc during the check, and whether the check still ended\<close>
  check_world :: check_env
  disk :: win_os
  network :: "ui_action list \<Rightarrow> bool \<times> nat option \<times> (nat \<Rightarrow> wstring \<Rightarrow> wstring \<Rightarrow> exchange)"
  apply_world :: "ui_action list \<Rightarrow> apply_env"
  utf16 :: "string \<Rightarrow> wstring"
  engine_connected :: "ui_action list \<Rightarrow> bool"       \<comment> \<open>\<^verbatim>\<open>pm_->IsConnectedByUs()\<close>\<close>
  settings_write :: "ui_action list \<Rightarrow> bool"        \<comment> \<open>\<^verbatim>\<open>AtomicWrite\<close> of the configuration\<close>
  product_version :: string

definition log_action :: "ui_action \<Rightarrow> updates_world \<Rightarrow> updates_world" where
  "log_action a w = w\<lparr>ui_log := ui_log w @ [a]\<rparr>"

definition ask :: "updates_env \<Rightarrow> prompt \<Rightarrow> updates_world \<Rightarrow> bool \<times> updates_world" where
  "ask e p w = (let yes = answer e (ui_log w) p in (yes, log_action (Asked p yes) w))"

definition set_gate :: "AppOperationState \<Rightarrow> updates_world \<Rightarrow> updates_world" where
  "set_gate s w = log_action (GateSet s) (w\<lparr>ui_gate := Complete s (ui_gate w)\<rparr>)"

text \<open>\<^verbatim>\<open>config_\<close> keeps the change even when it cannot be saved.\<close>

definition save_settings :: "updates_env \<Rightarrow> Config \<Rightarrow> updates_world \<Rightarrow> updates_world" where
  "save_settings e c w =
     snd (SaveConfig (\<lambda>path data w. let ok = settings_write e (ui_log w) in (ok, log_action (SavedSettings c ok) w))
            (product_version e) (ConfigPath (ui_paths w)) c (w\<lparr>ui_config := c\<rparr>))"

definition skip_version :: "string \<Rightarrow> Config \<Rightarrow> Config" where
  "skip_version v c = c\<lparr>update_settings := (update_settings c)\<lparr>skippedPayloadVersion := v\<rparr>\<rparr>"

definition fetch :: "updates_env \<Rightarrow> Artifact \<Rightarrow> wstring \<Rightarrow> updates_world \<Rightarrow> wstring option \<times> updates_world" where
  "fetch e a finalName w =
     (case DownloadVerified (disk e) (network e (ui_log w)) (utf16 e) (ui_paths w) (ui_cache w) a finalName (ui_disk w) of
        (staged, h) \<Rightarrow> (staged, log_action (Downloaded a finalName staged) (w\<lparr>ui_disk := h\<rparr>)))"

definition FetchLauncher :: "updates_env \<Rightarrow> Artifact \<Rightarrow> updates_world \<Rightarrow> updates_world" where
  "FetchLauncher e a w =
     (case fetch e a (W ''CHEBURNET-new.exe'') w of
        (None, w1) \<Rightarrow> w1
      | (Some staged, w1) \<Rightarrow> log_action OpenedFolder w1)"

definition engine_file :: "updates_env \<Rightarrow> Artifact \<Rightarrow> wstring" where
  "engine_file e a = W ''engine-'' @ utf16 e (artifact_version a) @ W ''.cbpkg''"

definition adopt_candidate :: "updates_env \<Rightarrow> Artifact \<Rightarrow> updates_world \<Rightarrow> updates_world" where
  "adopt_candidate e a w =
     (let w1 = w\<lparr>ui_paths := paths_of (apply_world e (ui_log w)) (utf16 e (artifact_version a))\<rparr> in
      if StrategyExists (ui_catalog w1) (strategyId (ui_config w1)) then w1
      else save_settings e ((ui_config w1)\<lparr>strategyId := ''general''\<rparr>) w1)"

definition ApplyStaged :: "updates_env \<Rightarrow> Manifest \<Rightarrow> wstring \<Rightarrow> updates_world \<Rightarrow> updates_world" where
  "ApplyStaged e m staged w =
     (case ApplyPayload (apply_world e (ui_log w)) (ui_paths w) (ui_cache w) (ui_catalog w) (payload m) staged
             (strategyId (ui_config w)) (gameFilter (ui_config w)) (keyId m) (ui_files w) of
        ((st, catalog), h) \<Rightarrow>
          let w1 = log_action (AppliedPackage (payload m) staged st) (w\<lparr>ui_catalog := catalog, ui_files := h\<rparr>);
              w2 = (if st = ApplyRolledBack \<or> st = ApplyRollbackFailed then set_gate OpRollingBack w1 else w1) in
          if st = Applied then adopt_candidate e (payload m) w2 else w2)"

definition FetchPayload :: "updates_env \<Rightarrow> Manifest \<Rightarrow> updates_world \<Rightarrow> updates_world" where
  "FetchPayload e m w =
     (case fetch e (payload m) (engine_file e (payload m)) w of
        (None, w1) \<Rightarrow> w1
      | (Some staged, w1) \<Rightarrow>
          (case ask e ApplyNow w1 of (True, w2) \<Rightarrow> ApplyStaged e m staged w2 | (False, w2) \<Rightarrow> w2))"

definition payload_skipped :: "CheckResult \<Rightarrow> Config \<Rightarrow> bool" where
  "payload_skipped check c \<longleftrightarrow>
     artifact_version (payload (manifest check)) \<noteq> [] \<and>
     artifact_version (payload (manifest check)) = skippedPayloadVersion (update_settings c)"

definition FetchUpdates :: "updates_env \<Rightarrow> CheckResult \<Rightarrow> bool \<Rightarrow> updates_world \<Rightarrow> updates_world" where
  "FetchUpdates e check skipped w =
     (let m = manifest check;
          w1 = (if launcher_eligibility check = Upgrade then FetchLauncher e (launcher m) w else w) in
      if payload_eligibility check = Upgrade \<and> \<not> skipped then FetchPayload e m w1 else w1)"

definition OfferUpdates :: "updates_env \<Rightarrow> CheckResult \<Rightarrow> updates_world \<Rightarrow> updates_world" where
  "OfferUpdates e check w =
     (let skipped = payload_skipped check (ui_config w) in
      if skipped \<and> launcher_eligibility check \<noteq> Upgrade
      then (case ask e ResetSkip w of
              (True, w1) \<Rightarrow> save_settings e (skip_version [] (ui_config w1)) w1
            | (False, w1) \<Rightarrow> w1)
      else (case ask e DownloadUpdates w of
              (True, w1) \<Rightarrow> FetchUpdates e check skipped w1
            | (False, w1) \<Rightarrow>
                if payload_eligibility check = Upgrade
                then (case ask e SkipPayload w1 of
                        (True, w2) \<Rightarrow>
                          save_settings e (skip_version (artifact_version (payload (manifest check))) (ui_config w2)) w2
                      | (False, w2) \<Rightarrow> w2)
                else w1))"

text \<open>\<^verbatim>\<open>Complete(pm_->IsConnectedByUs() ? Connected : Disconnected)\<close>\<close>

definition release_gate :: "updates_env \<Rightarrow> updates_world \<Rightarrow> updates_world" where
  "release_gate e w = set_gate (observed (engine_connected e (ui_log w))) w"

definition RunCheck :: "updates_env \<Rightarrow> updates_world \<Rightarrow> CheckResult \<times> updates_world" where
  "RunCheck e w =
     (case CheckNow (check_world e) (mode (update_settings (ui_config w)) \<noteq> UpdateMode.Disabled) (ui_cache w) of
        (check, cache) \<Rightarrow> (check, w\<lparr>ui_cache := cache\<rparr>))"

definition ScreenUpdates :: "updates_env \<Rightarrow> updates_world \<Rightarrow> updates_world" where
  "ScreenUpdates e w =
     (let prior = ui_gate w in
      if prior \<noteq> OpDisconnected \<and> prior \<noteq> OpConnected then w
      else case TryTransition prior OpUpdating (ui_gate w) of
             (_, False) \<Rightarrow> w
           | (busy, True) \<Rightarrow>
               let w1 = log_action (GateSet busy) (w\<lparr>ui_gate := busy\<rparr>) in
               if \<not> check_starts e then set_gate prior w1
               else case check_escaped e of
                      Some ended \<Rightarrow> release_gate e (if ended then snd (RunCheck e w1) else w1)
                    | None \<Rightarrow>
                        (case RunCheck e w1 of
                           (check, w2) \<Rightarrow>
                             release_gate e (if check_status check = Available then OfferUpdates e check w2 else w2)))"

text \<open>\<^verbatim>\<open>DownloadWithProgress\<close>: the percentage that is shown never reaches 100 before the file is verified.\<close>

definition download_percent :: "64 word \<Rightarrow> 64 word \<Rightarrow> 64 word" where
  "download_percent got expected =
     (if expected = 0 then 0 else min 99 ((got * 100) div expected))"

lemma download_percent_bound: "download_percent c t \<le> 99"
  by (simp add: download_percent_def)


section \<open>Consent\<close>

text \<open>
  The monitor: whether downloading was confirmed, which package was staged since, and whether applying it
  was confirmed since.
\<close>

fun consented :: "bool \<Rightarrow> (Artifact \<times> wstring) option \<Rightarrow> bool \<Rightarrow> ui_action list \<Rightarrow> bool" where
  "consented d s a [] = True"
| "consented d s a (Asked p yes # es) =
     consented (if p = DownloadUpdates then yes else d) s (if p = ApplyNow then yes else a) es"
| "consented d s a (Downloaded art n r # es) = (d \<and> consented d (map_option (Pair art) r) False es)"
| "consented d s a (AppliedPackage art path st # es) = (a \<and> s = Some (art, path) \<and> consented d None False es)"
| "consented d s a (OpenedFolder # es) = consented d s a es"
| "consented d s a (SavedSettings c ok # es) = consented d s a es"
| "consented d s a (GateSet g # es) = consented d s a es"

lemma consented_snoc: "consented d s a (es @ [GateSet g]) = consented d s a es"
  by (induction d s a es rule: consented.induct) auto

text \<open>What is downloaded or applied comes from one manifest, and is not the version the user skips.\<close>

fun from_manifest :: "Manifest \<Rightarrow> string \<Rightarrow> ui_action \<Rightarrow> bool" where
  "from_manifest m skipped (Downloaded art n r) = (art = launcher m \<or> art = payload m)"
| "from_manifest m skipped (AppliedPackage art path st) =
     (art = payload m \<and> (artifact_version art = [] \<or> artifact_version art \<noteq> skipped))"
| "from_manifest m skipped e = True"

fun gate_sets :: "ui_action list \<Rightarrow> AppOperationState list" where
  "gate_sets [] = []"
| "gate_sets (GateSet g # es) = g # gate_sets es"
| "gate_sets (e # es) = gate_sets es"

lemma gate_sets_append [simp]: "gate_sets (xs @ ys) = gate_sets xs @ gate_sets ys"
  by (induction xs rule: gate_sets.induct) auto

text \<open>A step of the screen while it holds the gate: what it adds to the log.\<close>

definition adds :: "updates_world \<Rightarrow> ui_action list \<Rightarrow> updates_world \<Rightarrow> bool" where
  "adds w es w' \<longleftrightarrow> ui_log w' = ui_log w @ es \<and> ui_cache w' = ui_cache w"

lemma adds_log: "adds w [a] (log_action a w)"
  by (simp add: adds_def log_action_def)

lemma adds_trans: "adds w es w' \<Longrightarrow> adds w' fs w'' \<Longrightarrow> adds w (es @ fs) w''"
  by (simp add: adds_def)

lemma ask_adds: "ask e p w = (yes, w') \<Longrightarrow> adds w [Asked p yes] w' \<and> ui_config w' = ui_config w"
  by (auto simp: ask_def adds_def log_action_def Let_def)

lemma set_gate_adds: "adds w [GateSet s] (set_gate s w) \<and> ui_gate (set_gate s w) = s"
  by (simp add: set_gate_def adds_def log_action_def Complete_def)

lemma save_settings_adds: "\<exists>ok. adds w [SavedSettings c ok] (save_settings e c w)"
  by (auto simp: save_settings_def SaveConfig_def adds_def log_action_def Let_def)

lemma fetch_adds: "fetch e a n w = (r, w') \<Longrightarrow> adds w [Downloaded a n r] w' \<and> ui_config w' = ui_config w"
  by (auto simp: fetch_def adds_def log_action_def split: prod.splits)

text \<open>The actions that neither ask, download, apply nor touch the gate.\<close>

definition side_effects :: "ui_action list \<Rightarrow> bool" where
  "side_effects es \<longleftrightarrow> list_all (\<lambda>e. case e of OpenedFolder \<Rightarrow> True | SavedSettings c ok \<Rightarrow> True
     | GateSet g \<Rightarrow> g = OpRollingBack | _ \<Rightarrow> False) es"

lemma side_effects_consented: "side_effects es \<Longrightarrow> consented d s a (es @ fs) = consented d s a fs"
  by (induction es) (auto simp: side_effects_def split: ui_action.splits)

lemma side_effects_harmless:
  "side_effects es \<Longrightarrow> list_all (from_manifest m v) es \<and> list_all (\<lambda>g. g = OpRollingBack) (gate_sets es)"
  by (induction es) (auto simp: side_effects_def split: ui_action.splits)

lemma side_effects_simps [simp]:
  "side_effects []" "side_effects (es @ fs) \<longleftrightarrow> side_effects es \<and> side_effects fs"
  "side_effects [OpenedFolder]" "side_effects [SavedSettings c ok]" "side_effects [GateSet OpRollingBack]"
  by (simp_all add: side_effects_def)

lemma FetchLauncher_adds:
  "\<exists>r es. adds w (Downloaded a (W ''CHEBURNET-new.exe'') r # es) (FetchLauncher e a w) \<and> side_effects es \<and>
     ui_config (FetchLauncher e a w) = ui_config w"
proof (cases "fetch e a (W ''CHEBURNET-new.exe'') w")
  case (Pair r w1)
  note f = fetch_adds [OF Pair]
  show ?thesis
  proof (cases r)
    case None
    then show ?thesis using Pair f by (intro exI [of _ r] exI [of _ "[]"]) (simp add: FetchLauncher_def)
  next
    case (Some p)
    then show ?thesis using Pair f
      by (intro exI [of _ r] exI [of _ "[OpenedFolder]"]) (simp add: FetchLauncher_def adds_def log_action_def)
  qed
qed

lemma adopt_candidate_adds: "\<exists>es. adds w es (adopt_candidate e a w) \<and> side_effects es"
proof -
  define w1 where "w1 = w\<lparr>ui_paths := paths_of (apply_world e (ui_log w)) (utf16 e (artifact_version a))\<rparr>"
  have w1: "adds w [] w1" by (simp add: w1_def adds_def)
  obtain ok where "adds w1 [SavedSettings ((ui_config w1)\<lparr>strategyId := ''general''\<rparr>) ok]
      (save_settings e ((ui_config w1)\<lparr>strategyId := ''general''\<rparr>) w1)"
    using save_settings_adds by blast
  with w1 show ?thesis
    using adds_trans [OF w1] by (auto simp: adopt_candidate_def Let_def w1_def [symmetric] intro!: exI)
qed

lemma ApplyStaged_adds:
  "\<exists>st es. adds w (AppliedPackage (payload m) staged st # es) (ApplyStaged e m staged w) \<and> side_effects es"
proof -
  obtain st catalog h where r: "ApplyPayload (apply_world e (ui_log w)) (ui_paths w) (ui_cache w) (ui_catalog w)
      (payload m) staged (strategyId (ui_config w)) (gameFilter (ui_config w)) (keyId m) (ui_files w) = ((st, catalog), h)"
    by (metis surj_pair)
  define w1 where "w1 = log_action (AppliedPackage (payload m) staged st) (w\<lparr>ui_catalog := catalog, ui_files := h\<rparr>)"
  define w2 where "w2 = (if st = ApplyRolledBack \<or> st = ApplyRollbackFailed then set_gate OpRollingBack w1 else w1)"
  have eq: "ApplyStaged e m staged w = (if st = Applied then adopt_candidate e (payload m) w2 else w2)"
    by (simp add: ApplyStaged_def r w1_def w2_def Let_def)
  have w1: "adds w [AppliedPackage (payload m) staged st] w1" by (simp add: w1_def adds_def log_action_def)
  have "\<exists>es. adds w1 es w2 \<and> side_effects es"
  proof (cases "st = ApplyRolledBack \<or> st = ApplyRollbackFailed")
    case True
    then show ?thesis using set_gate_adds [of w1 OpRollingBack] by (intro exI) (auto simp: w2_def)
  next
    case False
    then show ?thesis by (intro exI [of _ "[]"]) (simp add: w2_def adds_def)
  qed
  then obtain es where w2: "adds w1 es w2" "side_effects es" by blast
  obtain fs where fs: "adds w2 fs (ApplyStaged e m staged w)" "side_effects fs"
  proof (cases "st = Applied")
    case True
    then show ?thesis using that adopt_candidate_adds [of w2 e "payload m"] by (auto simp: eq)
  next
    case False
    then show ?thesis using that [of "[]"] by (simp add: eq adds_def)
  qed
  have "adds w (AppliedPackage (payload m) staged st # (es @ fs)) (ApplyStaged e m staged w)"
    using adds_trans [OF adds_trans [OF w1 w2(1)] fs(1)] by simp
  then show ?thesis using w2(2) fs(2) by (intro exI [of _ st] exI [of _ "es @ fs"]) simp
qed


definition proper :: "Manifest \<Rightarrow> string \<Rightarrow> bool \<Rightarrow> ui_action list \<Rightarrow> bool" where
  "proper m v d es \<longleftrightarrow>
     (\<forall>s a. consented d s a es) \<and> list_all (from_manifest m v) es \<and> list_all (\<lambda>g. g = OpRollingBack) (gate_sets es)"

lemma proper_side: "side_effects es \<Longrightarrow> proper m v d es"
  using side_effects_consented [of es d _ _ "[]"] side_effects_harmless by (simp add: proper_def)

lemma FetchPayload_adds:
  assumes "artifact_version (payload m) = [] \<or> artifact_version (payload m) \<noteq> v"
  shows "\<exists>es. adds w es (FetchPayload e m w) \<and> proper m v True es"
proof (cases "fetch e (payload m) (engine_file e (payload m)) w")
  case (Pair r w1)
  note f = fetch_adds [OF Pair, THEN conjunct1]
  show ?thesis
  proof (cases r)
    case None
    then show ?thesis using Pair f by (intro exI) (auto simp: FetchPayload_def proper_def)
  next
    case (Some staged)
    obtain yes w2 where q: "ask e ApplyNow w1 = (yes, w2)" by fastforce
    note f2 = adds_trans [OF f ask_adds [OF q, THEN conjunct1]]
    show ?thesis
    proof (cases yes)
      case False
      then show ?thesis using Pair Some q f2 by (intro exI) (auto simp: FetchPayload_def proper_def)
    next
      case True
      obtain st es where ap: "adds w2 (AppliedPackage (payload m) staged st # es) (ApplyStaged e m staged w2)" "side_effects es"
        using ApplyStaged_adds by blast
      have "FetchPayload e m w = ApplyStaged e m staged w2" using Pair Some q True by (simp add: FetchPayload_def)
      moreover have "proper m v True ([Downloaded (payload m) (engine_file e (payload m)) r] @ [Asked ApplyNow yes] @
          AppliedPackage (payload m) staged st # es)"
        using proper_side [OF ap(2), of m v True] assms Some True by (simp add: proper_def)
      ultimately show ?thesis using adds_trans [OF f2 ap(1)] by auto
    qed
  qed
qed

lemma proper_append_side:
  "proper m v d es \<Longrightarrow> side_effects fs \<Longrightarrow> proper m v d (Downloaded a n r # fs @ es) \<longleftrightarrow> d \<and> (a = launcher m \<or> a = payload m)"
  using side_effects_harmless [of fs m v] by (auto simp: proper_def side_effects_consented)

lemma FetchUpdates_adds:
  assumes "\<not> skipped \<Longrightarrow> artifact_version (payload (manifest check)) = [] \<or> artifact_version (payload (manifest check)) \<noteq> v"
  shows "\<exists>es. adds w es (FetchUpdates e check skipped w) \<and> proper (manifest check) v True es"
proof -
  let ?m = "manifest check"
  define w1 where "w1 = (if launcher_eligibility check = Upgrade then FetchLauncher e (launcher ?m) w else w)"
  have eq: "FetchUpdates e check skipped w = (if payload_eligibility check = Upgrade \<and> \<not> skipped then FetchPayload e ?m w1 else w1)"
    by (simp add: FetchUpdates_def w1_def Let_def)
  obtain es where es: "adds w1 es (FetchUpdates e check skipped w)" "proper ?m v True es"
  proof (cases "payload_eligibility check = Upgrade \<and> \<not> skipped")
    case True
    then have "FetchUpdates e check skipped w = FetchPayload e ?m w1" unfolding eq by simp
    then show ?thesis using that FetchPayload_adds [OF assms, of w1 e] True by metis
  next
    case False
    then have "FetchUpdates e check skipped w = w1" unfolding eq by (simp only: if_False)
    then show ?thesis using that [of "[]"] proper_side [of "[]"] by (simp add: adds_def)
  qed
  show ?thesis
  proof (cases "launcher_eligibility check = Upgrade")
    case True
    then obtain r fs where "adds w (Downloaded (launcher ?m) (W ''CHEBURNET-new.exe'') r # fs) w1" "side_effects fs"
      using FetchLauncher_adds [of w "launcher ?m" e] by (auto simp: w1_def)
    then show ?thesis
      using adds_trans [OF _ es(1)] proper_append_side [OF es(2)] by (metis append_Cons)
  next
    case False
    then show ?thesis using es by (auto simp: w1_def)
  qed
qed

lemma OfferUpdates_adds:
  "\<exists>es. adds w es (OfferUpdates e check w) \<and>
     proper (manifest check) (skippedPayloadVersion (update_settings (ui_config w))) False es"
proof -
  let ?v = "skippedPayloadVersion (update_settings (ui_config w))" and ?m = "manifest check"
  define skipped where "skipped = payload_skipped check (ui_config w)"
  have other: "\<not> skipped \<Longrightarrow> artifact_version (payload ?m) = [] \<or> artifact_version (payload ?m) \<noteq> ?v"
    by (auto simp: skipped_def payload_skipped_def)
  show ?thesis
  proof (cases "skipped \<and> launcher_eligibility check \<noteq> Upgrade")
    case True
    obtain yes w1 where q: "ask e ResetSkip w = (yes, w1)" by fastforce
    note a = ask_adds [OF q, THEN conjunct1]
    obtain ok where s: "adds w1 [SavedSettings (skip_version [] (ui_config w1)) ok]
        (save_settings e (skip_version [] (ui_config w1)) w1)" using save_settings_adds by blast
    show ?thesis
    proof (cases yes)
      case True
      then show ?thesis using \<open>skipped \<and> _\<close> q adds_trans [OF a s]
        by (intro exI [of _ "[Asked ResetSkip yes, SavedSettings (skip_version [] (ui_config w1)) ok]"])
          (simp add: OfferUpdates_def skipped_def [symmetric] proper_def Let_def)
    next
      case False
      then show ?thesis using \<open>skipped \<and> _\<close> q a
        by (intro exI [of _ "[Asked ResetSkip yes]"])
          (simp add: OfferUpdates_def skipped_def [symmetric] proper_def Let_def)
    qed
  next
    case down: False
    obtain yes w1 where q: "ask e DownloadUpdates w = (yes, w1)" by fastforce
    note a = ask_adds [OF q, THEN conjunct1]
    show ?thesis
    proof (cases yes)
      case True
      obtain es where es: "adds w1 es (FetchUpdates e check skipped w1)" "proper ?m ?v True es"
        using FetchUpdates_adds [where e = e and w = w1, OF other] by blast
      have "OfferUpdates e check w = FetchUpdates e check skipped w1"
        using down q True by (auto simp: OfferUpdates_def skipped_def [symmetric] Let_def)
      then show ?thesis using adds_trans [OF a es(1)] es(2) True
        by (intro exI [of _ "Asked DownloadUpdates yes # es"]) (simp add: proper_def)
    next
      case no: False
      obtain yes2 w2 where q2: "ask e SkipPayload w1 = (yes2, w2)" by fastforce
      note a2 = adds_trans [OF a ask_adds [OF q2, THEN conjunct1]]
      let ?c = "skip_version (artifact_version (payload ?m)) (ui_config w2)"
      obtain ok where s: "adds w2 [SavedSettings ?c ok] (save_settings e ?c w2)" using save_settings_adds by blast
      have eq: "OfferUpdates e check w = (if payload_eligibility check = Upgrade then
          (if yes2 then save_settings e ?c w2 else w2) else w1)"
        using down q no q2 by (auto simp: OfferUpdates_def skipped_def [symmetric] Let_def)
      consider "payload_eligibility check \<noteq> Upgrade" | "payload_eligibility check = Upgrade" "yes2"
        | "payload_eligibility check = Upgrade" "\<not> yes2" by blast
      then show ?thesis
      proof cases
        case 1
        then show ?thesis using a no by (intro exI [of _ "[Asked DownloadUpdates yes]"]) (simp add: eq proper_def)
      next
        case 2
        then show ?thesis using adds_trans [OF a2 s] no
          by (intro exI [of _ "[Asked DownloadUpdates yes, Asked SkipPayload yes2, SavedSettings ?c ok]"]) (simp add: eq proper_def)
      next
        case 3
        then show ?thesis using a2 no
          by (intro exI [of _ "[Asked DownloadUpdates yes, Asked SkipPayload yes2]"]) (simp add: eq proper_def)
      qed
    qed
  qed
qed


section \<open>The whole screen\<close>

lemma RunCheck_log: "RunCheck e w = (check, w') \<Longrightarrow> ui_log w' = ui_log w \<and> ui_config w' = ui_config w"
  by (auto simp: RunCheck_def split: prod.splits)

lemma RunCheck_cache:
  assumes "cache_ok (check_signature (check_world e)) (ui_cache w)" "RunCheck e w = (check, w')" "check_status check = Available"
  shows "authentic (check_signature (check_world e)) (manifest check)"
  using assms CheckNow_ok [of "check_world e" _ "ui_cache w" check _ _]
  by (auto simp: RunCheck_def checked_result_def split: prod.splits)

fun harmless_action :: "ui_action \<Rightarrow> bool" where
  "harmless_action (Downloaded art n r) = False"
| "harmless_action (AppliedPackage art p st) = False"
| "harmless_action a = True"

text \<open>The world in which the screen works after it took the gate, and how it can end.\<close>

definition with_gate :: "updates_world \<Rightarrow> updates_world" where
  "with_gate w = log_action (GateSet OpUpdating) (w\<lparr>ui_gate := OpUpdating\<rparr>)"

lemma with_gate_simps [simp]: "ui_log (with_gate w) = ui_log w @ [GateSet OpUpdating]"
    "ui_config (with_gate w) = ui_config w" "ui_cache (with_gate w) = ui_cache w"
  by (simp_all add: with_gate_def log_action_def)

lemma release_gate_log:
  "\<exists>g. ui_log (release_gate e u) = ui_log u @ [GateSet g] \<and> resting g \<and> ui_gate (release_gate e u) = g"
  using set_gate_adds [of u] observed_resting by (auto simp: release_gate_def adds_def)

lemma ScreenUpdates_cases:
  assumes gate: "ui_gate w = OpDisconnected \<or> ui_gate w = OpConnected" and run: "RunCheck e (with_gate w) = (check, w2)"
  obtains (plain) g where "ui_log (ScreenUpdates e w) = ui_log (with_gate w) @ [GateSet g]" "resting g"
      "ui_gate (ScreenUpdates e w) = g"
    | (offered) "check_status check = Available" "ScreenUpdates e w = release_gate e (OfferUpdates e check w2)"
proof (cases "check_starts e \<and> check_escaped e = None \<and> check_status check = Available")
  case True
  then have "ScreenUpdates e w = release_gate e (OfferUpdates e check w2)"
    using gate run by (auto simp: ScreenUpdates_def TryTransition_def with_gate_def Let_def)
  then show thesis using True offered by blast
next
  case False
  have "resting (ui_gate w)" using gate by (auto simp: resting_def)
  then have prior: thesis if "ScreenUpdates e w = set_gate (ui_gate w) (with_gate w)"
    using plain [of "ui_gate w"] set_gate_adds [of "with_gate w" "ui_gate w"] that by (simp add: adds_def)
  have released: thesis if "ScreenUpdates e w = release_gate e u" "ui_log u = ui_log (with_gate w)" for u
    using plain release_gate_log [of e u] that by metis
  have "ScreenUpdates e w = set_gate (ui_gate w) (with_gate w) \<or>
      (\<exists>u. ScreenUpdates e w = release_gate e u \<and> (u = with_gate w \<or> u = w2))"
    using False gate run
    by (auto simp: ScreenUpdates_def TryTransition_def with_gate_def Let_def split: option.splits)
  then show thesis using prior released RunCheck_log [OF run] by auto
qed

lemma ScreenUpdates_run:
  "\<exists>es. ui_log (ScreenUpdates e w) = ui_log w @ es \<and> consented False None False es \<and>
    (list_all harmless_action es \<or>
     (\<exists>check w1 w2. RunCheck e w1 = (check, w2) \<and> ui_cache w1 = ui_cache w \<and> check_status check = Available \<and>
        list_all (from_manifest (manifest check) (skippedPayloadVersion (update_settings (ui_config w)))) es)) \<and>
    (if ui_gate w = OpDisconnected \<or> ui_gate w = OpConnected
     then \<exists>busy final. gate_sets es = OpUpdating # busy @ [final] \<and> list_all (\<lambda>g. \<not> resting g) busy \<and>
            resting final \<and> ui_gate (ScreenUpdates e w) = final
     else ScreenUpdates e w = w \<and> es = [])"
proof (cases "ui_gate w = OpDisconnected \<or> ui_gate w = OpConnected")
  case False
  then show ?thesis by (intro exI [of _ "[]"]) (simp add: ScreenUpdates_def)
next
  case True
  let ?v = "skippedPayloadVersion (update_settings (ui_config w))"
  obtain check w2 where r: "RunCheck e (with_gate w) = (check, w2)" by fastforce
  show ?thesis
  proof (cases rule: ScreenUpdates_cases [OF True r])
    case (1 g)
    then show ?thesis using True by (intro exI [of _ "[GateSet OpUpdating, GateSet g]"]) auto
  next
    case offered: 2
    obtain es where es: "adds w2 es (OfferUpdates e check w2)" "proper (manifest check) ?v False es"
      using OfferUpdates_adds [of w2 e check] RunCheck_log [OF r] by auto
    obtain g where g: "ui_log (ScreenUpdates e w) = ui_log (OfferUpdates e check w2) @ [GateSet g]" "resting g"
        "ui_gate (ScreenUpdates e w) = g"
      using release_gate_log [of e "OfferUpdates e check w2"] offered(2) by auto
    let ?es = "GateSet OpUpdating # es @ [GateSet g]"
    have "ui_log (ScreenUpdates e w) = ui_log w @ ?es"
      using g(1) es(1) RunCheck_log [OF r] by (simp add: adds_def)
    moreover have "consented False None False ?es" using es(2) by (simp add: proper_def consented_snoc)
    moreover have "list_all (from_manifest (manifest check) ?v) ?es" using es(2) by (simp add: proper_def)
    moreover have "\<exists>c u u'. RunCheck e u = (c, u') \<and> ui_cache u = ui_cache w \<and> check_status c = Available \<and>
        list_all (from_manifest (manifest c) ?v) ?es"
      using calculation(3) r offered(1) with_gate_simps(3) by blast
    moreover have "list_all (\<lambda>g. \<not> resting g) (gate_sets es)"
      using es(2) by (auto simp: proper_def list_all_iff resting_def)
    ultimately show ?thesis using g True by (intro exI [of _ ?es] conjI) simp_all
  qed
qed

text \<open>
  C14. Nothing is downloaded or applied without consent. Whatever the network, the user and the system
  answer, the update screen downloads only after the user confirmed downloading, applies only the package
  it has just staged and only after a second confirmation, takes both artifacts from one manifest whose
  signature was verified, and never applies the version the user chose to skip. It works only from a
  resting gate, holds the gate all the time and gives it back at the end.
\<close>

theorem ScreenUpdates_consent:
  assumes "reachable (\<lambda>c. c = empty_cache) (cache_step (check_signature (check_world e))) (ui_cache w)"
  shows "\<exists>es. ui_log (ScreenUpdates e w) = ui_log w @ es \<and> consented False None False es \<and>
    (list_all harmless_action es \<or>
     (\<exists>m. authentic (check_signature (check_world e)) m \<and>
        list_all (from_manifest m (skippedPayloadVersion (update_settings (ui_config w)))) es)) \<and>
    (if ui_gate w = OpDisconnected \<or> ui_gate w = OpConnected
     then \<exists>busy final. gate_sets es = OpUpdating # busy @ [final] \<and> list_all (\<lambda>g. \<not> resting g) busy \<and>
            resting final \<and> ui_gate (ScreenUpdates e w) = final
     else ScreenUpdates e w = w \<and> es = [])"
proof -
  have ok: "cache_ok (check_signature (check_world e)) (ui_cache w)" using cache.inv_reachable [OF assms] .
  have "authentic (check_signature (check_world e)) (manifest check)"
    if "RunCheck e w1 = (check, w2)" "ui_cache w1 = ui_cache w" "check_status check = Available" for check w1 w2
    using RunCheck_cache [OF _ that(1) that(3)] ok that(2) by simp
  then show ?thesis using ScreenUpdates_run [of e w] by blast
qed

definition sample_updates :: updates_env where
  "sample_updates = \<lparr>answer = \<lambda>l p. p \<noteq> ApplyNow, check_starts = True, check_escaped = None,
     check_world = sample_check_env, disk = sample_os, network = \<lambda>l. (True, None, \<lambda>n a b. sample_exchange),
     apply_world = \<lambda>l. sample_apply_env, utf16 = W, engine_connected = \<lambda>l. True, settings_write = \<lambda>l. True,
     product_version = ''1.0.0''\<rparr>"

definition sample_screen :: updates_world where
  "sample_screen = \<lparr>ui_log = [], ui_gate = OpConnected, ui_config = default_config, ui_paths = sample_paths,
     ui_catalog = [], ui_cache = empty_cache, ui_disk = [], ui_files = []\<rparr>"

lemma ScreenUpdates_consent_witness:
  "consented False None False (ui_log (ScreenUpdates sample_updates sample_screen)) \<and>
   resting (ui_gate (ScreenUpdates sample_updates sample_screen))"
proof -
  have "reachable (\<lambda>c. c = empty_cache) (cache_step (check_signature (check_world sample_updates))) (ui_cache sample_screen)"
    by (rule reachable.start) (simp add: sample_screen_def)
  from ScreenUpdates_consent [OF this] show ?thesis by (auto simp: sample_screen_def)
qed

end
