(* ===== verification/ScreenConnect.thy ===== *)
theory ScreenConnect
  imports Startup
begin

text \<open>
  The connection screens, \<^verbatim>\<open>App::ScreenConnect\<close>, \<^verbatim>\<open>App::ScreenConnected\<close> and \<^verbatim>\<open>App::DoConnectFlow\<close> of
  \<^verbatim>\<open>src/src/app/UiScreens.cpp\<close> and \<^verbatim>\<open>App.cpp\<close>: the gate around the pipeline of \<^verbatim>\<open>Launcher\<close>, what the feed of
  checkpoints and the bar show of its events, and the loop that reconnects. Each frame first runs
  \<^verbatim>\<open>ObserveProcess\<close> (\<^verbatim>\<open>App::BeginFrame\<close>); keys and answers of the process are inputs. Drawing is left out.
\<close>

section \<open>The feed\<close>

text \<open>\<^verbatim>\<open>status[21]\<close>: 0 pending, 1 active, 2 ok, 3 warning, 4 failed.\<close>

record feed =
  status_of :: "nat \<Rightarrow> nat"
  barPercent :: nat
  highest :: nat
  activePhase :: nat
  feed_failed :: bool

definition new_feed :: feed where
  "new_feed = \<lparr>status_of = \<lambda>i. 0, barPercent = 0, highest = 0, activePhase = 1, feed_failed = False\<rparr>"

definition checkpoint_phase :: "nat \<Rightarrow> nat" where
  "checkpoint_phase i = fst (snd (kCheckpoints ! (i - 1)))"

definition take_checkpoint :: "UiEvent \<Rightarrow> feed \<Rightarrow> feed" where
  "take_checkpoint e f =
     (let i = checkpoint e;
          f1 = (case event_type e of
                  StageStarted \<Rightarrow> f\<lparr>status_of := (status_of f)(i := 1)\<rparr>
                | StageOk \<Rightarrow> f\<lparr>status_of := (status_of f)(i := if severity e = SevWarn then 3 else 2)\<rparr>
                | StageFailed \<Rightarrow> f\<lparr>status_of := (status_of f)(i := 4), feed_failed := True\<rparr>
                | _ \<Rightarrow> f) in
      f1\<lparr>highest := max (highest f1) i, activePhase := checkpoint_phase i\<rparr>)"

definition take_event :: "feed \<Rightarrow> UiEvent \<Rightarrow> feed" where
  "take_event f e =
     (let f1 = (if 1 \<le> checkpoint e \<and> checkpoint e \<le> 20 then take_checkpoint e f else f) in
      if barPercent f1 < percent e then f1\<lparr>barPercent := percent e\<rparr> else f1)"

text \<open>The batches that \<^verbatim>\<open>Drain\<close> hands out, in order.\<close>

definition show_batches :: "UiEvent list list \<Rightarrow> feed \<Rightarrow> feed" where
  "show_batches batches f = fold (\<lambda>batch f. foldl take_event f batch) batches f"

lemma show_batches_concat: "show_batches batches f = foldl take_event f (concat batches)"
  unfolding show_batches_def by (induction batches arbitrary: f) auto

lemma take_checkpoint_bar [simp]: "barPercent (take_checkpoint e f) = barPercent f"
  by (simp add: take_checkpoint_def Let_def split: UiEventType.split)

lemma take_event_bar: "barPercent (take_event f e) = max (barPercent f) (percent e)"
  by (simp add: take_event_def Let_def)

lemma bar_fold:
  assumes "barPercent f \<le> 100" "list_all (\<lambda>e. percent e \<le> 100) es"
  shows "barPercent (foldl take_event f es) \<le> 100 \<and>
    (barPercent (foldl take_event f es) = 100 \<longleftrightarrow> barPercent f = 100 \<or> list_ex (\<lambda>e. percent e = 100) es)"
  using assms
proof (induction es arbitrary: f)
  case (Cons e es)
  have "barPercent (take_event f e) \<le> 100" using Cons.prems by (simp add: take_event_bar)
  moreover have "barPercent (take_event f e) = 100 \<longleftrightarrow> barPercent f = 100 \<or> percent e = 100"
    using Cons.prems by (auto simp: take_event_bar max_def)
  ultimately show ?case using Cons.IH [of "take_event f e"] Cons.prems by auto
qed simp

text \<open>The bar never moves backwards, whatever arrives.\<close>

lemma bar_monotone: "barPercent f \<le> barPercent (foldl take_event f es)"
proof (induction es arbitrary: f)
  case (Cons e es)
  have "barPercent f \<le> barPercent (take_event f e)" by (simp add: take_event_bar)
  with Cons [of "take_event f e"] show ?case by (simp add: order_trans)
qed simp

section \<open>The connect screen\<close>

text \<open>\<^verbatim>\<open>ObserveProcess\<close> on the user interface's thread, where no other thread competes.\<close>

definition Observe :: "bool \<Rightarrow> AppOperationState \<Rightarrow> AppOperationState" where
  "Observe alive s = (if resting s then observed alive else s)"

definition frames :: "bool list \<Rightarrow> AppOperationState \<Rightarrow> AppOperationState" where
  "frames alive s = fold Observe alive s"

text \<open>
  One attempt: the surroundings of the pipeline; the world an exception leaves behind, if the worker
  throws; the answers of \<^verbatim>\<open>IsConnectedByUs\<close> in the frames before and after the worker finishes.
\<close>

record attempt =
  surroundings :: connection
  thrown :: "world option"
  feed_frames :: "bool list"
  outcome_frames :: "bool list"

record session =
  session_app :: app
  session_files :: history
  session_procs :: proc_history
  shown :: "UiEvent list"    \<comment> \<open>the events the feed has drained\<close>

definition busy_result :: ConnectResult where
  "busy_result = \<lparr>connect_kind = ConnectError, failed_at = 0\<rparr>"

definition gate_to :: "AppOperationState \<Rightarrow> session \<Rightarrow> session" where
  "gate_to s x = x\<lparr>session_app := (session_app x)\<lparr>app_gate := s\<rparr>\<rparr>"

definition gate_of :: "session \<Rightarrow> AppOperationState" where
  "gate_of x = app_gate (session_app x)"

text \<open>\<^verbatim>\<open>Launcher(paths_, *pm_).Connect(CurrentStrategy(), config_.gameFilter, q)\<close>\<close>

definition connection_of :: "attempt \<Rightarrow> app \<Rightarrow> connection" where
  "connection_of t a =
     (surroundings t)\<lparr>paths := app_paths a, strategy := CurrentStrategy a,
                     connection.gameFilter := Config.gameFilter (app_config a)\<rparr>"

text \<open>The worker thread: the pipeline, then \<^verbatim>\<open>Complete\<close>.\<close>

definition RunConnect :: "attempt \<Rightarrow> session \<Rightarrow> ConnectResult \<times> session" where
  "RunConnect t x =
     (case (case thrown t of
              None \<Rightarrow> Connect (connection_of t (session_app x)) (session_files x) (app_manager (session_app x)) (session_procs x)
            | Some w \<Rightarrow> (busy_result, post StageFailed 0 0 SevError w)) of
        (r, w) \<Rightarrow>
          (r, x\<lparr>session_app := (session_app x)\<lparr>app_manager := mgr w\<rparr>, session_files := files w,
                session_procs := procs w, shown := posted w\<rparr>))"

definition FinishConnect :: "attempt \<Rightarrow> session \<Rightarrow> ConnectResult \<times> session" where
  "FinishConnect t x =
     (case RunConnect t (gate_to (frames (feed_frames t) (gate_of x)) x) of
        (r, x1) \<Rightarrow>
          let finished = Complete (if success r then OpConnected else OpError) (gate_of x1);
              after = frames (outcome_frames t) finished in
          (r, gate_to (if success r then after else Complete OpDisconnected after) x1))"

definition ScreenConnect :: "proc_env \<Rightarrow> attempt \<Rightarrow> session \<Rightarrow> ConnectResult \<times> session" where
  "ScreenConnect env t x =
     (let alreadyConnected = IsConnectedByUs env (session_procs x) (app_manager (session_app x));
          x1 = gate_to (Observe alreadyConnected (gate_of x)) x in
      if alreadyConnected then FinishConnect t (gate_to (Complete OpConnected (gate_of x1)) x1)
      else case TryTransition OpDisconnected OpConnecting (gate_of x1) of
             (_, False) \<Rightarrow> (busy_result, x1)
           | (busy, True) \<Rightarrow> FinishConnect t (gate_to busy x1))"


lemma frames_busy: "\<not> resting s \<Longrightarrow> frames l s = s"
  unfolding frames_def by (induction l) (auto simp: Observe_def)

lemma Observe_resting: "resting (Observe b s) = resting s"
  by (simp add: Observe_def observed_resting)

lemma frames_resting: "resting (frames l s) = resting s"
proof (cases "resting s")
  case True
  then show ?thesis unfolding frames_def by (induction l arbitrary: s) (auto simp: Observe_resting)
next
  case False
  then show ?thesis by (simp add: frames_busy)
qed

lemma gate_to_same [simp]: "gate_to (gate_of x) x = x" "gate_of (gate_to s x) = s"
  "gate_to s (gate_to r x) = gate_to s x"
  by (simp_all add: gate_to_def gate_of_def)

lemma RunConnect_gate: "RunConnect t x = (r, x') \<Longrightarrow> gate_of x' = gate_of x"
  by (auto simp: RunConnect_def gate_of_def split: prod.splits)

text \<open>What the screen promises of a finished attempt.\<close>

definition attempt_ok :: "attempt \<Rightarrow> UiEvent list list \<Rightarrow> ConnectResult \<times> session \<Rightarrow> bool" where
  "attempt_ok t batches out \<longleftrightarrow>
     (case out of (r, x) \<Rightarrow>
        resting (gate_of x) \<and> (success r \<or> gate_of x = OpDisconnected) \<and>
        (if thrown t = None \<and> concat batches = shown x
         then barPercent (show_batches batches new_feed) = 100 \<longleftrightarrow> connect_kind r = Connected else True))"

lemma FinishConnect_ok: "attempt_ok t batches (FinishConnect t x)"
proof -
  let ?y = "gate_to (frames (feed_frames t) (gate_of x)) x"
  obtain r x1 where r: "RunConnect t ?y = (r, x1)" by fastforce
  let ?finished = "if success r then OpConnected else OpError"
  let ?after = "frames (outcome_frames t) ?finished"
  have fin: "FinishConnect t x = (r, gate_to (if success r then ?after else OpDisconnected) x1)"
    by (simp add: FinishConnect_def r Let_def Complete_def)
  have "resting ?finished" by (simp add: resting_def)
  then have rest: "resting ?after" by (simp add: frames_resting)
  have "barPercent (show_batches batches new_feed) = 100 \<longleftrightarrow> connect_kind r = Connected"
    if shown: "thrown t = None" "concat batches = shown x1"
  proof -
    obtain w where w: "Connect (connection_of t (session_app ?y)) (session_files ?y) (app_manager (session_app ?y)) (session_procs ?y) = (r, w)"
        "posted w = shown x1"
      using r shown(1) by (auto simp: RunConnect_def split: prod.splits)
    have "progress_ok (r, w)" using Connect_progress_ok w(1) by metis
    then have "list_all (\<lambda>e. percent e \<le> 100) (shown x1)"
        "list_ex (\<lambda>e. percent e = 100) (shown x1) \<longleftrightarrow> connect_kind r = Connected"
      by (simp_all add: progress_ok_def w(2))
    then show ?thesis
      using bar_fold [of new_feed "shown x1"] by (simp add: show_batches_concat shown(2) new_feed_def)
  qed
  moreover have "shown (gate_to s x1) = shown x1" for s by (simp add: gate_to_def)
  moreover have "resting OpDisconnected" by (simp add: resting_def)
  ultimately show ?thesis using rest by (cases "success r") (simp_all add: attempt_ok_def fin)
qed

lemma FinishConnect_resting: "resting (gate_of (snd (FinishConnect t x)))"
  using FinishConnect_ok [of t "[]" x] by (simp add: attempt_ok_def split_beta)

text \<open>
  When the engine runs already, \<^verbatim>\<open>Complete(Connected)\<close> is called without the gate: an operation that holds it
  would lose it. Only the thread of the user interface takes the gate today.
\<close>

lemma ScreenConnect_takes_busy_gate:
  assumes "IsConnectedByUs env (session_procs x) (app_manager (session_app x))"
  shows "resting (gate_of (snd (ScreenConnect env t x)))"
  using assms by (simp add: ScreenConnect_def FinishConnect_resting Let_def)

lemma ScreenConnect_cases:
  assumes "resting (gate_of x)"
  shows "\<exists>y. ScreenConnect env t x = FinishConnect t y"
  using assms by (auto simp: ScreenConnect_def TryTransition_def Observe_def observed_def Let_def)

lemma ScreenConnect_busy:
  assumes "\<not> resting (gate_of x)" "\<not> IsConnectedByUs env (session_procs x) (app_manager (session_app x))"
  shows "ScreenConnect env t x = (busy_result, x)"
proof -
  have "gate_of x \<noteq> OpDisconnected" using assms(1) by (auto simp: resting_def)
  then show ?thesis using assms by (simp add: ScreenConnect_def Observe_def TryTransition_def Let_def)
qed

section \<open>The connected screen and the flow\<close>

datatype Post = PostMenu | PostQuit | PostReconnect

datatype screen_key = KeyBack | KeyQuit | KeyRetry | KeyMenu | OtherKey

text \<open>\<open>None\<close>: the keys given have run out.\<close>

fun lost_screen :: "(bool \<times> screen_key) list \<Rightarrow> AppOperationState \<Rightarrow> Post option \<times> AppOperationState" where
  "lost_screen [] s = (None, s)"
| "lost_screen ((alive, key) # rest) s =
     (let s1 = Observe alive s in
      if key = KeyRetry then (Some PostReconnect, Complete OpDisconnected s1)
      else if key = KeyMenu \<or> key = KeyBack then (Some PostMenu, Complete OpDisconnected s1)
      else lost_screen rest s1)"

fun connected_screen ::
    "(UiEvent list \<times> bool \<times> screen_key) list \<Rightarrow> (bool \<times> screen_key) list \<Rightarrow> AppOperationState \<Rightarrow>
     Post option \<times> AppOperationState" where
  "connected_screen [] lost s = (None, s)"
| "connected_screen ((drained, alive, key) # rest) lost s =
     (if list_ex (\<lambda>e. event_type e = ProcessStopped) drained then lost_screen lost (Complete OpError s)
      else let s1 = Observe alive s in
        if key = KeyBack then (Some PostMenu, s1)
        else if key = KeyQuit then (Some PostQuit, s1)
        else connected_screen rest lost s1)"

record flow_round =
  round_attempt :: attempt
  round_frames :: "(UiEvent list \<times> bool \<times> screen_key) list"
  round_lost :: "(bool \<times> screen_key) list"

fun DoConnectFlow :: "proc_env \<Rightarrow> flow_round list \<Rightarrow> session \<Rightarrow> Post option \<times> session" where
  "DoConnectFlow env [] x = (None, x)"
| "DoConnectFlow env (rd # rds) x =
     (case ScreenConnect env (round_attempt rd) x of
        (r, x1) \<Rightarrow>
          if \<not> success r then (Some PostMenu, x1)
          else (case connected_screen (round_frames rd) (round_lost rd) (gate_of x1) of
                  (p, s) \<Rightarrow>
                    let x2 = gate_to s x1 in
                    if p \<noteq> Some PostReconnect then (p, x2)
                    else (case StopManagedConnection env (session_app x2) (session_procs x2) of
                            (stopped, a, g) \<Rightarrow>
                              let x3 = x2\<lparr>session_app := a, session_procs := g\<rparr> in
                              if stop_status stopped \<noteq> Stopped \<and> stop_status stopped \<noteq> NotRunning then (Some PostMenu, x3)
                              else DoConnectFlow env rds x3)))"

lemma lost_screen_resting: "resting s \<Longrightarrow> resting (snd (lost_screen keys s))"
  by (induction keys s rule: lost_screen.induct)
    (auto simp: Let_def Complete_def Observe_resting, auto simp: resting_def)

lemma connected_screen_resting: "resting s \<Longrightarrow> resting (snd (connected_screen fs lost s))"
  by (induction fs lost s rule: connected_screen.induct)
    (auto simp: Let_def Complete_def Observe_resting lost_screen_resting resting_def [of OpError])

lemma StopManagedConnection_resting:
  assumes "resting (app_gate a)" "StopManagedConnection env a g = (r, a', g')"
  shows "resting (app_gate a')"
  using assms by (auto simp: StopManagedConnection_def TryTransition_def Complete_def Let_def resting_def
      split: prod.splits if_splits)

lemma DoConnectFlow_resting: "resting (gate_of x) \<Longrightarrow> resting (gate_of (snd (DoConnectFlow env rounds x)))"
proof (induction rounds arbitrary: x)
  case (Cons rd rounds)
  obtain r x1 where c: "ScreenConnect env (round_attempt rd) x = (r, x1)" by fastforce
  obtain y where "FinishConnect (round_attempt rd) y = (r, x1)" using ScreenConnect_cases [OF Cons.prems] c by metis
  then have x1: "resting (gate_of x1)" using FinishConnect_ok [of "round_attempt rd" "[]" y] by (simp add: attempt_ok_def)
  obtain p s where s: "connected_screen (round_frames rd) (round_lost rd) (gate_of x1) = (p, s)" by fastforce
  have s_rest: "resting s" using connected_screen_resting [OF x1, of "round_frames rd" "round_lost rd"] s by simp
  obtain stopped a g where st: "StopManagedConnection env (session_app (gate_to s x1)) (session_procs (gate_to s x1)) = (stopped, a, g)"
    by (cases "StopManagedConnection env (session_app (gate_to s x1)) (session_procs (gate_to s x1))")
  have "resting (app_gate (session_app (gate_to s x1)))" using s_rest by (simp add: gate_to_def)
  then have a: "resting (app_gate a)" using st StopManagedConnection_resting by blast
  let ?x3 = "(gate_to s x1)\<lparr>session_app := a, session_procs := g\<rparr>"
  have x3: "resting (gate_of ?x3)" using a by (simp add: gate_of_def)
  show ?case using x1 s_rest x3 Cons.IH [OF x3] by (simp add: c s st Let_def)
qed simp


end
