(* ===== verification/LogFile.thy ===== *)
theory LogFile
  imports StringUtil WidgetsDraw "HOL-Library.Sublist"
begin

text \<open>
  The application log: the writer, \<^verbatim>\<open>src/src/util/Logger.cpp\<close>, with its rotation at two megabytes, and the
  reader of \<^verbatim>\<open>App::ScreenLogs\<close> in \<^verbatim>\<open>src/src/app/UiScreens.cpp\<close>, which cuts a line into time, level and text.
  The state is the two files and whether the handle is open; answers of the system may depend on it. All
  operations run under one mutex. What the writer formats, the reader takes apart again.
\<close>

section \<open>Lines\<close>

datatype LogLevel = LogDebug | LogInfo | LogWarn | LogError

fun LevelName :: "LogLevel \<Rightarrow> wstring" where
  "LevelName LogDebug = [0x41E, 0x422, 0x41B, 0x410, 0x414, 0x41A, 0x410]"
| "LevelName LogInfo = [0x421, 0x412, 0x415, 0x414, 0x415, 0x41D, 0x418, 0x42F]"
| "LevelName LogWarn = [0x41F, 0x420, 0x415, 0x414, 0x423, 0x41F, 0x420, 0x415, 0x416, 0x414, 0x415, 0x41D, 0x418, 0x415]"
| "LevelName LogError = [0x41E, 0x428, 0x418, 0x411, 0x41A, 0x410]"

fun level_value :: "LogLevel \<Rightarrow> nat" where
  "level_value LogDebug = 0"
| "level_value LogInfo = 1"
| "level_value LogWarn = 2"
| "level_value LogError = 3"

record SYSTEMTIME =
  wYear :: nat
  wMonth :: nat
  wDay :: nat
  wHour :: nat
  wMinute :: nat
  wSecond :: nat
  wMilliseconds :: nat

text \<open>\<^verbatim>\<open>%0ku\<close>\<close>

definition padded :: "nat \<Rightarrow> nat \<Rightarrow> wstring" where
  "padded k n = W (replicate (k - length (to_string n)) (CHR ''0'') @ to_string n)"

definition clock_text :: "SYSTEMTIME \<Rightarrow> wstring" where
  "clock_text t = padded 2 (wHour t) @ W '':'' @ padded 2 (wMinute t) @ W '':'' @ padded 2 (wSecond t)"

definition Timestamp :: "SYSTEMTIME \<Rightarrow> wstring" where
  "Timestamp t =
     padded 4 (wYear t) @ W ''-'' @ padded 2 (wMonth t) @ W ''-'' @ padded 2 (wDay t) @ W '' '' @
     clock_text t @ W ''.'' @ padded 3 (wMilliseconds t)"

definition log_line :: "SYSTEMTIME \<Rightarrow> LogLevel \<Rightarrow> wstring \<Rightarrow> wstring" where
  "log_line t level message =
     W ''['' @ Timestamp t @ W ''] ['' @ LevelName level @ W ''] '' @ message @ [0x0D, 0x0A]"

section \<open>The writer\<close>

definition kMaxLogBytes :: nat where
  "kMaxLogBytes = 2 * 1024 * 1024"

record logger =
  is_open :: bool                     \<comment> \<open>\<^verbatim>\<open>g_file\<close> is a handle\<close>
  min_level :: LogLevel
  current_log :: "string option"      \<comment> \<open>\<^verbatim>\<open>cheburnet.log\<close>\<close>
  rolled_log :: "string option"       \<comment> \<open>\<^verbatim>\<open>cheburnet.log.1\<close>\<close>

text \<open>Answers of \<^verbatim>\<open>SecureFs\<close> and of the system, in the state they are asked in.\<close>

record log_env =
  dir_valid :: bool                             \<comment> \<open>components and protection of the directory\<close>
  attributes_fail :: "logger \<Rightarrow> bool"
  attributes_bad :: "logger \<Rightarrow> bool"          \<comment> \<open>a directory or a reparse point\<close>
  create_empty :: "logger \<Rightarrow> bool"
  harden_log :: "logger \<Rightarrow> bool"
  log_protected :: "logger \<Rightarrow> bool"
  opens :: "logger \<Rightarrow> bool"
  handle_valid :: "logger \<Rightarrow> bool"
  size_known :: "logger \<Rightarrow> bool"
  rolled_deletable :: "logger \<Rightarrow> bool"        \<comment> \<open>valid object and deleted\<close>
  rolled_moved :: "logger \<Rightarrow> bool"
  rolled_hardened :: "logger \<Rightarrow> bool"
  write_answer :: "logger \<Rightarrow> nat \<Rightarrow> nat option"   \<comment> \<open>bytes written by the n-th call\<close>
  flushes :: "logger \<Rightarrow> bool"
  now :: SYSTEMTIME
  to_utf8 :: "wstring \<Rightarrow> string"
  version_name :: wstring

text \<open>Chunks of one megabyte; a short write ends the loop.\<close>

function write_chunks :: "(nat \<Rightarrow> nat option) \<Rightarrow> nat \<Rightarrow> string \<Rightarrow> bool \<times> string" where
  "write_chunks answers n bytes =
     (if bytes = [] then (True, [])
      else let request = take (1024 * 1024) bytes in
        (case answers n of
           None \<Rightarrow> (False, [])
         | Some written \<Rightarrow>
             if written \<noteq> length request then (False, take written request)
             else (case write_chunks answers (n + 1) (drop (1024 * 1024) bytes) of
                     (ok, rest) \<Rightarrow> (ok, request @ rest))))"
  by pat_completeness auto
termination
  by (relation "measure (\<lambda>(answers, n, bytes). length bytes)") auto

declare write_chunks.simps [simp del]

definition WriteAllUtf8 :: "log_env \<Rightarrow> string \<Rightarrow> logger \<Rightarrow> bool \<times> logger" where
  "WriteAllUtf8 e bytes g =
     (if \<not> is_open g then (False, g)
      else (case write_chunks (write_answer e g) 0 bytes of
              (ok, written) \<Rightarrow> (ok, g\<lparr>current_log := map_option (\<lambda>c. c @ written) (current_log g)\<rparr>)))"

definition close_log :: "logger \<Rightarrow> logger" where
  "close_log g = g\<lparr>is_open := False\<rparr>"

definition PrepareProtectedLogPath :: "log_env \<Rightarrow> logger \<Rightarrow> bool \<times> logger" where
  "PrepareProtectedLogPath e g =
     (if attributes_fail e g then (False, g)
      else if current_log g = None
      then (if create_empty e g then (let g1 = g\<lparr>current_log := Some []\<rparr> in (log_protected e g1, g1)) else (False, g))
      else if attributes_bad e g then (False, g)
      else if harden_log e g then (log_protected e g, g) else (False, g))"

definition OpenProtectedLog :: "log_env \<Rightarrow> logger \<Rightarrow> bool \<times> logger" where
  "OpenProtectedLog e g =
     (case PrepareProtectedLogPath e g of
        (False, g1) \<Rightarrow> (False, g1)
      | (True, g1) \<Rightarrow> if opens e g1 \<and> handle_valid e g1 then (True, g1\<lparr>is_open := True\<rparr>) else (False, g1))"

definition drop_rolled :: "log_env \<Rightarrow> logger \<Rightarrow> logger option" where
  "drop_rolled e g =
     (if rolled_log g = None then Some g
      else if rolled_deletable e g then Some (g\<lparr>rolled_log := None\<rparr>) else None)"

definition RotateIfNeeded :: "log_env \<Rightarrow> logger \<Rightarrow> bool \<times> logger" where
  "RotateIfNeeded e g =
     (if \<not> is_open g then (False, g)
      else if \<not> size_known e g then (False, g)
      else if (case current_log g of None \<Rightarrow> True | Some c \<Rightarrow> length c < kMaxLogBytes) then (True, g)
      else let g1 = close_log g in
        (case drop_rolled e g1 of
           None \<Rightarrow> (False, g1)
         | Some g2 \<Rightarrow>
             if \<not> rolled_moved e g2 then (False, g2)
             else let g3 = g2\<lparr>rolled_log := current_log g2, current_log := None\<rparr> in
               if \<not> rolled_hardened e g3 then (False, g3) else OpenProtectedLog e g3))"

definition Log :: "log_env \<Rightarrow> LogLevel \<Rightarrow> wstring \<Rightarrow> logger \<Rightarrow> logger" where
  "Log e level message g =
     (if \<not> is_open g then g
      else if level_value level < level_value (min_level g) then g
      else (case RotateIfNeeded e g of
              (False, g1) \<Rightarrow> g1
            | (True, g1) \<Rightarrow>
                (case WriteAllUtf8 e (to_utf8 e (log_line (now e) level message)) g1 of
                   (ok, g2) \<Rightarrow> if ok then g2 else close_log g2)))"

definition session_line :: "log_env \<Rightarrow> wstring \<Rightarrow> wstring" where
  "session_line e caption = W ''['' @ Timestamp (now e) @ W ''] ['' @ LevelName LogInfo @ W ''] ===== '' @ caption @ W '' ====='' @ [0x0D, 0x0A]"

definition banner :: "log_env \<Rightarrow> logger \<Rightarrow> string" where
  "banner e g =
     (if current_log g = Some [] \<or> \<not> size_known e g then [CHR 0xEF, CHR 0xBB, CHR 0xBF] else []) @
     to_utf8 e (session_line e (W ''CHEBURNET '' @ version_name e @ [0x20, 0x43D, 0x430, 0x447, 0x430, 0x43B, 0x43E, 0x20, 0x441, 0x435, 0x430, 0x43D, 0x441, 0x430]))"

definition Logger_Init :: "log_env \<Rightarrow> LogLevel \<Rightarrow> logger \<Rightarrow> bool \<times> logger" where
  "Logger_Init e level g =
     (let g0 = g\<lparr>is_open := False, min_level := level\<rparr> in
      if \<not> dir_valid e then (False, g0)
      else (case OpenProtectedLog e g0 of
              (False, g1) \<Rightarrow> (False, g1)
            | (True, g1) \<Rightarrow>
                (case RotateIfNeeded e g1 of
                   (False, g2) \<Rightarrow> (False, g2)
                 | (True, g2) \<Rightarrow>
                     (case WriteAllUtf8 e (banner e g2) g2 of
                        (ok, g3) \<Rightarrow> if ok \<and> flushes e g3 then (True, g3) else (False, close_log g3)))))"

definition Shutdown :: "log_env \<Rightarrow> logger \<Rightarrow> logger" where
  "Shutdown e g =
     (if is_open g
      then close_log (snd (WriteAllUtf8 e (to_utf8 e (session_line e [0x437, 0x430, 0x432, 0x435, 0x440, 0x448, 0x435, 0x43D, 0x438, 0x435, 0x20, 0x441, 0x435, 0x430, 0x43D, 0x441, 0x430])) g))
      else g)"

text \<open>What one call can do to the files: append a prefix of the line, after at most one rotation.\<close>

lemma write_chunks_prefix:
  "write_chunks answers n bytes = (ok, written) \<Longrightarrow> prefix written bytes \<and> (ok \<longrightarrow> written = bytes)"
proof (induction answers n bytes arbitrary: ok written rule: write_chunks.induct)
  case (1 answers n bytes)
  let ?request = "take (1024 * 1024) bytes" and ?rest = "drop (1024 * 1024) bytes"
  show ?case
  proof (cases "bytes = [] \<or> answers n = None \<or> answers n \<noteq> Some (length ?request)")
    case True
    then show ?thesis using "1.prems"
      by (subst (asm) write_chunks.simps) (auto simp: Let_def take_is_prefix split: option.splits if_splits)
  next
    case False
    obtain ok' rest where r: "write_chunks answers (n + 1) ?rest = (ok', rest)" by fastforce
    have "prefix rest ?rest \<and> (ok' \<longrightarrow> rest = ?rest)"
      by (rule "1.IH" [OF _ refl _ _ r]) (use False in auto)
    moreover have "ok = ok'" "written = ?request @ rest"
      using "1.prems" False r by (subst (asm) write_chunks.simps; simp add: Let_def)+
    ultimately show ?thesis by (metis append_take_drop_id same_prefix_prefix)
  qed
qed

definition log_inv :: "logger \<Rightarrow> bool" where
  "log_inv g \<longleftrightarrow> (is_open g \<longrightarrow> current_log g \<noteq> None)"

lemma Prepare_log: "PrepareProtectedLogPath e g = (ok, g') \<Longrightarrow>
    is_open g' = is_open g \<and> min_level g' = min_level g \<and> rolled_log g' = rolled_log g \<and>
    (ok \<longrightarrow> current_log g' = Some (case current_log g of None \<Rightarrow> [] | Some c \<Rightarrow> c)) \<and>
    (current_log g' = current_log g \<or> current_log g = None \<and> current_log g' = Some [])"
  by (auto simp: PrepareProtectedLogPath_def Let_def split: if_splits)

lemma Open_log: "OpenProtectedLog e g = (ok, g') \<Longrightarrow>
    rolled_log g' = rolled_log g \<and> min_level g' = min_level g \<and> is_open g' = (ok \<or> is_open g) \<and>
    (ok \<longrightarrow> current_log g' = Some (case current_log g of None \<Rightarrow> [] | Some c \<Rightarrow> c)) \<and>
    (current_log g' = current_log g \<or> current_log g = None \<and> current_log g' = Some [])"
  using Prepare_log [of e g]
  by (auto simp: OpenProtectedLog_def split: prod.splits bool.splits if_splits)

definition file_bytes :: "string option \<Rightarrow> string" where
  "file_bytes f = (case f of None \<Rightarrow> [] | Some c \<Rightarrow> c)"

text \<open>
  A rotation moves the whole log aside or leaves it; when it succeeds the log is open and below the limit.
\<close>

lemma Rotate_log:
  assumes "RotateIfNeeded e g = (ok, g')" "log_inv g"
  shows "log_inv g' \<and>
    (ok \<longrightarrow> is_open g' \<and> length (file_bytes (current_log g')) < kMaxLogBytes) \<and>
    (file_bytes (current_log g') = file_bytes (current_log g) \<or>
     file_bytes (current_log g') = [] \<and> rolled_log g' = current_log g)"
proof (cases "is_open g \<and> size_known e g \<and> kMaxLogBytes \<le> length (file_bytes (current_log g))")
  case False
  then show ?thesis using assms
    by (auto simp: RotateIfNeeded_def log_inv_def file_bytes_def split: if_splits option.splits)
next
  case True
  then obtain c where c: "current_log g = Some c" using assms(2) by (auto simp: log_inv_def)
  let ?g1 = "close_log g"
  have eq: "RotateIfNeeded e g = (case drop_rolled e ?g1 of None \<Rightarrow> (False, ?g1)
     | Some g2 \<Rightarrow> if \<not> rolled_moved e g2 then (False, g2)
         else let g3 = g2\<lparr>rolled_log := current_log g2, current_log := None\<rparr> in
           if \<not> rolled_hardened e g3 then (False, g3) else OpenProtectedLog e g3)"
    using True c by (simp add: RotateIfNeeded_def file_bytes_def Let_def)
  show ?thesis
  proof (cases "drop_rolled e ?g1")
    case None
    then show ?thesis using assms(1) by (auto simp: eq log_inv_def close_log_def)
  next
    case (Some g2)
    then have g2: "is_open g2 = False" "current_log g2 = Some c"
      by (auto simp: drop_rolled_def close_log_def c split: if_splits)
    let ?g3 = "g2\<lparr>rolled_log := current_log g2, current_log := None\<rparr>"
    show ?thesis
    proof (cases "rolled_moved e g2 \<and> rolled_hardened e ?g3")
      case True
      then have "OpenProtectedLog e ?g3 = (ok, g')" using assms(1) Some by (simp add: eq Let_def)
      from Open_log [OF this] g2 c show ?thesis
        by (auto simp: log_inv_def file_bytes_def kMaxLogBytes_def)
    next
      case False
      then show ?thesis using assms(1) Some g2 c
        by (auto simp: eq Let_def log_inv_def file_bytes_def split: if_splits)
    qed
  qed
qed

text \<open>
  Writing a message appends a prefix of its line to the log as it was, or to an empty log after the old one
  was moved aside complete; the handle stays open only if the whole line is there, and the log never
  exceeds the limit by more than the line. Messages below the level, or without a handle, change nothing.
\<close>

lemma Log_appends:
  assumes "log_inv g"
  shows "log_inv (Log e level message g) \<and>
    (if \<not> is_open g \<or> level_value level < level_value (min_level g) then Log e level message g = g
     else \<exists>base written.
       (base = file_bytes (current_log g) \<or> base = [] \<and> rolled_log (Log e level message g) = current_log g) \<and>
       prefix written (to_utf8 e (log_line (now e) level message)) \<and>
       file_bytes (current_log (Log e level message g)) = base @ written \<and>
       (written = [] \<or> length base < kMaxLogBytes))"
proof (cases "\<not> is_open g \<or> level_value level < level_value (min_level g)")
  case True
  then show ?thesis using assms by (auto simp: Log_def)
next
  case False
  obtain ok g1 where r: "RotateIfNeeded e g = (ok, g1)" by fastforce
  note rot = Rotate_log [OF r assms]
  show ?thesis
  proof (cases ok)
    case no: False
    then have eq: "Log e level message g = g1" using False r by (simp add: Log_def)
    show ?thesis unfolding eq if_not_P [OF False]
      by (intro conjI exI [of _ "file_bytes (current_log g1)"] exI [of _ "[]"]) (use rot in auto)
  next
    case True
    then obtain c where c: "is_open g1" "current_log g1 = Some c" "length c < kMaxLogBytes"
      using rot by (auto simp: log_inv_def file_bytes_def)
    let ?line = "to_utf8 e (log_line (now e) level message)"
    obtain ok2 written where w: "write_chunks (write_answer e g1) 0 ?line = (ok2, written)" by fastforce
    have eq: "Log e level message g =
        (if ok2 then g1\<lparr>current_log := Some (c @ written)\<rparr> else close_log (g1\<lparr>current_log := Some (c @ written)\<rparr>))"
      using False r True c w by (simp add: Log_def WriteAllUtf8_def)
    have old: "c = file_bytes (current_log g) \<or> c = [] \<and> rolled_log g1 = current_log g"
      using rot c(2) by (auto simp: file_bytes_def)
    show ?thesis unfolding eq if_not_P [OF False]
      by (intro conjI exI [of _ c] exI [of _ written])
        (use old c write_chunks_prefix [OF w] in \<open>simp_all add: log_inv_def close_log_def file_bytes_def [of "Some x" for x]\<close>)
  qed
qed

section \<open>The reader\<close>

text \<open>\<^verbatim>\<open>find\<close> of a text and of a character from a position.\<close>

fun contains :: "wstring \<Rightarrow> wstring \<Rightarrow> bool" where
  "contains needle [] = (needle = [])"
| "contains needle (c # cs) = (starts_with needle (c # cs) \<or> contains needle cs)"

definition find_from :: "wchar \<Rightarrow> nat \<Rightarrow> wstring \<Rightarrow> nat option" where
  "find_from c i s = (if i + length (takeWhile (\<lambda>x. x \<noteq> c) (drop i s)) < length s
                      then Some (i + length (takeWhile (\<lambda>x. x \<noteq> c) (drop i s))) else None)"

definition error_marks :: "wstring list" where
  "error_marks = [[0x5B, 0x41E, 0x428, 0x418, 0x411, 0x41A, 0x410, 0x5D], W ''[ERROR]'']"

definition warn_marks :: "wstring list" where
  "warn_marks = [[0x5B, 0x41F, 0x420, 0x415, 0x414, 0x423, 0x41F, 0x420, 0x415, 0x416, 0x414, 0x415, 0x41D, 0x418, 0x415, 0x5D], W ''[WARN]'']"

definition line_severity :: "wstring \<Rightarrow> Severity" where
  "line_severity w =
     (if list_ex (\<lambda>m. contains m w) error_marks then SevError
      else if list_ex (\<lambda>m. contains m w) warn_marks then SevWarn else SevInfo)"

definition level_caption :: "Severity \<Rightarrow> wstring" where
  "level_caption sev =
     (if sev = SevError then [0x41E, 0x428, 0x418, 0x411, 0x41A, 0x410]
      else if sev = SevWarn then [0x41F, 0x420, 0x415, 0x414, 0x423, 0x41F, 0x420, 0x2E]
      else [0x421, 0x412, 0x415, 0x414, 0x415, 0x41D, 0x418, 0x42F])"

definition ParseLogLine :: "wstring \<Rightarrow> LogLine" where
  "ParseLogLine w =
     (let sev = line_severity w;
          plain = \<lparr>log_time = [], log_level = [], log_text = w, log_sev = sev\<rparr> in
      if 24 < length w \<and> hd w = WC CHR ''['' then
        (let timed = plain\<lparr>log_time := take 8 (drop 12 w)\<rparr> in
         case find_from (WC CHR ''['') 1 w of
           None \<Rightarrow> timed
         | Some lb \<Rightarrow>
             (case find_from (WC CHR '']'') lb w of
                None \<Rightarrow> timed
              | Some rb \<Rightarrow>
                  timed\<lparr>log_level := level_caption sev, log_text := (if rb + 2 \<le> length w then drop (rb + 2) w else [])\<rparr>))
      else plain)"

text \<open>
  The tail the screen reads: a valid plain object, its size, a seek when there is something to read, and one
  read of at most 128 kilobytes that must be complete.
\<close>

definition ScreenLogContent :: "bool \<Rightarrow> nat option \<Rightarrow> bool \<Rightarrow> (nat \<Rightarrow> nat \<Rightarrow> string option) \<Rightarrow> string" where
  "ScreenLogContent usable bytes_known seeks tail =
     (if \<not> usable then []
      else case bytes_known of
             None \<Rightarrow> []
           | Some n \<Rightarrow>
               let toRead = min n (128 * 1024) in
               if toRead = 0 then []
               else if \<not> seeks then []
               else (case tail (n - toRead) toRead of
                       None \<Rightarrow> []
                     | Some bytes \<Rightarrow> if length bytes = toRead then bytes else []))"

text \<open>The lines of a tail: cut at line feeds, trimmed, converted, the empty ones left out.\<close>

function ParseLogLines :: "(string \<Rightarrow> wstring) \<Rightarrow> string \<Rightarrow> LogLine list" where
  "ParseLogLines ToUtf16 content =
     (if content = [] then []
      else case split_at (CHR 0x0A) content of
             (raw, next) \<Rightarrow>
               let w = ToUtf16 (Trim raw) in
               (if w = [] then [] else [ParseLogLine w]) @
               ParseLogLines ToUtf16 (case next of None \<Rightarrow> [] | Some r \<Rightarrow> r))"
  by pat_completeness auto
termination
  by (relation "measure (\<lambda>(u, content). length content)") (auto split: option.split dest: split_at_shorter [OF sym])

declare ParseLogLines.simps [simp del]

section \<open>What is written is shown\<close>

definition wide_digit :: "wchar \<Rightarrow> bool" where
  "wide_digit c \<longleftrightarrow> (\<exists>d. IsDigit d \<and> c = WC d)"

lemma to_string_length: "0 < k \<Longrightarrow> n < 10 ^ k \<Longrightarrow> length (to_string n) \<le> k"
proof (induction k arbitrary: n)
  case (Suc k)
  show ?case
  proof (cases "n < 10")
    case True
    then show ?thesis by (subst to_string.simps) simp
  next
    case False
    then have "0 < k" using Suc.prems by (cases k) auto
    moreover have "n div 10 < 10 ^ k" using Suc.prems by (simp add: less_mult_imp_div_less mult.commute)
    ultimately show ?thesis using Suc.IH False by (subst to_string.simps) simp
  qed
qed simp

lemma padded_length: "0 < k \<Longrightarrow> n < 10 ^ k \<Longrightarrow> length (padded k n) = k"
  using to_string_length [of k n] by (simp add: padded_def)

lemma wide_digit_WC: "IsDigit d \<Longrightarrow> wide_digit (WC d)"
  by (auto simp: wide_digit_def)

lemma padded_digits: "list_all wide_digit (padded k n)"
proof -
  have "list_all IsDigit (replicate (k - length (to_string n)) (CHR ''0'') @ to_string n)"
    using to_string_digits [of n] by (auto simp: list_all_iff IsDigit_def)
  then show ?thesis using wide_digit_WC by (auto simp: padded_def list_all_iff simp del: of_char_Char)
qed

definition time_ok :: "SYSTEMTIME \<Rightarrow> bool" where
  "time_ok t \<longleftrightarrow> wYear t < 10000 \<and> wMonth t < 100 \<and> wDay t < 100 \<and> wHour t < 100 \<and> wMinute t < 100 \<and>
     wSecond t < 100 \<and> wMilliseconds t < 1000"

lemma Timestamp_shape:
  assumes "time_ok t"
  shows "length (Timestamp t) = 23" "take 8 (drop 11 (Timestamp t)) = clock_text t" "length (clock_text t) = 8"
  using assms padded_length [of 4 "wYear t"] padded_length [of 2 "wMonth t"] padded_length [of 2 "wDay t"]
    padded_length [of 2 "wHour t"] padded_length [of 2 "wMinute t"] padded_length [of 2 "wSecond t"]
    padded_length [of 3 "wMilliseconds t"]
  by (simp_all add: time_ok_def Timestamp_def clock_text_def)

text \<open>No bracket stands in a timestamp or a level name.\<close>

definition bracket_free :: "wstring \<Rightarrow> bool" where
  "bracket_free s \<longleftrightarrow> WC CHR ''['' \<notin> set s \<and> WC CHR '']'' \<notin> set s"

lemma wide_digit_bracket: "wide_digit c \<Longrightarrow> c \<noteq> WC CHR ''['' \<and> c \<noteq> WC CHR '']''"
  by (auto simp: wide_digit_def IsDigit_def simp del: WC_const of_char_Char)

lemma padded_bracket: "bracket_free (padded k n)"
  using padded_digits [of k n] wide_digit_bracket by (auto simp: bracket_free_def list_all_iff)

lemma bracket_free_append [simp]: "bracket_free (s @ r) \<longleftrightarrow> bracket_free s \<and> bracket_free r"
  by (auto simp: bracket_free_def)

lemma Timestamp_bracket: "bracket_free (Timestamp t)"
  by (simp only: Timestamp_def clock_text_def bracket_free_append padded_bracket) (simp add: bracket_free_def)

lemma LevelName_bracket: "bracket_free (LevelName l)"
  by (cases l) (simp_all add: bracket_free_def)

definition line_of :: "SYSTEMTIME \<Rightarrow> LogLevel \<Rightarrow> wstring \<Rightarrow> wstring" where
  "line_of t level message = WC CHR ''['' # Timestamp t @ W ''] '' @ WC CHR ''['' # LevelName level @ W ''] '' @ message"

lemma log_line_of: "log_line t level message = line_of t level message @ [0x0D, 0x0A]"
  by (simp add: log_line_def line_of_def)

lemma contains_skip:
  "WC CHR ''['' \<notin> set xs \<Longrightarrow> contains (WC CHR ''['' # m) (xs @ r) = contains (WC CHR ''['' # m) r"
  by (induction xs) (auto simp: starts_with_def simp del: of_char_Char)

lemma contains_bracket:
  "contains (WC CHR ''['' # m) (WC CHR ''['' # r) \<longleftrightarrow> starts_with m r \<or> contains (WC CHR ''['' # m) r"
  by (simp add: starts_with_def del: of_char_Char)

text \<open>A mark stands in a line exactly when it is the level or stands in the message.\<close>

lemma contains_line:
  assumes "m \<noteq> []" "\<not> wide_digit (hd m)"
  shows "contains (WC CHR ''['' # m) (line_of t level message) \<longleftrightarrow>
    starts_with m (LevelName level @ W ''] '' @ message) \<or> contains (WC CHR ''['' # m) message"
proof -
  have ts: "Timestamp t \<noteq> []" "wide_digit (hd (Timestamp t))"
  proof -
    have y: "padded 4 (wYear t) \<noteq> []" by (simp add: padded_def)
    then show "Timestamp t \<noteq> []" by (simp add: Timestamp_def)
    have "hd (Timestamp t) = hd (padded 4 (wYear t))" using y by (simp add: Timestamp_def)
    then show "wide_digit (hd (Timestamp t))" using y padded_digits [of 4 "wYear t"] by (simp add: list_all_iff)
  qed
  then have "\<not> starts_with m (Timestamp t @ r)" for r
    using assms by (cases m; cases "Timestamp t") (auto simp: starts_with_def)
  moreover have free: "WC CHR ''['' \<notin> set (Timestamp t @ W ''] '')" "WC CHR ''['' \<notin> set (LevelName level @ W ''] '')"
    using Timestamp_bracket [of t] LevelName_bracket [of level] by (auto simp: bracket_free_def)
  ultimately show ?thesis
    using contains_skip [OF free(1), of m "WC CHR ''['' # LevelName level @ W ''] '' @ message"]
      contains_skip [OF free(2), of m message]
    by (simp add: line_of_def contains_bracket del: of_char_Char contains.simps)
qed

lemma not_digit: "\<not> wide_digit 0x41E" "\<not> wide_digit 0x41F" "\<not> wide_digit 0x45" "\<not> wide_digit 0x57"
proof -
  have digit: "0x30 \<le> c \<and> c \<le> 0x39" if wd: "wide_digit c" for c
  proof -
    obtain d where d: "IsDigit d" "c = WC d" using wd by (auto simp: wide_digit_def)
    then show ?thesis using unat_WC [of d] by (simp add: word_le_nat_alt IsDigit_iff del: of_char_Char)
  qed
  show "\<not> wide_digit 0x41E" "\<not> wide_digit 0x41F" "\<not> wide_digit 0x45" "\<not> wide_digit 0x57"
    using digit [of "0x41E"] digit [of "0x41F"] digit [of "0x45"] digit [of "0x57"] by auto
qed

fun shown_severity :: "LogLevel \<Rightarrow> Severity" where
  "shown_severity LogError = SevError"
| "shown_severity LogWarn = SevWarn"
| "shown_severity l = SevInfo"

lemma line_severity_of:
  assumes "\<not> list_ex (\<lambda>m. contains m message) (error_marks @ warn_marks)"
  shows "line_severity (line_of t level message) = shown_severity level"
proof -
  have c: "contains m (line_of t level message) = starts_with (tl m) (LevelName level @ W ''] '' @ message)"
    if mark: "m \<in> set (error_marks @ warn_marks)" for m
  proof -
    have "m = WC CHR ''['' # tl m \<and> tl m \<noteq> [] \<and> \<not> wide_digit (hd (tl m))"
      using mark not_digit by (auto simp: error_marks_def warn_marks_def)
    moreover have "\<not> contains m message" using assms mark by (auto simp: list_ex_iff)
    ultimately show ?thesis using contains_line by metis
  qed
  have marked: "list_ex (\<lambda>m. contains m (line_of t level message)) ms =
      list_ex (\<lambda>m. starts_with (tl m) (LevelName level @ W ''] '' @ message)) ms"
    if marks: "set ms \<subseteq> set (error_marks @ warn_marks)" for ms
    using c marks by (auto simp: list_ex_iff)
  have eq: "line_severity (line_of t level message) =
      (if list_ex (\<lambda>m. starts_with (tl m) (LevelName level @ W ''] '' @ message)) error_marks then SevError
       else if list_ex (\<lambda>m. starts_with (tl m) (LevelName level @ W ''] '' @ message)) warn_marks then SevWarn else SevInfo)"
    using marked [where ms = error_marks] marked [where ms = warn_marks] by (simp add: line_severity_def)
  show ?thesis unfolding eq by (cases level) (simp_all add: error_marks_def warn_marks_def starts_with_def)
qed

lemma find_from_append:
  assumes "c \<notin> set b"
  shows "find_from c (length a) (a @ b @ c # r) = Some (length a + length b)"
proof -
  have "takeWhile (\<lambda>x. x \<noteq> c) (b @ c # r) = b" using assms by (induction b) auto
  then show ?thesis by (simp add: find_from_def)
qed

lemma ParseLogLine_of:
  assumes "time_ok t"
  shows "ParseLogLine (line_of t level message) =
    \<lparr>log_time = clock_text t, log_level = level_caption (line_severity (line_of t level message)),
     log_text = message, log_sev = line_severity (line_of t level message)\<rparr>"
proof -
  let ?o = "WC CHR ''['' :: wchar" and ?c = "WC CHR '']'' :: wchar"
  let ?w = "line_of t level message" and ?l = "LevelName level"
  have ts: "length (Timestamp t) = 23" "take 8 (drop 11 (Timestamp t)) = clock_text t" "length (clock_text t) = 8"
    using Timestamp_shape [OF assms] .
  have free: "?o \<notin> set (Timestamp t @ W ''] '')" "?c \<notin> set (?o # ?l)"
    using Timestamp_bracket [of t] LevelName_bracket [of level] by (auto simp: bracket_free_def)
  have w1: "?w = [?o] @ (Timestamp t @ W ''] '') @ ?o # (?l @ W ''] '' @ message)" by (simp add: line_of_def)
  have w2: "?w = (?o # Timestamp t @ W ''] '') @ (?o # ?l) @ ?c # (W '' '' @ message)" by (simp add: line_of_def)
  have lb: "find_from ?o 1 ?w = Some 26"
    using find_from_append [OF free(1), of "[?o]"] ts(1) unfolding w1 by simp
  have "length (?o # Timestamp t @ W ''] '') = 26" using ts(1) by simp
  then have rb: "find_from ?c 26 ?w = Some (26 + length (?o # ?l))"
    using find_from_append [OF free(2), of "?o # Timestamp t @ W ''] ''"] unfolding w2 by metis
  let ?front = "(?o # Timestamp t @ W ''] '') @ (?o # ?l) @ [?c, WC CHR '' '']"
  have "?w = ?front @ message" "length ?front = 26 + length (?o # ?l) + 2" using ts(1) by (simp_all add: line_of_def)
  then have "drop (26 + length (?o # ?l) + 2) ?w = message" by (metis append_eq_conv_conj)
  moreover have "take 8 (drop 12 ?w) = clock_text t" using ts by (simp add: line_of_def)
  moreover have "24 < length ?w" "hd ?w = ?o" "26 + length (?o # ?l) + 2 \<le> length ?w"
    using ts(1) by (simp_all add: line_of_def)
  ultimately show ?thesis using lb rb by (simp only: ParseLogLine_def Let_def option.case if_True simp_thms LogLine.simps)
qed


definition sample_time :: SYSTEMTIME where
  "sample_time = \<lparr>wYear = 2025, wMonth = 3, wDay = 9, wHour = 7, wMinute = 5, wSecond = 59, wMilliseconds = 8\<rparr>"


text \<open>A message that quotes a mark is shown with the severity of the mark.\<close>

lemma quoted_mark:
  assumes "contains (W ''[ERROR]'') message"
  shows "line_severity (line_of t LogInfo message) = SevError"
  using assms contains_line [of "W ''ERROR]''" t LogInfo message] not_digit
  by (simp add: line_severity_def error_marks_def)

end
