(* ===== verification/EntryPoint.thy ===== *)
theory EntryPoint
  imports Startup SecureFs LogFile
begin

text \<open>
  The entry point, \<^verbatim>\<open>src/src/main.cpp\<close>: the command line, the refusals before anything is trusted, the
  bootstrap of the protected tree, the log, and the application with its exceptions. It composes the
  models of \<^verbatim>\<open>SecureFs\<close>, \<^verbatim>\<open>Logger\<close> and \<^verbatim>\<open>App\<close>; the texts of messages are left out.
\<close>

section \<open>The command line\<close>

record CliFlags =
  noAnimation :: bool
  flag_reducedMotion :: bool
  flag_asciiOnly :: bool
  flag_debugUi :: bool
  verifyInstall :: bool

definition no_flags :: CliFlags where
  "no_flags = \<lparr>noAnimation = False, flag_reducedMotion = False, flag_asciiOnly = False, flag_debugUi = False,
     verifyInstall = False\<rparr>"

datatype main_event =
    PrintedIdentity | PrintedVersion | PrintedHelp | PrintedVerified
  | ErrorLine               \<comment> \<open>\<^verbatim>\<open>WriteStderr\<close>\<close>
  | ErrorBox                \<comment> \<open>\<^verbatim>\<open>MessageBoxW\<close>\<close>
  | MutexOpened | MutexClosed | LogOpened | LogClosed
  | InterfaceRun | InstallationVerified

text \<open>What ends the program right away: the exit code and what is printed.\<close>

definition early_exit :: "bool \<Rightarrow> wstring \<Rightarrow> (nat \<times> main_event) option" where
  "early_exit e2e_build arg =
     (if arg = W ''--e2e-identity'' then Some (if e2e_build then (0, PrintedIdentity) else (2, ErrorLine))
      else if arg = W ''--version'' \<or> arg = W ''-v'' then Some (0, PrintedVersion)
      else if arg = W ''--help'' \<or> arg = W ''-h'' \<or> arg = W ''/?'' then Some (0, PrintedHelp)
      else None)"

definition set_flag :: "wstring \<Rightarrow> CliFlags \<Rightarrow> CliFlags" where
  "set_flag arg f =
     (if arg = W ''--verify-install'' then f\<lparr>verifyInstall := True\<rparr>
      else if arg = W ''--no-animation'' then f\<lparr>noAnimation := True\<rparr>
      else if arg = W ''--reduced-motion'' then f\<lparr>flag_reducedMotion := True\<rparr>
      else if arg = W ''--ascii-only'' then f\<lparr>flag_asciiOnly := True\<rparr>
      else if arg = W ''--debug-ui'' then f\<lparr>flag_debugUi := True\<rparr>
      else f)"

fun parse_args :: "bool \<Rightarrow> wstring list \<Rightarrow> CliFlags \<Rightarrow> (nat \<times> main_event) + CliFlags" where
  "parse_args e2e [] f = Inr f"
| "parse_args e2e (arg # args) f =
     (case early_exit e2e arg of Some x \<Rightarrow> Inl x | None \<Rightarrow> parse_args e2e args (set_flag arg f))"

text \<open>\<^verbatim>\<open>App::BuildUiOptions\<close>: the settings, overridden by the flags.\<close>

definition BuildUiOptions :: "CliFlags \<Rightarrow> UiSettings \<Rightarrow> UiOptions" where
  "BuildUiOptions f u =
     \<lparr>UiOptions.animations = UiSettings.animations u \<and> \<not> noAnimation f,
      UiOptions.reducedMotion = UiSettings.reducedMotion u \<or> flag_reducedMotion f,
      ui_glitch = glitch u, UiOptions.mascotIdle = UiSettings.mascotIdle u,
      UiOptions.asciiOnly = (unicodeMode u = ''ascii'') \<or> flag_asciiOnly f,
      UiOptions.debugUi = flag_debugUi f,
      UiOptions.speed = (if UiSettings.speed u = ''slow'' then Slow else if UiSettings.speed u = ''fast'' then Fast else NormalSpeed)\<rparr>"

section \<open>The start\<close>

record main_env =
  e2e_build :: bool
  dll_hardened :: bool            \<comment> \<open>\<^verbatim>\<open>SetDefaultDllDirectories\<close>\<close>
  descriptor_built :: bool
  mutex_answer :: "bool option"   \<comment> \<open>a handle, and whether the mutex existed\<close>
  elevated :: bool                \<comment> \<open>\<^verbatim>\<open>PrivilegeManager::IsElevated\<close>\<close>
  main_paths :: RuntimePaths      \<comment> \<open>\<^verbatim>\<open>RuntimePaths(embeddedVersion)\<close>\<close>
  main_os :: win_os
  main_log :: log_env
  startup :: startup_env
  run_interface :: "app \<Rightarrow> boot \<Rightarrow> nat option"   \<comment> \<open>\<^verbatim>\<open>App::Run\<close>: its ec, or an exception\<close>

record main_world =
  main_disk :: win_history
  main_logger :: logger
  main_boot :: boot
  events :: "main_event list"

definition emit :: "main_event list \<Rightarrow> main_world \<Rightarrow> main_world" where
  "emit es w = w\<lparr>events := events w @ es\<rparr>"

text \<open>An error line, and a box unless the installation is only verified.\<close>

definition refuse :: "CliFlags \<Rightarrow> nat \<Rightarrow> main_event list \<Rightarrow> main_world \<Rightarrow> nat \<times> main_world" where
  "refuse f ec cleanup w = (ec, emit (ErrorLine # (if verifyInstall f then [] else [ErrorBox]) @ cleanup) w)"

text \<open>\<^verbatim>\<open>App\<close> is constructed, and runs or verifies; every exception is code 1.\<close>

definition application :: "main_env \<Rightarrow> CliFlags \<Rightarrow> main_world \<Rightarrow> nat \<times> main_world" where
  "application e f w =
     (case StartApp (startup e) (main_boot w) of
        (Inl err, b) \<Rightarrow> refuse f 1 [] (w\<lparr>main_boot := b\<rparr>)
      | (Inr a, b) \<Rightarrow>
          if verifyInstall f then
            (case VerifyInstallation (startup e) a b of
               (True, b1) \<Rightarrow> (0, emit [InstallationVerified, PrintedVerified] (w\<lparr>main_boot := b1\<rparr>))
             | (False, b1) \<Rightarrow> refuse f 1 [] (emit [InstallationVerified] (w\<lparr>main_boot := b1\<rparr>)))
          else
            (case run_interface e a b of
               Some ec \<Rightarrow> (ec, emit [InterfaceRun] (w\<lparr>main_boot := b\<rparr>))
             | None \<Rightarrow> refuse f 1 [] (emit [InterfaceRun] (w\<lparr>main_boot := b\<rparr>))))"

definition with_log :: "main_env \<Rightarrow> CliFlags \<Rightarrow> main_world \<Rightarrow> nat \<times> main_world" where
  "with_log e f w =
     (case Logger_Init (main_log e) LogDebug (main_logger w) of
        (False, g) \<Rightarrow> refuse f 4 [MutexClosed] (w\<lparr>main_logger := g\<rparr>)
      | (True, g) \<Rightarrow>
          (case application e f (emit [LogOpened] (w\<lparr>main_logger := g\<rparr>)) of
             (ec, w1) \<Rightarrow>
               (ec, emit [LogClosed, MutexClosed] (w1\<lparr>main_logger := Shutdown (main_log e) (main_logger w1)\<rparr>))))"

text \<open>A refused bootstrap writes one line more for an installation check.\<close>

definition bootstrapped :: "main_env \<Rightarrow> CliFlags \<Rightarrow> main_world \<Rightarrow> nat \<times> main_world" where
  "bootstrapped e f w =
     (let p = main_paths e in
      if ProgramDataRoot p = [] then refuse f 3 [MutexClosed] w
      else case BootstrapProtectedTree (main_os e) (ProgramDataRoot p) (LogsDir p) (RuntimeRoot p) (UpdatesDir p)
                  (UserDir p) (main_disk w) of
             (Some err, h) \<Rightarrow>
               refuse f 3 [MutexClosed] (emit (if verifyInstall f then [ErrorLine] else []) (w\<lparr>main_disk := h\<rparr>))
           | (None, h) \<Rightarrow> with_log e f (w\<lparr>main_disk := h\<rparr>))"

definition guarded :: "main_env \<Rightarrow> CliFlags \<Rightarrow> main_world \<Rightarrow> nat \<times> main_world" where
  "guarded e f w =
     (if \<not> dll_hardened e then refuse f 6 [] w
      else if \<not> descriptor_built e then refuse f 7 [] w
      else case mutex_answer e of
             None \<Rightarrow> refuse f 5 [] w
           | Some True \<Rightarrow> refuse f 5 [] (emit [MutexOpened, MutexClosed] w)
           | Some False \<Rightarrow>
               let w1 = emit [MutexOpened] w in
               if \<not> elevated e then refuse f 2 [MutexClosed] w1 else bootstrapped e f w1)"

definition wmain :: "main_env \<Rightarrow> wstring list \<Rightarrow> main_world \<Rightarrow> nat \<times> main_world" where
  "wmain e args w =
     (case parse_args (e2e_build e) args no_flags of
        Inl (ec, printed) \<Rightarrow> (ec, emit [printed] w)
      | Inr f \<Rightarrow> guarded e f w)"

section \<open>The chunks of \<^verbatim>\<open>WriteWide\<close>\<close>

text \<open>Requests of at most 32768 units; a failed call or one that writes nothing ends the loop.\<close>

function write_wide :: "(nat \<Rightarrow> nat option) \<Rightarrow> nat \<Rightarrow> 'c list \<Rightarrow> 'c list" where
  "write_wide answers n s =
     (if s = [] then []
      else case answers n of
             None \<Rightarrow> []
           | Some accepted \<Rightarrow>
               let k = min accepted (min (length s) 32768) in
               if k = 0 then [] else take k s @ write_wide answers (n + 1) (drop k s))"
  by pat_completeness auto
termination
  by (relation "measure (\<lambda>(answers, n, s). length s)") auto

declare write_wide.simps [simp del]

lemma write_wide_prefix: "prefix (write_wide answers n s) s"
proof (induction answers n s rule: write_wide.induct)
  case (1 answers n s)
  show ?case
  proof (cases "s = [] \<or> answers n = None")
    case True
    then show ?thesis by (subst write_wide.simps) auto
  next
    case False
    then obtain accepted where a: "s \<noteq> []" "answers n = Some accepted" by auto
    let ?k = "min accepted (min (length s) 32768)"
    show ?thesis
    proof (cases "?k = 0")
      case True
      then show ?thesis using a by (subst write_wide.simps) (simp add: Let_def)
    next
      case nz: False
      have "prefix (write_wide answers (n + 1) (drop ?k s)) (drop ?k s)" using "1.IH" [OF a refl nz] .
      moreover have "write_wide answers n s = take ?k s @ write_wide answers (n + 1) (drop ?k s)"
        using a nz by (subst write_wide.simps) (simp add: Let_def)
      ultimately show ?thesis by (metis append_take_drop_id same_prefix_prefix)
    qed
  qed
qed

section \<open>What the start guarantees\<close>

definition started_app :: "main_event list \<Rightarrow> bool" where
  "started_app es \<longleftrightarrow> InterfaceRun \<in> set es \<or> InstallationVerified \<in> set es"

definition balanced :: "main_event list \<Rightarrow> bool" where
  "balanced es \<longleftrightarrow>
     count_list es MutexOpened = count_list es MutexClosed \<and> count_list es MutexOpened \<le> 1 \<and>
     count_list es LogOpened = count_list es LogClosed \<and> count_list es LogOpened \<le> 1"

definition guards_hold :: "main_env \<Rightarrow> main_world \<Rightarrow> bool" where
  "guards_hold e w \<longleftrightarrow>
     dll_hardened e \<and> descriptor_built e \<and> mutex_answer e = Some False \<and> elevated e \<and>
     (let p = main_paths e in
      ProgramDataRoot p \<noteq> [] \<and>
      fst (BootstrapProtectedTree (main_os e) (ProgramDataRoot p) (LogsDir p) (RuntimeRoot p) (UpdatesDir p)
             (UserDir p) (main_disk w)) = None) \<and>
     fst (Logger_Init (main_log e) LogDebug (main_logger w))"

lemma events_emit [simp]: "events (emit es w) = events w @ es" "main_disk (emit es w) = main_disk w"
  "main_logger (emit es w) = main_logger w"
  by (simp_all add: emit_def)

lemma refuse_run: "refuse f ec cleanup w = (c, w') \<Longrightarrow>
    c = ec \<and> events w' = events w @ ErrorLine # (if verifyInstall f then [] else [ErrorBox]) @ cleanup"
  by (auto simp: refuse_def)

lemma application_run:
  "application e f w = (c, w') \<Longrightarrow> \<exists>es. events w' = events w @ es \<and>
     set es \<subseteq> {ErrorLine, PrintedVerified} \<union> (if verifyInstall f then {InstallationVerified} else {InterfaceRun, ErrorBox}) \<and>
     (PrintedVerified \<in> set es \<longleftrightarrow> verifyInstall f \<and> c = 0)"
  by (auto simp: application_def dest!: refuse_run split: prod.splits sum.splits bool.splits option.splits if_splits)

text \<open>What a part of the start that runs under the mutex adds.\<close>

definition under_mutex :: "CliFlags \<Rightarrow> bool \<Rightarrow> nat \<Rightarrow> main_event list \<Rightarrow> bool" where
  "under_mutex f ok c es \<longleftrightarrow>
     count_list es MutexOpened = 0 \<and> count_list es MutexClosed = 1 \<and>
     count_list es LogOpened = count_list es LogClosed \<and> count_list es LogOpened \<le> 1 \<and>
     (if started_app es then ok else c \<noteq> 0) \<and>
     (if verifyInstall f then ErrorBox \<notin> set es \<and> InterfaceRun \<notin> set es \<and> (PrintedVerified \<in> set es \<longleftrightarrow> c = 0)
      else True)"

lemma application_counts:
  assumes "application e f w = (c, w')"
  obtains es where "events w' = events w @ es" "\<forall>ev\<in>{MutexOpened, MutexClosed, LogOpened, LogClosed}. count_list es ev = 0"
    "started_app es \<or> c \<noteq> 0"
    "verifyInstall f \<Longrightarrow> ErrorBox \<notin> set es \<and> InterfaceRun \<notin> set es \<and> (PrintedVerified \<in> set es \<longleftrightarrow> c = 0)"
proof -
  obtain es where es: "events w' = events w @ es"
      "set es \<subseteq> {ErrorLine, PrintedVerified} \<union> (if verifyInstall f then {InstallationVerified} else {InterfaceRun, ErrorBox})"
      "PrintedVerified \<in> set es \<longleftrightarrow> verifyInstall f \<and> c = 0"
    using application_run [OF assms] by blast
  have "started_app es \<or> c \<noteq> 0"
    using assms es(1)
    by (auto simp: application_def started_app_def refuse_def
        split: prod.splits sum.splits bool.splits option.splits if_splits)
  moreover have "\<forall>ev\<in>{MutexOpened, MutexClosed, LogOpened, LogClosed}. count_list es ev = 0"
    using es(2) by (auto simp: count_list_0_iff split: if_splits)
  moreover have "ErrorBox \<notin> set es \<and> InterfaceRun \<notin> set es \<and> (PrintedVerified \<in> set es \<longleftrightarrow> c = 0)"
    if verify: "verifyInstall f" using es(2, 3) verify by auto
  ultimately show thesis using that [OF es(1)] by blast
qed

lemma refuse_under_mutex:
  assumes "refuse f k [MutexClosed] w = (c, w')" "k \<noteq> 0"
  shows "\<exists>es. events w' = events w @ es \<and> under_mutex f ok c es"
  using refuse_run [OF assms(1)] assms(2)
  by (intro exI [of _ "ErrorLine # (if verifyInstall f then [] else [ErrorBox]) @ [MutexClosed]"])
    (auto simp: under_mutex_def started_app_def)

lemma with_log_run:
  assumes "with_log e f w = (c, w')"
  shows "\<exists>es. events w' = events w @ es \<and>
    under_mutex f (fst (Logger_Init (main_log e) LogDebug (main_logger w))) c es"
proof (cases "Logger_Init (main_log e) LogDebug (main_logger w)")
  case (Pair ok g)
  show ?thesis
  proof (cases ok)
    case False
    then have "refuse f 4 [MutexClosed] (w\<lparr>main_logger := g\<rparr>) = (c, w')" using assms Pair by (simp add: with_log_def)
    from refuse_under_mutex [OF this] show ?thesis by simp
  next
    case True
    obtain c1 w1 where a: "application e f (emit [LogOpened] (w\<lparr>main_logger := g\<rparr>)) = (c1, w1)" by fastforce
    then have r: "c = c1" "events w' = events w1 @ [LogClosed, MutexClosed]"
      using assms Pair True by (auto simp: with_log_def)
    obtain es where es: "events w1 = events (emit [LogOpened] (w\<lparr>main_logger := g\<rparr>)) @ es"
        "\<forall>ev\<in>{MutexOpened, MutexClosed, LogOpened, LogClosed}. count_list es ev = 0" "started_app es \<or> c \<noteq> 0"
        "verifyInstall f \<Longrightarrow> ErrorBox \<notin> set es \<and> InterfaceRun \<notin> set es \<and> (PrintedVerified \<in> set es \<longleftrightarrow> c = 0)"
      using application_counts [OF a] r(1) by metis
    have "events w' = events w @ LogOpened # es @ [LogClosed, MutexClosed]" using r(2) es(1) by simp
    moreover have "under_mutex f ok c (LogOpened # es @ [LogClosed, MutexClosed])"
      using es True by (auto simp: under_mutex_def started_app_def)
    ultimately show ?thesis using Pair by auto
  qed
qed

lemma bootstrapped_run:
  assumes "bootstrapped e f w = (c, w')" "dll_hardened e" "descriptor_built e" "mutex_answer e = Some False" "elevated e"
  shows "\<exists>es. events w' = events w @ es \<and> under_mutex f (guards_hold e w) c es"
proof -
  let ?p = "main_paths e"
  obtain r h where b: "BootstrapProtectedTree (main_os e) (ProgramDataRoot ?p) (LogsDir ?p) (RuntimeRoot ?p)
      (UpdatesDir ?p) (UserDir ?p) (main_disk w) = (r, h)" by fastforce
  consider (empty) "ProgramDataRoot ?p = []" | (refused) err where "ProgramDataRoot ?p \<noteq> []" "r = Some err"
    | (ready) "ProgramDataRoot ?p \<noteq> []" "r = None" by (cases r) auto
  then show ?thesis
  proof cases
    case empty
    then have "refuse f 3 [MutexClosed] w = (c, w')" using assms(1) by (simp add: bootstrapped_def)
    from refuse_under_mutex [OF this] show ?thesis by simp
  next
    case refused
    then have "refuse f 3 [MutexClosed] (emit (if verifyInstall f then [ErrorLine] else []) (w\<lparr>main_disk := h\<rparr>)) = (c, w')"
      using assms(1) b by (simp add: bootstrapped_def Let_def)
    from refuse_run [OF this] show ?thesis
      by (intro exI [of _ "(if verifyInstall f then [ErrorLine] else []) @ ErrorLine # (if verifyInstall f then [] else [ErrorBox]) @ [MutexClosed]"])
        (auto simp: under_mutex_def started_app_def)
  next
    case ready
    then have "with_log e f (w\<lparr>main_disk := h\<rparr>) = (c, w')" using assms(1) b by (simp add: bootstrapped_def Let_def)
    from with_log_run [OF this] have "\<exists>es. events w' = events w @ es \<and>
        under_mutex f (fst (Logger_Init (main_log e) LogDebug (main_logger w))) c es" by simp
    moreover have "guards_hold e w = fst (Logger_Init (main_log e) LogDebug (main_logger w))"
      using ready b assms(2-5) by (simp add: guards_hold_def Let_def)
    ultimately show ?thesis by simp
  qed
qed

definition early :: "main_event list \<Rightarrow> bool" where
  "early es \<longleftrightarrow> es \<in> {[PrintedVersion], [PrintedHelp], [PrintedIdentity]}"

definition start_ok :: "main_env \<Rightarrow> wstring list \<Rightarrow> main_world \<Rightarrow> nat \<Rightarrow> main_event list \<Rightarrow> bool" where
  "start_ok e args w c es \<longleftrightarrow>
     balanced es \<and>
     (if started_app es then guards_hold e w else if c = 0 then early es else True) \<and>
     (case parse_args (e2e_build e) args no_flags of
        Inl (k, printed) \<Rightarrow> c = k \<and> es = [printed]
      | Inr f \<Rightarrow> if verifyInstall f
                 then ErrorBox \<notin> set es \<and> InterfaceRun \<notin> set es \<and> (PrintedVerified \<in> set es \<longleftrightarrow> c = 0) else True)"

lemma early_printed: "parse_args e2e args f = Inl (k, printed) \<Longrightarrow>
    balanced [printed] \<and> \<not> started_app [printed] \<and> (k = 0 \<longrightarrow> early [printed])"
  by (induction args arbitrary: f)
    (auto simp: early_exit_def balanced_def started_app_def early_def split: option.splits if_splits)


end
