(* ===== verification/DiagnosticsBundle.thy ===== *)
theory DiagnosticsBundle
  imports Redaction LogFile Config ResourceExtractor ZipArchive
begin

text \<open>
  The bundle of the diagnostics export, \<^verbatim>\<open>BuildBundle\<close> of \<^verbatim>\<open>src/src/app/Diagnostics.cpp\<close>: the three files and
  their texts. What the machine answers (versions, the verdict on the signature, the generated constants) is a
  record; \<^verbatim>\<open>ToUtf8\<close> and \<^verbatim>\<open>ToUtf16\<close> are parameters. The summary is written by appending text; that it is JSON and
  says what was collected is proved against the model of \<^verbatim>\<open>util/Json\<close>. The preview for the user is left out.
\<close>

section \<open>Texts\<close>

definition UtcTimestamp :: "SYSTEMTIME \<Rightarrow> wstring" where
  "UtcTimestamp t =
     padded 4 (wYear t) @ W ''-'' @ padded 2 (wMonth t) @ W ''-'' @ padded 2 (wDay t) @ W ''T'' @ clock_text t @ W ''Z''"

definition LocalTimestamp :: "SYSTEMTIME \<Rightarrow> wstring" where
  "LocalTimestamp t =
     padded 4 (wYear t) @ padded 2 (wMonth t) @ padded 2 (wDay t) @ W ''-'' @
     padded 2 (wHour t) @ padded 2 (wMinute t) @ padded 2 (wSecond t)"

definition SuggestedFileName :: "SYSTEMTIME \<Rightarrow> wstring" where
  "SuggestedFileName t = W ''CHEBURNET-diagnostics-'' @ LocalTimestamp t @ W ''.zip''"

definition ProcessArchitecture :: "nat \<Rightarrow> wstring" where
  "ProcessArchitecture a =
     (if a = 9 then W ''x64'' else if a = 12 then W ''arm64'' else if a = 0 then W ''x86''
      else [0x43D, 0x435, 0x438, 0x437, 0x432, 0x435, 0x441, 0x442, 0x43D, 0x43E])"

definition WindowsBuild :: "(nat \<times> nat \<times> nat) option \<Rightarrow> wstring" where
  "WindowsBuild version_info =
     (case version_info of
        Some (major, minor, build) \<Rightarrow> W (to_string major) @ W ''.'' @ W (to_string minor) @ W ''.'' @ W (to_string build)
      | None \<Rightarrow> [0x43D, 0x435, 0x438, 0x437, 0x432, 0x435, 0x441, 0x442, 0x43D, 0x43E])"

text \<open>The verdict of \<^verbatim>\<open>WinVerifyTrust\<close>, by its status.\<close>

definition LauncherSignatureState :: "wstring \<Rightarrow> 32 word \<Rightarrow> wstring" where
  "LauncherSignatureState path status =
     (if path = [] then [0x43D, 0x435, 0x20, 0x43E, 0x43F, 0x440, 0x435, 0x434, 0x435, 0x43B, 0x435, 0x43D, 0x43E]
      else if status = 0 then [0x434, 0x435, 0x439, 0x441, 0x442, 0x432, 0x438, 0x442, 0x435, 0x43B, 0x44C, 0x43D, 0x430]
      else if status = 0x800B0100 then [0x43D, 0x435, 0x20, 0x43F, 0x43E, 0x434, 0x43F, 0x438, 0x441, 0x430, 0x43D]
      else if status = 0x80096010 then [0x43D, 0x430, 0x440, 0x443, 0x448, 0x435, 0x43D, 0x430, 0x20, 0x28, 0x444, 0x430, 0x439, 0x43B, 0x20, 0x438, 0x437, 0x43C, 0x435, 0x43D, 0x451, 0x43D, 0x29]
      else if status = 0x800B0109 \<or> status = 0x800B010A then [0x446, 0x435, 0x43F, 0x43E, 0x447, 0x43A, 0x430, 0x20, 0x43D, 0x435, 0x20, 0x434, 0x43E, 0x432, 0x435, 0x440, 0x435, 0x43D, 0x430]
      else if status = 0x800B0101 then [0x441, 0x435, 0x440, 0x442, 0x438, 0x444, 0x438, 0x43A, 0x430, 0x442, 0x20, 0x438, 0x441, 0x442, 0x451, 0x43A]
      else [0x43E, 0x442, 0x43A, 0x43B, 0x43E, 0x43D, 0x435, 0x43D, 0x430])"

section \<open>The summary\<close>

record bundle_facts =
  utc_now :: SYSTEMTIME
  semantic_version :: wstring
  pe_version :: wstring
  release_channel :: wstring
  authenticode :: wstring
  provider :: wstring
  embedded_version :: wstring
  release_url :: wstring
  imported_at :: wstring
  archive_sha256 :: wstring
  upstream_commit :: wstring
  windows_build :: wstring
  architecture :: wstring

record collected =
  runtime_state :: StateResult
  selected_runtime :: wstring               \<comment> \<open>\<^verbatim>\<open>paths.RuntimeVersion()\<close>\<close>
  integrity_ok :: bool
  integrity_error :: wstring
  catalog_size :: nat
  active_files :: "RuntimeFile list"
  log_tail :: string
  settings :: Config
  max_log :: nat

record conversions =
  to8 :: "wstring \<Rightarrow> string"
  to16 :: "string \<Rightarrow> wstring"
  ipv6 :: "wstring \<Rightarrow> bool"                    \<comment> \<open>\<^verbatim>\<open>InetPtonW\<close>\<close>

definition QuoteW :: "conversions \<Rightarrow> wstring \<Rightarrow> string" where
  "QuoteW k s = Quote (to8 k s)"

definition AppendField :: "conversions \<Rightarrow> string \<Rightarrow> wstring \<Rightarrow> bool \<Rightarrow> string" where
  "AppendField k key s is_last =
     ''    '' @ Quote key @ '': '' @ QuoteW k s @ (if is_last then nl else '','' @ nl)"

definition currentRuntime :: "conversions \<Rightarrow> collected \<Rightarrow> wstring" where
  "currentRuntime k c = (case runtime_state c of StateOk s \<Rightarrow> to16 k (current s) | _ \<Rightarrow> selected_runtime c)"

definition of_state :: "conversions \<Rightarrow> collected \<Rightarrow> (StoredRuntimeState \<Rightarrow> string) \<Rightarrow> wstring \<Rightarrow> wstring" where
  "of_state k c f otherwise = (case runtime_state c of StateOk s \<Rightarrow> to16 k (f s) | _ \<Rightarrow> otherwise)"

definition integrity_text :: "conversions \<Rightarrow> RedactionContext \<Rightarrow> collected \<Rightarrow> wstring" where
  "integrity_text k ctx c =
     (if integrity_ok c then [0x43F, 0x440, 0x43E, 0x432, 0x435, 0x440, 0x435, 0x43D, 0x430]
      else [0x43D, 0x430, 0x440, 0x443, 0x448, 0x435, 0x43D, 0x430, 0x3A, 0x20] @ Redact (ipv6 k) (integrity_error c) ctx)"

definition binary_line :: "conversions \<Rightarrow> RuntimeFile \<Rightarrow> string" where
  "binary_line k f =
     ''    '' @ [CHR 0x7B] @ Quote ''name'' @ '': '' @ QuoteW k (runtime_path f) @ '', '' @
     Quote ''expected_sha256'' @ '': '' @ Quote (runtime_sha f) @ '', '' @
     Quote ''bytes'' @ '': '' @ to_string (runtime_size f) @ [CHR 0x7D]"

fun binary_lines :: "conversions \<Rightarrow> bool \<Rightarrow> RuntimeFile list \<Rightarrow> string" where
  "binary_lines k firstBinary [] = []"
| "binary_lines k firstBinary (f # fs) =
     (if firstBinary then [] else '','' @ nl) @ binary_line k f @ binary_lines k False fs"

definition launcher_fields :: "bundle_facts \<Rightarrow> (string \<times> wstring) list" where
  "launcher_fields b =
     [(''semantic_version'', semantic_version b), (''pe_version'', pe_version b),
      (''release_channel'', release_channel b), (''authenticode'', authenticode b)]"

definition payload_fields :: "bundle_facts \<Rightarrow> (string \<times> wstring) list" where
  "payload_fields b =
     [(''provider'', provider b), (''embedded_version'', embedded_version b), (''release_url'', release_url b),
      (''imported_at_utc'', imported_at b), (''archive_sha256'', archive_sha256 b),
      (''upstream_commit'', upstream_commit b)]"

definition runtime_fields :: "conversions \<Rightarrow> RedactionContext \<Rightarrow> collected \<Rightarrow> (string \<times> wstring) list" where
  "runtime_fields k ctx c =
     [(''current'', currentRuntime k c), (''previous_known_good'', of_state k c previousKnownGood []),
      (''pending'', of_state k c pending []),
      (''last_result'', of_state k c lastResult [0x441, 0x43E, 0x441, 0x442, 0x43E, 0x44F, 0x43D, 0x438, 0x435, 0x20, 0x43D, 0x435, 0x434, 0x43E, 0x441, 0x442, 0x443, 0x43F, 0x43D, 0x43E]),
      (''integrity'', integrity_text k ctx c), (''strategies_available'', W (to_string (catalog_size c)))]"

definition settings_fields :: "conversions \<Rightarrow> Config \<Rightarrow> (string \<times> wstring) list" where
  "settings_fields k s =
     [(''strategy_id'', to16 k (strategyId s)), (''game_filter'', to16 k (GameFilterModeName (gameFilter s))),
      (''update_mode'', to16 k (UpdateModeName (mode (update_settings s)))),
      (''update_channel'', to16 k (channel (update_settings s))),
      (''check_on_start'', if checkOnStart (update_settings s) then W ''true'' else W ''false'')]"

definition system_fields :: "bundle_facts \<Rightarrow> (string \<times> wstring) list" where
  "system_fields b = [(''windows_build'', windows_build b), (''architecture'', architecture b)]"

text \<open>The calls of \<^verbatim>\<open>AppendField\<close> of one section, the last one without a comma.\<close>

fun append_fields :: "conversions \<Rightarrow> (string \<times> wstring) list \<Rightarrow> string" where
  "append_fields k [] = []"
| "append_fields k ((key, s) # fs) = AppendField k key s (fs = []) @ append_fields k fs"

definition append_section :: "conversions \<Rightarrow> string \<Rightarrow> (string \<times> wstring) list \<Rightarrow> string" where
  "append_section k name fs = key_text ''  '' name @ [CHR 0x7B] @ nl @ append_fields k fs @ ''  '' @ [CHR 0x7D] @ '','' @ nl"

definition summary_text :: "conversions \<Rightarrow> RedactionContext \<Rightarrow> bundle_facts \<Rightarrow> collected \<Rightarrow> string" where
  "summary_text k ctx b c =
     CHR 0x7B # nl @ key_text ''  '' ''schema'' @ ''1'' @ '','' @ nl @
     key_text ''  '' ''generated_at'' @ QuoteW k (UtcTimestamp (utc_now b)) @ '','' @ nl @
     append_section k ''launcher'' (launcher_fields b) @
     append_section k ''payload'' (payload_fields b) @
     append_section k ''runtime'' (runtime_fields k ctx c) @
     append_section k ''settings'' (settings_fields k (settings c)) @
     append_section k ''system'' (system_fields b) @
     key_text ''  '' ''binaries'' @ [CHR 0x5B] @ nl @ binary_lines k True (active_files c) @
     nl @ ''  '' @ [CHR 0x5D] @ nl @ [CHR 0x7D] @ nl"

section \<open>The bundle\<close>

definition manifest_text :: "nat \<Rightarrow> string" where
  "manifest_text maxLogBytes =
     CHR 0x7B # nl @ key_text ''  '' ''schema'' @ ''1'' @ '','' @ nl @
     key_text ''  '' ''product'' @ Quote ''CHEBURNET'' @ '','' @ nl @
     key_text ''  '' ''purpose'' @ Quote ''local support bundle; never uploaded automatically'' @ '','' @ nl @
     key_text ''  '' ''contents'' @ [CHR 0x5B] @ nl @
     key_text ''    {'' ''file'' @ dq @ ''summary.json'' @ dq @ key_text '', '' ''describes'' @ dq @
       ''launcher/payload/runtime/settings/system state and expected hashes of CHEBURNET-owned files'' @ dq @
       [CHR 0x7D] @ '','' @ nl @
     key_text ''    {'' ''file'' @ dq @ ''application.log'' @ dq @ key_text '', '' ''describes'' @ dq @
       ''redacted tail of cheburnet.log, bounded to '' @ to_string maxLogBytes @ '' bytes'' @ dq @ [CHR 0x7D] @ '','' @ nl @
     key_text ''    {'' ''file'' @ dq @ ''manifest.json'' @ dq @ key_text '', '' ''describes'' @ dq @
       ''this description'' @ dq @ [CHR 0x7D] @ nl @
     ''  '' @ [CHR 0x5D] @ '','' @ nl @
     key_text ''  '' ''redacted'' @ [CHR 0x5B] @
       dq @ ''user name'' @ dq @ '', '' @ dq @ ''computer name'' @ dq @ '', '' @ dq @ ''user profile paths'' @ dq @ '', '' @
       dq @ ''any path under '' @ [CHR 0x5C, CHR 0x5C] @ ''Users'' @ [CHR 0x5C, CHR 0x5C] @ dq @ '', '' @
       dq @ ''IPv4 and IPv6 literals'' @ dq @ '', '' @ dq @ ''token-like strings'' @ dq @ [CHR 0x5D] @ '','' @ nl @
     key_text ''  '' ''never_collected'' @ [CHR 0x5B] @
       dq @ ''environment variables'' @ dq @ '', '' @ dq @ ''proxy credentials'' @ dq @ '', '' @
       dq @ ''browser data'' @ dq @ '', '' @ dq @ ''cookies'' @ dq @ '', '' @ dq @ ''packet captures'' @ dq @ '', '' @
       dq @ ''user list files'' @ dq @ '', '' @ dq @ ''machine identifiers'' @ dq @ '', '' @
       dq @ ''certificate subject of the signer'' @ dq @ [CHR 0x5D] @ nl @
     [CHR 0x7D] @ nl"

definition redactedLog :: "conversions \<Rightarrow> RedactionContext \<Rightarrow> collected \<Rightarrow> wstring" where
  "redactedLog k ctx c = Redact (ipv6 k) (to16 k (log_tail c)) ctx"

definition BuildBundle :: "conversions \<Rightarrow> RedactionContext \<Rightarrow> bundle_facts \<Rightarrow> collected \<Rightarrow> BundleEntry list" where
  "BuildBundle k ctx b c =
     [\<lparr>bundle_name = ''manifest.json'', bundle_content = manifest_text (max_log c)\<rparr>,
      \<lparr>bundle_name = ''summary.json'', bundle_content = summary_text k ctx b c\<rparr>,
      \<lparr>bundle_name = ''application.log'', bundle_content = to8 k (redactedLog k ctx c)\<rparr>]"

section \<open>The summary is JSON\<close>

text \<open>The value the summary spells.\<close>

definition section_value :: "conversions \<Rightarrow> (string \<times> wstring) list \<Rightarrow> jvalue" where
  "section_value k fs = JObject (map (\<lambda>(key, s). (key, JString (to8 k s))) fs)"

definition binary_value :: "conversions \<Rightarrow> RuntimeFile \<Rightarrow> jvalue" where
  "binary_value k f =
     JObject [(''name'', JString (to8 k (runtime_path f))), (''expected_sha256'', JString (runtime_sha f)),
              (''bytes'', JNumber (to_string (runtime_size f)))]"

definition summary_value :: "conversions \<Rightarrow> RedactionContext \<Rightarrow> bundle_facts \<Rightarrow> collected \<Rightarrow> jvalue" where
  "summary_value k ctx b c =
     JObject
       [(''schema'', JNumber ''1''), (''generated_at'', JString (to8 k (UtcTimestamp (utc_now b)))),
        (''launcher'', section_value k (launcher_fields b)), (''payload'', section_value k (payload_fields b)),
        (''runtime'', section_value k (runtime_fields k ctx c)),
        (''settings'', section_value k (settings_fields k (settings c))),
        (''system'', section_value k (system_fields b)),
        (''binaries'', JArray (map (binary_value k) (active_files c)))]"

lemma quote_char_plain: "plain_char c \<Longrightarrow> quote_char c = [c]"
  by (auto simp: plain_char_def quote_char_def code_def)

lemma Quote_plain: "list_all plain_char s \<Longrightarrow> Quote s = dq @ s @ dq"
  unfolding Quote_def by (induction s) (simp_all add: quote_char_plain)

lemma number_to_string: "jtext (to_string n) (JNumber (to_string n))"
proof (rule t_number)
  have "to_string n = [] @ to_string n @ [] @ []" by simp
  then show "number_text (to_string n)"
    unfolding number_text_def using canonical_to_string [of n]
    by (metis (no_types) exp_text_def frac_text_def insertCI)
qed

lemma append_fields_text:
  assumes "\<And>s. utf8_text (to8 k s)" "fs \<noteq> []" "list_all (list_all plain_char \<circ> fst) fs"
  shows "\<exists>t. append_fields k fs = key_text ''    '' (fst (hd fs)) @ t \<and>
    jmembers (key_text [] (fst (hd fs)) @ t @ ''  '') (map (\<lambda>(key, s). (key, JString (to8 k s))) fs)"
  using assms(2,3)
proof (induction fs rule: induct_list012)
  case (2 x)
  obtain key s where x: "x = (key, s)" by fastforce
  have "jtext (QuoteW k s) (JString (to8 k s))" unfolding QuoteW_def by (rule jtext_Quote [OF assms(1)])
  from member_last_line [OF _ this, of key "nl @ ''  ''"] show ?case using 2 x
    by (intro exI [of _ "QuoteW k s @ nl"]) (simp add: AppendField_def Quote_plain key_text_def)
next
  case (3 x y ys)
  obtain key s where x: "x = (key, s)" by fastforce
  obtain t where t: "append_fields k (y # ys) = key_text ''    '' (fst y) @ t"
      "jmembers (key_text [] (fst y) @ t @ ''  '') (map (\<lambda>(key, s). (key, JString (to8 k s))) (y # ys))"
    using 3 by auto
  have "jtext (QuoteW k s) (JString (to8 k s))" unfolding QuoteW_def by (rule jtext_Quote [OF assms(1)])
  from member_line [OF _ this _ t(2), of key "''    ''"] show ?case using 3 x t(1)
    by (intro exI [of _ "QuoteW k s @ '','' @ nl @ key_text ''    '' (fst y) @ t"])
      (simp add: AppendField_def Quote_plain key_text_def)
qed simp

lemma section_text:
  assumes "\<And>s. utf8_text (to8 k s)" "fs \<noteq> []" "list_all (list_all plain_char \<circ> fst) fs" "distinct (map fst fs)"
  shows "jtext (CHR 0x7B # nl @ append_fields k fs @ ''  '' @ [CHR 0x7D]) (section_value k fs)"
proof -
  obtain t where t: "append_fields k fs = key_text ''    '' (fst (hd fs)) @ t"
      "jmembers (key_text [] (fst (hd fs)) @ t @ ''  '') (map (\<lambda>(key, s). (key, JString (to8 k s))) fs)"
    using append_fields_text [OF assms(1-3)] by auto
  have "distinct (map fst (map (\<lambda>(key, s). (key, JString (to8 k s))) fs))"
    using assms(4) by (simp add: comp_def case_prod_beta)
  from object_text [OF _ t(2) this, of "''    ''"] show ?thesis by (simp add: t(1) section_value_def)
qed

lemma inline_member:
  "list_all plain_char key \<Longrightarrow> jtext a v \<Longrightarrow> jmembers (key_text [] key' @ m) ms \<Longrightarrow>
     jmembers (key_text [] key @ a @ '', '' @ key_text [] key' @ m) ((key, v) # ms)"
  using member_more [of key a v "'' ''" "key_text [] key' @ m" ms] by (simp add: key_text_def is_json_ws_def)

lemma binary_text:
  assumes "\<And>s. utf8_text (to8 k s)" "utf8_text (runtime_sha f)"
  shows "\<exists>a. binary_line k f = ''    '' @ a \<and> jtext a (binary_value k f)"
proof -
  let ?m = "QuoteW k (runtime_path f) @ '', '' @ key_text [] ''expected_sha256'' @ Quote (runtime_sha f) @ '', '' @
    key_text [] ''bytes'' @ to_string (runtime_size f) @ []"
  have "jmembers (key_text [] ''name'' @ ?m)
      [(''name'', JString (to8 k (runtime_path f))), (''expected_sha256'', JString (runtime_sha f)),
       (''bytes'', JNumber (to_string (runtime_size f)))]"
    unfolding QuoteW_def using assms
    by (intro inline_member member_last_line jtext_Quote number_to_string) (simp_all add: plain_char_def code_def)
  from t_object [OF _ this, of "[]"] have t: "jtext (CHR 0x7B # key_text [] ''name'' @ ?m @ [CHR 0x7D]) (binary_value k f)"
    by (simp add: binary_value_def)
  have "list_all plain_char ''name''" "list_all plain_char ''expected_sha256''" "list_all plain_char ''bytes''"
    by (simp_all add: plain_char_def code_def)
  then have "binary_line k f = ''    '' @ (CHR 0x7B # key_text [] ''name'' @ ?m @ [CHR 0x7D])"
    by (simp add: binary_line_def key_text_def Quote_plain)
  then show ?thesis using t by blast
qed

lemma binary_lines_text:
  assumes "\<And>s. utf8_text (to8 k s)" "fs \<noteq> []" "list_all (\<lambda>f. utf8_text (runtime_sha f)) fs"
  shows "\<exists>e. binary_lines k first fs = (if first then [] else '','' @ nl) @ ''    '' @ e \<and>
    jelements (e @ nl @ ''  '') (map (binary_value k) fs)"
  using assms(2,3)
proof (induction fs arbitrary: first rule: induct_list012)
  case (2 f)
  obtain a where a: "binary_line k f = ''    '' @ a" "jtext a (binary_value k f)"
    using binary_text [OF assms(1), of f] 2 by auto
  then show ?case using e_last [OF a(2), of "nl @ ''  ''"] by (intro exI [of _ a]) (simp add: is_json_ws_def)
next
  case (3 f g gs)
  obtain a where a: "binary_line k f = ''    '' @ a" "jtext a (binary_value k f)"
    using binary_text [OF assms(1), of f] 3(4) by auto
  obtain e where e: "binary_lines k False (g # gs) = ('','' @ nl) @ ''    '' @ e"
      "jelements (e @ nl @ ''  '') (map (binary_value k) (g # gs))"
    using 3(2) [of False] 3(4) by auto
  have "jelements (a @ [] @ CHR '','' # (nl @ ''    '') @ e @ nl @ ''  '') (binary_value k f # map (binary_value k) (g # gs))"
    by (rule e_more [OF a(2) _ _ e(2)]) (simp_all add: is_json_ws_def)
  then show ?case using a(1) e(1) by (intro exI [of _ "a @ ('','' @ nl) @ ''    '' @ e"]) simp
qed simp

lemma binaries_text:
  assumes "\<And>s. utf8_text (to8 k s)" "list_all (\<lambda>f. utf8_text (runtime_sha f)) fs"
  shows "jtext (CHR 0x5B # nl @ binary_lines k True fs @ nl @ ''  '' @ [CHR 0x5D]) (JArray (map (binary_value k) fs))"
proof (cases "fs = []")
  case True
  then show ?thesis using t_empty_array [of "nl @ nl @ ''  ''"] by (simp add: is_json_ws_def)
next
  case False
  obtain e where e: "binary_lines k True fs = ''    '' @ e" "jelements (e @ nl @ ''  '') (map (binary_value k) fs)"
    using binary_lines_text [OF assms(1) False assms(2), of True] by auto
  from t_array [OF _ e(2), of "nl @ ''    ''"] show ?thesis by (simp add: e(1) is_json_ws_def)
qed

lemmas field_lists = launcher_fields_def payload_fields_def runtime_fields_def settings_fields_def system_fields_def

lemma field_names:
  "list_all (list_all plain_char \<circ> fst) (launcher_fields b)" "list_all (list_all plain_char \<circ> fst) (payload_fields b)"
  "list_all (list_all plain_char \<circ> fst) (runtime_fields k ctx c)" "list_all (list_all plain_char \<circ> fst) (settings_fields k s)"
  "list_all (list_all plain_char \<circ> fst) (system_fields b)"
  by (simp_all add: field_lists plain_char_def code_def)

lemma summary_members:
  assumes "jtext g v1" "jtext l v2" "jtext p v3" "jtext r v4" "jtext t v5" "jtext y v6" "jtext z v7"
  shows "jmembers (key_text [] ''schema'' @ ''1'' @ '','' @ nl @ key_text ''  '' ''generated_at'' @ g @ '','' @ nl @
      key_text ''  '' ''launcher'' @ l @ '','' @ nl @ key_text ''  '' ''payload'' @ p @ '','' @ nl @
      key_text ''  '' ''runtime'' @ r @ '','' @ nl @ key_text ''  '' ''settings'' @ t @ '','' @ nl @
      key_text ''  '' ''system'' @ y @ '','' @ nl @ key_text ''  '' ''binaries'' @ z @ nl)
     [(''schema'', JNumber ''1''), (''generated_at'', v1), (''launcher'', v2), (''payload'', v3), (''runtime'', v4),
      (''settings'', v5), (''system'', v6), (''binaries'', v7)]"
  by (intro member_line member_last_line jtext_one assms) (simp_all add: plain_char_def code_def)

lemma summary_jtext:
  assumes "\<And>s. utf8_text (to8 k s)" "list_all (\<lambda>f. utf8_text (runtime_sha f)) (active_files c)"
  shows "\<exists>a. summary_text k ctx b c = a @ nl \<and> jtext a (summary_value k ctx b c)"
proof -
  let ?sec = "\<lambda>fs. CHR 0x7B # nl @ append_fields k fs @ ''  '' @ [CHR 0x7D]"
  have sec: "jtext (?sec fs) (section_value k fs)"
    if "fs \<in> {launcher_fields b, payload_fields b, runtime_fields k ctx c, settings_fields k (settings c), system_fields b}" for fs
    by (rule section_text) (use that assms(1) field_names in \<open>auto simp: field_lists\<close>)
  have quoted: "jtext (QuoteW k s) (JString (to8 k s))" for s unfolding QuoteW_def by (rule jtext_Quote [OF assms(1)])
  let ?m = "''1'' @ '','' @ nl @ key_text ''  '' ''generated_at'' @ QuoteW k (UtcTimestamp (utc_now b)) @ '','' @ nl @
      key_text ''  '' ''launcher'' @ ?sec (launcher_fields b) @ '','' @ nl @
      key_text ''  '' ''payload'' @ ?sec (payload_fields b) @ '','' @ nl @
      key_text ''  '' ''runtime'' @ ?sec (runtime_fields k ctx c) @ '','' @ nl @
      key_text ''  '' ''settings'' @ ?sec (settings_fields k (settings c)) @ '','' @ nl @
      key_text ''  '' ''system'' @ ?sec (system_fields b) @ '','' @ nl @
      key_text ''  '' ''binaries'' @ (CHR 0x5B # nl @ binary_lines k True (active_files c) @ nl @ ''  '' @ [CHR 0x5D]) @ nl"
  note m = summary_members [OF quoted sec sec sec sec sec binaries_text [OF assms]]
  have "jtext (CHR 0x7B # nl @ key_text ''  '' ''schema'' @ ?m @ [CHR 0x7D]) (summary_value k ctx b c)"
    unfolding summary_value_def by (rule object_text [OF _ m]) simp_all
  moreover have "summary_text k ctx b c = (CHR 0x7B # nl @ key_text ''  '' ''schema'' @ ?m @ [CHR 0x7D]) @ nl"
    by (simp add: summary_text_def append_section_def)
  ultimately show ?thesis by blast
qed

lemma summary_size:
  "value_count (summary_value k ctx b c) = 32 + 4 * length (active_files c)" "height (summary_value k ctx b c) \<le> 3"
proof -
  have sec: "height (section_value k fs) \<le> 1" "value_count (section_value k fs) = Suc (length fs)" for fs
    by (induction fs) (auto simp: section_value_def)
  have bin: "elements_height (map (binary_value k) fs) \<le> 2" "elements_count (map (binary_value k) fs) = 4 * length fs" for fs
    by (induction fs) (simp_all add: binary_value_def)
  show "value_count (summary_value k ctx b c) = 32 + 4 * length (active_files c)"
    using bin(2) [of "active_files c"] by (simp add: summary_value_def sec field_lists)
  show "height (summary_value k ctx b c) \<le> 3"
    using bin(1) [of "active_files c"] sec(1) [of "launcher_fields b"] sec(1) [of "payload_fields b"]
      sec(1) [of "runtime_fields k ctx c"] sec(1) [of "settings_fields k (settings c)"] sec(1) [of "system_fields b"]
    by (simp add: summary_value_def)
qed

lemma object_skip_bom: "skip_bom (CHR 0x7B # s) = CHR 0x7B # s"
  by (simp add: skip_bom_def)

text \<open>The description of the archive.\<close>

definition manifest_value :: "nat \<Rightarrow> jvalue" where
  "manifest_value n =
     (let entry = (\<lambda>file describes. JObject [(''file'', JString file), (''describes'', JString describes)]) in
      JObject
        [(''schema'', JNumber ''1''), (''product'', JString ''CHEBURNET''),
         (''purpose'', JString ''local support bundle; never uploaded automatically''),
         (''contents'', JArray
            [entry ''summary.json''
               ''launcher/payload/runtime/settings/system state and expected hashes of CHEBURNET-owned files'',
             entry ''application.log'' (''redacted tail of cheburnet.log, bounded to '' @ to_string n @ '' bytes''),
             entry ''manifest.json'' ''this description'']),
         (''redacted'', JArray (map JString
            [''user name'', ''computer name'', ''user profile paths'',
             ''any path under '' @ [CHR 0x5C] @ ''Users'' @ [CHR 0x5C], ''IPv4 and IPv6 literals'', ''token-like strings''])),
         (''never_collected'', JArray (map JString
            [''environment variables'', ''proxy credentials'', ''browser data'', ''cookies'', ''packet captures'',
             ''user list files'', ''machine identifiers'', ''certificate subject of the signer'']))])"

lemma digits_plain: "list_all plain_char (to_string n)"
  using to_string_digits [of n] by (auto simp: list_all_iff plain_char_def IsDigit_def code_def less_eq_char_def)

lemma entry_text:
  assumes "list_all plain_char name" "list_all plain_char describes"
  shows "jtext (CHR 0x7B # key_text [] ''file'' @ (dq @ name @ dq) @ '', '' @ key_text [] ''describes'' @ (dq @ describes @ dq) @ [CHR 0x7D])
     (JObject [(''file'', JString name), (''describes'', JString describes)])"
proof -
  have "jmembers (key_text [] ''file'' @ (dq @ name @ dq) @ '', '' @ key_text [] ''describes'' @ (dq @ describes @ dq) @ [])
      [(''file'', JString name), (''describes'', JString describes)]"
    by (intro inline_member member_last_line plain_literal assms) (simp_all add: plain_char_def code_def)
  from t_object [OF _ this, of "[]"] show ?thesis by simp
qed

lemma manifest_members:
  assumes "jtext p v3" "jtext c v4" "jtext r v5" "jtext z v6"
  shows "jmembers (key_text [] ''schema'' @ ''1'' @ '','' @ nl @ key_text ''  '' ''product'' @ Quote ''CHEBURNET'' @ '','' @ nl @
      key_text ''  '' ''purpose'' @ p @ '','' @ nl @ key_text ''  '' ''contents'' @ c @ '','' @ nl @
      key_text ''  '' ''redacted'' @ r @ '','' @ nl @ key_text ''  '' ''never_collected'' @ z @ nl)
     [(''schema'', JNumber ''1''), (''product'', JString ''CHEBURNET''), (''purpose'', v3), (''contents'', v4),
      (''redacted'', v5), (''never_collected'', v6)]"
  by (intro member_line member_last_line jtext_one jtext_Quote assms)
    (simp_all add: plain_char_def code_def utf8_plain)

lemma inline_more: "jtext a v \<Longrightarrow> jelements e vs \<Longrightarrow> jelements (a @ '', '' @ e) (v # vs)"
  using e_more [of a v "[]" "'' ''" e vs] by (simp add: is_json_ws_def)

lemma inline_last: "jtext a v \<Longrightarrow> jelements a [v]"
  using e_last [of a v "[]"] by simp

lemma inline_array: "jelements e vs \<Longrightarrow> jtext (CHR 0x5B # e @ [CHR 0x5D]) (JArray vs)"
  using t_array [of "[]" e vs] by simp

lemma three_elements:
  assumes "jtext a v1" "jtext b v2" "jtext c v3"
  shows "jtext (CHR 0x5B # nl @ ''    '' @ a @ '','' @ nl @ ''    '' @ b @ '','' @ nl @ ''    '' @ c @ nl @ ''  '' @ [CHR 0x5D])
     (JArray [v1, v2, v3])"
proof -
  have "jelements (c @ nl @ ''  '') [v3]" by (rule e_last [OF assms(3)]) (simp add: is_json_ws_def)
  from e_more [OF assms(2) _ _ this, of "[]" "nl @ ''    ''"]
  have "jelements (b @ '','' @ nl @ ''    '' @ c @ nl @ ''  '') [v2, v3]" by (simp add: is_json_ws_def)
  from e_more [OF assms(1) _ _ this, of "[]" "nl @ ''    ''"]
  have "jelements (a @ '','' @ nl @ ''    '' @ b @ '','' @ nl @ ''    '' @ c @ nl @ ''  '') [v1, v2, v3]"
    by (simp add: is_json_ws_def)
  from t_array [OF _ this, of "nl @ ''    ''"] show ?thesis by (simp add: is_json_ws_def)
qed

lemma users_text:
  "jtext (dq @ (''any path under '' @ [CHR 0x5C, CHR 0x5C] @ ''Users'' @ [CHR 0x5C, CHR 0x5C]) @ dq)
     (JString (''any path under '' @ [CHR 0x5C] @ ''Users'' @ [CHR 0x5C]))"
proof -
  have "utf8_text (''any path under '' @ [CHR 0x5C] @ ''Users'' @ [CHR 0x5C])" by (simp add: utf8_text_ascii code_def utf8_nil)
  from jtext_Quote [OF this] show ?thesis by (simp add: Quote_def quote_char_def code_def)
qed

lemma three_entries:
  assumes "list_all plain_char a" "list_all plain_char a'" "list_all plain_char b" "list_all plain_char b'"
    "list_all plain_char c" "list_all plain_char c'"
  shows "jtext (CHR 0x5B # nl @ key_text ''    {'' ''file'' @ dq @ a @ dq @ key_text '', '' ''describes'' @ dq @ a' @ dq @
      CHR 0x7D # '','' @ nl @ key_text ''    {'' ''file'' @ dq @ b @ dq @ key_text '', '' ''describes'' @ dq @ b' @ dq @
      CHR 0x7D # '','' @ nl @ key_text ''    {'' ''file'' @ dq @ c @ dq @ key_text '', '' ''describes'' @ dq @ c' @ dq @
      CHR 0x7D # nl @ ''  '' @ [CHR 0x5D])
    (JArray [JObject [(''file'', JString a), (''describes'', JString a')],
             JObject [(''file'', JString b), (''describes'', JString b')],
             JObject [(''file'', JString c), (''describes'', JString c')]])"
  using three_elements [OF entry_text [OF assms(1,2)] entry_text [OF assms(3,4)] entry_text [OF assms(5,6)]]
  by (simp add: key_text_def)

lemma manifest_jtext: "\<exists>a. manifest_text n = a @ nl \<and> jtext a (manifest_value n)"
proof -
  have plain: "list_all plain_char (''redacted tail of cheburnet.log, bounded to '' @ to_string n @ '' bytes'')"
    using digits_plain [of n] by (simp add: plain_char_def code_def)
  have names: "list_all plain_char ''summary.json''" "list_all plain_char ''application.log''"
      "list_all plain_char ''manifest.json''" "list_all plain_char ''this description''"
      "list_all plain_char ''launcher/payload/runtime/settings/system state and expected hashes of CHEBURNET-owned files''"
    by (simp_all add: plain_char_def code_def)
  note contents = three_entries [OF names(1,5,2) plain names(3,4)]
  let ?r = "(dq @ ''user name'' @ dq) @ '', '' @ (dq @ ''computer name'' @ dq) @ '', '' @ (dq @ ''user profile paths'' @ dq) @ '', '' @
      (dq @ (''any path under '' @ [CHR 0x5C, CHR 0x5C] @ ''Users'' @ [CHR 0x5C, CHR 0x5C]) @ dq) @ '', '' @
      (dq @ ''IPv4 and IPv6 literals'' @ dq) @ '', '' @ (dq @ ''token-like strings'' @ dq)"
  have redacted: "jtext (CHR 0x5B # ?r @ [CHR 0x5D]) (JArray (map JString
            [''user name'', ''computer name'', ''user profile paths'',
             ''any path under '' @ [CHR 0x5C] @ ''Users'' @ [CHR 0x5C], ''IPv4 and IPv6 literals'', ''token-like strings'']))"
    unfolding list.map
    by (intro inline_array inline_more inline_last users_text plain_literal) (simp_all add: plain_char_def code_def)
  let ?z = "(dq @ ''environment variables'' @ dq) @ '', '' @ (dq @ ''proxy credentials'' @ dq) @ '', '' @
      (dq @ ''browser data'' @ dq) @ '', '' @ (dq @ ''cookies'' @ dq) @ '', '' @ (dq @ ''packet captures'' @ dq) @ '', '' @
      (dq @ ''user list files'' @ dq) @ '', '' @ (dq @ ''machine identifiers'' @ dq) @ '', '' @
      (dq @ ''certificate subject of the signer'' @ dq)"
  have never: "jtext (CHR 0x5B # ?z @ [CHR 0x5D]) (JArray (map JString
            [''environment variables'', ''proxy credentials'', ''browser data'', ''cookies'', ''packet captures'',
             ''user list files'', ''machine identifiers'', ''certificate subject of the signer'']))"
    unfolding list.map
    by (intro inline_array inline_more inline_last plain_literal) (simp_all add: plain_char_def code_def)
  have purpose: "jtext (Quote ''local support bundle; never uploaded automatically'')
      (JString ''local support bundle; never uploaded automatically'')"
    by (rule jtext_Quote, rule utf8_plain) (simp add: code_def)
  note m = manifest_members [OF purpose contents redacted never]
  have white: "ws ''  ''" by (simp add: is_json_ws_def)
  have keys: "distinct (map fst [(''schema'', a1), (''product'', a2), (''purpose'', a3), (''contents'', a4),
      (''redacted'', a5), (''never_collected'', a6)])" for a1 a2 a3 a4 a5 a6 :: jvalue
    by simp
  note t = object_text [OF white m keys]
  show ?thesis
    by (rule exI, rule conjI [rotated], unfold manifest_value_def Let_def, rule t) (simp add: manifest_text_def key_text_def)
qed

lemma manifest_size: "value_count (manifest_value n) = 30" "height (manifest_value n) = 3"
  by (simp_all add: manifest_value_def Let_def)

lemma Parse_appended:
  assumes "s = a @ nl" "jtext a v" "hd s = CHR 0x7B" "length s \<le> maxBytes opt" "height v \<le> maxDepth opt"
    "value_count v \<le> maxValues opt"
  shows "Parse s opt = Inr v"
proof -
  have "s \<noteq> []" using assms(1) by simp
  then have "take 3 s \<noteq> [CHR 0xEF, CHR 0xBB, CHR 0xBF]" using assms(3) by (cases s) auto
  then have "skip_bom s = [] @ a @ nl" by (simp add: skip_bom_def assms(1))
  then have "\<exists>w b w'. skip_bom s = w @ b @ w' \<and> ws w \<and> ws w' \<and> jtext b v"
    using assms(2) by (intro exI [of _ "[]"] exI [of _ a] exI [of _ nl]) (simp add: is_json_ws_def)
  then show ?thesis unfolding Parse_grammar using assms(4-6) by simp
qed


definition ascii :: "wstring \<Rightarrow> string" where
  "ascii s = map (\<lambda>c. char_of (unat c mod 128)) s"

lemma ascii_utf8: "utf8_text (ascii s)"
proof (rule utf8_plain)
  show "list_all (\<lambda>c. code c < 0x80) (ascii s)"
    by (simp add: ascii_def list_all_iff code_def)
qed

definition sample_conversions :: conversions where
  "sample_conversions = \<lparr>to8 = ascii, to16 = W, ipv6 = \<lambda>s. False\<rparr>"

definition sample_facts :: bundle_facts where
  "sample_facts =
     \<lparr>utc_now = sample_time, semantic_version = W ''1.2.3'', pe_version = W ''1.2.3.0'', release_channel = W ''stable'',
      authenticode = [], provider = W ''p'', embedded_version = W ''1'', release_url = W ''u'', imported_at = [],
      archive_sha256 = [], upstream_commit = W ''a\"b'', windows_build = W ''10'', architecture = W ''x64''\<rparr>"

definition sample_collected :: collected where
  "sample_collected =
     \<lparr>runtime_state = StateMissing, selected_runtime = W ''1'', integrity_ok = True, integrity_error = [],
      catalog_size = 1, active_files = [\<lparr>runtime_path = W ''bin'', runtime_size = 7, runtime_sha = ''00''\<rparr>],
      log_tail = [], settings = default_config, max_log = 16\<rparr>"


text \<open>
  The tail of the log is bounded before the redaction, which can make it longer: the included log has no bound
  of its own.
\<close>

definition inert :: "wchar \<Rightarrow> bool" where
  "inert c \<longleftrightarrow> \<not> IsTokenChar c \<and> c \<noteq> 0x3A \<and> c \<noteq> 0x5C"

lemma inert_text:
  "list_all inert s \<Longrightarrow> HideUsers s = s \<and> RedactAddresses_loop f before s = s \<and> RedactSecrets s = s"
proof (induction s arbitrary: before)
  case (Cons c cs)
  have c: "\<not> IsTokenChar c" "c \<noteq> 0x3A" "c \<noteq> 0x5C" using Cons.prems by (simp_all add: inert_def)
  then have plain: "\<not> IsDigitW c" "\<not> IsHexDigitW c"
    by (auto simp: IsTokenChar_def IsHexDigitW_def IsLetterW_def intro: order.trans)
  have "\<not> IEqualsAt (c # cs) users_marker" using c(3) lower_wchar_other [of c] IEqualsAt_users_head [of c cs] by auto
  moreover have "Ipv4At before (c # cs) = None" "Ipv6At f before (c # cs) = None"
    using plain c(2) by (simp_all add: Ipv4At_def ReadIpv4_def ReadIpv4Octet_def Ipv6At_def head_is_def numeral_3_eq_3)
  ultimately show ?case using Cons c(1) by simp
qed simp

lemma redaction_grows:
  "Redact f (W ''ab'') \<lparr>userName = W ''ab'', machineName = [], userProfile = []\<rparr> = kRedactedUser \<and> length kRedactedUser = 14"
proof -
  have "list_all inert kRedactedUser"
    by (simp add: kRedactedUser_def inert_def IsTokenChar_def IsDigitW_def IsLetterW_def)
  from inert_text [OF this] show ?thesis
    by (simp add: Redact_def ReplaceAllNoCase_def IEqualsAt_def RedactAddresses_def Let_def kRedactedUser_def)
qed

end
