(* ===== verification/SystemProbe.thy ===== *)
theory SystemProbe
  imports StringUtil Json
begin

text \<open>
  The thin wrappers over Windows: \<^verbatim>\<open>src/src/core/IntegrityVerifier.cpp\<close>, \<^verbatim>\<open>src/src/core/StatusProbe.cpp\<close>,
  \<^verbatim>\<open>src/src/core/PrivilegeManager.cpp\<close> and \<^verbatim>\<open>src/src/util/Win32Error.cpp\<close>. What a call of the system answers is
  an argument; what the wrapper makes of it is the definition. The other theories take the results as parameters.
\<close>

section \<open>Digests\<close>

definition ToHex :: "string \<Rightarrow> string" where
  "ToHex bytes = concat (map (\<lambda>b. [hex_digit (drop_bit 4 (code b) AND 0xF), hex_digit (code b AND 0xF)]) bytes)"

text \<open>A session of BCrypt: opening, hashing data, finishing; each may fail.\<close>

record 's hash_api =
  hash_open :: "'s option"
  hash_data :: "'s \<Rightarrow> string \<Rightarrow> 's option"
  hash_finish :: "'s \<Rightarrow> string option"

definition Finish :: "'s hash_api \<Rightarrow> 's \<Rightarrow> string option" where
  "Finish api s = map_option ToHex (hash_finish api s)"

definition Sha256Hex :: "'s hash_api \<Rightarrow> string \<Rightarrow> string option" where
  "Sha256Hex api data =
     (case hash_open api of
        None \<Rightarrow> None
      | Some s \<Rightarrow>
          if data = [] then Finish api s
          else (case hash_data api s data of None \<Rightarrow> None | Some s1 \<Rightarrow> Finish api s1))"

text \<open>The answers of \<^verbatim>\<open>ReadFile\<close>: failure, the bytes read, or nothing at the end.\<close>

fun hash_reads :: "'s hash_api \<Rightarrow> 's \<Rightarrow> string option list \<Rightarrow> 's option" where
  "hash_reads api s [] = None"
| "hash_reads api s (None # rs) = None"
| "hash_reads api s (Some bytes # rs) =
     (if bytes = [] then Some s
      else case hash_data api s bytes of None \<Rightarrow> None | Some s1 \<Rightarrow> hash_reads api s1 rs)"

record file_info =
  is_plain :: bool       \<comment> \<open>neither a reparse point nor a directory\<close>
  links :: nat
  size_high :: "32 word"
  size_low :: "32 word"

definition safe_file :: "file_info option \<Rightarrow> bool" where
  "safe_file info = (case info of None \<Rightarrow> False | Some i \<Rightarrow> is_plain i \<and> links i = 1)"

definition Sha256File :: "'s hash_api \<Rightarrow> bool \<Rightarrow> file_info option \<Rightarrow> string option list \<Rightarrow> string option" where
  "Sha256File api opened info reads =
     (if \<not> opened \<or> \<not> safe_file info then None
      else case hash_open api of
             None \<Rightarrow> None
           | Some s \<Rightarrow> (case hash_reads api s reads of None \<Rightarrow> None | Some s1 \<Rightarrow> Finish api s1))"

definition FileSize :: "bool \<Rightarrow> file_info option \<Rightarrow> nat option" where
  "FileSize opened info =
     (if \<not> opened \<or> \<not> safe_file info then None
      else map_option (\<lambda>i. unat (size_high i) * 2 ^ 32 + unat (size_low i)) info)"

text \<open>However the file is cut by the reads, its digest is that of its content.\<close>

lemma hash_reads_concat:
  assumes "\<And>s a b. a \<noteq> [] \<Longrightarrow> b \<noteq> [] \<Longrightarrow> hash_data api s (a @ b) = Option.bind (hash_data api s a) (\<lambda>s1. hash_data api s1 b)"
    and "list_all (\<lambda>c. c \<noteq> []) chunks" "chunks \<noteq> []"
  shows "hash_reads api s (map Some chunks @ [Some []]) = hash_data api s (concat chunks)"
  using assms(2,3)
proof (induction chunks arbitrary: s)
  case (Cons c cs)
  show ?case
  proof (cases "cs = []")
    case True
    then show ?thesis using Cons.prems by (simp split: option.split)
  next
    case False
    then have "concat cs \<noteq> []" using Cons.prems by (cases cs) auto
    then show ?thesis using Cons False assms(1) [of c "concat cs" s] by (simp split: option.split)
  qed
qed simp

lemma Sha256File_content:
  assumes "\<And>s a b. a \<noteq> [] \<Longrightarrow> b \<noteq> [] \<Longrightarrow> hash_data api s (a @ b) = Option.bind (hash_data api s a) (\<lambda>s1. hash_data api s1 b)"
    and "list_all (\<lambda>c. c \<noteq> []) chunks" "safe_file info"
  shows "Sha256File api True info (map Some chunks @ [Some []]) = Sha256Hex api (concat chunks)"
proof (cases "chunks = []")
  case False
  then have full: "concat chunks \<noteq> []" using assms(2) by (cases chunks) auto
  show ?thesis using hash_reads_concat [OF assms(1,2) False] assms(3)
    unfolding Sha256File_def Sha256Hex_def if_not_P [OF full] by (simp cong: option.case_cong)
qed (simp add: Sha256File_def Sha256Hex_def assms(3) split: option.split)

section \<open>Services and processes\<close>

datatype ServiceState = NotInstalled | ServiceStopped | ServiceRunning | StopPending | OtherState

text \<open>The service: not opened with an error code, or its status, if it can be queried.\<close>

definition QueryService :: "bool \<Rightarrow> nat + nat option \<Rightarrow> ServiceState" where
  "QueryService manager_opened service =
     (if \<not> manager_opened then OtherState
      else case service of
             Inl err \<Rightarrow> if err = 1060 then NotInstalled else OtherState
           | Inr None \<Rightarrow> OtherState
           | Inr (Some st) \<Rightarrow>
               if st = 4 then ServiceRunning else if st = 1 then ServiceStopped
               else if st = 3 then StopPending else OtherState)"

definition ServiceActive :: "ServiceState \<Rightarrow> bool" where
  "ServiceActive st \<longleftrightarrow> st = ServiceRunning \<or> st = StopPending"

text \<open>The processes of a snapshot; \<open>None\<close> when there is no snapshot.\<close>

definition FindProcesses :: "(nat \<times> wstring) list option \<Rightarrow> wstring \<Rightarrow> (nat \<times> wstring) list" where
  "FindProcesses snapshot exeName =
     (case snapshot of None \<Rightarrow> [] | Some ps \<Rightarrow> filter (\<lambda>p. IEqualsAsciiW (snd p) exeName) ps)"

definition ProcessImagePath :: "bool \<Rightarrow> wstring option \<Rightarrow> wstring option" where
  "ProcessImagePath opened img = (if opened then img else None)"

definition ProcessCreationTime :: "bool \<Rightarrow> (32 word \<times> 32 word) option \<Rightarrow> nat option" where
  "ProcessCreationTime opened creation =
     (if opened then map_option (\<lambda>(low, high). unat high * 2 ^ 32 + unat low) creation else None)"

text \<open>\<open>timed_out\<close> is the answer of \<^verbatim>\<open>WaitForSingleObject(h, 0)\<close>.\<close>

definition ProcessAlive :: "bool \<Rightarrow> bool \<Rightarrow> bool" where
  "ProcessAlive opened timed_out \<longleftrightarrow> opened \<and> timed_out"

definition IsWindows10OrGreater :: "nat option \<Rightarrow> bool" where
  "IsWindows10OrGreater major = (case major of None \<Rightarrow> False | Some m \<Rightarrow> 10 \<le> m)"

definition IsElevated :: "bool \<Rightarrow> nat option \<Rightarrow> bool" where
  "IsElevated token_opened token_elevation = (if token_opened then (case token_elevation of None \<Rightarrow> False | Some e \<Rightarrow> e \<noteq> 0) else False)"

section \<open>Error texts\<close>

definition trailing :: "wchar \<Rightarrow> bool" where
  "trailing c \<longleftrightarrow> c = 0x0D \<or> c = 0x0A \<or> c = 0x20 \<or> c = 0x2E"

function trim_message :: "wstring \<Rightarrow> wstring" where
  "trim_message s = (if s \<noteq> [] \<and> trailing (last s) then trim_message (butlast s) else s)"
  by pat_completeness auto
termination by (relation "measure length") auto

declare trim_message.simps [simp del]

text \<open>\<open>message\<close> is what \<^verbatim>\<open>FormatMessageW\<close> returns, \<open>missing\<close> the text that stands in.\<close>

definition FormatError :: "wstring \<Rightarrow> wstring \<Rightarrow> nat \<Rightarrow> wstring option \<Rightarrow> wstring" where
  "FormatError prefix missing error_code message =
     (let t = trim_message (case message of None \<Rightarrow> [] | Some m \<Rightarrow> m) in
      prefix @ W (to_string error_code) @ W '': '' @ (if t = [] then missing else t))"

lemma trim_message_last: "trim_message s \<noteq> [] \<Longrightarrow> \<not> trailing (last (trim_message s))"
  by (induction s rule: trim_message.induct) (metis trim_message.simps)

lemma trim_message_prefix: "\<exists>t. s = trim_message s @ t \<and> list_all trailing t"
proof (induction s rule: trim_message.induct)
  case (1 s)
  show ?case
  proof (cases "s \<noteq> [] \<and> trailing (last s)")
    case True
    then obtain t where "butlast s = trim_message (butlast s) @ t" "list_all trailing t" using 1 by blast
    moreover have "trim_message s = trim_message (butlast s)" using True by (simp add: trim_message.simps [of s])
    ultimately show ?thesis using True append_butlast_last_id [of s]
      by (intro exI [of _ "t @ [last s]"]) (metis append.assoc list.pred_inject list_all_append)
  next
    case False
    then have "trim_message s = s" by (auto simp: trim_message.simps [of s])
    then show ?thesis by simp
  qed
qed

end
