(* ===== verification/Effects.thy ===== *)
theory Effects
  imports Widgets UiEvent LogFile
begin

text \<open>
  The effects of the interface, \<^verbatim>\<open>src/src/ui/Effects.cpp\<close>, its clock (\<^verbatim>\<open>ui/AnimationClock.h\<close>), the bounds of its
  random numbers (\<^verbatim>\<open>ui/Rng.cpp\<close>) and the watcher of the engine (\<^verbatim>\<open>ui/Watchdog.cpp\<close>). Milliseconds are
  64-bit words, as in the code; a generator is the list of the numbers it draws.
\<close>

section \<open>Random numbers\<close>

text \<open>\<open>pick\<close> is what the distribution answers; it lies between its bounds.\<close>

definition Range :: "(int \<Rightarrow> int \<Rightarrow> int) \<Rightarrow> int \<Rightarrow> int \<Rightarrow> int" where
  "Range pick lo hi = (if hi < lo then lo else pick lo hi)"

definition Chance :: "(int \<Rightarrow> int \<Rightarrow> int) \<Rightarrow> int \<Rightarrow> bool" where
  "Chance pick p = (if p \<le> 0 then False else if 100 \<le> p then True else Range pick 1 100 \<le> p)"

section \<open>Effects\<close>

definition VisibleCount :: "nat \<Rightarrow> int \<Rightarrow> 64 word \<Rightarrow> bool \<Rightarrow> nat" where
  "VisibleCount len cps elapsedMs instant =
     (if instant \<or> cps \<le> 0 then len
      else let chars = elapsedMs * of_int cps div 1000 in if len \<le> unat chars then len else unat chars)"

definition Visible :: "wstring \<Rightarrow> int \<Rightarrow> 64 word \<Rightarrow> bool \<Rightarrow> wstring" where
  "Visible s cps elapsedMs instant = take (VisibleCount (length s) cps elapsedMs instant) s"

definition TypewriterDone :: "wstring \<Rightarrow> int \<Rightarrow> 64 word \<Rightarrow> bool" where
  "TypewriterDone s cps elapsedMs \<longleftrightarrow> length s \<le> VisibleCount (length s) cps elapsedMs False"

definition kGlitchChars :: wstring where
  "kGlitchChars = W ''#%&$@*?/'' @ [0x5C] @ W ''|<>=+~^:;''"

definition glitchable :: "wchar \<Rightarrow> bool" where
  "glitchable c \<longleftrightarrow> c \<noteq> 0x20 \<and> \<not> (0xD800 \<le> c \<and> c \<le> 0xDFFF)"

text \<open>One round: a position is drawn, and a glyph if the character there may change.\<close>

fun glitch_rounds :: "(nat \<times> nat) list \<Rightarrow> wstring \<Rightarrow> wstring" where
  "glitch_rounds [] out = out"
| "glitch_rounds ((position, n) # rounds) out =
     glitch_rounds rounds (if glitchable (out ! position) then out[position := kGlitchChars ! n] else out)"

text \<open>\<open>drawn\<close> are the numbers drawn, as many rounds as the intensity asks for.\<close>

definition GlitchApply :: "wstring \<Rightarrow> (nat \<times> nat) list \<Rightarrow> int \<Rightarrow> int \<Rightarrow> int \<Rightarrow> wstring" where
  "GlitchApply base drawn frame activeFrames intensity =
     (if frame < 0 \<or> activeFrames \<le> frame \<or> base = [] then base
      else glitch_rounds (take (nat (if intensity < 1 then 1 else intensity)) drawn) base)"

definition BlinkOn :: "64 word \<Rightarrow> int \<Rightarrow> bool" where
  "BlinkOn elapsedMs periodMs =
     (if periodMs \<le> 0 then True else elapsedMs mod of_int periodMs < of_int periodMs div 2)"

definition SpinnerFrame :: "wstring \<Rightarrow> 64 word \<Rightarrow> int \<Rightarrow> wchar" where
  "SpinnerFrame glyphs elapsedMs stepMs =
     (if glyphs = [] then 0x20
      else glyphs ! unat ((elapsedMs div of_int (if stepMs \<le> 0 then 1 else stepMs)) mod of_nat (length glyphs)))"

definition Revealed :: "int \<Rightarrow> 64 word \<Rightarrow> int \<Rightarrow> bool \<Rightarrow> int" where
  "Revealed totalRows elapsedMs rowMs instant =
     (if instant \<or> rowMs \<le> 0 then totalRows
      else let rows = elapsedMs div of_int rowMs in
        if (of_int totalRows :: 64 word) \<le> rows then totalRows else sint (ucast rows :: 32 word))"

definition FormatUptime :: "64 word \<Rightarrow> wstring" where
  "FormatUptime ms =
     (let s = ms div 1000; h = unat (ucast (s div 3600) :: 32 word); m = unat (s mod 3600 div 60); sec = unat (s mod 60) in
      padded 2 (if 99 < h then 99 else h) @ W '':'' @ padded 2 m @ W '':'' @ padded 2 sec)"

section \<open>Effects restore the text\<close>

lemma kGlitchChars_glitchable: "list_all glitchable kGlitchChars"
  by (simp add: kGlitchChars_def glitchable_def)

lemma glitch_rounds_keep:
  "length (glitch_rounds rounds out) = length out \<and>
   (\<forall>i < length out. \<not> glitchable (out ! i) \<longrightarrow> glitch_rounds rounds out ! i = out ! i)"
  by (induction rounds out rule: glitch_rounds.induct) (auto, metis length_list_update nth_list_update_neq)

text \<open>Layout and surrogates survive a glitch, and the exact text comes back when the frames are over.\<close>

lemma GlitchApply_keeps:
  "length (GlitchApply base drawn frame activeFrames intensity) = length base"
  "i < length base \<Longrightarrow> \<not> glitchable (base ! i) \<Longrightarrow> GlitchApply base drawn frame activeFrames intensity ! i = base ! i"
  "activeFrames \<le> frame \<Longrightarrow> GlitchApply base drawn frame activeFrames intensity = base"
  by (simp_all add: GlitchApply_def glitch_rounds_keep)

lemma VisibleCount_bound: "VisibleCount len cps elapsedMs instant \<le> len"
  by (simp add: VisibleCount_def Let_def)

lemma SpinnerFrame_in: "glyphs \<noteq> [] \<Longrightarrow> length glyphs < 2 ^ 64 \<Longrightarrow> SpinnerFrame glyphs elapsedMs stepMs \<in> set glyphs"
  unfolding SpinnerFrame_def by (simp add: unat_mod unat_of_nat)

section \<open>The watcher\<close>

text \<open>
  The interval is slept in slices of 100 milliseconds; \<open>stops k\<close> is the answer of \<^verbatim>\<open>stop_requested\<close> after \<open>k\<close>
  slices of the cycle. The result is the number of slices slept and whether the watcher stops.
\<close>

function sleep_slices :: "nat \<Rightarrow> (nat \<Rightarrow> bool) \<Rightarrow> nat \<Rightarrow> nat \<times> bool" where
  "sleep_slices intervalMs stops k =
     (if 100 * k < intervalMs \<and> \<not> stops k then sleep_slices intervalMs stops (k + 1) else (k, stops k))"
  by pat_completeness auto
termination by (relation "measure (\<lambda>(n, stops, k). n - 100 * k)") auto

declare sleep_slices.simps [simp del]

text \<open>One cycle after another: the stop, the answer of the check, or an exception.\<close>

datatype check_answer = EngineAlive | EngineGone | CheckThrew

definition heartbeat :: UiEvent where
  "heartbeat = \<lparr>event_type = WatchdogHeartbeat, checkpoint = 0, percent = 0, severity = SevOk\<rparr>"

definition stopped_event :: UiEvent where
  "stopped_event = \<lparr>event_type = ProcessStopped, checkpoint = 0, percent = 0, severity = SevError\<rparr>"

fun watch :: "nat \<Rightarrow> ((nat \<Rightarrow> bool) \<times> check_answer) list \<Rightarrow> UiEvent list \<Rightarrow> bool \<times> UiEvent list" where
  "watch intervalMs [] q = (True, q)"
| "watch intervalMs ((stops, answer) # cycles) q =
     (if stops 0 \<or> snd (sleep_slices intervalMs stops 0) then (True, q)
      else case answer of
             EngineAlive \<Rightarrow> watch intervalMs cycles (Push heartbeat q)
           | EngineGone \<Rightarrow> (False, Push stopped_event q)
           | CheckThrew \<Rightarrow> (False, q))"

text \<open>The watcher reports the end of the process at most once, and after that nothing.\<close>

lemma watch_reports_once:
  "\<exists>n. watch intervalMs cycles q = (True, q @ replicate n heartbeat) \<or>
       watch intervalMs cycles q = (False, q @ replicate n heartbeat) \<or>
       watch intervalMs cycles q = (False, q @ replicate n heartbeat @ [stopped_event])"
proof (induction cycles arbitrary: q)
  case Nil
  then show ?case by (intro exI [of _ 0]) simp
next
  case (Cons c cycles)
  obtain stops answer where c: "c = (stops, answer)" by fastforce
  show ?case
  proof (cases "\<not> (stops 0 \<or> snd (sleep_slices intervalMs stops 0)) \<and> answer = EngineAlive")
    case True
    obtain n where "watch intervalMs cycles (q @ [heartbeat]) = (True, (q @ [heartbeat]) @ replicate n heartbeat) \<or>
       watch intervalMs cycles (q @ [heartbeat]) = (False, (q @ [heartbeat]) @ replicate n heartbeat) \<or>
       watch intervalMs cycles (q @ [heartbeat]) = (False, (q @ [heartbeat]) @ replicate n heartbeat @ [stopped_event])"
      using Cons.IH by blast
    then show ?thesis using True by (intro exI [of _ "Suc n"]) (simp add: c Push_def)
  next
    case False
    then show ?thesis by (intro exI [of _ 0]) (cases answer; auto simp: c Push_def)
  qed
qed

lemma sleep_slices_bound: "100 * k \<le> intervalMs + 100 \<Longrightarrow> 100 * fst (sleep_slices intervalMs stops k) \<le> intervalMs + 100"
  by (induction intervalMs stops k rule: sleep_slices.induct) (subst sleep_slices.simps, auto)

end
