(* ===== verification/UiInput.thy ===== *)
theory UiInput
  imports Prelude
begin

text \<open>
  The keyboard, \<^verbatim>\<open>src/src/ui/Input.cpp\<close>: one console record becomes one \<^verbatim>\<open>KeyEvent\<close>. Setting and restoring the
  console mode is left out.
\<close>

datatype Key =
    KNone | KUp | KDown | KLeft | KRight | KEnter | KEsc | KBackspace | KSpace | KTab | KPageUp | KPageDown
  | KHome | KEnd | KDelete | KF1 | KChar

record KeyEvent =
  key :: Key
  ch :: wchar
  resized :: bool

definition no_key :: KeyEvent where
  "no_key = \<lparr>key = KNone, ch = 0, resized = False\<rparr>"

datatype console_record =
    BufferResized
  | KeyRecord bool nat wchar   \<comment> \<open>pressed, \<^verbatim>\<open>wVirtualKeyCode\<close>, \<^verbatim>\<open>UnicodeChar\<close>\<close>
  | OtherRecord

text \<open>The virtual key codes of \<^verbatim>\<open>winuser.h\<close>.\<close>

definition virtual_key :: "nat \<Rightarrow> Key option" where
  "virtual_key vk = map_of
     [(0x26, KUp), (0x28, KDown), (0x25, KLeft), (0x27, KRight), (0x0D, KEnter), (0x1B, KEsc), (0x08, KBackspace),
      (0x09, KTab), (0x21, KPageUp), (0x22, KPageDown), (0x24, KHome), (0x23, KEnd), (0x2E, KDelete), (0x70, KF1)] vk"

text \<open>\<open>rec\<close> is what \<^verbatim>\<open>ReadConsoleInputW\<close> returns before the timeout, if anything.\<close>

definition Poll :: "console_record option \<Rightarrow> KeyEvent" where
  "Poll rec =
     (case rec of
        Some BufferResized \<Rightarrow> no_key\<lparr>resized := True\<rparr>
      | Some (KeyRecord True vk c) \<Rightarrow>
          (case virtual_key vk of
             Some k \<Rightarrow> no_key\<lparr>key := k\<rparr>
           | None \<Rightarrow>
               if c = WC CHR '' '' then no_key\<lparr>key := KSpace, ch := c\<rparr>
               else if 0x20 \<le> c \<and> c \<noteq> 0x7F then no_key\<lparr>key := KChar, ch := c\<rparr>
               else no_key)
      | _ \<Rightarrow> no_key)"

text \<open>What the search box of the strategies receives is printable.\<close>

lemma Poll_char: "key (Poll r) = KChar \<Longrightarrow> 0x20 < ch (Poll r) \<and> ch (Poll r) \<noteq> 0x7F \<and> \<not> resized (Poll r)"
  by (auto simp: Poll_def no_key_def virtual_key_def order.strict_iff_order split: option.splits console_record.splits bool.splits if_splits)

end
