(* ===== verification/ScreenMenu.thy ===== *)
theory ScreenMenu
  imports ScreenConnect ScreenUpdates LogFile Widgets UiInput
begin

text \<open>
  The command centre and the run of the interface: \<^verbatim>\<open>App::Run\<close> of \<^verbatim>\<open>src/src/app/App.cpp\<close>, and \<^verbatim>\<open>ScreenMainMenu\<close>,
  \<^verbatim>\<open>ScreenStrategy\<close>, \<^verbatim>\<open>ScreenSettings\<close>, \<^verbatim>\<open>ScreenDiagnostics\<close> and \<^verbatim>\<open>ScreenDiagnosticsExport\<close> of
  \<^verbatim>\<open>src/src/app/UiScreens.cpp\<close>. The keys that are pressed are a list; a result that says the screen did not
  finish means that the list ended first. The log of the shell says what was done in which order, and a monitor which
  orders are consented. Captions, messages and drawing are left out.
\<close>

section \<open>The shell\<close>

datatype shell_question = AskStop | AskRestartFilter | AskRestartStrategy | AskCleanup | AskExport | AskLeave

datatype shell_event =
    Chose nat                            \<comment> \<open>an item of the menu is carried out\<close>
  | Answered shell_question bool
  | EngineStopped StopStatus             \<comment> \<open>\<^verbatim>\<open>StopManagedConnection\<close>\<close>
  | FlowEnded "Post option"              \<comment> \<open>\<^verbatim>\<open>DoConnectFlow\<close>\<close>
  | UpdateRun "ui_action list"           \<comment> \<open>\<^verbatim>\<open>ScreenUpdates\<close>\<close>
  | Stored Config bool                   \<comment> \<open>\<^verbatim>\<open>SaveConfig\<close>\<close>
  | ReportStored bool
  | CleanedUp bool
  | Exported bool
  | LeftRunning                          \<comment> \<open>\<^verbatim>\<open>Detach\<close>\<close>

record shell =
  shell_session :: session
  shell_cache :: update_cache
  shell_disk :: win_history
  shell_log :: "shell_event list"

record machine_facts = system_env +
  winws_present :: bool

record shell_env =
  shell_start :: startup_env
  shell_answer :: "shell_event list \<Rightarrow> shell_question \<Rightarrow> bool"
  shell_rounds :: "shell_event list \<Rightarrow> flow_round list"
  shell_updates :: "shell_event list \<Rightarrow> updates_env"
  engine_after :: "updates_world \<Rightarrow> manager \<Rightarrow> proc_history \<Rightarrow> manager \<times> proc_history"
    \<comment> \<open>what \<^verbatim>\<open>ApplyPayload\<close> makes of the process manager it is given\<close>
  sub_keys :: "shell_event list \<Rightarrow> KeyEvent list"    \<comment> \<open>the keys a screen below the menu receives\<close>
  facts :: "shell_event list \<Rightarrow> machine_facts"
  report_text :: "Severity list \<Rightarrow> bool \<Rightarrow> string"
  export_done :: "shell_event list \<Rightarrow> bool"          \<comment> \<open>\<^verbatim>\<open>EnsureDir\<close> and \<^verbatim>\<open>WriteZipArchive\<close>\<close>
  caption :: "bool \<Rightarrow> GameFilterMode \<Rightarrow> nat \<Rightarrow> wstring \<times> wstring"

definition note_event :: "shell_event \<Rightarrow> shell \<Rightarrow> shell" where
  "note_event x w = w\<lparr>shell_log := shell_log w @ [x]\<rparr>"

definition put_session :: "session \<Rightarrow> shell \<Rightarrow> shell" where
  "put_session x w = w\<lparr>shell_session := x\<rparr>"

definition shell_app :: "shell \<Rightarrow> app" where
  "shell_app w = session_app (shell_session w)"

definition put_app :: "app \<Rightarrow> shell \<Rightarrow> shell" where
  "put_app a w = put_session ((shell_session w)\<lparr>session_app := a\<rparr>) w"

definition put_files :: "history \<Rightarrow> shell \<Rightarrow> shell" where
  "put_files h w = put_session ((shell_session w)\<lparr>session_files := h\<rparr>) w"

definition put_engine :: "app \<Rightarrow> proc_history \<Rightarrow> shell \<Rightarrow> shell" where
  "put_engine a g w = put_session ((shell_session w)\<lparr>session_app := a, session_procs := g\<rparr>) w"

definition shell_gate :: "shell \<Rightarrow> AppOperationState" where
  "shell_gate w = gate_of (shell_session w)"

definition shell_files :: "shell \<Rightarrow> history" where
  "shell_files w = session_files (shell_session w)"

definition connected :: "shell_env \<Rightarrow> shell \<Rightarrow> bool" where
  "connected e w = IsConnectedByUs (machine (shell_start e)) (session_procs (shell_session w)) (app_manager (shell_app w))"

text \<open>\<^verbatim>\<open>BeginFrame\<close> of every screen; the rest of it draws or takes the notice of an update.\<close>

definition begin_frame :: "shell_env \<Rightarrow> shell \<Rightarrow> shell" where
  "begin_frame e w = put_session (gate_to (Observe (connected e w) (shell_gate w)) (shell_session w)) w"

definition confirm :: "shell_env \<Rightarrow> shell_question \<Rightarrow> shell \<Rightarrow> bool \<times> shell" where
  "confirm e q w = (let yes = shell_answer e (shell_log w) q in (yes, note_event (Answered q yes) w))"

definition stop_engine_now :: "shell_env \<Rightarrow> shell \<Rightarrow> StopStatus \<times> shell" where
  "stop_engine_now e w =
     (case StopManagedConnection (machine (shell_start e)) (shell_app w) (session_procs (shell_session w)) of
        (r, a, g) \<Rightarrow> (stop_status r, note_event (EngineStopped (stop_status r)) (put_engine a g w)))"

definition stopped_safely :: "StopStatus \<Rightarrow> bool" where
  "stopped_safely st \<longleftrightarrow> st = Stopped \<or> st = NotRunning"

definition connect_flow :: "shell_env \<Rightarrow> shell \<Rightarrow> Post option \<times> shell" where
  "connect_flow e w =
     (case DoConnectFlow (machine (shell_start e)) (shell_rounds e (shell_log w)) (shell_session w) of
        (p, x) \<Rightarrow> (p, note_event (FlowEnded p) (put_session x w)))"

definition store_config :: "shell_env \<Rightarrow> Config \<Rightarrow> shell \<Rightarrow> bool \<times> shell" where
  "store_config e c w =
     (case SaveConfig (config_write (shell_start e)) (version_text (shell_start e)) (ConfigPath (app_paths (shell_app w))) c
             (shell_files w) of
        (ok, h) \<Rightarrow> (ok, note_event (Stored c ok) (put_files h (put_app ((shell_app w)\<lparr>app_config := c\<rparr>) w))))"

section \<open>The items\<close>

text \<open>An item says whether the menu ends; \<open>None\<close> when the keys ended in a screen below.\<close>

definition after_flow :: "Post option \<times> shell \<Rightarrow> bool option \<times> shell" where
  "after_flow r = (map_option (\<lambda>p. p = PostQuit) (fst r), snd r)"

definition MenuConnect :: "shell_env \<Rightarrow> shell \<Rightarrow> bool option \<times> shell" where
  "MenuConnect e w =
     (if connected e w
      then (case stop_engine_now e w of
              (st, w1) \<Rightarrow> if stopped_safely st then after_flow (connect_flow e w1) else (Some False, w1))
      else after_flow (connect_flow e w))"

definition MenuDisconnect :: "shell_env \<Rightarrow> shell \<Rightarrow> shell" where
  "MenuDisconnect e w =
     (if connected e w
      then (case confirm e AskStop w of (True, w1) \<Rightarrow> snd (stop_engine_now e w1) | (False, w1) \<Rightarrow> w1)
      else w)"

fun next_filter :: "GameFilterMode \<Rightarrow> GameFilterMode" where
  "next_filter GameOff = GameAll"
| "next_filter GameAll = GameTcp"
| "next_filter GameTcp = GameUdp"
| "next_filter GameUdp = GameOff"

definition MenuGameFilter :: "shell_env \<Rightarrow> shell \<Rightarrow> bool option \<times> shell" where
  "MenuGameFilter e w =
     (let c = app_config (shell_app w) in
      case store_config e (c\<lparr>Config.gameFilter := next_filter (Config.gameFilter c)\<rparr>) w of
        (False, w1) \<Rightarrow> (Some False, w1)
      | (True, w1) \<Rightarrow>
          if \<not> connected e w1 then (Some False, w1)
          else case confirm e AskRestartFilter w1 of
                 (False, w2) \<Rightarrow> (Some False, w2)
               | (True, w2) \<Rightarrow>
                   (case stop_engine_now e w2 of
                      (st, w3) \<Rightarrow> if stopped_safely st then after_flow (connect_flow e w3) else (Some False, w3)))"

section \<open>The strategies\<close>

definition matches_search :: "(string \<Rightarrow> wstring) \<Rightarrow> wstring \<Rightarrow> RuntimeStrategy \<Rightarrow> bool" where
  "matches_search to16 search s \<longleftrightarrow>
     search = [] \<or>
     contains (ToLowerAsciiW search) (ToLowerAsciiW (displayName s)) \<or>
     contains (ToLowerAsciiW search) (ToLowerAsciiW (to16 (strategy_id s)))"

definition clamp_row :: "nat \<Rightarrow> int \<Rightarrow> int" where
  "clamp_row n i = (let i1 = (if int n \<le> i then int n - 1 else i) in if i1 < 0 then 0 else i1)"

text \<open>\<open>True\<close> when the screen returns. What \<^verbatim>\<open>DoConnectFlow\<close> answers is dropped, as in the code.\<close>

definition ChooseStrategy :: "shell_env \<Rightarrow> RuntimeStrategy \<Rightarrow> shell \<Rightarrow> bool \<times> shell" where
  "ChooseStrategy e s w =
     (let c = app_config (shell_app w) in
      if strategy_id s = strategyId c then (True, w)
      else case store_config e (c\<lparr>strategyId := strategy_id s\<rparr>) w of
             (False, w1) \<Rightarrow> (True, w1)
           | (True, w1) \<Rightarrow>
               if \<not> connected e w1 then (True, w1)
               else case confirm e AskRestartStrategy w1 of
                      (False, w2) \<Rightarrow> (True, w2)
                    | (True, w2) \<Rightarrow>
                        (case stop_engine_now e w2 of
                           (st, w3) \<Rightarrow>
                             if stopped_safely st then (case connect_flow e w3 of (p, w4) \<Rightarrow> (p \<noteq> None, w4))
                             else (True, w3)))"

fun ScreenStrategy :: "shell_env \<Rightarrow> KeyEvent list \<Rightarrow> wstring \<Rightarrow> int \<Rightarrow> shell \<Rightarrow> bool \<times> shell" where
  "ScreenStrategy e [] search row w = (False, w)"
| "ScreenStrategy e (ev # evs) search row w0 =
     (let w = begin_frame e w0;
          found = filter (matches_search (ToUtf16 (install (shell_start e))) search) (app_catalog (shell_app w));
          r = clamp_row (length found) row in
      if resized ev then ScreenStrategy e evs search r w
      else case key ev of
             KEsc \<Rightarrow> (True, w)
           | KUp \<Rightarrow> ScreenStrategy e evs search (if 0 < r then r - 1 else r) w
           | KDown \<Rightarrow> ScreenStrategy e evs search (r + 1) w
           | KPageUp \<Rightarrow> ScreenStrategy e evs search (if r - 5 < 0 then 0 else r - 5) w
           | KPageDown \<Rightarrow> ScreenStrategy e evs search (r + 5) w
           | KBackspace \<Rightarrow> ScreenStrategy e evs (butlast search) 0 w
           | KEnter \<Rightarrow>
               if found = [] then ScreenStrategy e evs search r w
               else ChooseStrategy e (found ! nat r) w
           | KChar \<Rightarrow> ScreenStrategy e evs (search @ [ch ev]) 0 w
           | _ \<Rightarrow> ScreenStrategy e evs search r w)"

section \<open>The settings\<close>

fun next_mode :: "UpdateMode \<Rightarrow> UpdateMode" where
  "next_mode UpdateMode.Notify = UpdateMode.Download"
| "next_mode UpdateMode.Download = UpdateMode.Automatic"
| "next_mode UpdateMode.Automatic = UpdateMode.Disabled"
| "next_mode UpdateMode.Disabled = UpdateMode.Notify"

fun ScreenSettings :: "shell_env \<Rightarrow> KeyEvent list \<Rightarrow> shell \<Rightarrow> bool \<times> shell" where
  "ScreenSettings e [] w = (False, w)"
| "ScreenSettings e (ev # evs) w0 =
     (let w = begin_frame e w0; c = app_config (shell_app w); u = update_settings c in
      if key ev = KEsc then (True, w)
      else if key ev = KChar \<and> (ch ev = WC CHR ''m'' \<or> ch ev = WC CHR ''M'')
      then ScreenSettings e evs (snd (store_config e (c\<lparr>update_settings := u\<lparr>mode := next_mode (mode u)\<rparr>\<rparr>) w))
      else if key ev = KChar \<and> (ch ev = WC CHR ''c'' \<or> ch ev = WC CHR ''C'')
      then ScreenSettings e evs (snd (store_config e (c\<lparr>update_settings := u\<lparr>checkOnStart := \<not> checkOnStart u\<rparr>\<rparr>) w))
      else ScreenSettings e evs w)"

section \<open>Diagnostics\<close>

text \<open>The rows of the report, by their severity.\<close>

definition diagnostic_rows :: "machine_facts \<Rightarrow> bool \<Rightarrow> bool \<Rightarrow> bool \<Rightarrow> bool \<Rightarrow> nat \<Rightarrow> bool \<Rightarrow> Severity list" where
  "diagnostic_rows m dir extraction intact ours trusted state_read =
     (let good = (\<lambda>b. if b then SevOk else SevError) in
      [good (Is64BitWindows m \<and> IsWindows10OrGreater m), good (IsElevated m), good dir, good extraction, good intact, good (winws_present m),
       if ours then SevOk else SevInfo,
       if zapret_active m then SevWarn else SevOk,
       if filter (\<lambda>p. p \<noteq> trusted) (winws_pids m) \<noteq> [] then SevWarn else SevOk,
       SevWarn, SevInfo, SevInfo, SevInfo, SevInfo] @
      (if state_read then [SevInfo, SevInfo] else [SevError]) @ [SevInfo])"

definition ScreenDiagnostics :: "shell_env \<Rightarrow> shell \<Rightarrow> bool \<times> shell" where
  "ScreenDiagnostics e w =
     (let i = install (shell_start e); b = package (shell_start e); p = app_paths (shell_app w);
          (dir, h1) = EnsureDir (ensure i) (BinDir p) (shell_files w);
          (extraction, h2) = EnsureExtracted i b p h1;
          intact = fst (VerifyBinaries i b p h2);
          trusted = TrustedPidForExclusion (machine (shell_start e)) (session_procs (shell_session w))
                      (manager.current (app_manager (shell_app w))) (RuntimeRoot p);
          state_read = (case stored_state i h2 (ActiveRuntimePath p) of StateOk s \<Rightarrow> True | _ \<Rightarrow> False);
          rows = diagnostic_rows (facts e (shell_log w)) dir (extraction_ok extraction) intact (connected e w) trusted state_read;
          healthy = list_all (\<lambda>s. s \<noteq> SevError) rows;
          (saved, h3) = write_file i (DiagnosticsReportPath p) (report_text e rows healthy) h2 in
      (healthy \<and> saved, note_event (ReportStored saved) (put_files h3 w)))"

definition ScreenDiagnosticsExport :: "shell_env \<Rightarrow> shell \<Rightarrow> shell" where
  "ScreenDiagnosticsExport e w =
     (case confirm e AskExport w of
        (False, w1) \<Rightarrow> w1
      | (True, w1) \<Rightarrow> note_event (Exported (export_done e (shell_log w1))) w1)"

section \<open>Maintenance and updates\<close>

definition MenuCleanup :: "shell_env \<Rightarrow> shell \<Rightarrow> shell" where
  "MenuCleanup e w =
     (case confirm e AskCleanup w of
        (False, w1) \<Rightarrow> w1
      | (True, w1) \<Rightarrow>
          let prior = shell_gate w1 in
          if prior \<noteq> OpDisconnected \<and> prior \<noteq> OpConnected then w1
          else case TryTransition prior OpUpdating (shell_gate w1) of
                 (_, False) \<Rightarrow> w1
               | (busy, True) \<Rightarrow>
                   (case CleanupOldVersions (install (shell_start e)) (package (shell_start e)) (app_paths (shell_app w1))
                           (shell_files w1) of
                      (r, h) \<Rightarrow>
                        let w2 = put_files h (put_session (gate_to busy (shell_session w1)) w1) in
                        note_event (CleanedUp (cleanup_ok r))
                          (put_session (gate_to (Complete prior (shell_gate w2)) (shell_session w2)) w2)))"

definition updates_view :: "shell \<Rightarrow> updates_world" where
  "updates_view w =
     \<lparr>ui_log = [], ui_gate = shell_gate w, ui_config = app_config (shell_app w), ui_paths = app_paths (shell_app w),
      ui_catalog = app_catalog (shell_app w), ui_cache = shell_cache w, ui_disk = shell_disk w,
      ui_files = shell_files w\<rparr>"

text \<open>\<^verbatim>\<open>pm_\<close> is built anew after a package was applied or rolled back.\<close>

fun engine_replaced :: "ui_action \<Rightarrow> bool" where
  "engine_replaced (AppliedPackage a p st) = (st = Applied \<or> st = ApplyRolledBack)"
| "engine_replaced x = False"

definition manager_after :: "shell_env \<Rightarrow> updates_world \<Rightarrow> shell \<Rightarrow> manager \<times> proc_history" where
  "manager_after e u w =
     (case (if list_ex (\<lambda>x. case x of AppliedPackage a p st \<Rightarrow> True | _ \<Rightarrow> False) (ui_log u)
            then engine_after e u (app_manager (shell_app w)) (session_procs (shell_session w))
            else (app_manager (shell_app w), session_procs (shell_session w))) of
        (m, g) \<Rightarrow>
          if list_ex engine_replaced (ui_log u)
          then (case new_manager (shell_start e) (ui_paths u) \<lparr>boot_files = ui_files u, boot_procs = g\<rparr> of
                  (m', b) \<Rightarrow> (m', boot_procs b))
          else (m, g))"

definition MenuUpdates :: "shell_env \<Rightarrow> shell \<Rightarrow> shell" where
  "MenuUpdates e w =
     (let u = ScreenUpdates (shell_updates e (shell_log w)) (updates_view w) in
      case manager_after e u w of
        (m, g) \<Rightarrow>
          note_event (UpdateRun (ui_log u))
            (put_session
               \<lparr>session_app = \<lparr>app_paths = ui_paths u, app_config = ui_config u, app_catalog = ui_catalog u,
                               app_manager = m, app_gate = ui_gate u\<rparr>,
                session_files = ui_files u, session_procs = g, shown = shown (shell_session w)\<rparr>
               (w\<lparr>shell_cache := ui_cache u, shell_disk := ui_disk u\<rparr>)))"

section \<open>The menu\<close>

definition menu_items :: "shell_env \<Rightarrow> shell \<Rightarrow> MenuItem list" where
  "menu_items e w =
     (let c = connected e w in
      map (\<lambda>i. let (l, d) = caption e c (Config.gameFilter (app_config (shell_app w))) i in
               \<lparr>item_label = l, description = d, item_enabled = (i \<noteq> 1 \<or> c), hotkey = WC (''cxtgvudelsmaq'' ! i)\<rparr>)
        [0..<13])"

definition sub_screen :: "bool \<times> shell \<Rightarrow> bool option \<times> shell" where
  "sub_screen r = (if fst r then Some False else None, snd r)"

definition run_item :: "shell_env \<Rightarrow> int \<Rightarrow> shell \<Rightarrow> bool option \<times> shell" where
  "run_item e i w =
     (if i = 0 then MenuConnect e w
      else if i = 1 then (Some False, MenuDisconnect e w)
      else if i = 2 then sub_screen (ScreenStrategy e (sub_keys e (shell_log w)) [] 0 w)
      else if i = 3 then MenuGameFilter e w
      else if i = 5 then (Some False, MenuUpdates e w)
      else if i = 6 then (Some False, snd (ScreenDiagnostics e w))
      else if i = 7 then (Some False, ScreenDiagnosticsExport e w)
      else if i = 9 then sub_screen (ScreenSettings e (sub_keys e (shell_log w)) w)
      else if i = 10 then (Some False, MenuCleanup e w)
      else if i = 12 then (Some True, w)
      else (Some False, w))"

definition run_choice :: "shell_env \<Rightarrow> int \<Rightarrow> shell \<Rightarrow> bool option \<times> shell" where
  "run_choice e i w = run_item e i (note_event (Chose (nat i)) w)"

definition rebuild :: "shell_env \<Rightarrow> int \<Rightarrow> shell \<Rightarrow> Menu \<Rightarrow> Menu" where
  "rebuild e saved w m = SetSelected saved (SetItems (menu_items e w) m)"

fun menu_loop :: "shell_env \<Rightarrow> KeyEvent list \<Rightarrow> Menu \<Rightarrow> int \<Rightarrow> shell \<Rightarrow> bool \<times> shell" where
  "menu_loop e [] m saved w = (False, w)"
| "menu_loop e (ev # evs) m saved w0 =
     (let w = begin_frame e w0;
          carry = (\<lambda>i saved'. case run_choice e i w of
                     (None, w1) \<Rightarrow> (False, w1)
                   | (Some True, w1) \<Rightarrow> (True, w1)
                   | (Some False, w1) \<Rightarrow> menu_loop e evs (rebuild e saved' w1 m) saved' w1) in
      if resized ev then menu_loop e evs m saved w
      else case key ev of
             KUp \<Rightarrow> menu_loop e evs (MoveUp m) (sel (MoveUp m)) w
           | KDown \<Rightarrow> menu_loop e evs (MoveDown m) (sel (MoveDown m)) w
           | KEnter \<Rightarrow> carry (sel m) saved
           | KEsc \<Rightarrow> (True, w)
           | KChar \<Rightarrow> (let i = IndexForHotkey m (ch ev) in if 0 \<le> i then carry i i else menu_loop e evs m saved w)
           | _ \<Rightarrow> menu_loop e evs m saved w)"

definition ScreenMainMenu :: "shell_env \<Rightarrow> KeyEvent list \<Rightarrow> shell \<Rightarrow> bool \<times> shell" where
  "ScreenMainMenu e keys w = menu_loop e keys (rebuild e 0 w new_menu) 0 w"

section \<open>The run\<close>

definition leave_shell :: "shell_env \<Rightarrow> shell \<Rightarrow> shell" where
  "leave_shell e w =
     (if connected e w
      then (case confirm e AskLeave w of
              (yes, w1) \<Rightarrow>
                (case HandleExit (machine (shell_start e)) yes (shell_app w1) (session_procs (shell_session w1)) of
                   (a, g) \<Rightarrow>
                     note_event (if yes then LeftRunning
                                 else EngineStopped (stop_status (fst (StopManagedConnection (machine (shell_start e))
                                        (shell_app w1) (session_procs (shell_session w1))))))
                       (put_engine a g w1)))
      else w)"

text \<open>The exit code, or \<open>None\<close> when the keys end before.\<close>

definition App_Run :: "shell_env \<Rightarrow> bool \<Rightarrow> KeyEvent list \<Rightarrow> shell \<Rightarrow> nat option \<times> shell" where
  "App_Run e elevated_now keys w =
     (if \<not> elevated_now then (Some 2, w)
      else case connect_flow e w of
             (None, w1) \<Rightarrow> (None, w1)
           | (Some p, w1) \<Rightarrow>
               (case (if p = PostMenu then ScreenMainMenu e keys w1 else (True, w1)) of
                  (False, w2) \<Rightarrow> (None, w2)
                | (True, w2) \<Rightarrow> (Some 0, leave_shell e w2)))"

definition new_shell :: "app \<Rightarrow> boot \<Rightarrow> win_history \<Rightarrow> shell" where
  "new_shell a b d =
     \<lparr>shell_session = \<lparr>session_app = a, session_files = boot_files b, session_procs = boot_procs b, shown = []\<rparr>,
      shell_cache = empty_cache, shell_disk = d, shell_log = []\<rparr>"

text \<open>The constructor and the run, as \<^verbatim>\<open>wmain\<close> composes them.\<close>

definition run_application ::
  "shell_env \<Rightarrow> bool \<Rightarrow> KeyEvent list \<Rightarrow> win_history \<Rightarrow> boot \<Rightarrow> startup_error + (nat option \<times> shell)" where
  "run_application e elevated_now keys d b =
     (case StartApp (shell_start e) b of
        (Inl err, b1) \<Rightarrow> Inl err
      | (Inr a, b1) \<Rightarrow> Inr (App_Run e elevated_now keys (new_shell a b1 d)))"

section \<open>What a session may do\<close>

text \<open>The monitor: what may follow directly on the event before.\<close>

fun allowed :: "shell_event option \<Rightarrow> shell_event \<Rightarrow> bool" where
  "allowed before (EngineStopped st) =
     (before = Some (Chose 0) \<or> before = Some (Answered AskStop True) \<or> before = Some (Answered AskRestartFilter True) \<or>
      before = Some (Answered AskRestartStrategy True) \<or> before = Some (Answered AskLeave False))"
| "allowed before (FlowEnded p) =
     (case before of None \<Rightarrow> True | Some (Chose i) \<Rightarrow> i = 0 | Some (EngineStopped st) \<Rightarrow> stopped_safely st | _ \<Rightarrow> False)"
| "allowed before (CleanedUp ok) = (before = Some (Answered AskCleanup True))"
| "allowed before (Exported ok) = (before = Some (Answered AskExport True))"
| "allowed before (ReportStored ok) = (before = Some (Chose 6))"
| "allowed before (UpdateRun es) = (before = Some (Chose 5) \<and> consented False None False es)"
| "allowed before LeftRunning = (before = Some (Answered AskLeave True))"
| "allowed before (Chose i) = True"
| "allowed before (Answered q yes) = True"
| "allowed before (Stored c ok) = True"

fun orderly :: "shell_event option \<Rightarrow> shell_event list \<Rightarrow> bool" where
  "orderly before [] = True"
| "orderly before (x # xs) = (allowed before x \<and> orderly (Some x) xs)"

definition last_event :: "shell \<Rightarrow> shell_event option" where
  "last_event w = (if shell_log w = [] then None else Some (last (shell_log w)))"

definition shell_ok :: "shell \<Rightarrow> bool" where
  "shell_ok w \<longleftrightarrow> orderly None (shell_log w) \<and> resting (shell_gate w)"

lemma orderly_snoc:
  "orderly before (xs @ [x]) \<longleftrightarrow> orderly before xs \<and> allowed (if xs = [] then before else Some (last xs)) x"
  by (induction xs arbitrary: before) auto

named_theorems shell_simps

lemma last_note [shell_simps]: "last_event (note_event x w) = Some x"
  by (simp add: last_event_def note_event_def)

lemma note_ok [shell_simps]: "shell_ok (note_event x w) \<longleftrightarrow> shell_ok w \<and> allowed (last_event w) x"
  by (auto simp: shell_ok_def last_event_def note_event_def orderly_snoc shell_gate_def)

lemma put_session_ok [shell_simps]:
  "shell_ok (put_session x w) \<longleftrightarrow> orderly None (shell_log w) \<and> resting (gate_of x)"
  "last_event (put_session x w) = last_event w" "shell_gate (put_session x w) = gate_of x"
  by (simp_all add: shell_ok_def last_event_def put_session_def shell_gate_def)

lemma put_app_ok [shell_simps]:
  "shell_ok (put_app a w) \<longleftrightarrow> orderly None (shell_log w) \<and> resting (app_gate a)"
  "last_event (put_app a w) = last_event w" "shell_gate (put_app a w) = app_gate a"
  by (simp_all add: put_app_def put_session_ok gate_of_def)

lemma put_files_ok [shell_simps]:
  "shell_ok (put_files h w) = shell_ok w" "last_event (put_files h w) = last_event w" "shell_gate (put_files h w) = shell_gate w"
  by (simp_all add: put_files_def put_session_def gate_of_def shell_gate_def shell_ok_def last_event_def)

lemma put_engine_ok [shell_simps]:
  "shell_ok (put_engine a g w) \<longleftrightarrow> orderly None (shell_log w) \<and> resting (app_gate a)"
  "last_event (put_engine a g w) = last_event w"
  by (simp_all add: put_engine_def put_session_ok gate_of_def)

lemma shell_okD: "shell_ok w \<Longrightarrow> orderly None (shell_log w)" "shell_ok w \<Longrightarrow> resting (shell_gate w)"
  by (simp_all add: shell_ok_def)

lemma shell_gate_app: "shell_gate w = app_gate (shell_app w)"
  by (simp add: shell_gate_def gate_of_def shell_app_def)

lemma begin_frame_ok: "shell_ok w \<Longrightarrow> shell_ok (begin_frame e w)"
  by (simp add: begin_frame_def shell_simps shell_okD Observe_resting)

lemma confirm_ok [shell_simps]:
  "shell_ok w \<Longrightarrow> shell_ok (snd (confirm e q w))"
  "last_event (snd (confirm e q w)) = Some (Answered q (fst (confirm e q w)))"
  by (simp_all add: confirm_def Let_def last_note note_ok)

lemma stop_engine_ok [shell_simps]:
  "shell_ok w \<Longrightarrow> allowed (last_event w) (EngineStopped (fst (stop_engine_now e w))) \<Longrightarrow>
     shell_ok (snd (stop_engine_now e w))"
  "last_event (snd (stop_engine_now e w)) = Some (EngineStopped (fst (stop_engine_now e w)))"
  using StopManagedConnection_resting [where a = "shell_app w"]
  by (auto simp: stop_engine_now_def shell_simps shell_okD shell_gate_app [symmetric] split: prod.splits)

lemma connect_flow_ok [shell_simps]:
  "shell_ok w \<Longrightarrow> allowed (last_event w) (FlowEnded (fst (connect_flow e w))) \<Longrightarrow> shell_ok (snd (connect_flow e w))"
  using DoConnectFlow_resting [of "shell_session w"]
  by (auto simp: connect_flow_def shell_simps shell_okD split_beta shell_gate_def [symmetric])

lemma store_config_ok [shell_simps]: "shell_ok w \<Longrightarrow> shell_ok (snd (store_config e c w))"
  by (simp add: store_config_def shell_simps shell_okD shell_gate_app [symmetric] split_beta)

section \<open>The items keep to the monitor\<close>

lemmas shell_cases = split_beta bool.case_eq_if Let_def after_flow_def sub_screen_def

lemma MenuConnect_ok: "shell_ok w \<Longrightarrow> last_event w = Some (Chose 0) \<Longrightarrow> shell_ok (snd (MenuConnect e w))"
  by (simp add: MenuConnect_def shell_cases shell_simps)

lemma MenuDisconnect_ok: "shell_ok w \<Longrightarrow> shell_ok (MenuDisconnect e w)"
  by (simp add: MenuDisconnect_def shell_cases shell_simps)

lemma MenuGameFilter_ok: "shell_ok w \<Longrightarrow> shell_ok (snd (MenuGameFilter e w))"
  by (simp add: MenuGameFilter_def shell_cases shell_simps)

lemma ChooseStrategy_ok: "shell_ok w \<Longrightarrow> shell_ok (snd (ChooseStrategy e s w))"
  by (simp add: ChooseStrategy_def shell_cases shell_simps)

lemma ScreenStrategy_ok: "shell_ok w \<Longrightarrow> shell_ok (snd (ScreenStrategy e evs search row w))"
  by (induction evs arbitrary: search row w)
    (simp_all add: Let_def begin_frame_ok ChooseStrategy_ok split: Key.split)

lemma ScreenSettings_ok: "shell_ok w \<Longrightarrow> shell_ok (snd (ScreenSettings e evs w))"
  by (induction evs arbitrary: w) (simp_all add: Let_def begin_frame_ok store_config_ok)

lemma ScreenDiagnostics_ok: "shell_ok w \<Longrightarrow> last_event w = Some (Chose 6) \<Longrightarrow> shell_ok (snd (ScreenDiagnostics e w))"
  by (simp add: ScreenDiagnostics_def Let_def shell_simps split_beta)

lemma ScreenDiagnosticsExport_ok: "shell_ok w \<Longrightarrow> shell_ok (ScreenDiagnosticsExport e w)"
  by (simp add: ScreenDiagnosticsExport_def shell_cases shell_simps)

lemma MenuCleanup_ok: "shell_ok w \<Longrightarrow> shell_ok (MenuCleanup e w)"
proof -
  let ?w = "snd (confirm e AskCleanup w)"
  assume "shell_ok w"
  then have ok: "shell_ok ?w" by (simp add: shell_simps)
  have log: "shell_log (put_files h (put_session x ?w)) = shell_log ?w" for h x
    by (simp add: put_files_def put_session_def)
  show ?thesis using ok shell_okD [OF ok]
    by (simp add: MenuCleanup_def shell_cases TryTransition_def Complete_def shell_simps log)
qed

lemma ScreenUpdates_gate: "resting (ui_gate w) \<Longrightarrow> resting (ui_gate (ScreenUpdates e w))"
  using ScreenUpdates_run [of e w] by (auto split: if_splits)

lemma ScreenUpdates_consented: "ui_log w = [] \<Longrightarrow> consented False None False (ui_log (ScreenUpdates e w))"
  using ScreenUpdates_run [of e w] by auto

lemma MenuUpdates_ok:
  assumes "shell_ok w" "last_event w = Some (Chose 5)"
  shows "shell_ok (MenuUpdates e w)"
proof -
  let ?u = "ScreenUpdates (shell_updates e (shell_log w)) (updates_view w)"
  have view: "ui_log (updates_view w) = []" "resting (ui_gate (updates_view w))"
    using assms(1) by (simp_all add: updates_view_def shell_ok_def)
  have "shell_log (w\<lparr>shell_cache := c, shell_disk := d\<rparr>) = shell_log w"
      "last_event (w\<lparr>shell_cache := c, shell_disk := d\<rparr>) = last_event w" for c d
    by (simp_all add: last_event_def)
  then show ?thesis using assms shell_okD(1) [OF assms(1)] ScreenUpdates_gate [OF view(2)] ScreenUpdates_consented [OF view(1)]
    by (simp add: MenuUpdates_def Let_def split_beta shell_simps gate_of_def)
qed

lemma run_choice_ok:
  assumes "shell_ok w"
  shows "shell_ok (snd (run_choice e i w))"
proof -
  have run: "shell_ok (snd (run_item e i v))" if v: "shell_ok v" "last_event v = Some (Chose (nat i))" for v
    using v MenuConnect_ok [OF v(1)] MenuUpdates_ok [OF v(1)] ScreenDiagnostics_ok [OF v(1)]
    by (auto simp: run_item_def sub_screen_def MenuDisconnect_ok ScreenStrategy_ok MenuGameFilter_ok
        ScreenDiagnosticsExport_ok ScreenSettings_ok MenuCleanup_ok)
  show ?thesis unfolding run_choice_def by (rule run) (simp_all add: assms shell_simps)
qed

text \<open>
  Quitting from the connection screen ends the menu when the connection was started from the menu or the game
  filter, never when it was restarted from the strategies, whose screen drops the answer of the flow.
\<close>

lemma strategy_never_quits: "fst (run_item e 2 w) \<noteq> Some True"
    and menu_quits: "connect_flow e w = (Some PostQuit, w') \<Longrightarrow> \<not> connected e w \<Longrightarrow> run_item e 0 w = (Some True, w')"
  by (simp_all add: run_item_def sub_screen_def MenuConnect_def after_flow_def)

lemma menu_loop_ok: "shell_ok w \<Longrightarrow> shell_ok (snd (menu_loop e evs m saved w))"
proof (induction evs arbitrary: m saved w)
  case (Cons ev evs)
  have ok: "shell_ok (begin_frame e w)" using begin_frame_ok [OF Cons.prems] .
  have carried: "shell_ok (snd (case run_choice e i (begin_frame e w) of (None, w1) \<Rightarrow> (False, w1) | (Some True, w1) \<Rightarrow> (True, w1)
      | (Some False, w1) \<Rightarrow> menu_loop e evs (rebuild e s w1 m) s w1))" for i s
    using run_choice_ok [OF ok, of e i] Cons.IH by (auto split: prod.split option.split bool.split)
  show ?case using Cons.IH [OF ok] ok by (simp add: Let_def carried split: Key.split)
qed simp

lemma leave_shell_ok: "shell_ok w \<Longrightarrow> shell_ok (leave_shell e w)"
proof -
  let ?w = "snd (confirm e AskLeave w)"
  assume "shell_ok w"
  then have ok: "shell_ok ?w" by (simp add: shell_simps)
  have "resting (app_gate (fst (HandleExit (machine (shell_start e)) yes (shell_app ?w) (session_procs (shell_session ?w)))))" for yes
    using shell_okD(2) [OF ok] StopManagedConnection_resting [where a = "shell_app ?w"]
    by (auto simp: HandleExit_def shell_gate_app split: prod.splits)
  then show ?thesis using \<open>shell_ok w\<close> shell_okD(1) [OF ok]
    by (simp add: leave_shell_def shell_cases shell_simps)
qed

lemma ScreenMainMenu_ok: "ScreenMainMenu e keys w = (r, w') \<Longrightarrow> shell_ok w \<Longrightarrow> shell_ok w'"
  using menu_loop_ok unfolding ScreenMainMenu_def by (metis snd_conv)

lemma App_Run_ok:
  assumes "shell_ok w" "last_event w = None"
  shows "shell_ok (snd (App_Run e elevated_now keys w)) \<and>
    (if elevated_now then fst (App_Run e elevated_now keys w) \<in> {None, Some 0} else App_Run e elevated_now keys w = (Some 2, w))"
  using connect_flow_ok [OF assms(1), of e] assms
  by (auto simp: App_Run_def leave_shell_ok split: prod.splits option.splits bool.splits if_splits dest: ScreenMainMenu_ok)

lemma StartApp_gate: "StartApp e b = (Inr a, b') \<Longrightarrow> resting (app_gate a)"
  by (auto simp: StartApp_def AttachManager_def Complete_def resting_def Let_def
      split: if_splits prod.splits option.splits sum.splits)


end
