(* ===== verification/Spec2Isabelle.thy ===== *)
theory Spec2Isabelle
  imports CommandLine Config RuntimeStateStore UpdateManifest UpdatePackage Strategies ProgressModel
    OperationState RuntimeActivation SecureWrite HttpClient RuntimePaths UpdateManager PayloadApply
    ProcessRecord ProcessManager RuntimeInventory ResourceExtractor Launcher Startup UpdateCheckService
    ZipArchive Redaction FrameBuffer Widgets WidgetsDraw ScreenUpdates ScreenConnect LogFile EntryPoint
    DiagnosticsBundle SystemProbe Effects UiInput ScreenMenu
begin

text \<open>
  A verification development for CHEBURNET (\<^verbatim>\<open>src/src\<close>, C++20 for Windows), an elevated launcher that
  installs, updates and supervises the network engine \<^verbatim>\<open>winws.exe\<close>.

  \<^bold>\<open>The program and how its parts interact.\<close> \<^verbatim>\<open>main\<close> prepares the protected tree below \<^verbatim>\<open>ProgramData\<close>
  and constructs \<^verbatim>\<open>App\<close>, whose constructor recovers from an interrupted update or a damaged runtime, loads
  the configuration and attaches to an engine that is still running. Connecting runs the twenty
  checkpoints of \<^verbatim>\<open>Launcher::Connect\<close>: extraction and verification by \<^verbatim>\<open>ResourceExtractor\<close>, the command line
  by \<^verbatim>\<open>Strategies\<close> and \<^verbatim>\<open>CommandLine\<close>, and the start transaction of \<^verbatim>\<open>ProcessManager\<close>. Updating goes from
  the signed manifest (\<^verbatim>\<open>WinHttpClient\<close>, \<^verbatim>\<open>SignatureVerifier\<close>, \<^verbatim>\<open>UpdateManifest\<close>, \<^verbatim>\<open>Version\<close>) over the staged
  package (\<^verbatim>\<open>UpdatePackage\<close>) to the activation of the new runtime (\<^verbatim>\<open>RuntimeActivation\<close>,
  \<^verbatim>\<open>RuntimeStateStore\<close>), all in \<^verbatim>\<open>UpdateManager\<close>. Every file the program trusts is written and checked
  through \<^verbatim>\<open>SecureFs\<close>. Threads meet in three places: the gate of operations, the progress model and the
  background update check.

  \<^bold>\<open>Theories, in the order of their imports.\<close>
  \<^item> \<open>Prelude\<close>: strings and wide strings, \<^verbatim>\<open>from_chars\<close>, \<^verbatim>\<open>to_string\<close>; the locales \<open>codec\<close>, \<open>key_order\<close>,
    \<open>inductive_invariant\<close>.
  \<^item> \<open>StringUtil\<close>, \<open>CommandLine\<close>, \<open>FileRead\<close>: \<^verbatim>\<open>util/StringUtil.cpp\<close>, \<^verbatim>\<open>util/CommandLine.cpp\<close> and the two read
    loops of the program.
  \<^item> \<open>Version\<close>: \<^verbatim>\<open>update/Version.cpp\<close>; grammar, comparison as the comparison of a key, and the cycle that
    numbers above 64 bits make possible.
  \<^item> \<open>Json\<close>, \<open>Json_Text\<close>, \<open>Json_Grammar\<close>: \<^verbatim>\<open>util/Json.cpp\<close>; the parser with its limits, its strings, and
    its equivalence with the grammar. The mutual recursion runs on fuel \<open>2 * length + 2\<close>; \<open>Run_never_JFuel\<close>
    proves that it suffices for every input.
  \<^item> \<open>Config\<close>, \<open>RuntimeStateStore\<close>, \<open>Strategies\<close>: \<^verbatim>\<open>config/Config.cpp\<close>, \<^verbatim>\<open>update/RuntimeStateStore.cpp\<close>,
    \<^verbatim>\<open>config/Strategies.cpp\<close>; serialisers inverted by their parsers, invariants of what loads, expansion of
    the templates.
  \<^item> \<open>UpdateManifest\<close>, \<open>PathPolicy\<close>, \<open>FsTrace\<close>, \<open>UpdatePackage\<close>: \<^verbatim>\<open>update/UpdateManifest.cpp\<close> and
    \<^verbatim>\<open>update/UpdatePackage.cpp\<close>; strict parsing, confined paths, exact accounting of the bytes of a package,
    extraction that writes verified entries or nothing. \<open>FsTrace\<close> is the file system as the components above
    \<^verbatim>\<open>SecureFs\<close> see it.
  \<^item> \<open>ProgressModel\<close>, \<open>OperationState\<close>: \<^verbatim>\<open>config/ProgressModel.cpp\<close>, \<^verbatim>\<open>app/OperationState.h\<close>; atomic
    operations of several threads as step relations, with invariants and a refinement of an abstract lock.
  \<^item> \<open>RuntimeActivation\<close>: \<^verbatim>\<open>update/RuntimeActivation.cpp\<close>; the transaction of a switch and its rollback.
  \<^item> \<open>SecureFs\<close>, \<open>SecureWrite\<close>: \<^verbatim>\<open>core/SecureFs.cpp\<close> over a record of Win32 answers; the exact access
    policy, confinement of creation and removal, the atomic write.
  \<^item> \<open>HttpClient\<close>, \<open>RuntimePaths\<close>: \<^verbatim>\<open>update/WinHttpClient.cpp\<close>, \<^verbatim>\<open>core/RuntimePaths.cpp\<close>.
  \<^item> \<open>UpdateManager\<close>, \<open>PayloadApply\<close>: \<^verbatim>\<open>update/UpdateManager.cpp\<close> and \<^verbatim>\<open>update/SignatureVerifier.cpp\<close>; the
    authenticity of what is cached, offered, downloaded and applied, and that never two engines run.
  \<^item> \<open>ProcessRecord\<close>, \<open>ProcessManager\<close>: \<^verbatim>\<open>core/ProcessManager.cpp\<close>; the record of the engine, the start
    transaction, the verified stop. A small automaton of the process and its job gives the calls of the
    model their meaning.
  \<^item> \<open>RuntimeInventory\<close>, \<open>ResourceExtractor\<close>: \<^verbatim>\<open>core/ResourceExtractor.cpp\<close>; the bounded worklist against a
    recursive specification, extraction, verification, cleanup.
  \<^item> \<open>Launcher\<close>, \<open>Startup\<close>: \<^verbatim>\<open>core/Launcher.cpp\<close>, \<^verbatim>\<open>app/App.cpp\<close>, \<^verbatim>\<open>app/RuntimeRecovery.cpp\<close>; the compositions.
  \<^item> \<open>UpdateCheckService\<close>: \<^verbatim>\<open>update/UpdateCheckService.cpp\<close>; two threads interleaved at the mutex and at \<^verbatim>\<open>join\<close>,
    delivery at most once, and progress under weak fairness (locale \<open>wf1\<close>).
  \<^item> \<open>FrameBuffer\<close>, \<open>Widgets\<close>, \<open>WidgetsDraw\<close>: \<^verbatim>\<open>ui/FrameBuffer.cpp\<close>, \<^verbatim>\<open>ui/Theme.cpp\<close>, \<^verbatim>\<open>ui/Widgets.cpp\<close>,
    \<^verbatim>\<open>ui/Mascot.cpp\<close>; drawing against an unbounded picture that is clipped, the screen equal to the buffer
    after every partial update, selections that stay on selectable rows, widgets inside their rectangles.
  \<^item> \<open>UiEvent\<close>, \<open>ScreenConnect\<close>, \<open>ScreenUpdates\<close>: \<^verbatim>\<open>ui/UiEvent.h\<close> and the flows of \<^verbatim>\<open>app/UiScreens.cpp\<close>
    that drive \<^verbatim>\<open>Launcher\<close> and \<^verbatim>\<open>UpdateManager\<close>: what is displayed against what happened, and that nothing
    is downloaded or applied without the confirmations of the user.
  \<^item> \<open>LogFile\<close>, \<open>EntryPoint\<close>: \<^verbatim>\<open>util/Logger.cpp\<close> with the log screen that reads its lines back, and
    \<^verbatim>\<open>main.cpp\<close>, which composes the guards, the bootstrap, the log and \<^verbatim>\<open>App\<close>.
  \<^item> \<open>ZipArchive\<close>, \<open>Redaction\<close>: \<^verbatim>\<open>app/Diagnostics.cpp\<close>; the exported archive against a reader of the format
    and a bit-serial CRC, and what the redaction leaves of a text.

  \<^item> \<open>DiagnosticsBundle\<close>: \<^verbatim>\<open>BuildBundle\<close> of \<^verbatim>\<open>app/Diagnostics.cpp\<close>; its summary, written by appending text, is
    accepted by the parser of \<open>Json\<close> and says what was collected.
  \<^item> \<open>UiInput\<close>, \<open>ScreenMenu\<close>: \<^verbatim>\<open>ui/Input.cpp\<close>, the command centre and its screens (\<^verbatim>\<open>app/UiScreens.cpp\<close>) and
    \<^verbatim>\<open>App::Run\<close>, composed from the components above over a list of keys; a monitor on the log of a session says
    which stops, starts, removals and exports the user consented to.
  \<^item> \<open>SystemProbe\<close>, \<open>Effects\<close>: \<^verbatim>\<open>core/IntegrityVerifier.cpp\<close>, \<^verbatim>\<open>core/StatusProbe.cpp\<close>,
    \<^verbatim>\<open>core/PrivilegeManager.cpp\<close>, \<^verbatim>\<open>util/Win32Error.cpp\<close>; \<^verbatim>\<open>ui/Effects.cpp\<close>, \<^verbatim>\<open>ui/AnimationClock.h\<close>,
    \<^verbatim>\<open>ui/Rng.cpp\<close>, \<^verbatim>\<open>ui/Watchdog.cpp\<close>; what the wrappers make of the answers of Windows, and the bounds of the
    effects.

  \<^bold>\<open>Conventions.\<close> A struct is a record, an enum a datatype, an early return or an exception a value of an
  option, a sum or a status. Texts of messages and log lines are left out unless the code compares them.
  What the operating system, WinHTTP, BCrypt or a generated table answers is a parameter: a record of
  functions, usually on the history of the state-changing calls made so far, so that an answer may depend
  on everything done before; theorems hold for every such record. Loops are structural or have a measure.
  Bounds are those of the code: 1024 entries of an inventory, 256 files of a package, 64 kilobytes or one
  megabyte of a metadata file, 8 kilobytes of a record, the redirects and bytes of a request.

  \<^bold>\<open>Not modelled.\<close> The splash, boot and about screens, the drawing and the captions of the other screens,
  \<^verbatim>\<open>console/Animation\<close>, \<^verbatim>\<open>console/ConsoleRenderer\<close> and \<^verbatim>\<open>ui/UiContext\<close> write to the console with the widgets
  and the buffer that are modelled, and change no state of the program. The collection of the system facts of a
  bundle and its preview for the user are single Win32 calls and a fixed text. \<^verbatim>\<open>RelaunchElevated\<close> is one call of
  \<^verbatim>\<open>ShellExecuteExW\<close>, and the asynchronous plumbing of \<^verbatim>\<open>AsyncRequest\<close> is represented by the answers it
  produces. The process manager and record that \<^verbatim>\<open>ApplyPayload\<close> leaves behind are a parameter of \<open>ScreenMenu\<close>
  (\<open>engine_after\<close>), since \<open>PayloadApply\<close> sees the engine through its own calls; \<^verbatim>\<open>App::Run\<close> is a parameter of
  \<open>EntryPoint\<close> and is itself modelled in \<open>ScreenMenu\<close>.
\<close>

end
